(* ===== verification/Prelude.thy ===== *)
theory Prelude
  imports Main "HOL-Library.Word" "HOL-Library.Monad_Syntax"
begin

text \<open>
  What the components share: the C integer types, the conversions between them, the
  values of a C execution that is not defined, and lemmas on bytes and bit operations.

  Conventions of the whole development.
  \<^item> \<open>unsigned char\<close>, \<open>unsigned\<close> and \<open>opus_uint32\<close> are words of their width, so that
    the wrap-around of unsigned arithmetic is the one of the type.
  \<^item> Signed integers are values of \<open>int\<close>; a conversion to a narrower signed type is
    written out (\<open>s8\<close>, \<open>s16\<close>, \<open>s32\<close>).
  \<^item> Sizes and offsets into a buffer are \<open>nat\<close>.
  \<^item> Where the C code may loop for ever, divide by zero or read outside an array, the
    result is an \<open>option\<close>, and \<open>None\<close> is that outcome.
\<close>

unbundle bit_operations_syntax

type_synonym byte = "8 word"
type_synonym u32 = "32 word"

section \<open>Conversions between C integer types\<close>

text \<open>Two's complement conversions to the signed types of the code.\<close>

definition s8 :: "int \<Rightarrow> int" where
  "s8 x = (x + 2 ^ 7) mod 2 ^ 8 - 2 ^ 7"

definition s16 :: "int \<Rightarrow> int" where
  "s16 x = (x + 2 ^ 15) mod 2 ^ 16 - 2 ^ 15"

definition s32 :: "int \<Rightarrow> int" where
  "s32 x = (x + 2 ^ 31) mod 2 ^ 32 - 2 ^ 31"

text \<open>C division, which rounds towards zero.\<close>

definition cdiv :: "int \<Rightarrow> int \<Rightarrow> int" where
  "cdiv a b = sgn a * sgn b * (\<bar>a\<bar> div \<bar>b\<bar>)"

lemma s8_id: "- 128 \<le> x \<Longrightarrow> x < 128 \<Longrightarrow> s8 x = x"
  by (simp add: s8_def)

lemma s16_id: "- 32768 \<le> x \<Longrightarrow> x < 32768 \<Longrightarrow> s16 x = x"
  by (simp add: s16_def)

lemma s32_id: "- 2147483648 \<le> x \<Longrightarrow> x < 2147483648 \<Longrightarrow> s32 x = x"
  by (simp add: s32_def)

lemma s16_bounds: "- 32768 \<le> s16 x" "s16 x < 32768"
  by (simp_all add: s16_def)

lemma s32_bounds: "- 2147483648 \<le> s32 x" "s32 x < 2147483648"
  by (simp_all add: s32_def)

lemma cdiv_nonneg: "0 \<le> a \<Longrightarrow> 0 < b \<Longrightarrow> cdiv a b = a div b"
  by (cases "a = 0") (simp_all add: cdiv_def)

section \<open>Words read as integers\<close>

named_theorems word_arith \<open>integer values of word operations that do not wrap around\<close>

lemma uint_add_nowrap [word_arith]:
  fixes x y :: "'a::len word"
  shows "uint x + uint y < 2 ^ LENGTH('a) \<Longrightarrow> uint (x + y) = uint x + uint y"
  by (simp add: uint_add_lem)

lemma uint_sub_nowrap [word_arith]:
  fixes x y :: "'a::len word"
  shows "uint y \<le> uint x \<Longrightarrow> uint (x - y) = uint x - uint y"
  by (simp add: uint_sub_lem)

lemma uint_mult_nowrap [word_arith]:
  fixes x y :: "'a::len word"
  shows "uint x * uint y < 2 ^ LENGTH('a) \<Longrightarrow> uint (x * y) = uint x * uint y"
  by (simp add: uint_mult_lem)

lemma uint_drop_bit: "uint (drop_bit n (x :: 'a::len word)) = uint x div 2 ^ n"
  by (simp add: unsigned_drop_bit_eq take_bit_int_eq_self flip: drop_bit_eq_div)

lemma uint_push_bit:
  fixes x :: "'a::len word"
  shows "uint (push_bit n x) = (uint x * 2 ^ n) mod 2 ^ LENGTH('a)"
  by (simp add: unsigned_push_bit_eq flip: push_bit_eq_mult take_bit_eq_mod)

lemma uint_lt32: "uint (x :: u32) < 4294967296"
  using uint_lt2p [of x] by simp

lemma uint_lt8: "uint (x :: byte) < 256"
  using uint_lt2p [of x] by simp

text \<open>Masks of the low bits.\<close>

lemma and_255: "(c :: int) AND 255 = c mod 256"
  using take_bit_eq_mask [of 8 c] by (simp add: take_bit_eq_mod mask_eq_exp_minus_1)

lemma uint_byte_of_int: "0 \<le> c \<Longrightarrow> c < 256 \<Longrightarrow> uint (of_int c :: byte) = c"
  by (simp add: uint_word_of_int)

lemma uint_byte_255: "uint (255 :: byte) = 255"
  by simp

lemma int_div_less:
  fixes a b c :: int
  assumes "0 < b"
  shows "a div b < c \<longleftrightarrow> a < c * b"
proof
  have b: "0 \<le> a mod b" "a mod b < b" using assms by simp_all
  {
    assume "a div b < c"
    then have "a div b + 1 \<le> c" by simp
    then have "(a div b + 1) * b \<le> c * b" using assms by (intro mult_right_mono) simp_all
    then have "a div b * b + b \<le> c * b" by (simp only: distrib_right mult_1)
    then show "a < c * b" using div_mult_mod_eq [of a b] b by linarith
  next
    assume "a < c * b"
    then have "a div b * b < c * b" using div_mult_mod_eq [of a b] b by linarith
    then show "a div b < c" using assms by simp
  }
qed

lemma int_le_div:
  fixes a b c :: int
  assumes "0 < b"
  shows "c \<le> a div b \<longleftrightarrow> c * b \<le> a"
  using int_div_less [OF assms, of a c] by linarith

section \<open>Byte strings as numbers\<close>

text \<open>
  The value of a byte string with the most significant byte first (the order in which
  the range coder writes), and with the least significant byte first (the order of the
  raw bits, read from the end of the buffer).
\<close>

primrec be_value :: "int \<Rightarrow> byte list \<Rightarrow> int" where
  "be_value a [] = a"
| "be_value a (b # bs) = be_value (256 * a + uint b) bs"

primrec le_value :: "byte list \<Rightarrow> int" where
  "le_value [] = 0"
| "le_value (b # bs) = uint b + 256 * le_value bs"

lemma be_value_append [simp]: "be_value a (xs @ ys) = be_value (be_value a xs) ys"
  by (induction xs arbitrary: a) simp_all

lemma be_value_shift: "be_value (a + c) xs = be_value a xs + c * 256 ^ length xs"
proof (induction xs arbitrary: a c)
  case (Cons b bs)
  have "be_value (a + c) (b # bs) = be_value ((256 * a + uint b) + 256 * c) bs"
    by (simp add: algebra_simps)
  also have "\<dots> = be_value (256 * a + uint b) bs + 256 * c * 256 ^ length bs"
    by (rule Cons.IH)
  finally show ?case by simp
qed simp

lemma be_value_ge0: "0 \<le> a \<Longrightarrow> 0 \<le> be_value a xs"
  by (induction xs arbitrary: a) simp_all

lemma be_value_less: "be_value 0 xs < 256 ^ length xs"
proof (induction xs rule: rev_induct)
  case (snoc x xs)
  then show ?case using uint_lt8 [of x] by simp
qed simp

lemma le_value_ge0: "0 \<le> le_value xs"
  by (induction xs) simp_all

lemma le_value_less: "le_value xs < 256 ^ length xs"
proof (induction xs)
  case (Cons x xs)
  then show ?case using uint_lt8 [of x] by simp
qed simp

lemma le_value_append: "le_value (xs @ ys) = le_value xs + 256 ^ length xs * le_value ys"
  by (induction xs) (simp_all add: algebra_simps)

end
