(* ===== verification/Range_Coder.thy ===== *)
theory Range_Coder
  imports Prelude
begin

text \<open>
  The entropy coder of libopus: the shared context \<open>ec_ctx\<close> (celt/entcode.h), the range
  encoder (entenc.c) and the range decoder (entdec.c), with the constants of
  celt/mfrngcod.h. Definitions only, and the facts that follow by unfolding them; what
  the coder guarantees is proved in the theory Range_Coder_Correct.

  A coding step normalizes the range in a loop that does not end when the range is
  empty, and divides by numbers the caller supplies: the steps return an \<open>option\<close>.
\<close>

section \<open>The context (celt/entcode.h, celt/mfrngcod.h)\<close>

definition EC_WINDOW_SIZE :: int where "EC_WINDOW_SIZE = 32"
definition EC_UINT_BITS :: int where "EC_UINT_BITS = 8"
definition BITRES :: nat where "BITRES = 3"
definition EC_SYM_BITS :: nat where "EC_SYM_BITS = 8"
definition EC_CODE_BITS :: nat where "EC_CODE_BITS = 32"
definition EC_SYM_MAX :: int where "EC_SYM_MAX = 2 ^ EC_SYM_BITS - 1"
definition EC_CODE_SHIFT :: nat where "EC_CODE_SHIFT = EC_CODE_BITS - EC_SYM_BITS - 1"
definition EC_CODE_TOP :: u32 where "EC_CODE_TOP = push_bit (EC_CODE_BITS - 1) 1"
definition EC_CODE_BOT :: u32 where "EC_CODE_BOT = drop_bit EC_SYM_BITS EC_CODE_TOP"
definition EC_CODE_EXTRA :: nat where "EC_CODE_EXTRA = (EC_CODE_BITS - 2) mod EC_SYM_BITS + 1"

lemmas ec_consts =
  EC_WINDOW_SIZE_def EC_UINT_BITS_def BITRES_def EC_SYM_BITS_def EC_CODE_BITS_def

lemma ec_const_values:
  "EC_SYM_MAX = 255" "EC_CODE_SHIFT = 23" "EC_CODE_TOP = 2147483648"
  "EC_CODE_BOT = 8388608" "EC_CODE_EXTRA = 7"
  by (simp_all add: ec_consts EC_SYM_MAX_def EC_CODE_SHIFT_def EC_CODE_TOP_def
      EC_CODE_BOT_def EC_CODE_EXTRA_def)

record ec_ctx =
  ec_buf :: "byte list"
  ec_storage :: nat
  ec_end_offs :: nat
  ec_end_window :: u32
  ec_nend_bits :: int
  ec_nbits_total :: int
  ec_offs :: nat
  ec_rng :: u32
  ec_val :: u32
  ec_ext :: u32
  ec_rem :: int
  ec_error :: int

text \<open>\<open>EC_ILOG\<close>: the portable \<open>ec_ilog\<close> of entcode.c.\<close>

definition ec_ilog :: "u32 \<Rightarrow> int" where
  "ec_ilog v0 =
    (let ret = of_bool (v0 \<noteq> 0);
         m = (if v0 AND 0xFFFF0000 \<noteq> 0 then 16 else 0);
         v = drop_bit m v0; ret = ret OR int m;
         m = (if v AND 0xFF00 \<noteq> 0 then 8 else 0);
         v = drop_bit m v; ret = ret OR int m;
         m = (if v AND 0xF0 \<noteq> 0 then 4 else 0);
         v = drop_bit m v; ret = ret OR int m;
         m = (if v AND 0xC \<noteq> 0 then 2 else 0);
         v = drop_bit m v; ret = ret OR int m
     in ret + of_bool (v AND 2 \<noteq> 0))"

definition ec_range_bytes :: "ec_ctx \<Rightarrow> nat" where
  "ec_range_bytes this = ec_offs this"

definition ec_get_error :: "ec_ctx \<Rightarrow> int" where
  "ec_get_error this = ec_error this"

definition ec_tell :: "ec_ctx \<Rightarrow> int" where
  "ec_tell this = ec_nbits_total this - ec_ilog (ec_rng this)"

definition tell_correction :: "u32 list" where
  "tell_correction = [35733, 38967, 42495, 46340, 50535, 55109, 60097, 65535]"

definition ec_tell_frac :: "ec_ctx \<Rightarrow> u32" where
  "ec_tell_frac this =
    (let nbits = push_bit BITRES (of_int (ec_nbits_total this));
         l = ec_ilog (ec_rng this);
         r = drop_bit (nat (l - 16)) (ec_rng this);
         b = drop_bit 12 r - 8;
         b = b + of_bool (r > tell_correction ! unat b);
         l = of_int (l * 8) + b
     in nbits - l)"

text \<open>The reference version of \<open>ec_tell_frac\<close> in the \<open>#else\<close> branch of entcode.c.\<close>

fun tell_frac_loop :: "nat \<Rightarrow> u32 \<Rightarrow> u32 \<Rightarrow> u32" where
  "tell_frac_loop 0 r l = l"
| "tell_frac_loop (Suc i) r l =
    (let r = drop_bit 15 (r * r);
         b = drop_bit 16 r;
         l = push_bit 1 l OR b;
         r = drop_bit (unat b) r
     in tell_frac_loop i r l)"

definition ec_tell_frac_ref :: "ec_ctx \<Rightarrow> u32" where
  "ec_tell_frac_ref this =
    (let nbits = push_bit BITRES (of_int (ec_nbits_total this));
         l = ec_ilog (ec_rng this);
         r = drop_bit (nat (l - 16)) (ec_rng this)
     in nbits - tell_frac_loop BITRES r (of_int l))"

definition celt_udiv :: "u32 \<Rightarrow> u32 \<Rightarrow> u32 option" where
  "celt_udiv n d = (if d = 0 then None else Some (n div d))"

text \<open>The branch-free minimum \<open>EC_MINI\<close> of celt/ecintrin.h, on unsigned operands.\<close>

definition EC_MINI :: "u32 \<Rightarrow> u32 \<Rightarrow> u32" where
  "EC_MINI a b = a + ((b - a) AND (- of_bool (b < a)))"

lemma EC_MINI_min: "EC_MINI a b = min a b"
  by (auto simp: EC_MINI_def min_def not_le)

section \<open>The range encoder (entenc.c)\<close>

text \<open>Both writers return the new context and the code \<open>0\<close> or \<open>-1\<close>.\<close>

definition ec_write_byte :: "ec_ctx \<Rightarrow> byte \<Rightarrow> ec_ctx \<times> int" where
  "ec_write_byte this v =
    (if ec_offs this + ec_end_offs this \<ge> ec_storage this then (this, -1)
     else (this\<lparr>ec_buf := (ec_buf this)[ec_offs this := v],
                ec_offs := ec_offs this + 1\<rparr>, 0))"

definition ec_write_byte_at_end :: "ec_ctx \<Rightarrow> byte \<Rightarrow> ec_ctx \<times> int" where
  "ec_write_byte_at_end this v =
    (if ec_offs this + ec_end_offs this \<ge> ec_storage this then (this, -1)
     else (this\<lparr>ec_buf := (ec_buf this)[ec_storage this - (ec_end_offs this + 1) := v],
                ec_end_offs := ec_end_offs this + 1\<rparr>, 0))"

text \<open>The statement \<open>_this->error|=\<close> applied to the result of a writer.\<close>

definition or_error :: "ec_ctx \<times> int \<Rightarrow> ec_ctx" where
  "or_error p = (fst p)\<lparr>ec_error := ec_error (fst p) OR snd p\<rparr>"

text \<open>The loop over the \<open>ext\<close> buffered symbols (entered with \<open>ext > 0\<close>).\<close>

fun ec_write_ext :: "nat \<Rightarrow> byte \<Rightarrow> ec_ctx \<Rightarrow> ec_ctx" where
  "ec_write_ext 0 b this = this"
| "ec_write_ext (Suc n) b this =
    (let this = or_error (ec_write_byte this b)
     in ec_write_ext n b (this\<lparr>ec_ext := ec_ext this - 1\<rparr>))"

definition ec_enc_carry_out :: "ec_ctx \<Rightarrow> int \<Rightarrow> ec_ctx" where
  "ec_enc_carry_out this c =
    (if c \<noteq> EC_SYM_MAX then
       let carry = drop_bit EC_SYM_BITS c;
           this = (if ec_rem this \<ge> 0
                   then or_error (ec_write_byte this (of_int (ec_rem this + carry)))
                   else this);
           this = ec_write_ext (unat (ec_ext this))
                    (of_int ((EC_SYM_MAX + carry) AND EC_SYM_MAX)) this
       in this\<lparr>ec_rem := c AND EC_SYM_MAX\<rparr>
     else this\<lparr>ec_ext := ec_ext this + 1\<rparr>)"

text \<open>One iteration of the loop of \<open>ec_enc_normalize\<close>, and the loop.\<close>

definition ec_enc_norm_step :: "ec_ctx \<Rightarrow> ec_ctx" where
  "ec_enc_norm_step this =
    (let this = ec_enc_carry_out this (uint (drop_bit EC_CODE_SHIFT (ec_val this)))
     in this\<lparr>ec_val := push_bit EC_SYM_BITS (ec_val this) AND (EC_CODE_TOP - 1),
             ec_rng := push_bit EC_SYM_BITS (ec_rng this),
             ec_nbits_total := ec_nbits_total this + int EC_SYM_BITS\<rparr>)"

partial_function (option) ec_enc_normalize :: "ec_ctx \<Rightarrow> ec_ctx option" where
  "ec_enc_normalize this =
    (if ec_rng this \<le> EC_CODE_BOT then ec_enc_normalize (ec_enc_norm_step this)
     else Some this)"

declare ec_enc_normalize.simps [code]

definition ec_enc_init :: "byte list \<Rightarrow> nat \<Rightarrow> ec_ctx" where
  "ec_enc_init buf sz =
    \<lparr>ec_buf = buf, ec_storage = sz, ec_end_offs = 0, ec_end_window = 0, ec_nend_bits = 0,
     ec_nbits_total = int EC_CODE_BITS + 1, ec_offs = 0, ec_rng = EC_CODE_TOP, ec_val = 0,
     ec_ext = 0, ec_rem = -1, ec_error = 0\<rparr>"

definition ec_encode :: "u32 \<Rightarrow> u32 \<Rightarrow> u32 \<Rightarrow> ec_ctx \<Rightarrow> ec_ctx option" where
  "ec_encode fl fh ft this = do {
     r \<leftarrow> celt_udiv (ec_rng this) ft;
     ec_enc_normalize
       (if fl > 0
        then this\<lparr>ec_val := ec_val this + (ec_rng this - r * (ft - fl)), ec_rng := r * (fh - fl)\<rparr>
        else this\<lparr>ec_rng := ec_rng this - r * (ft - fh)\<rparr>)
   }"

definition ec_encode_bin :: "u32 \<Rightarrow> u32 \<Rightarrow> nat \<Rightarrow> ec_ctx \<Rightarrow> ec_ctx option" where
  "ec_encode_bin fl fh bits this =
    (let r = drop_bit bits (ec_rng this)
     in ec_enc_normalize
       (if fl > 0
        then this\<lparr>ec_val := ec_val this + (ec_rng this - r * (push_bit bits 1 - fl)),
                  ec_rng := r * (fh - fl)\<rparr>
        else this\<lparr>ec_rng := ec_rng this - r * (push_bit bits 1 - fh)\<rparr>))"

definition ec_enc_bit_logp :: "bool \<Rightarrow> nat \<Rightarrow> ec_ctx \<Rightarrow> ec_ctx option" where
  "ec_enc_bit_logp v logp this =
    (let r = ec_rng this; l = ec_val this; s = drop_bit logp r; r = r - s;
         this = (if v then this\<lparr>ec_val := l + r\<rparr> else this)
     in ec_enc_normalize (this\<lparr>ec_rng := (if v then s else r)\<rparr>))"

text \<open>
  \<open>ec_enc_icdf\<close> and \<open>ec_enc_icdf16\<close> differ in the type of the table entries only; the
  model has one function over the values of the entries. Reading past the table is \<open>None\<close>.
\<close>

definition ec_enc_icdf :: "nat \<Rightarrow> u32 list \<Rightarrow> nat \<Rightarrow> ec_ctx \<Rightarrow> ec_ctx option" where
  "ec_enc_icdf s icdf ftb this =
    (if s \<ge> length icdf then None
     else let r = drop_bit ftb (ec_rng this)
          in ec_enc_normalize
            (if s > 0
             then this\<lparr>ec_val := ec_val this + (ec_rng this - r * icdf ! (s - 1)),
                       ec_rng := r * (icdf ! (s - 1) - icdf ! s)\<rparr>
             else this\<lparr>ec_rng := ec_rng this - r * icdf ! s\<rparr>))"

definition ec_enc_icdf16 :: "nat \<Rightarrow> u32 list \<Rightarrow> nat \<Rightarrow> ec_ctx \<Rightarrow> ec_ctx option" where
  "ec_enc_icdf16 s icdf ftb this = ec_enc_icdf s icdf ftb this"

text \<open>The loop of \<open>ec_enc_bits\<close> that empties the window, run while \<open>used >= 8\<close>.\<close>

function ec_flush_window :: "u32 \<Rightarrow> int \<Rightarrow> ec_ctx \<Rightarrow> u32 \<times> int \<times> ec_ctx" where
  "ec_flush_window window used this =
    (if used \<ge> int EC_SYM_BITS then
       ec_flush_window (drop_bit EC_SYM_BITS window) (used - int EC_SYM_BITS)
         (or_error (ec_write_byte_at_end this (of_int (uint window AND EC_SYM_MAX))))
     else (window, used, this))"
  by pat_completeness auto
termination
  by (relation "measure (\<lambda>(w, used, e). nat used)") (simp_all add: ec_consts)

declare ec_flush_window.simps [simp del]

text \<open>
  In \<open>ec_enc_bits\<close> the loop is a \<open>do ... while\<close>: its body runs once before \<open>used\<close> is
  tested.
\<close>

definition ec_enc_bits :: "u32 \<Rightarrow> nat \<Rightarrow> ec_ctx \<Rightarrow> ec_ctx" where
  "ec_enc_bits fl bits this =
    (let window = ec_end_window this;
         used = ec_nend_bits this;
         (window, used, this) =
           (if used + int bits > EC_WINDOW_SIZE
            then ec_flush_window (drop_bit EC_SYM_BITS window) (used - int EC_SYM_BITS)
                   (or_error (ec_write_byte_at_end this (of_int (uint window AND EC_SYM_MAX))))
            else (window, used, this));
         window = window OR push_bit (nat used) fl;
         used = used + int bits
     in this\<lparr>ec_end_window := window, ec_nend_bits := used,
             ec_nbits_total := ec_nbits_total this + int bits\<rparr>)"

definition ec_enc_uint :: "u32 \<Rightarrow> u32 \<Rightarrow> ec_ctx \<Rightarrow> ec_ctx option" where
  "ec_enc_uint fl ft0 this =
    (let ft1 = ft0 - 1; ftb = ec_ilog ft1
     in if ftb > EC_UINT_BITS then
          let ftb = nat (ftb - EC_UINT_BITS);
              ft = drop_bit ftb ft1 + 1;
              fl' = drop_bit ftb fl
          in do {
            this \<leftarrow> ec_encode fl' (fl' + 1) ft this;
            Some (ec_enc_bits (fl AND (push_bit ftb 1 - 1)) ftb this)
          }
        else ec_encode fl (fl + 1) (ft1 + 1) this)"

definition ec_enc_patch_initial_bits :: "u32 \<Rightarrow> nat \<Rightarrow> ec_ctx \<Rightarrow> ec_ctx" where
  "ec_enc_patch_initial_bits v nbits this =
    (let shift = EC_SYM_BITS - nbits;
         mask = push_bit shift (push_bit nbits 1 - 1) :: u32
     in if ec_offs this > 0 then
          this\<lparr>ec_buf := (ec_buf this)
             [0 := of_int (uint (ucast (ec_buf this ! 0) AND NOT mask OR push_bit shift v))]\<rparr>
        else if ec_rem this \<ge> 0 then
          this\<lparr>ec_rem := sint (of_int (ec_rem this) AND NOT mask OR push_bit shift v)\<rparr>
        else if ec_rng this \<le> drop_bit nbits EC_CODE_TOP then
          this\<lparr>ec_val := ec_val this AND NOT (push_bit EC_CODE_SHIFT mask)
                 OR push_bit (EC_CODE_SHIFT + shift) v\<rparr>
        else this\<lparr>ec_error := -1\<rparr>)"

text \<open>
  \<open>ec_buf\<close> stands for the \<open>storage\<close> bytes that the context owns: after a shrink, called
  with \<open>offs + end_offs <= sz <= storage\<close>, these are the first \<open>sz\<close> bytes.
\<close>

definition ec_enc_shrink :: "nat \<Rightarrow> ec_ctx \<Rightarrow> ec_ctx" where
  "ec_enc_shrink sz this =
    (let moved = drop (ec_storage this - ec_end_offs this) (take (ec_storage this) (ec_buf this))
     in this\<lparr>ec_buf := take (sz - ec_end_offs this) (ec_buf this) @ moved, ec_storage := sz\<rparr>)"

text \<open>The parts of \<open>ec_enc_done\<close>: the choice of the final value, its output, the raw bits.\<close>

definition ec_done_end :: "ec_ctx \<Rightarrow> int \<times> u32" where
  "ec_done_end this =
    (let l = int EC_CODE_BITS - ec_ilog (ec_rng this);
         msk = drop_bit (nat l) (EC_CODE_TOP - 1);
         end = (ec_val this + msk) AND NOT msk
     in if (end OR msk) \<ge> ec_val this + ec_rng this then
          let l = l + 1; msk = drop_bit 1 msk; end = (ec_val this + msk) AND NOT msk
          in (l, end)
        else (l, end))"

function ec_done_out :: "int \<Rightarrow> u32 \<Rightarrow> ec_ctx \<Rightarrow> int \<times> ec_ctx" where
  "ec_done_out l end this =
    (if l > 0 then
       ec_done_out (l - int EC_SYM_BITS) (push_bit EC_SYM_BITS end AND (EC_CODE_TOP - 1))
         (ec_enc_carry_out this (uint (drop_bit EC_CODE_SHIFT end)))
     else (l, this))"
  by pat_completeness auto
termination
  by (relation "measure (\<lambda>(l, end, e). nat l)") (simp_all add: ec_consts)

declare ec_done_out.simps [simp del]

definition ec_clear_unused :: "ec_ctx \<Rightarrow> ec_ctx" where
  "ec_clear_unused this =
    this\<lparr>ec_buf := take (ec_offs this) (ec_buf this)
                    @ replicate (ec_storage this - ec_offs this - ec_end_offs this) 0
                    @ drop (ec_storage this - ec_end_offs this) (ec_buf this)\<rparr>"

definition ec_done_bits :: "int \<Rightarrow> u32 \<Rightarrow> int \<Rightarrow> ec_ctx \<Rightarrow> ec_ctx" where
  "ec_done_bits l window used this =
    (if ec_error this = 0 then
       let this = ec_clear_unused this
       in if used > 0 then
            if ec_end_offs this \<ge> ec_storage this then this\<lparr>ec_error := -1\<rparr>
            else
              let l = - l;
                  busted = ec_offs this + ec_end_offs this \<ge> ec_storage this \<and> l < used;
                  window = (if busted then window AND (push_bit (nat l) 1 - 1) else window);
                  this = (if busted then this\<lparr>ec_error := -1\<rparr> else this);
                  i = ec_storage this - ec_end_offs this - 1
              in this\<lparr>ec_buf := (ec_buf this)[i := ec_buf this ! i OR ucast window]\<rparr>
          else this
     else this)"

definition ec_enc_done :: "ec_ctx \<Rightarrow> ec_ctx" where
  "ec_enc_done this =
    (let (l, end) = ec_done_end this;
         (l, this) = ec_done_out l end this;
         this = (if ec_rem this \<ge> 0 \<or> ec_ext this > 0 then ec_enc_carry_out this 0 else this);
         (window, used, this) =
           ec_flush_window (ec_end_window this) (ec_nend_bits this) this
     in ec_done_bits l window used this)"

section \<open>The range decoder (entdec.c)\<close>

text \<open>The readers return the value read (0 past the end) and the new context.\<close>

definition ec_read_byte :: "ec_ctx \<Rightarrow> int \<times> ec_ctx" where
  "ec_read_byte this =
    (if ec_offs this < ec_storage this
     then (uint (ec_buf this ! ec_offs this), this\<lparr>ec_offs := ec_offs this + 1\<rparr>)
     else (0, this))"

definition ec_read_byte_from_end :: "ec_ctx \<Rightarrow> int \<times> ec_ctx" where
  "ec_read_byte_from_end this =
    (if ec_end_offs this < ec_storage this
     then (uint (ec_buf this ! (ec_storage this - (ec_end_offs this + 1))),
           this\<lparr>ec_end_offs := ec_end_offs this + 1\<rparr>)
     else (0, this))"

definition ec_dec_norm_step :: "ec_ctx \<Rightarrow> ec_ctx" where
  "ec_dec_norm_step this =
    (let this = this\<lparr>ec_nbits_total := ec_nbits_total this + int EC_SYM_BITS,
                     ec_rng := push_bit EC_SYM_BITS (ec_rng this)\<rparr>;
         sy = ec_rem this;
         (b, this) = ec_read_byte this;
         sy = drop_bit (EC_SYM_BITS - EC_CODE_EXTRA) (push_bit EC_SYM_BITS sy OR b)
     in this\<lparr>ec_rem := b,
             ec_val := (push_bit EC_SYM_BITS (ec_val this) + of_int (EC_SYM_MAX AND NOT sy))
                         AND (EC_CODE_TOP - 1)\<rparr>)"

partial_function (option) ec_dec_normalize :: "ec_ctx \<Rightarrow> ec_ctx option" where
  "ec_dec_normalize this =
    (if ec_rng this \<le> EC_CODE_BOT then ec_dec_normalize (ec_dec_norm_step this)
     else Some this)"

declare ec_dec_normalize.simps [code]

definition ec_dec_init :: "byte list \<Rightarrow> nat \<Rightarrow> ec_ctx option" where
  "ec_dec_init buf storage =
    (let this =
      \<lparr>ec_buf = buf, ec_storage = storage, ec_end_offs = 0, ec_end_window = 0, ec_nend_bits = 0,
       ec_nbits_total = int EC_CODE_BITS + 1
         - int ((EC_CODE_BITS - EC_CODE_EXTRA) div EC_SYM_BITS * EC_SYM_BITS),
       ec_offs = 0, ec_rng = push_bit EC_CODE_EXTRA 1, ec_val = 0, ec_ext = 0, ec_rem = 0,
       ec_error = 0\<rparr>;
         (b, this) = ec_read_byte this
     in ec_dec_normalize
          (this\<lparr>ec_rem := b,
                ec_val := ec_rng this - 1 - of_int (drop_bit (EC_SYM_BITS - EC_CODE_EXTRA) b)\<rparr>))"

definition ec_decode :: "u32 \<Rightarrow> ec_ctx \<Rightarrow> (u32 \<times> ec_ctx) option" where
  "ec_decode ft this = do {
     e \<leftarrow> celt_udiv (ec_rng this) ft;
     s \<leftarrow> celt_udiv (ec_val this) e;
     Some (ft - EC_MINI (s + 1) ft, this\<lparr>ec_ext := e\<rparr>)
   }"

definition ec_decode_bin :: "nat \<Rightarrow> ec_ctx \<Rightarrow> (u32 \<times> ec_ctx) option" where
  "ec_decode_bin bits this = do {
     let e = drop_bit bits (ec_rng this);
     s \<leftarrow> celt_udiv (ec_val this) e;
     Some (push_bit bits 1 - EC_MINI (s + 1) (push_bit bits 1), this\<lparr>ec_ext := e\<rparr>)
   }"

definition ec_dec_update :: "u32 \<Rightarrow> u32 \<Rightarrow> u32 \<Rightarrow> ec_ctx \<Rightarrow> ec_ctx option" where
  "ec_dec_update fl fh ft this =
    (let s = ec_ext this * (ft - fh)
     in ec_dec_normalize
          (this\<lparr>ec_val := ec_val this - s,
                ec_rng := (if fl > 0 then ec_ext this * (fh - fl) else ec_rng this - s)\<rparr>))"

definition ec_dec_bit_logp :: "nat \<Rightarrow> ec_ctx \<Rightarrow> (bool \<times> ec_ctx) option" where
  "ec_dec_bit_logp logp this =
    (let r = ec_rng this; d = ec_val this; s = drop_bit logp r; ret = d < s;
         this = (if \<not> ret then this\<lparr>ec_val := d - s\<rparr> else this)
     in do {
       this \<leftarrow> ec_dec_normalize (this\<lparr>ec_rng := (if ret then s else r - s)\<rparr>);
       Some (ret, this)
     })"

text \<open>The search loop of \<open>ec_dec_icdf\<close>: \<open>None\<close> when it runs past the table.\<close>

fun icdf_search :: "u32 \<Rightarrow> u32 \<Rightarrow> u32 \<Rightarrow> nat \<Rightarrow> u32 list \<Rightarrow> (nat \<times> u32 \<times> u32) option" where
  "icdf_search r d s ret [] = None"
| "icdf_search r d s ret (x # xs) =
    (let t = s; s = r * x
     in if d < s then icdf_search r d s (ret + 1) xs else Some (ret, s, t))"

definition ec_dec_icdf :: "u32 list \<Rightarrow> nat \<Rightarrow> ec_ctx \<Rightarrow> (nat \<times> ec_ctx) option" where
  "ec_dec_icdf icdf ftb this =
    (let s = ec_rng this; d = ec_val this; r = drop_bit ftb s
     in do {
       (ret, s, t) \<leftarrow> icdf_search r d s 0 icdf;
       this \<leftarrow> ec_dec_normalize (this\<lparr>ec_val := d - s, ec_rng := t - s\<rparr>);
       Some (ret, this)
     })"

definition ec_dec_icdf16 :: "u32 list \<Rightarrow> nat \<Rightarrow> ec_ctx \<Rightarrow> (nat \<times> ec_ctx) option" where
  "ec_dec_icdf16 icdf ftb this = ec_dec_icdf icdf ftb this"

text \<open>The refill loop of \<open>ec_dec_bits\<close>, a \<open>do ... while (available <= 24)\<close>.\<close>

definition ec_refill_step :: "u32 \<times> int \<times> ec_ctx \<Rightarrow> u32 \<times> int \<times> ec_ctx" where
  "ec_refill_step p =
    (let (window, available, this) = p; (b, this) = ec_read_byte_from_end this
     in (window OR push_bit (nat available) (of_int b), available + int EC_SYM_BITS, this))"

function ec_refill :: "u32 \<Rightarrow> int \<Rightarrow> ec_ctx \<Rightarrow> u32 \<times> int \<times> ec_ctx" where
  "ec_refill window available this =
    (if available \<le> EC_WINDOW_SIZE - int EC_SYM_BITS then
       let (b, this') = ec_read_byte_from_end this
       in ec_refill (window OR push_bit (nat available) (of_int b)) (available + int EC_SYM_BITS) this'
     else (window, available, this))"
  by pat_completeness auto
termination
  by (relation "measure (\<lambda>(w, available, e). nat (33 - available))") (simp_all add: ec_consts)

declare ec_refill.simps [simp del]

definition ec_dec_bits :: "nat \<Rightarrow> ec_ctx \<Rightarrow> u32 \<times> ec_ctx" where
  "ec_dec_bits bits this =
    (let window = ec_end_window this;
         available = ec_nend_bits this;
         (window, available, this) =
           (if available < int bits then
              let (window, available, this) = ec_refill_step (window, available, this)
              in ec_refill window available this
            else (window, available, this));
         ret = window AND (push_bit bits 1 - 1);
         window = drop_bit bits window;
         available = available - int bits
     in (ret, this\<lparr>ec_end_window := window, ec_nend_bits := available,
                    ec_nbits_total := ec_nbits_total this + int bits\<rparr>))"

definition ec_dec_uint :: "u32 \<Rightarrow> ec_ctx \<Rightarrow> (u32 \<times> ec_ctx) option" where
  "ec_dec_uint ft0 this =
    (let ft1 = ft0 - 1; ftb = ec_ilog ft1
     in if ftb > EC_UINT_BITS then
          let ftb = nat (ftb - EC_UINT_BITS); ft = drop_bit ftb ft1 + 1
          in do {
            (s, this) \<leftarrow> ec_decode ft this;
            this \<leftarrow> ec_dec_update s (s + 1) ft this;
            let (low, this) = ec_dec_bits ftb this;
            let t = push_bit ftb s OR low;
            if t \<le> ft1 then Some (t, this) else Some (ft1, this\<lparr>ec_error := 1\<rparr>)
          }
        else do {
          (s, this) \<leftarrow> ec_decode (ft1 + 1) this;
          this \<leftarrow> ec_dec_update s (s + 1) (ft1 + 1) this;
          Some (s, this)
        })"

end
