(* ===== verification/Range_Coder_Correct.thy ===== *)
theory Range_Coder_Correct
  imports Range_Coder
begin

text \<open>
  What the range coder guarantees. The encoder is read as a pair of an exact number
  \<open>enc_low\<close> (all bytes produced so far, pending carries included, followed by the value
  register) and the range; a byte string is a codeword of the state when its prefix lies
  in that interval and its raw bits agree (\<open>hits\<close>). The decoder of such a string is in a
  simulation relation (\<open>sync\<close>) with the encoder that produced it.
\<close>

section \<open>The encoder state read as an interval\<close>

definition enc_out :: "ec_ctx \<Rightarrow> byte list" where
  "enc_out e = take (ec_offs e) (ec_buf e)"

definition enc_tail :: "ec_ctx \<Rightarrow> byte list" where
  "enc_tail e = drop (ec_storage e - ec_end_offs e) (ec_buf e)"

definition enc_bytes :: "ec_ctx \<Rightarrow> byte list" where
  "enc_bytes e = enc_out e @ (if ec_rem e \<ge> 0 then [of_int (ec_rem e)] else [])
     @ replicate (unat (ec_ext e)) 255"

definition enc_low :: "ec_ctx \<Rightarrow> int" where
  "enc_low e = be_value 0 (enc_bytes e) * 2 ^ 31 + uint (ec_val e)"

definition enc_nraw :: "ec_ctx \<Rightarrow> nat" where
  "enc_nraw e = 8 * ec_end_offs e + nat (ec_nend_bits e)"

definition enc_raw :: "ec_ctx \<Rightarrow> int" where
  "enc_raw e = le_value (rev (enc_tail e)) + 256 ^ ec_end_offs e * uint (ec_end_window e)"

text \<open>The shape of the buffer: the two ends of the output never overlap.\<close>

definition enc_shape :: "ec_ctx \<Rightarrow> bool" where
  "enc_shape e \<longleftrightarrow> length (ec_buf e) = ec_storage e \<and> ec_offs e + ec_end_offs e \<le> ec_storage e"

subsection \<open>Writers\<close>

lemma or_error_simps [simp]:
  "ec_buf (or_error p) = ec_buf (fst p)" "ec_storage (or_error p) = ec_storage (fst p)"
  "ec_end_offs (or_error p) = ec_end_offs (fst p)"
  "ec_end_window (or_error p) = ec_end_window (fst p)"
  "ec_nend_bits (or_error p) = ec_nend_bits (fst p)"
  "ec_nbits_total (or_error p) = ec_nbits_total (fst p)"
  "ec_offs (or_error p) = ec_offs (fst p)" "ec_rng (or_error p) = ec_rng (fst p)"
  "ec_val (or_error p) = ec_val (fst p)" "ec_ext (or_error p) = ec_ext (fst p)"
  "ec_rem (or_error p) = ec_rem (fst p)"
  "ec_error (or_error p) = 0 \<longleftrightarrow> ec_error (fst p) = 0 \<and> snd p = 0"
  by (simp_all add: or_error_def or_eq_0_iff)

lemma write_byte_frame [simp]:
  "ec_storage (fst (ec_write_byte e v)) = ec_storage e"
  "ec_end_offs (fst (ec_write_byte e v)) = ec_end_offs e"
  "ec_end_window (fst (ec_write_byte e v)) = ec_end_window e"
  "ec_nend_bits (fst (ec_write_byte e v)) = ec_nend_bits e"
  "ec_nbits_total (fst (ec_write_byte e v)) = ec_nbits_total e"
  "ec_rng (fst (ec_write_byte e v)) = ec_rng e" "ec_val (fst (ec_write_byte e v)) = ec_val e"
  "ec_ext (fst (ec_write_byte e v)) = ec_ext e" "ec_rem (fst (ec_write_byte e v)) = ec_rem e"
  "ec_error (fst (ec_write_byte e v)) = ec_error e"
  by (simp_all add: ec_write_byte_def)

lemma write_byte_shape: "enc_shape e \<Longrightarrow> enc_shape (or_error (ec_write_byte e v))"
  by (auto simp: enc_shape_def ec_write_byte_def)

lemma write_byte_ok:
  assumes "enc_shape e" and "snd (ec_write_byte e v) = 0"
  shows "enc_out (fst (ec_write_byte e v)) = enc_out e @ [v]"
    and "enc_tail (fst (ec_write_byte e v)) = enc_tail e"
  using assms
  by (auto simp: enc_shape_def ec_write_byte_def enc_out_def enc_tail_def take_Suc_conv_app_nth
      split: if_splits)

lemma write_ext_frame [simp]:
  "ec_storage (ec_write_ext n b e) = ec_storage e"
  "ec_end_offs (ec_write_ext n b e) = ec_end_offs e"
  "ec_end_window (ec_write_ext n b e) = ec_end_window e"
  "ec_nend_bits (ec_write_ext n b e) = ec_nend_bits e"
  "ec_nbits_total (ec_write_ext n b e) = ec_nbits_total e"
  "ec_rng (ec_write_ext n b e) = ec_rng e" "ec_val (ec_write_ext n b e) = ec_val e"
  "ec_rem (ec_write_ext n b e) = ec_rem e"
  by (induction n b e rule: ec_write_ext.induct) (simp_all add: Let_def)

lemma write_ext_shape: "enc_shape e \<Longrightarrow> enc_shape (ec_write_ext n b e)"
proof (induction n b e rule: ec_write_ext.induct)
  case (2 n b e)
  have "enc_shape ((or_error (ec_write_byte e b))\<lparr>ec_ext := ec_ext e - 1\<rparr>)"
    using write_byte_shape [OF 2(2), of b] by (simp add: enc_shape_def)
  then show ?case using 2(1) by (simp add: Let_def)
qed simp

lemma write_ext_error: "ec_error (ec_write_ext n b e) = 0 \<Longrightarrow> ec_error e = 0"
  by (induction n b e rule: ec_write_ext.induct) (auto simp: Let_def)

lemma write_ext_ext: "ec_ext (ec_write_ext n b e) = ec_ext e - of_nat n"
  by (induction n b e rule: ec_write_ext.induct) (simp_all add: Let_def)

lemma write_ext_ok:
  "enc_shape e \<Longrightarrow> ec_error (ec_write_ext n b e) = 0 \<Longrightarrow>
   enc_out (ec_write_ext n b e) = enc_out e @ replicate n b \<and>
   enc_tail (ec_write_ext n b e) = enc_tail e"
proof (induction n b e rule: ec_write_ext.induct)
  case (2 n b e)
  let ?e = "(or_error (ec_write_byte e b))\<lparr>ec_ext := ec_ext e - 1\<rparr>"
  have sh: "enc_shape ?e" using write_byte_shape [OF 2(2), of b] by (simp add: enc_shape_def)
  have er: "ec_error (ec_write_ext n b ?e) = 0" using 2(3) by (simp add: Let_def)
  then have "snd (ec_write_byte e b) = 0" using write_ext_error by fastforce
  note w = write_byte_ok [OF 2(2) this]
  have "enc_out ?e = enc_out e @ [b]" "enc_tail ?e = enc_tail e"
    using w by (simp_all add: enc_out_def enc_tail_def)
  with 2(1) [OF refl] sh er show ?case
    by (simp add: Let_def replicate_app_Cons_same)
qed simp

subsection \<open>Output of one symbol with its carry\<close>

lemma be_value_ones: "be_value a (replicate n 255) = (a + 1) * 256 ^ n - 1"
proof (induction n arbitrary: a)
  case (Suc n)
  show ?case by (simp only: replicate_Suc be_value.simps uint_byte_255 Suc.IH) (simp add: algebra_simps)
qed simp

lemma be_value_zeros: "be_value a (replicate n 0) = a * 256 ^ n"
  by (induction n arbitrary: a) (simp_all add: algebra_simps)

lemma carry_out_frame [simp]:
  "ec_storage (ec_enc_carry_out e c) = ec_storage e"
  "ec_end_offs (ec_enc_carry_out e c) = ec_end_offs e"
  "ec_end_window (ec_enc_carry_out e c) = ec_end_window e"
  "ec_nend_bits (ec_enc_carry_out e c) = ec_nend_bits e"
  "ec_nbits_total (ec_enc_carry_out e c) = ec_nbits_total e"
  "ec_rng (ec_enc_carry_out e c) = ec_rng e" "ec_val (ec_enc_carry_out e c) = ec_val e"
  by (simp_all add: ec_enc_carry_out_def Let_def)

lemma carry_out_shape: "enc_shape e \<Longrightarrow> enc_shape (ec_enc_carry_out e c)"
proof -
  assume sh: "enc_shape e"
  let ?e1 = "if ec_rem e \<ge> 0 then or_error (ec_write_byte e (of_int (ec_rem e + drop_bit 8 c))) else e"
  have "enc_shape ?e1" using sh write_byte_shape by simp
  from write_ext_shape [OF this]
  show ?thesis using sh by (auto simp: ec_enc_carry_out_def Let_def ec_consts enc_shape_def)
qed

lemma carry_out_error: "ec_error (ec_enc_carry_out e c) = 0 \<Longrightarrow> ec_error e = 0"
  by (auto simp: ec_enc_carry_out_def Let_def split: if_splits dest!: write_ext_error)

lemma carry_out_rem:
  "0 \<le> c \<Longrightarrow> ec_rem (ec_enc_carry_out e c) = (if c = 255 then ec_rem e else c mod 256)"
proof -
  show ?thesis by (simp add: ec_enc_carry_out_def Let_def ec_const_values and_255)
qed

lemma carry_out_ok:
  assumes sh: "enc_shape e" and er: "ec_error (ec_enc_carry_out e c) = 0"
    and c: "0 \<le> c" "c < 512" and rem: "-1 \<le> ec_rem e" "ec_rem e < 256"
    and carry: "256 \<le> c \<Longrightarrow> ec_rem e \<noteq> -1 \<and> ec_rem e \<noteq> 255"
    and ext: "unat (ec_ext e) < 2 ^ 32 - 1"
  shows "be_value 0 (enc_bytes (ec_enc_carry_out e c)) = 256 * be_value 0 (enc_bytes e) + c
    \<and> length (enc_bytes (ec_enc_carry_out e c)) = Suc (length (enc_bytes e))
    \<and> enc_tail (ec_enc_carry_out e c) = enc_tail e"
proof (cases "c = 255")
  case True
  have "unat (ec_ext e + 1) = Suc (unat (ec_ext e))"
    using ext by (simp add: unat_word_ariths)
  then have "enc_bytes (ec_enc_carry_out e c) = enc_bytes e @ [255]"
    using True by (simp add: ec_enc_carry_out_def ec_const_values enc_bytes_def enc_out_def
        replicate_append_same)
  then show ?thesis using True by (simp add: ec_enc_carry_out_def ec_const_values enc_tail_def)
next
  case False
  define k where "k = drop_bit 8 c"
  have k: "k = c div 256" by (simp add: k_def drop_bit_eq_div)
  have "0 \<le> k" "k < 2" using c by (simp_all add: k pos_imp_zdiv_nonneg_iff int_div_less)
  then have k01: "k = 0 \<or> k = 1" by linarith
  define n where "n = unat (ec_ext e)"
  define f :: byte where "f = of_int ((255 + k) AND 255)"
  have f: "f = (if k = 0 then 255 else 0)" using k01 by (auto simp: f_def)
  define e1 where "e1 = (if ec_rem e \<ge> 0 then or_error (ec_write_byte e (of_int (ec_rem e + k))) else e)"
  have co: "ec_enc_carry_out e c = (ec_write_ext n f e1)\<lparr>ec_rem := c AND 255\<rparr>"
    using False by (simp add: ec_enc_carry_out_def Let_def ec_const_values ec_consts k_def e1_def n_def f_def)
  have er1: "ec_error (ec_write_ext n f e1) = 0" using er co by simp
  then have "ec_error e1 = 0" by (rule write_ext_error)
  have sh1: "enc_shape e1" using sh write_byte_shape by (simp add: e1_def)
  have out1: "enc_out e1 = enc_out e @ (if ec_rem e \<ge> 0 then [of_int (ec_rem e + k)] else [])"
    and tail1: "enc_tail e1 = enc_tail e"
    using \<open>ec_error e1 = 0\<close> write_byte_ok [OF sh, of "of_int (ec_rem e + k)"]
    by (auto simp: e1_def enc_out_def enc_tail_def)
  have out2: "enc_out (ec_write_ext n f e1) = enc_out e1 @ replicate n f"
    and tail2: "enc_tail (ec_write_ext n f e1) = enc_tail e"
    using write_ext_ok [OF sh1 er1] tail1 by simp_all
  have ext0: "ec_ext (ec_write_ext n f e1) = 0"
    by (simp add: write_ext_ext e1_def n_def)
  have ucm: "uint (of_int (c mod 256) :: byte) = c mod 256"
    by (simp add: uint_word_of_int)
  have bytes: "enc_bytes (ec_enc_carry_out e c)
      = enc_out e @ (if ec_rem e \<ge> 0 then [of_int (ec_rem e + k)] else []) @ replicate n f
        @ [of_int (c mod 256)]"
    using out1 out2 ext0 by (simp add: co enc_bytes_def and_255 enc_out_def)
  have len: "length (enc_bytes (ec_enc_carry_out e c)) = Suc (length (enc_bytes e))"
    by (simp add: bytes) (simp add: enc_bytes_def n_def)
  have tl: "enc_tail (ec_enc_carry_out e c) = enc_tail e"
    using tail2 by (simp add: co enc_tail_def)
  have val: "be_value 0 (enc_bytes (ec_enc_carry_out e c)) = 256 * be_value 0 (enc_bytes e) + c"
  proof (cases "k = 0")
    case True
    then have "be_value 0 (enc_bytes (ec_enc_carry_out e c)) = 256 * be_value 0 (enc_bytes e) + c mod 256"
      unfolding bytes using f ucm by (simp add: enc_bytes_def n_def)
    then show ?thesis using True k div_mult_mod_eq [of c 256] by simp
  next
    case F: False
    then have k1: "k = 1" using k01 by simp
    then have r: "0 \<le> ec_rem e" "ec_rem e < 255" using carry rem k c by force+
    have u1: "uint (of_int (ec_rem e + 1) :: byte) = ec_rem e + 1"
      and u0: "uint (of_int (ec_rem e) :: byte) = ec_rem e"
      using r by (simp_all only: uint_byte_of_int)
    have "be_value 0 (enc_bytes (ec_enc_carry_out e c))
        = 256 * (be_value 0 (enc_bytes e) + 1) + c mod 256"
      unfolding bytes using f r k1 ucm u1 u0
      by (simp add: enc_bytes_def n_def be_value_zeros be_value_ones algebra_simps)
    then show ?thesis using k1 k div_mult_mod_eq [of c 256] by simp
  qed
  show ?thesis using val len tl by simp
qed

section \<open>The encoder invariant\<close>

text \<open>
  An encoder is \<open>enc_good\<close> while no writer failed and the bit counter, an \<open>int\<close> of the
  code, did not overflow. \<open>enc_mid\<close> holds at every point of a coding step, also before
  the range is normalized; the clause on \<open>rem\<close> is what keeps a carry from running past
  the first byte or past a buffered byte that is already 255.
\<close>

definition enc_good :: "ec_ctx \<Rightarrow> bool" where
  "enc_good e \<longleftrightarrow> ec_error e = 0 \<and> ec_nbits_total e < 2 ^ 31"

definition enc_mid :: "ec_ctx \<Rightarrow> bool" where
  "enc_mid e \<longleftrightarrow> enc_shape e \<and> -1 \<le> ec_rem e \<and> ec_rem e < 256
     \<and> 0 < uint (ec_rng e) \<and> uint (ec_rng e) \<le> 2 ^ 31
     \<and> uint (ec_val e) + uint (ec_rng e) < 2 ^ 32
     \<and> (ec_rem e = -1 \<or> ec_rem e = 255 \<longrightarrow> uint (ec_val e) + uint (ec_rng e) \<le> 2 ^ 31)
     \<and> 0 \<le> ec_nend_bits e \<and> ec_nend_bits e \<le> 32
     \<and> uint (ec_end_window e) < 2 ^ nat (ec_nend_bits e)
     \<and> (enc_good e \<longrightarrow>
          ec_nbits_total e = 33 + 8 * int (length (enc_bytes e)) + int (enc_nraw e))"

definition enc_inv :: "ec_ctx \<Rightarrow> bool" where
  "enc_inv e \<longleftrightarrow> enc_mid e \<and> 2 ^ 23 < uint (ec_rng e)"

lemma enc_mid_ext:
  assumes "enc_mid e" and "enc_good e"
  shows "unat (ec_ext e) < 2 ^ 32 - 1"
proof -
  have "unat (ec_ext e) \<le> length (enc_bytes e)" by (simp add: enc_bytes_def)
  moreover have "length (enc_bytes e) < 2 ^ 28"
    using assms by (simp add: enc_mid_def enc_good_def)
  ultimately show ?thesis by simp
qed

lemma and_code_top: "uint (x AND (EC_CODE_TOP - 1)) = uint x mod 2 ^ 31"
proof -
  have "EC_CODE_TOP - 1 = mask 31" by (simp add: ec_const_values mask_eq_exp_minus_1)
  then have "x AND (EC_CODE_TOP - 1) = take_bit 31 x" by (simp only: take_bit_eq_mask)
  then show ?thesis by (simp only: unsigned_take_bit_eq) (rule take_bit_eq_mod)
qed

lemma enc_norm_step_simps [simp]:
  "ec_storage (ec_enc_norm_step e) = ec_storage e"
  "ec_end_offs (ec_enc_norm_step e) = ec_end_offs e"
  "ec_end_window (ec_enc_norm_step e) = ec_end_window e"
  "ec_nend_bits (ec_enc_norm_step e) = ec_nend_bits e"
  "ec_nbits_total (ec_enc_norm_step e) = ec_nbits_total e + 8"
  by (simp_all add: ec_enc_norm_step_def Let_def ec_consts)

lemma norm_step_rng:
  assumes "uint (ec_rng e) \<le> 2 ^ 23"
  shows "uint (ec_rng (ec_enc_norm_step e)) = 256 * uint (ec_rng e)"
  using assms by (simp add: ec_enc_norm_step_def Let_def ec_consts uint_push_bit
      flip: push_bit_eq_mult)

lemma norm_step_val:
  "uint (ec_val (ec_enc_norm_step e)) = 256 * uint (ec_val e) mod 2 ^ 31"
proof -
  have "uint (ec_val (ec_enc_norm_step e)) = uint (ec_val e) * 256 mod 2 ^ 32 mod 2 ^ 31"
    by (simp only: ec_enc_norm_step_def Let_def and_code_top ec_ctx.select_convs
        ec_ctx.update_convs ec_ctx.surjective carry_out_frame uint_push_bit ec_consts)
      (simp add: and_code_top uint_push_bit flip: push_bit_eq_mult)
  also have "\<dots> = 256 * uint (ec_val e) mod 2 ^ 31"
    by (simp add: mod_mod_cancel mult.commute)
  finally show ?thesis .
qed

lemma norm_step_carry:
  "ec_enc_norm_step e = (ec_enc_carry_out e (uint (ec_val e) div 2 ^ 23))
     \<lparr>ec_val := ec_val (ec_enc_norm_step e), ec_rng := ec_rng (ec_enc_norm_step e),
      ec_nbits_total := ec_nbits_total e + 8\<rparr>"
  by (simp add: ec_enc_norm_step_def Let_def ec_const_values ec_consts uint_drop_bit
      flip: drop_bit_eq_div)

lemma norm_step_frame:
  "ec_rem (ec_enc_norm_step e) = ec_rem (ec_enc_carry_out e (uint (ec_val e) div 2 ^ 23))"
  "ec_error (ec_enc_norm_step e) = ec_error (ec_enc_carry_out e (uint (ec_val e) div 2 ^ 23))"
  "enc_bytes (ec_enc_norm_step e) = enc_bytes (ec_enc_carry_out e (uint (ec_val e) div 2 ^ 23))"
  "enc_tail (ec_enc_norm_step e) = enc_tail (ec_enc_carry_out e (uint (ec_val e) div 2 ^ 23))"
  "enc_shape (ec_enc_norm_step e) = enc_shape (ec_enc_carry_out e (uint (ec_val e) div 2 ^ 23))"
  by (subst norm_step_carry; simp add: enc_bytes_def enc_out_def enc_tail_def enc_shape_def)+

text \<open>
  One normalization step moves one byte of the value register to the output: the exact
  low end and the range are both multiplied by 256.
\<close>

lemma norm_step_ok:
  assumes mid: "enc_mid e" and small: "uint (ec_rng e) \<le> 2 ^ 23" and good: "enc_good (ec_enc_norm_step e)"
  shows "enc_good e \<and> enc_low (ec_enc_norm_step e) = 256 * enc_low e
    \<and> length (enc_bytes (ec_enc_norm_step e)) = Suc (length (enc_bytes e))
    \<and> enc_tail (ec_enc_norm_step e) = enc_tail e"
proof -
  let ?v = "uint (ec_val e)"
  let ?c = "?v div 2 ^ 23"
  have er: "ec_error (ec_enc_carry_out e ?c) = 0"
    using good by (simp add: enc_good_def norm_step_frame)
  have g: "enc_good e"
    using carry_out_error [OF er] good by (simp add: enc_good_def)
  have v: "0 \<le> ?v" "?v < 2 ^ 32" using uint_lt32 [of "ec_val e"] by simp_all
  have c: "0 \<le> ?c" "?c < 512" using v by (simp_all add: pos_imp_zdiv_nonneg_iff)
  have carry: "256 \<le> ?c \<Longrightarrow> ec_rem e \<noteq> -1 \<and> ec_rem e \<noteq> 255"
    using mid by (auto simp: enc_mid_def)
  note ok = carry_out_ok [OF _ er c _ _ carry enc_mid_ext [OF mid g]]
  have ok: "be_value 0 (enc_bytes (ec_enc_carry_out e ?c)) = 256 * be_value 0 (enc_bytes e) + ?c"
    "length (enc_bytes (ec_enc_carry_out e ?c)) = Suc (length (enc_bytes e))"
    "enc_tail (ec_enc_carry_out e ?c) = enc_tail e"
    using ok mid by (simp_all add: enc_mid_def)
  have "256 * ?v = ?c * 2 ^ 31 + 256 * ?v mod 2 ^ 31"
    using div_mult_mod_eq [of "256 * ?v" "2 ^ 31"] by (simp add: div_mult2_eq [symmetric])
  moreover have "enc_low (ec_enc_norm_step e)
      = (256 * be_value 0 (enc_bytes e) + ?c) * 2 ^ 31 + 256 * ?v mod 2 ^ 31"
    by (simp only: enc_low_def norm_step_frame norm_step_val ok)
  ultimately have "enc_low (ec_enc_norm_step e) = 256 * enc_low e"
    by (simp add: enc_low_def algebra_simps)
  then show ?thesis using g ok by (simp add: norm_step_frame)
qed

lemma norm_step_mid:
  assumes mid: "enc_mid e" and small: "uint (ec_rng e) \<le> 2 ^ 23"
  shows "enc_mid (ec_enc_norm_step e)"
proof -
  let ?v = "uint (ec_val e)"
  let ?r = "uint (ec_rng e)"
  have v: "0 \<le> ?v" "?v < 2 ^ 32" using uint_lt32 [of "ec_val e"] by simp_all
  define m where "m = ?v mod 2 ^ 23"
  define c where "c = ?v div 2 ^ 23"
  have vm: "?v = c * 2 ^ 23 + m" by (simp add: m_def c_def)
  have m: "0 \<le> m" "m < 2 ^ 23" by (simp_all add: m_def)
  have val: "uint (ec_val (ec_enc_norm_step e)) = 256 * m"
  proof -
    have "256 * ?v mod 2 ^ 31 = 256 * (?v mod 2 ^ 23)"
      using mult_mod_right [of 256 ?v "2 ^ 23"] by simp
    then show ?thesis by (simp add: norm_step_val m_def)
  qed
  have rng: "uint (ec_rng (ec_enc_norm_step e)) = 256 * ?r" by (rule norm_step_rng [OF small])
  have c01: "0 \<le> c" "c < 512" using v by (simp_all add: c_def pos_imp_zdiv_nonneg_iff)
  have rem: "ec_rem (ec_enc_norm_step e) = (if c = 255 then ec_rem e else c mod 256)"
    using carry_out_rem [of c e] c01 by (simp only: norm_step_frame c_def)
  have sum: "256 * m + 256 * ?r < 2 ^ 32" using m small by simp
  have tot: "?v + ?r < 2 ^ 32" "0 < ?r" using mid by (simp_all add: enc_mid_def)
  have top: "256 * m + 256 * ?r \<le> 2 ^ 31"
    if "ec_rem (ec_enc_norm_step e) = -1 \<or> ec_rem (ec_enc_norm_step e) = 255"
  proof (cases "c = 255")
    case True
    then have "?v + ?r \<le> 2 ^ 31" using that rem mid by (simp add: enc_mid_def)
    then show ?thesis using vm True by simp
  next
    case False
    then have "c mod 256 = 255" using that rem by auto
    then have "c = 256 * (c div 256) + 255" using div_mult_mod_eq [of c 256] by simp
    moreover have "0 \<le> c div 256" "c div 256 < 2"
      using c01 by (simp_all add: pos_imp_zdiv_nonneg_iff int_div_less)
    then have "c div 256 = 0 \<or> c div 256 = 1" by linarith
    ultimately have "c = 511" using False by auto
    then show ?thesis using vm tot by simp
  qed
  have cnt: "ec_nbits_total (ec_enc_norm_step e)
      = 33 + 8 * int (length (enc_bytes (ec_enc_norm_step e))) + int (enc_nraw (ec_enc_norm_step e))"
    if "enc_good (ec_enc_norm_step e)"
    using norm_step_ok [OF mid small that] mid by (simp add: enc_mid_def enc_nraw_def)
  have remb: "-1 \<le> ec_rem (ec_enc_norm_step e)" "ec_rem (ec_enc_norm_step e) < 256"
    using mid pos_mod_sign [of 256 c] by (auto simp: rem enc_mid_def)
  show ?thesis
    using mid sum top cnt remb small tot carry_out_shape
    unfolding enc_mid_def val rng
    by (simp add: norm_step_frame)
qed

text \<open>The loop ends whenever the range is not empty.\<close>

lemma enc_norm_induct [consumes 1, case_names step]:
  assumes mid: "enc_mid e"
    and step: "\<And>e. enc_mid e \<Longrightarrow> (uint (ec_rng e) \<le> 2 ^ 23 \<Longrightarrow> P (ec_enc_norm_step e)) \<Longrightarrow> P e"
  shows "P e"
  using mid
proof (induction "nat (2 ^ 33 - uint (ec_rng e))" arbitrary: e rule: less_induct)
  case less
  show ?case
  proof (rule step [OF less.prems])
    assume small: "uint (ec_rng e) \<le> 2 ^ 23"
    have "nat (2 ^ 33 - uint (ec_rng (ec_enc_norm_step e))) < nat (2 ^ 33 - uint (ec_rng e))"
      using norm_step_rng [OF small] less.prems small by (simp add: enc_mid_def)
    then show "P (ec_enc_norm_step e)"
      using norm_step_mid [OF less.prems small] by (rule less.hyps)
  qed
qed

lemma code_bot: "x \<le> EC_CODE_BOT \<longleftrightarrow> uint x \<le> 2 ^ 23"
  by (simp add: ec_const_values word_le_def)

lemma enc_normalize_step: "uint (ec_rng e) \<le> 2 ^ 23 \<Longrightarrow> ec_enc_normalize e = ec_enc_normalize (ec_enc_norm_step e)"
  by (subst ec_enc_normalize.simps) (simp add: code_bot)

lemma enc_normalize_stop: "\<not> uint (ec_rng e) \<le> 2 ^ 23 \<Longrightarrow> ec_enc_normalize e = Some e"
  by (subst ec_enc_normalize.simps) (simp add: code_bot)

lemma enc_normalize_ex:
  assumes "enc_mid e"
  shows "\<exists>e'. ec_enc_normalize e = Some e' \<and> enc_inv e'"
  using assms
proof (induction rule: enc_norm_induct)
  case (step e)
  show ?case
  proof (cases "uint (ec_rng e) \<le> 2 ^ 23")
    case True
    then show ?thesis using step.IH by (simp add: enc_normalize_step)
  next
    case False
    then show ?thesis using step.hyps by (simp add: enc_normalize_stop enc_inv_def)
  qed
qed

section \<open>Codewords\<close>

text \<open>
  The byte string read as the decoder reads it: bytes past the end are zero. \<open>sval S k\<close>
  is the value of the first \<open>k\<close> bytes; after \<open>n\<close> bytes were output the decoder has seen
  \<open>31 + 8 * n\<close> bits of the string, whose value is \<open>code S n\<close>.
\<close>

definition sbyte :: "byte list \<Rightarrow> nat \<Rightarrow> int" where
  "sbyte S i = (if i < length S then uint (S ! i) else 0)"

primrec sval :: "byte list \<Rightarrow> nat \<Rightarrow> int" where
  "sval S 0 = 0"
| "sval S (Suc k) = 256 * sval S k + sbyte S k"

definition code :: "byte list \<Rightarrow> nat \<Rightarrow> int" where
  "code S n = sval S (n + 4) div 2"

text \<open>A string that encodes what \<open>e\<close> has encoded so far.\<close>

definition hits :: "byte list \<Rightarrow> ec_ctx \<Rightarrow> bool" where
  "hits S e \<longleftrightarrow> enc_good e
     \<and> enc_low e \<le> code S (length (enc_bytes e))
     \<and> code S (length (enc_bytes e)) < enc_low e + uint (ec_rng e)
     \<and> le_value (rev S) mod 2 ^ enc_nraw e = enc_raw e"

lemma sbyte_bounds: "0 \<le> sbyte S i" "sbyte S i < 256"
  using uint_lt8 [of "S ! i"] by (simp_all add: sbyte_def)

lemma code_Suc: "code S (Suc n) = 256 * code S n + (128 * (sbyte S (n + 3) mod 2) + sbyte S (n + 4) div 2)"
proof -
  define y where "y = sval S (n + 4)"
  have n4: "n + 4 = Suc (n + 3)" "Suc n + 4 = Suc (n + 4)" by simp_all
  have "code S (Suc n) = (256 * y + sbyte S (n + 4)) div 2"
    by (simp only: code_def y_def n4(2) sval.simps)
  also have "\<dots> = 128 * y + sbyte S (n + 4) div 2"
    by simp
  also have "y = 2 * code S n + y mod 2"
    by (simp only: code_def y_def [symmetric]) simp
  also have "y mod 2 = sbyte S (n + 3) mod 2"
    by (simp only: y_def n4(1) sval.simps) presburger
  finally show ?thesis by simp
qed

lemma code_Suc_div: "code S (Suc n) div 256 = code S n"
proof -
  have "0 \<le> 128 * (sbyte S (n + 3) mod 2) + sbyte S (n + 4) div 2"
    "128 * (sbyte S (n + 3) mod 2) + sbyte S (n + 4) div 2 < 256"
    using sbyte_bounds [of S "n + 4"] by presburger+
  then show ?thesis unfolding code_Suc by simp
qed

lemma interval_scale:
  assumes "q div 256 = (p :: int)"
  shows "256 * l \<le> q \<and> q < 256 * l + 256 * r \<longleftrightarrow> l \<le> p \<and> p < l + r"
proof -
  define t where "t = q mod 256"
  have q: "q = 256 * p + t" and t: "0 \<le> t" "t < 256" using assms by (auto simp: t_def)
  show ?thesis using t by (auto simp: q)
qed

lemma norm_step_hits:
  assumes "enc_mid e" and "uint (ec_rng e) \<le> 2 ^ 23" and "hits S (ec_enc_norm_step e)"
  shows "hits S e"
proof -
  have g: "enc_good (ec_enc_norm_step e)" using assms(3) by (simp add: hits_def)
  note ok = norm_step_ok [OF assms(1,2) g]
  have "enc_low e \<le> code S (length (enc_bytes e))
      \<and> code S (length (enc_bytes e)) < enc_low e + uint (ec_rng e)"
    using assms(3) ok norm_step_rng [OF assms(2)]
      interval_scale [OF code_Suc_div [of S "length (enc_bytes e)"], of "enc_low e" "uint (ec_rng e)"]
    by (simp add: hits_def)
  then show ?thesis using ok assms(3) by (simp add: hits_def enc_raw_def enc_nraw_def)
qed

lemma enc_normalize_hits:
  assumes "enc_mid e" and "ec_enc_normalize e = Some e'" and "hits S e'"
  shows "hits S e"
  using assms
proof (induction rule: enc_norm_induct)
  case (step e)
  show ?case
  proof (cases "uint (ec_rng e) \<le> 2 ^ 23")
    case True
    then have "hits S (ec_enc_norm_step e)" using step by (simp add: enc_normalize_step)
    then show ?thesis using True step.hyps by (blast intro: norm_step_hits)
  next
    case False
    then show ?thesis using step.prems by (simp add: enc_normalize_stop)
  qed
qed

section \<open>The decoder in step with the encoder\<close>

definition sync :: "byte list \<Rightarrow> ec_ctx \<Rightarrow> ec_ctx \<Rightarrow> bool" where
  "sync S e d \<longleftrightarrow> ec_buf d = S \<and> ec_storage d = length S \<and> ec_error d = 0
     \<and> ec_rng d = ec_rng e
     \<and> uint (ec_val d) = enc_low e + uint (ec_rng e) - 1 - code S (length (enc_bytes e))
     \<and> ec_rem d = sbyte S (length (enc_bytes e) + 3)
     \<and> ec_offs d = min (length (enc_bytes e) + 4) (length S)
     \<and> ec_nbits_total d = ec_nbits_total e
     \<and> 0 \<le> ec_nend_bits d \<and> ec_nend_bits d \<le> 32
     \<and> 8 dvd enc_nraw e + nat (ec_nend_bits d)
     \<and> ec_end_offs d = min ((enc_nraw e + nat (ec_nend_bits d)) div 8) (length S)
     \<and> uint (ec_end_window d)
         = le_value (rev S) div 2 ^ enc_nraw e mod 2 ^ nat (ec_nend_bits d)"

lemma dec_norm_step_simps [simp]:
  "ec_storage (ec_dec_norm_step d) = ec_storage d" "ec_buf (ec_dec_norm_step d) = ec_buf d"
  "ec_end_offs (ec_dec_norm_step d) = ec_end_offs d"
  "ec_end_window (ec_dec_norm_step d) = ec_end_window d"
  "ec_nend_bits (ec_dec_norm_step d) = ec_nend_bits d" "ec_error (ec_dec_norm_step d) = ec_error d"
  "ec_nbits_total (ec_dec_norm_step d) = ec_nbits_total d + 8"
  "ec_rng (ec_dec_norm_step d) = push_bit 8 (ec_rng d)"
  "ec_rem (ec_dec_norm_step d) = (if ec_offs d < ec_storage d then uint (ec_buf d ! ec_offs d) else 0)"
  "ec_offs (ec_dec_norm_step d) = (if ec_offs d < ec_storage d then ec_offs d + 1 else ec_offs d)"
  by (simp_all add: ec_dec_norm_step_def ec_read_byte_def Let_def ec_consts)

lemma push_or: "0 \<le> b \<Longrightarrow> b < 2 ^ n \<Longrightarrow> push_bit n a OR b = 2 ^ n * a + (b :: int)"
proof -
  assume b: "0 \<le> b" "b < 2 ^ n"
  then have "b = take_bit n b" by (simp add: take_bit_int_eq_self)
  moreover have "push_bit n a AND take_bit n b = 0"
    by (auto simp: bit_eq_iff bit_simps)
  ultimately have "push_bit n a + b = push_bit n a OR b"
    by (metis disjunctive_add_eq_or)
  then show ?thesis by (simp add: push_bit_eq_mult mult.commute)
qed

lemma norm_sym:
  assumes "0 \<le> b" "(b :: int) < 256"
  shows "255 AND NOT (drop_bit 1 (push_bit 8 a OR b)) = 255 - (128 * (a mod 2) + b div 2)"
proof -
  have "drop_bit 1 (push_bit 8 a OR b) = 128 * a + b div 2"
    using push_or [of b 8 a] assms by (simp add: drop_bit_eq_div)
  moreover have "255 AND y = y mod 256" for y :: int
    by (simp add: and_255 and.commute)
  ultimately have "255 AND NOT (drop_bit 1 (push_bit 8 a OR b)) = (- (128 * a + b div 2) - 1) mod 256"
    by (simp add: not_eq_complement)
  also have "- (128 * a + b div 2) - 1
      = (255 - (128 * (a mod 2) + b div 2)) + 256 * (- (a div 2) - 1)"
  proof -
    define q r where "q = a div 2" and "r = a mod 2"
    have "a = 2 * q + r" by (simp add: q_def r_def)
    then show ?thesis unfolding q_def [symmetric] r_def [symmetric] by (simp add: algebra_simps)
  qed
  also have "\<dots> mod 256 = 255 - (128 * (a mod 2) + b div 2)"
  proof -
    have "a mod 2 = 0 \<or> a mod 2 = 1" by presburger
    then have "0 \<le> 255 - (128 * (a mod 2) + b div 2)" "255 - (128 * (a mod 2) + b div 2) < 256"
      using assms by auto
    then show ?thesis by (simp only: mod_mult_self2 mod_pos_pos_trivial)
  qed
  finally show ?thesis .
qed
lemma dec_norm_step_val:
  assumes "0 \<le> ec_rem d" "ec_rem d < 256" and small: "uint (ec_val d) < 2 ^ 23"
  shows "uint (ec_val (ec_dec_norm_step d)) = 256 * uint (ec_val d)
     + (255 - (128 * (ec_rem d mod 2) + ec_rem (ec_dec_norm_step d) div 2))"
proof -
  define b where "b = ec_rem (ec_dec_norm_step d)"
  define k where "k = 255 - (128 * (ec_rem d mod 2) + b div 2)"
  have b: "0 \<le> b" "b < 256" using uint_lt8 by (auto simp: b_def)
  have "ec_rem d mod 2 = 0 \<or> ec_rem d mod 2 = 1" by presburger
  then have k: "0 \<le> k" "k < 256" using b by (auto simp: k_def)
  have "ec_val (ec_dec_norm_step d)
      = (push_bit 8 (ec_val d) + of_int k) AND (EC_CODE_TOP - 1)"
  proof -
    have "ec_val (ec_dec_norm_step d) = (push_bit 8 (ec_val d)
        + of_int (255 AND NOT (drop_bit 1 (push_bit 8 (ec_rem d) OR b)))) AND (EC_CODE_TOP - 1)"
      by (cases "ec_offs d < ec_storage d")
        (simp_all add: ec_dec_norm_step_def ec_read_byte_def Let_def ec_consts ec_const_values b_def)
    then show ?thesis by (simp only: norm_sym [OF b] k_def)
  qed
  moreover have "uint (push_bit 8 (ec_val d)) = 256 * uint (ec_val d)"
    using small by (simp add: uint_push_bit flip: push_bit_eq_mult)
  moreover have "uint (of_int k :: u32) = k" using k by (simp add: uint_word_of_int)
  ultimately have "uint (ec_val (ec_dec_norm_step d)) = (256 * uint (ec_val d) + k) mod 2 ^ 31"
    using small k by (simp only: and_code_top) (subst uint_add_nowrap, simp_all)
  then show ?thesis using small k by (simp add: k_def b_def)
qed

lemma norm_step_sync:
  assumes mid: "enc_mid e" and small: "uint (ec_rng e) \<le> 2 ^ 23"
    and h: "hits S (ec_enc_norm_step e)" and sy: "sync S e d"
  shows "sync S (ec_enc_norm_step e) (ec_dec_norm_step d)"
proof -
  define n where "n = length (enc_bytes e)"
  have he: "hits S e" by (rule norm_step_hits [OF mid small h])
  have g: "enc_good (ec_enc_norm_step e)" using h by (simp add: hits_def)
  note ok = norm_step_ok [OF mid small g]
  have dv: "uint (ec_val d) < 2 ^ 23"
    using sy he small by (simp add: sync_def hits_def)
  have rem: "ec_rem d = sbyte S (n + 3)" and rem': "ec_rem (ec_dec_norm_step d) = sbyte S (n + 4)"
    using sy by (auto simp: sync_def n_def sbyte_def)
  have rng: "ec_rng (ec_dec_norm_step d) = ec_rng (ec_enc_norm_step e)"
    using sy by (simp add: sync_def ec_enc_norm_step_def Let_def ec_consts)
  have "uint (ec_val (ec_dec_norm_step d)) = 256 * uint (ec_val d)
      + (255 - (128 * (sbyte S (n + 3) mod 2) + sbyte S (n + 4) div 2))"
    unfolding rem [symmetric] rem' [symmetric]
    by (rule dec_norm_step_val [OF _ _ dv]) (simp_all only: rem sbyte_bounds)
  also have "\<dots> = enc_low (ec_enc_norm_step e) + uint (ec_rng (ec_enc_norm_step e)) - 1
      - code S (Suc n)"
    using sy ok norm_step_rng [OF small] by (simp add: sync_def code_Suc n_def)
  finally have val: "uint (ec_val (ec_dec_norm_step d))
      = enc_low (ec_enc_norm_step e) + uint (ec_rng (ec_enc_norm_step e)) - 1 - code S (Suc n)" .
  have offs: "ec_offs (ec_dec_norm_step d) = min (Suc n + 4) (length S)"
    using sy by (auto simp: sync_def n_def)
  have raw: "enc_nraw (ec_enc_norm_step e) = enc_nraw e" by (simp add: enc_nraw_def)
  have "n + 4 = Suc n + 3" by simp
  then have rem'': "ec_rem (ec_dec_norm_step d) = sbyte S (Suc n + 3)" using rem' by (simp only:)
  have len: "length (enc_bytes (ec_enc_norm_step e)) = Suc n" using ok by (simp add: n_def)
  show ?thesis
    unfolding sync_def len raw
    by (intro conjI rng val offs rem'') (use sy in \<open>simp_all add: sync_def\<close>)
qed

lemma dec_normalize_step: "uint (ec_rng d) \<le> 2 ^ 23 \<Longrightarrow> ec_dec_normalize d = ec_dec_normalize (ec_dec_norm_step d)"
  by (subst ec_dec_normalize.simps) (simp add: code_bot)

lemma dec_normalize_stop: "\<not> uint (ec_rng d) \<le> 2 ^ 23 \<Longrightarrow> ec_dec_normalize d = Some d"
  by (subst ec_dec_normalize.simps) (simp add: code_bot)

lemma normalize_sync:
  assumes "enc_mid e" and "ec_enc_normalize e = Some e'" and "hits S e'" and "sync S e d"
  shows "\<exists>d'. ec_dec_normalize d = Some d' \<and> sync S e' d'"
  using assms
proof (induction arbitrary: d rule: enc_norm_induct)
  case (step e)
  have rng: "ec_rng d = ec_rng e" using step.prems(3) by (simp add: sync_def)
  show ?case
  proof (cases "uint (ec_rng e) \<le> 2 ^ 23")
    case True
    have n: "ec_enc_normalize (ec_enc_norm_step e) = Some e'"
      using step.prems(1) True by (simp add: enc_normalize_step)
    have "hits S (ec_enc_norm_step e)"
      using enc_normalize_hits [OF norm_step_mid [OF step.hyps True] n step.prems(2)] .
    then have "sync S (ec_enc_norm_step e) (ec_dec_norm_step d)"
      by (rule norm_step_sync [OF step.hyps True _ step.prems(3)])
    from step.IH [OF True n step.prems(2) this]
    show ?thesis using True rng by (simp add: dec_normalize_step)
  next
    case False
    then show ?thesis using step.prems rng by (simp add: enc_normalize_stop dec_normalize_stop)
  qed
qed

section \<open>Narrowing the range to a symbol\<close>

text \<open>
  Every coding step narrows the interval to the part \<open>[fl, fh)\<close> of \<open>ft\<close> parts of size
  \<open>r\<close>, the first part taking what the division left over, and then normalizes.
\<close>

definition enc_narrow :: "u32 \<Rightarrow> u32 \<Rightarrow> u32 \<Rightarrow> u32 \<Rightarrow> ec_ctx \<Rightarrow> ec_ctx" where
  "enc_narrow r fl fh ft e =
    (if fl > 0 then e\<lparr>ec_val := ec_val e + (ec_rng e - r * (ft - fl)), ec_rng := r * (fh - fl)\<rparr>
     else e\<lparr>ec_rng := ec_rng e - r * (ft - fh)\<rparr>)"

definition dec_narrow :: "u32 \<Rightarrow> u32 \<Rightarrow> u32 \<Rightarrow> u32 \<Rightarrow> ec_ctx \<Rightarrow> ec_ctx" where
  "dec_narrow r fl fh ft d =
    d\<lparr>ec_val := ec_val d - r * (ft - fh),
      ec_rng := (if fl > 0 then r * (fh - fl) else ec_rng d - r * (ft - fh))\<rparr>"

definition part :: "u32 \<Rightarrow> u32 \<Rightarrow> u32 \<Rightarrow> u32 \<Rightarrow> u32 \<Rightarrow> bool" where
  "part rng r fl fh ft \<longleftrightarrow> 0 < r \<and> fl < fh \<and> fh \<le> ft \<and> uint r * uint ft \<le> uint rng"

lemma part_uint:
  assumes "part rng r fl fh ft"
  shows "uint (r * (ft - fh)) = uint r * (uint ft - uint fh)"
    and "uint (r * (ft - fl)) = uint r * (uint ft - uint fl)"
    and "uint (r * (fh - fl)) = uint r * (uint fh - uint fl)"
    and "uint r * (uint ft - uint fl) \<le> uint rng"
    and "uint (rng - r * (ft - fh)) = uint rng - uint r * (uint ft - uint fh)"
    and "uint (rng - r * (ft - fl)) = uint rng - uint r * (uint ft - uint fl)"
    and "0 < uint r" and "uint fl < uint fh" and "uint fh \<le> uint ft"
proof -
  let ?r = "uint r" and ?l = "uint fl" and ?h = "uint fh" and ?t = "uint ft"
  show b: "0 < ?r" "?l < ?h" "?h \<le> ?t"
    using assms by (auto simp: part_def word_less_def word_le_def)
  have tot: "?r * ?t \<le> uint rng" using assms by (simp add: part_def)
  have rng: "uint rng < 2 ^ 32" using uint_lt32 [of rng] by simp
  have m: "?r * x \<le> uint rng" if "x \<le> ?t" for x
    using order_trans [OF mult_left_mono [OF that] tot] b by simp
  have s: "uint (ft - fh) = ?t - ?h" "uint (ft - fl) = ?t - ?l" "uint (fh - fl) = ?h - ?l"
    using b by (simp_all add: uint_sub_nowrap)
  have l0: "0 \<le> ?l" "0 \<le> ?h" by simp_all
  have le: "?t - ?h \<le> ?t" "?t - ?l \<le> ?t" "?h - ?l \<le> ?t" using b l0 by linarith+
  show e1: "uint (r * (ft - fh)) = ?r * (?t - ?h)"
    using m [OF le(1)] rng by (simp add: uint_mult_nowrap s)
  show e2: "uint (r * (ft - fl)) = ?r * (?t - ?l)"
    using m [OF le(2)] rng by (simp add: uint_mult_nowrap s)
  show "uint (r * (fh - fl)) = ?r * (?h - ?l)"
    using m [OF le(3)] rng by (simp add: uint_mult_nowrap s)
  show "?r * (?t - ?l) \<le> uint rng" using m [OF le(2)] .
  show "uint (rng - r * (ft - fh)) = uint rng - ?r * (?t - ?h)"
    using m [OF le(1)] by (simp add: uint_sub_nowrap e1)
  show "uint (rng - r * (ft - fl)) = uint rng - ?r * (?t - ?l)"
    using m [OF le(2)] by (simp add: uint_sub_nowrap e2)
qed

lemma enc_narrow_simps [simp]:
  "ec_error (enc_narrow r fl fh ft e) = ec_error e"
  "ec_nbits_total (enc_narrow r fl fh ft e) = ec_nbits_total e"
  "ec_rem (enc_narrow r fl fh ft e) = ec_rem e"
  "ec_nend_bits (enc_narrow r fl fh ft e) = ec_nend_bits e"
  "ec_end_window (enc_narrow r fl fh ft e) = ec_end_window e"
  "enc_bytes (enc_narrow r fl fh ft e) = enc_bytes e"
  "enc_raw (enc_narrow r fl fh ft e) = enc_raw e"
  "enc_nraw (enc_narrow r fl fh ft e) = enc_nraw e"
  "enc_shape (enc_narrow r fl fh ft e) = enc_shape e"
  "enc_good (enc_narrow r fl fh ft e) = enc_good e"
  by (simp_all add: enc_narrow_def enc_bytes_def enc_out_def enc_raw_def enc_tail_def enc_nraw_def
      enc_shape_def enc_good_def)

lemma enc_narrow_interval:
  assumes "enc_mid e" and "part (ec_rng e) r fl fh ft"
  shows "enc_low (enc_narrow r fl fh ft e)
      = (if fl > 0 then enc_low e + uint (ec_rng e) - uint r * (uint ft - uint fl) else enc_low e)"
    and "enc_low (enc_narrow r fl fh ft e) + uint (ec_rng (enc_narrow r fl fh ft e))
      = enc_low e + uint (ec_rng e) - uint r * (uint ft - uint fh)"
    and "0 < uint (ec_rng (enc_narrow r fl fh ft e))"
    and "uint (ec_val e) \<le> uint (ec_val (enc_narrow r fl fh ft e))"
proof -
  note u = part_uint [OF assms(2)]
  have p: "0 < uint r * (uint fh - uint fl)" using u(7,8) by simp
  have v: "uint (ec_val e + (ec_rng e - r * (ft - fl)))
      = uint (ec_val e) + (uint (ec_rng e) - uint r * (uint ft - uint fl))" if "fl > 0"
  proof (subst uint_add_nowrap)
    have "0 \<le> uint r * (uint ft - uint fl)" using u(7-9) by simp
    then show "uint (ec_val e) + uint (ec_rng e - r * (ft - fl)) < 2 ^ LENGTH(32)"
      using assms(1) unfolding u(6) by (simp add: enc_mid_def)
  qed (simp add: u(6))
  have z: "uint fl = 0" if "\<not> fl > 0"
    using that by (simp add: word_gt_0)
  show "enc_low (enc_narrow r fl fh ft e)
      = (if fl > 0 then enc_low e + uint (ec_rng e) - uint r * (uint ft - uint fl) else enc_low e)"
    using v by (simp add: enc_low_def enc_narrow_simps(6)) (simp add: enc_narrow_def)
  moreover have rr: "uint (ec_rng (enc_narrow r fl fh ft e))
      = (if fl > 0 then uint r * (uint fh - uint fl)
         else uint (ec_rng e) - uint r * (uint ft - uint fh))"
    by (simp add: enc_narrow_def u(3,5))
  ultimately show "enc_low (enc_narrow r fl fh ft e) + uint (ec_rng (enc_narrow r fl fh ft e))
      = enc_low e + uint (ec_rng e) - uint r * (uint ft - uint fh)"
    by (simp add: algebra_simps)
  show "0 < uint (ec_rng (enc_narrow r fl fh ft e))"
    using p u(4) z by (auto simp: rr algebra_simps)
  show "uint (ec_val e) \<le> uint (ec_val (enc_narrow r fl fh ft e))"
    using v u(4) by (auto simp: enc_narrow_def)
qed

lemma enc_narrow_sum:
  assumes "enc_mid e" and "part (ec_rng e) r fl fh ft"
  shows "uint (ec_val (enc_narrow r fl fh ft e)) + uint (ec_rng (enc_narrow r fl fh ft e))
    \<le> uint (ec_val e) + uint (ec_rng e)"
proof -
  have "0 \<le> uint r * (uint ft - uint fh)" using part_uint(7-9) [OF assms(2)] by simp
  then show ?thesis using enc_narrow_interval(2) [OF assms] by (simp add: enc_low_def)
qed

lemma enc_narrow_mid:
  assumes "enc_mid e" and "part (ec_rng e) r fl fh ft"
  shows "enc_mid (enc_narrow r fl fh ft e)"
proof -
  have "uint (ec_rng (enc_narrow r fl fh ft e)) \<le> uint (ec_rng e)"
    using enc_narrow_sum [OF assms] enc_narrow_interval(4) [OF assms] by linarith
  then show ?thesis
    using assms(1) enc_narrow_sum [OF assms] enc_narrow_interval(3) [OF assms]
    by (auto simp: enc_mid_def)
qed

lemma enc_narrow_hits:
  assumes mid: "enc_mid e" and pt: "part (ec_rng e) r fl fh ft" and h: "hits S (enc_narrow r fl fh ft e)"
  shows "hits S e"
proof -
  have "0 \<le> uint r * (uint ft - uint fh)" using part_uint(7-9) [OF pt] by simp
  then show ?thesis
    using h enc_narrow_interval(1,2) [OF mid pt] part_uint(4) [OF pt]
    by (auto simp: hits_def split: if_splits)
qed

text \<open>
  A decoder in step with the encoder sees a value that lies in the part the encoder chose,
  and stays in step when it narrows its range to that part.
\<close>

lemma dec_narrow_sync:
  assumes mid: "enc_mid e" and pt: "part (ec_rng e) r fl fh ft"
    and h: "hits S (enc_narrow r fl fh ft e)" and sy: "sync S e d"
  shows "sync S (enc_narrow r fl fh ft e) (dec_narrow r fl fh ft d)"
    and "uint r * (uint ft - uint fh) \<le> uint (ec_val d)"
    and "fl > 0 \<Longrightarrow> uint (ec_val d) < uint r * (uint ft - uint fl)"
    and "uint (ec_val d) < uint (ec_rng d)"
proof -
  note iv = enc_narrow_interval [OF mid pt]
  note u = part_uint [OF pt]
  have rng: "ec_rng d = ec_rng e" using sy by (simp add: sync_def)
  have val: "uint (ec_val d) = enc_low e + uint (ec_rng e) - 1 - code S (length (enc_bytes e))"
    using sy by (simp add: sync_def)
  have lo: "enc_low (enc_narrow r fl fh ft e) \<le> code S (length (enc_bytes e))"
    and hi: "code S (length (enc_bytes e))
      < enc_low (enc_narrow r fl fh ft e) + uint (ec_rng (enc_narrow r fl fh ft e))"
    using h by (simp_all add: hits_def)
  show le: "uint r * (uint ft - uint fh) \<le> uint (ec_val d)"
    using hi iv(2) val by linarith
  show "fl > 0 \<Longrightarrow> uint (ec_val d) < uint r * (uint ft - uint fl)"
    using lo iv(1) val by simp
  show "uint (ec_val d) < uint (ec_rng d)"
    using enc_narrow_hits [OF mid pt h] val rng by (simp add: hits_def)
  have "uint (ec_val (dec_narrow r fl fh ft d)) = uint (ec_val d) - uint r * (uint ft - uint fh)"
    using le by (simp add: dec_narrow_def uint_sub_nowrap u(1))
  then have v: "uint (ec_val (dec_narrow r fl fh ft d))
      = enc_low (enc_narrow r fl fh ft e) + uint (ec_rng (enc_narrow r fl fh ft e)) - 1
        - code S (length (enc_bytes e))"
    using iv(2) val by linarith
  have "ec_rng (dec_narrow r fl fh ft d) = ec_rng (enc_narrow r fl fh ft e)"
    by (simp add: dec_narrow_def enc_narrow_def rng)
  then show "sync S (enc_narrow r fl fh ft e) (dec_narrow r fl fh ft d)"
    using sy v by (simp add: sync_def) (simp add: dec_narrow_def)
qed

lemma sync_ext [simp]: "sync S e (d\<lparr>ec_ext := x\<rparr>) = sync S e d"
  by (simp add: sync_def)

lemma dec_narrow_ext: "dec_narrow r fl fh ft (d\<lparr>ec_ext := x\<rparr>) = (dec_narrow r fl fh ft d)\<lparr>ec_ext := x\<rparr>"
  by (simp add: dec_narrow_def)

text \<open>The whole coding step: narrow, then normalize.\<close>

lemma narrow_normalize_ex:
  assumes "enc_inv e" and "part (ec_rng e) r fl fh ft"
  shows "\<exists>e'. ec_enc_normalize (enc_narrow r fl fh ft e) = Some e' \<and> enc_inv e'"
  using enc_normalize_ex [OF enc_narrow_mid] assms by (simp add: enc_inv_def)

lemma narrow_normalize_hits:
  assumes "enc_inv e" and "part (ec_rng e) r fl fh ft"
    and "ec_enc_normalize (enc_narrow r fl fh ft e) = Some e'" and "hits S e'"
  shows "hits S (enc_narrow r fl fh ft e)" and "hits S e"
proof -
  have mid: "enc_mid e" using assms(1) by (simp add: enc_inv_def)
  show h: "hits S (enc_narrow r fl fh ft e)"
    using enc_normalize_hits [OF enc_narrow_mid [OF mid assms(2)] assms(3,4)] .
  show "hits S e" by (rule enc_narrow_hits [OF mid assms(2) h])
qed

lemma narrow_normalize_sync:
  assumes "enc_inv e" and "part (ec_rng e) r fl fh ft"
    and "ec_enc_normalize (enc_narrow r fl fh ft e) = Some e'" and "hits S e'" and "sync S e d"
  shows "\<exists>d'. ec_dec_normalize (dec_narrow r fl fh ft d) = Some d' \<and> sync S e' d'"
proof -
  have mid: "enc_mid e" using assms(1) by (simp add: enc_inv_def)
  have "sync S (enc_narrow r fl fh ft e) (dec_narrow r fl fh ft d)"
    using dec_narrow_sync(1) [OF mid assms(2) narrow_normalize_hits(1) [OF assms(1-4)] assms(5)] .
  then show ?thesis
    by (rule normalize_sync [OF enc_narrow_mid [OF mid assms(2)] assms(3,4)])
qed

text \<open>The index that \<open>ec_decode\<close> and \<open>ec_decode_bin\<close> compute from the value.\<close>

lemma decode_index:
  assumes pt: "part rng r fl fh ft" and lo: "uint r * (uint ft - uint fh) \<le> uint v"
    and hi: "fl > 0 \<Longrightarrow> uint v < uint r * (uint ft - uint fl)" and top: "uint v < uint rng"
  shows "fl \<le> ft - EC_MINI (v div r + 1) ft \<and> ft - EC_MINI (v div r + 1) ft < fh"
proof -
  note u = part_uint(7-9) [OF pt]
  define q where "q = uint v div uint r"
  have qr: "q * uint r \<le> uint v"
    using div_mult_mod_eq [of "uint v" "uint r"] pos_mod_sign [of "uint r" "uint v"] u(1)
    unfolding q_def by linarith
  have q0: "0 \<le> q" using u(1) by (simp add: q_def pos_imp_zdiv_nonneg_iff)
  have qlo: "uint ft - uint fh \<le> q"
    using zdiv_mono1 [OF lo u(1)] u(1) by (simp add: q_def)
  have qhi: "q < uint ft - uint fl" if "fl > 0"
  proof -
    have "q * uint r < (uint ft - uint fl) * uint r"
      using qr hi [OF that] by (simp add: mult.commute)
    then show ?thesis using u(1) by simp
  qed
  have "q \<le> q * uint r" using q0 u(1) by (simp add: mult_le_cancel_left1)
  then have s1: "uint (v div r + 1) = q + 1"
    using qr top uint_lt32 [of rng] by (subst uint_add_nowrap) (simp_all add: q_def uint_div)
  show ?thesis
  proof (cases "q + 1 \<le> uint ft")
    case True
    then have m: "EC_MINI (v div r + 1) ft = v div r + 1"
      by (simp add: EC_MINI_min min_def word_le_def s1)
    have x: "uint (ft - (v div r + 1)) = uint ft - (q + 1)"
      using True by (simp add: uint_sub_nowrap s1 del: uint_word_ariths)
    have "uint fl \<le> uint ft - (q + 1)"
      using qhi True by (cases "fl > 0") (auto simp: word_gt_0)
    then show ?thesis using qlo by (simp add: m word_le_def word_less_def x)
  next
    case False
    then have "EC_MINI (v div r + 1) ft = ft"
      using s1 by (auto simp: EC_MINI_min min_def word_le_def)
    moreover have "fl = 0"
      using False qhi uint_ge_0 [of fl] by (cases "fl > 0") (auto simp: word_gt_0)
    moreover have "0 < fh" using u(2) \<open>fl = 0\<close> by (simp add: word_less_def)
    ultimately show ?thesis by simp
  qed
qed

section \<open>Raw bits at the end of the buffer\<close>

definition raw_bits :: "u32 \<Rightarrow> ec_ctx \<Rightarrow> int" where
  "raw_bits w e = le_value (rev (enc_tail e)) + 256 ^ ec_end_offs e * uint w"

lemma enc_raw_raw_bits: "enc_raw e = raw_bits (ec_end_window e) e"
  by (simp add: enc_raw_def raw_bits_def)

lemma write_end_frame [simp]:
  "ec_storage (fst (ec_write_byte_at_end e v)) = ec_storage e"
  "ec_offs (fst (ec_write_byte_at_end e v)) = ec_offs e"
  "ec_end_window (fst (ec_write_byte_at_end e v)) = ec_end_window e"
  "ec_nend_bits (fst (ec_write_byte_at_end e v)) = ec_nend_bits e"
  "ec_nbits_total (fst (ec_write_byte_at_end e v)) = ec_nbits_total e"
  "ec_rng (fst (ec_write_byte_at_end e v)) = ec_rng e"
  "ec_val (fst (ec_write_byte_at_end e v)) = ec_val e"
  "ec_ext (fst (ec_write_byte_at_end e v)) = ec_ext e"
  "ec_rem (fst (ec_write_byte_at_end e v)) = ec_rem e"
  "ec_error (fst (ec_write_byte_at_end e v)) = ec_error e"
  by (simp_all add: ec_write_byte_at_end_def)

lemma write_end_shape: "enc_shape e \<Longrightarrow> enc_shape (or_error (ec_write_byte_at_end e v))"
  by (auto simp: enc_shape_def ec_write_byte_at_end_def)

lemma write_end_ok:
  assumes "enc_shape e" and "snd (ec_write_byte_at_end e v) = 0"
  shows "enc_out (fst (ec_write_byte_at_end e v)) = enc_out e"
    and "enc_tail (fst (ec_write_byte_at_end e v)) = v # enc_tail e"
    and "ec_end_offs (fst (ec_write_byte_at_end e v)) = Suc (ec_end_offs e)"
proof -
  have free: "ec_offs e + ec_end_offs e < ec_storage e"
    using assms(2) by (simp add: ec_write_byte_at_end_def split: if_splits)
  define i where "i = ec_storage e - Suc (ec_end_offs e)"
  have i: "i < length (ec_buf e)" "ec_offs e \<le> i" "ec_storage e - ec_end_offs e = Suc i"
    using assms(1) free by (auto simp: enc_shape_def i_def)
  have w: "fst (ec_write_byte_at_end e v) = e\<lparr>ec_buf := (ec_buf e)[i := v], ec_end_offs := Suc (ec_end_offs e)\<rparr>"
    using free by (simp add: ec_write_byte_at_end_def i_def)
  show "enc_out (fst (ec_write_byte_at_end e v)) = enc_out e"
    using i by (simp add: w enc_out_def)
  show "enc_tail (fst (ec_write_byte_at_end e v)) = v # enc_tail e"
    using i by (simp add: w enc_tail_def i_def [symmetric]) (simp add: Cons_nth_drop_Suc [symmetric])
  show "ec_end_offs (fst (ec_write_byte_at_end e v)) = Suc (ec_end_offs e)"
    by (simp add: w)
qed

lemma length_enc_tail: "enc_shape e \<Longrightarrow> length (enc_tail e) = ec_end_offs e"
  by (simp add: enc_shape_def enc_tail_def)

text \<open>One byte of the window moves to the end of the buffer.\<close>

abbreviation flush_byte :: "u32 \<Rightarrow> ec_ctx \<Rightarrow> ec_ctx" where
  "flush_byte w e \<equiv> or_error (ec_write_byte_at_end e (of_int (uint w AND EC_SYM_MAX)))"

lemma flush_byte_ok:
  assumes sh: "enc_shape e" and er: "ec_error (flush_byte w e) = 0"
  shows "ec_error e = 0 \<and> enc_out (flush_byte w e) = enc_out e
    \<and> ec_end_offs (flush_byte w e) = Suc (ec_end_offs e)
    \<and> raw_bits (drop_bit EC_SYM_BITS w) (flush_byte w e) = raw_bits w e"
proof -
  let ?v = "of_int (uint w AND EC_SYM_MAX) :: byte"
  have v: "uint ?v = uint w mod 256"
    by (simp only: ec_const_values and_255) (simp add: uint_word_of_int)
  have "snd (ec_write_byte_at_end e ?v) = 0" using er by simp
  note ok = write_end_ok [OF sh this]
  have "256 ^ n * (uint w mod 256) + 256 * (256 ^ n * (uint w div 256)) = uint w * 256 ^ n" for n
  proof -
    have "256 ^ n * (uint w mod 256) + 256 * (256 ^ n * (uint w div 256))
        = (uint w mod 256 + 256 * (uint w div 256)) * 256 ^ n" by (simp only: algebra_simps)
    then show ?thesis by simp
  qed
  then have "raw_bits (drop_bit EC_SYM_BITS w) (flush_byte w e) = raw_bits w e"
    using ok length_enc_tail [OF sh] v
    by (simp add: raw_bits_def enc_tail_def le_value_append uint_drop_bit ec_consts algebra_simps
        flip: drop_bit_eq_div)
  then show ?thesis using er ok by (simp add: enc_out_def)
qed

lemma flush_window_ok:
  assumes "ec_flush_window w u e = (w', u', e')" and "enc_shape e" and "0 \<le> u"
    and "uint w < 2 ^ nat u"
  shows "enc_shape e' \<and> 0 \<le> u' \<and> u' < 8 \<and> uint w' < 2 ^ nat u'
    \<and> (ec_error e' = 0 \<longrightarrow> ec_error e = 0 \<and> enc_out e' = enc_out e \<and> raw_bits w' e' = raw_bits w e
         \<and> 8 * ec_end_offs e' + nat u' = 8 * ec_end_offs e + nat u)"
  using assms
proof (induction w u e rule: ec_flush_window.induct)
  case (1 w u e)
  show ?case
  proof (cases "int EC_SYM_BITS \<le> u")
    case True
    then have eq: "ec_flush_window (drop_bit EC_SYM_BITS w) (u - int EC_SYM_BITS) (flush_byte w e)
        = (w', u', e')"
      using 1(2) by (simp add: ec_flush_window.simps [of w u e])
    have "nat u = nat (u - 8) + 8" using True by (simp add: ec_consts)
    then have "uint w < 2 ^ nat (u - 8) * 256"
      using 1(5) by (simp add: power_add)
    then have lt: "uint (drop_bit EC_SYM_BITS w) < 2 ^ nat (u - int EC_SYM_BITS)"
      by (simp add: uint_drop_bit div_less_iff_less_mult ec_consts flip: drop_bit_eq_div)
    have u0: "0 \<le> u - int EC_SYM_BITS" using True by simp
    note IH = 1(1) [OF True eq write_end_shape [OF 1(3)] u0 lt]
    show ?thesis
      using IH flush_byte_ok [OF 1(3), of w] True by (auto simp: ec_consts)
  next
    case False
    then show ?thesis using 1 by (simp add: ec_flush_window.simps [of w u e] ec_consts)
  qed
qed

end
