(* ===== verification/Range_Coder_Roundtrip.thy ===== *)
theory Range_Coder_Roundtrip
  imports Range_Coder_Correct
begin

text \<open>
  The logarithm used by the coder, the raw bits and uniformly distributed integers, the
  end of the stream, and the two laws of every coding operation: it ends and keeps the
  invariant, and a decoder in step with the encoder reads back what was encoded.
\<close>

section \<open>The integer logarithm\<close>

lemma and_field:
  assumes c: "c = mask (m + n) AND NOT (mask n :: u32)" and mn: "m + n \<le> 32"
  shows "v AND c \<noteq> 0 \<longleftrightarrow> uint v div 2 ^ n mod 2 ^ m \<noteq> 0"
proof -
  let ?f = "uint v div 2 ^ n mod 2 ^ m"
  have f: "uint (take_bit m (drop_bit n v)) = ?f"
    by (simp only: unsigned_take_bit_eq uint_drop_bit) (rule take_bit_eq_mod)
  have "?f < 2 ^ m" by simp
  then have "2 ^ n * ?f < 2 ^ n * 2 ^ m"
    by (rule mult_strict_left_mono) simp
  also have "(2 :: int) ^ n * 2 ^ m = 2 ^ (m + n)"
    by (simp add: power_add)
  also have "(2 :: int) ^ (m + n) \<le> 2 ^ 32"
    using mn by (intro power_increasing) simp_all
  finally have "uint (push_bit n (take_bit m (drop_bit n v))) = 2 ^ n * ?f"
    unfolding uint_push_bit f by (simp add: mult.commute)
  moreover have "v AND c = push_bit n (take_bit m (drop_bit n v))"
    by (simp only: c slice_eq_mask and.assoc)
  ultimately have "uint (v AND c) = 2 ^ n * ?f" by simp
  then show ?thesis by (simp add: uint_0_iff [symmetric] del: uint_0_iff)
qed

definition is_ilog :: "int \<Rightarrow> int \<Rightarrow> bool" where
  "is_ilog x l \<longleftrightarrow> 0 < l \<and> 2 ^ nat (l - 1) \<le> x \<and> x < 2 ^ nat l"

lemma is_ilog_shift:
  assumes "is_ilog (x div 2 ^ m) l"
  shows "is_ilog x (l + int m)"
proof -
  have l: "0 < l" using assms by (simp add: is_ilog_def)
  have "2 ^ nat (l - 1) * 2 ^ m \<le> x"
    using assms by (simp add: is_ilog_def int_le_div)
  moreover have "x < 2 ^ nat l * 2 ^ m"
    using assms by (simp add: is_ilog_def int_div_less)
  moreover have "nat (l + int m - 1) = nat (l - 1) + m" "nat (l + int m) = nat l + m"
    using l by simp_all
  ultimately show ?thesis using l by (simp add: is_ilog_def power_add)
qed

text \<open>One stage of the binary search: the top \<open>k\<close> of \<open>2 * k\<close> bits are tested.\<close>

lemma ilog_stage:
  assumes c: "c = mask (k + k) AND NOT (mask k :: u32)" and k: "k + k \<le> 32"
    and v: "uint v < 2 ^ (k + k)" "0 < uint v"
    and l: "is_ilog (uint (drop_bit (if v AND c \<noteq> 0 then k else 0) v)) l"
  shows "is_ilog (uint v) (l + (if v AND c \<noteq> 0 then int k else 0))"
  using is_ilog_shift [of "uint v" k l] l by (simp add: uint_drop_bit split: if_splits flip: drop_bit_eq_div)

lemma ilog_stage_bounds:
  assumes c: "c = mask (k + k) AND NOT (mask k :: u32)" and k: "k + k \<le> 32"
    and v: "uint v < 2 ^ (k + k)" "0 < uint v"
  shows "uint (drop_bit (if v AND c \<noteq> 0 then k else 0) v) < 2 ^ k"
    and "0 < uint (drop_bit (if v AND c \<noteq> 0 then k else 0) v)"
proof -
  have d: "uint v div 2 ^ k < 2 ^ k"
    using v(1) by (simp add: power_add int_div_less)
  have d0: "0 \<le> uint v div 2 ^ k" by (simp add: pos_imp_zdiv_nonneg_iff)
  have t: "v AND c \<noteq> 0 \<longleftrightarrow> uint v div 2 ^ k \<noteq> 0"
    using and_field [OF c k, of v] d d0 by simp
  have s: "uint v < 2 ^ k" if "uint v div 2 ^ k = 0"
    using that int_div_less [of "2 ^ k" "uint v" 1] by simp
  show "uint (drop_bit (if v AND c \<noteq> 0 then k else 0) v) < 2 ^ k"
    and "0 < uint (drop_bit (if v AND c \<noteq> 0 then k else 0) v)"
    using t d d0 s v(2) by (auto simp: uint_drop_bit less_le simp flip: drop_bit_eq_div)
qed

lemma ec_ilog_correct:
  assumes "0 < v"
  shows "is_ilog (uint v) (ec_ilog v)"
proof -
  define m1 where "m1 = (if v AND 0xFFFF0000 \<noteq> 0 then 16 else 0 :: nat)"
  define v1 where "v1 = drop_bit m1 v"
  define m2 where "m2 = (if v1 AND 0xFF00 \<noteq> 0 then 8 else 0 :: nat)"
  define v2 where "v2 = drop_bit m2 v1"
  define m3 where "m3 = (if v2 AND 0xF0 \<noteq> 0 then 4 else 0 :: nat)"
  define v3 where "v3 = drop_bit m3 v2"
  define m4 where "m4 = (if v3 AND 0xC \<noteq> 0 then 2 else 0 :: nat)"
  define v4 where "v4 = drop_bit m4 v3"
  define l4 where "l4 = 1 + (of_bool (v4 AND 2 \<noteq> 0) :: int)"
  have c1: "(0xFFFF0000 :: u32) = mask (16 + 16) AND NOT (mask 16)"
    and c2: "(0xFF00 :: u32) = mask (8 + 8) AND NOT (mask 8)"
    and c3: "(0xF0 :: u32) = mask (4 + 4) AND NOT (mask 4)"
    and c4: "(0xC :: u32) = mask (2 + 2) AND NOT (mask 2)"
    by (simp_all add: mask_eq_exp_minus_1)
  have b0: "uint v < 2 ^ (16 + 16)" "0 < uint v"
    using assms uint_lt32 [of v] by (simp_all add: word_less_def)
  have b1: "uint v1 < 2 ^ (8 + 8)" "0 < uint v1"
    using ilog_stage_bounds [OF c1 _ b0] by (simp_all add: v1_def m1_def cong: if_cong)
  have b2: "uint v2 < 2 ^ (4 + 4)" "0 < uint v2"
    using ilog_stage_bounds [OF c2 _ b1] by (simp_all add: v2_def m2_def cong: if_cong)
  have b3: "uint v3 < 2 ^ (2 + 2)" "0 < uint v3"
    using ilog_stage_bounds [OF c3 _ b2] by (simp_all add: v3_def m3_def cong: if_cong)
  have b4: "uint v4 < 4" "0 < uint v4"
    using ilog_stage_bounds [OF c4 _ b3] by (simp_all add: v4_def m4_def cong: if_cong)
  have "uint v4 = 1 \<or> uint v4 = 2 \<or> uint v4 = 3" using b4 by linarith
  then have "v4 = 1 \<or> v4 = 2 \<or> v4 = 3"
    by (metis word_of_int_uint of_int_1 of_int_numeral)
  then have l4: "is_ilog (uint v4) l4"
    by (auto simp: is_ilog_def l4_def)
  have "is_ilog (uint v3) (l4 + int m4)"
    using ilog_stage [OF c4 _ b3] l4 by (simp add: v4_def m4_def split: if_splits)
  then have "is_ilog (uint v2) (l4 + int m4 + int m3)"
    using ilog_stage [OF c3 _ b2] by (simp add: v3_def m3_def split: if_splits)
  then have "is_ilog (uint v1) (l4 + int m4 + int m3 + int m2)"
    using ilog_stage [OF c2 _ b1] by (simp add: v2_def m2_def split: if_splits)
  then have "is_ilog (uint v) (l4 + int m4 + int m3 + int m2 + int m1)"
    using ilog_stage [OF c1 _ b0] by (simp add: v1_def m1_def split: if_splits)
  moreover have "ec_ilog v = ((((1 OR int m1) OR int m2) OR int m3) OR int m4) + of_bool (v4 AND 2 \<noteq> 0)"
    unfolding ec_ilog_def Let_def m1_def [symmetric] v1_def [symmetric] m2_def [symmetric]
      v2_def [symmetric] m3_def [symmetric] v3_def [symmetric] m4_def [symmetric] v4_def [symmetric]
    using assms by (simp add: word_gt_0)
  moreover have "(((1 OR int m1) OR int m2) OR int m3) OR int m4 = 1 + int m1 + int m2 + int m3 + int m4"
    by (simp add: m1_def m2_def m3_def m4_def)
  ultimately show ?thesis by (simp add: algebra_simps l4_def)
qed

section \<open>Raw bits\<close>

lemma uint_or_push:
  fixes w x :: u32
  assumes "uint w < 2 ^ n" and "uint x * 2 ^ n < 2 ^ 32"
  shows "uint (w OR push_bit n x) = uint w + uint x * 2 ^ n"
proof -
  have "uint (push_bit n x) = push_bit n (uint x)"
    using assms(2) by (simp add: uint_push_bit flip: push_bit_eq_mult)
  then have "uint (w OR push_bit n x) = push_bit n (uint x) OR uint w"
    by (simp only: unsigned_or_eq or.commute)
  then show ?thesis using push_or [of "uint w" n "uint x"] assms(1) by (simp add: mult.commute)
qed

text \<open>The window after \<open>ec_enc_bits\<close> has made room for \<open>bits\<close> more bits.\<close>

lemma flush_room:
  assumes sh: "enc_shape e" and u: "0 \<le> u" "u \<le> 32" and w: "uint w < 2 ^ nat u"
    and bits: "bits \<le> 25"
    and r: "(if u + int bits > EC_WINDOW_SIZE
             then ec_flush_window (drop_bit EC_SYM_BITS w) (u - int EC_SYM_BITS) (flush_byte w e)
             else (w, u, e)) = (w', u', e')"
  shows "enc_shape e' \<and> 0 \<le> u' \<and> u' + int bits \<le> 32 \<and> uint w' < 2 ^ nat u'
    \<and> (ec_error e' = 0 \<longrightarrow> ec_error e = 0 \<and> enc_out e' = enc_out e \<and> raw_bits w' e' = raw_bits w e
         \<and> 8 * ec_end_offs e' + nat u' = 8 * ec_end_offs e + nat u)"
proof (cases "u + int bits > EC_WINDOW_SIZE")
  case True
  then have "int EC_SYM_BITS \<le> u" using bits by (simp add: ec_consts)
  then have "ec_flush_window w u e = (w', u', e')"
    using r True by (simp add: ec_flush_window.simps [of w u e])
  from flush_window_ok [OF this sh u(1) w] show ?thesis using bits by auto
next
  case False
  then show ?thesis using r assms by (simp add: ec_consts)
qed

lemma flush_window_frame:
  "ec_flush_window w u e = (w', u', e') \<Longrightarrow>
   ec_val e' = ec_val e \<and> ec_rng e' = ec_rng e \<and> ec_rem e' = ec_rem e \<and> ec_ext e' = ec_ext e
   \<and> ec_nbits_total e' = ec_nbits_total e \<and> ec_storage e' = ec_storage e \<and> ec_offs e' = ec_offs e"
proof (induction w u e rule: ec_flush_window.induct)
  case (1 w u e)
  then show ?case
    by (cases "int EC_SYM_BITS \<le> u") (simp_all add: ec_flush_window.simps [of w u e])
qed

lemma enc_bits_ok:
  assumes inv: "enc_inv e" and bits: "bits \<le> 25" and fl: "uint fl < 2 ^ bits"
  defines "e' \<equiv> ec_enc_bits fl bits e"
  shows "enc_inv e'"
    and "enc_good e' \<Longrightarrow> enc_good e \<and> enc_bytes e' = enc_bytes e \<and> enc_low e' = enc_low e
      \<and> ec_rng e' = ec_rng e \<and> ec_nbits_total e' = ec_nbits_total e + int bits
      \<and> enc_nraw e' = enc_nraw e + bits \<and> enc_raw e' = enc_raw e + 2 ^ enc_nraw e * uint fl"
proof -
  have mid: "enc_mid e" using inv by (simp add: enc_inv_def)
  obtain w u e1 where r: "(if ec_nend_bits e + int bits > EC_WINDOW_SIZE
      then ec_flush_window (drop_bit EC_SYM_BITS (ec_end_window e)) (ec_nend_bits e - int EC_SYM_BITS)
             (flush_byte (ec_end_window e) e)
      else (ec_end_window e, ec_nend_bits e, e)) = (w, u, e1)"
    by (metis prod_cases3)
  have e': "e' = e1\<lparr>ec_end_window := w OR push_bit (nat u) fl, ec_nend_bits := u + int bits,
      ec_nbits_total := ec_nbits_total e1 + int bits\<rparr>"
    by (simp add: e'_def ec_enc_bits_def Let_def r)
  have ok: "enc_shape e1 \<and> 0 \<le> u \<and> u + int bits \<le> 32 \<and> uint w < 2 ^ nat u
    \<and> (ec_error e1 = 0 \<longrightarrow> ec_error e = 0 \<and> enc_out e1 = enc_out e
         \<and> raw_bits w e1 = raw_bits (ec_end_window e) e
         \<and> 8 * ec_end_offs e1 + nat u = 8 * ec_end_offs e + nat (ec_nend_bits e))"
    using flush_room [OF _ _ _ _ bits r] mid by (simp add: enc_mid_def)
  have fr: "ec_val e1 = ec_val e \<and> ec_rng e1 = ec_rng e \<and> ec_rem e1 = ec_rem e \<and> ec_ext e1 = ec_ext e
     \<and> ec_nbits_total e1 = ec_nbits_total e"
    using r flush_window_frame by (auto split: if_splits dest!: flush_window_frame)
  have nu: "nat (u + int bits) = nat u + bits" using ok by (simp add: nat_add_distrib)
  have w: "uint (w OR push_bit (nat u) fl) = uint w + uint fl * 2 ^ nat u"
    and wlt: "uint w + uint fl * 2 ^ nat u < 2 ^ (nat u + bits)"
  proof -
    have "(uint fl + 1) * 2 ^ nat u \<le> 2 ^ bits * 2 ^ nat u"
      using fl by (intro mult_right_mono) simp_all
    then have *: "uint fl * 2 ^ nat u + 2 ^ nat u \<le> 2 ^ (nat u + bits)"
      by (simp add: algebra_simps power_add)
    also have "(2 :: int) ^ (nat u + bits) \<le> 2 ^ 32"
      using ok by (intro power_increasing) auto
    finally have "uint fl * 2 ^ nat u + 2 ^ nat u \<le> 2 ^ 32" .
    moreover have "(0 :: int) < 2 ^ nat u" by simp
    ultimately have "uint fl * 2 ^ nat u < 2 ^ 32" by linarith
    then show "uint (w OR push_bit (nat u) fl) = uint w + uint fl * 2 ^ nat u"
      using ok by (intro uint_or_push) simp_all
    show "uint w + uint fl * 2 ^ nat u < 2 ^ (nat u + bits)"
      using * ok by simp
  qed
  show B: "enc_good e \<and> enc_bytes e' = enc_bytes e \<and> enc_low e' = enc_low e
      \<and> ec_rng e' = ec_rng e \<and> ec_nbits_total e' = ec_nbits_total e + int bits
      \<and> enc_nraw e' = enc_nraw e + bits \<and> enc_raw e' = enc_raw e + 2 ^ enc_nraw e * uint fl"
    if "enc_good e'"
  proof -
    have er: "ec_error e1 = 0" and g: "enc_good e" using that ok fr by (auto simp: e' enc_good_def)
    have out: "enc_bytes e' = enc_bytes e" using er ok fr by (simp add: e' enc_bytes_def enc_out_def)
    have n: "8 * ec_end_offs e1 + nat u = enc_nraw e" using er ok by (simp add: enc_nraw_def)
    have "enc_raw e' = raw_bits w e1 + 256 ^ ec_end_offs e1 * (uint fl * 2 ^ nat u)"
      by (simp add: enc_raw_raw_bits raw_bits_def e' w enc_tail_def algebra_simps)
    also have "256 ^ ec_end_offs e1 * (uint fl * 2 ^ nat u) = 2 ^ enc_nraw e * uint fl"
      unfolding n [symmetric] by (simp add: power_add power_mult)
    finally show ?thesis
      using g out er ok fr n nu by (simp add: e' enc_low_def enc_raw_raw_bits enc_nraw_def)
  qed
  show "enc_inv e'"
  proof -
    have f: "ec_rem e' = ec_rem e" "ec_rng e' = ec_rng e" "ec_val e' = ec_val e"
        "ec_nend_bits e' = u + int bits" "uint (ec_end_window e') < 2 ^ nat (ec_nend_bits e')"
      using fr w wlt nu by (simp_all add: e')
    have sh: "enc_shape e'" using ok by (simp add: e' enc_shape_def)
    have u: "0 \<le> u + int bits" "u + int bits \<le> 32" using ok by simp_all
    have c: "ec_nbits_total e' = 33 + 8 * int (length (enc_bytes e')) + int (enc_nraw e')"
      if "enc_good e'"
      using B [OF that] mid by (simp add: enc_mid_def)
    have "enc_mid e'"
      using mid f(5) sh u c unfolding enc_mid_def f(1-4) by blast
    then show ?thesis using inv f by (simp add: enc_inv_def)
  qed
qed

lemma enc_bits_hits:
  assumes inv: "enc_inv e" and bits: "bits \<le> 25" and fl: "uint fl < 2 ^ bits"
    and h: "hits S (ec_enc_bits fl bits e)"
  shows "hits S e" and "le_value (rev S) div 2 ^ enc_nraw e mod 2 ^ bits = uint fl"
proof -
  let ?X = "le_value (rev S)"
  have g: "enc_good (ec_enc_bits fl bits e)" using h by (simp add: hits_def)
  note ok = enc_bits_ok(2) [OF inv bits fl g]
  have X: "?X mod 2 ^ (enc_nraw e + bits) = enc_raw e + 2 ^ enc_nraw e * uint fl"
    using h ok by (simp add: hits_def)
  have rawb: "0 \<le> enc_raw e \<and> enc_raw e < 2 ^ enc_nraw e"
  proof -
    have sh: "enc_shape e" and u: "uint (ec_end_window e) < 2 ^ nat (ec_nend_bits e)"
      using inv by (simp_all add: enc_inv_def enc_mid_def)
    have "le_value (rev (enc_tail e)) < 256 ^ ec_end_offs e"
      using le_value_less [of "rev (enc_tail e)"] length_enc_tail [OF sh] by simp
    moreover have "256 ^ ec_end_offs e * (uint (ec_end_window e) + 1)
        \<le> 256 ^ ec_end_offs e * 2 ^ nat (ec_nend_bits e)"
      using u by (intro mult_left_mono) simp_all
    moreover have "(2 :: int) ^ enc_nraw e = 256 ^ ec_end_offs e * 2 ^ nat (ec_nend_bits e)"
      by (simp add: enc_nraw_def power_add power_mult)
    ultimately show ?thesis
      using le_value_ge0 [of "rev (enc_tail e)"] by (simp add: enc_raw_def algebra_simps)
  qed
  have "?X mod 2 ^ enc_nraw e = ?X mod 2 ^ (enc_nraw e + bits) mod 2 ^ enc_nraw e"
    by (rule mod_mod_cancel [symmetric]) (simp add: le_imp_power_dvd)
  also have "\<dots> = enc_raw e" using rawb by (simp add: X)
  finally have low: "?X mod 2 ^ enc_nraw e = enc_raw e" .
  show "hits S e" using h ok low by (simp add: hits_def)
  have "?X div 2 ^ enc_nraw e mod 2 ^ bits = ?X mod 2 ^ (enc_nraw e + bits) div 2 ^ enc_nraw e"
    using drop_bit_take_bit [of "enc_nraw e" "enc_nraw e + bits" ?X]
    by (simp only: drop_bit_eq_div take_bit_eq_mod diff_add_inverse)
  also have "\<dots> = uint fl" using rawb by (simp only: X) simp
  finally show "?X div 2 ^ enc_nraw e mod 2 ^ bits = uint fl" .
qed

text \<open>The decoder's window is a slice of the same number.\<close>

lemma le_digit: "le_value xs div 256 ^ k mod 256 = (if k < length xs then uint (xs ! k) else 0)"
proof (induction xs arbitrary: k)
  case (Cons x xs)
  have x: "0 \<le> uint x" "uint x < 256" using uint_lt8 [of x] by simp_all
  show ?case
  proof (cases k)
    case 0
    have "(uint x + 256 * le_value xs) mod 256 = uint x" using x by simp
    then show ?thesis using 0 by simp
  next
    case (Suc j)
    have "(uint x + 256 * le_value xs) div 256 ^ k = (uint x + 256 * le_value xs) div 256 div 256 ^ j"
      by (simp add: Suc zdiv_zmult2_eq)
    also have "(uint x + 256 * le_value xs) div 256 = le_value xs" using x by simp
    finally show ?thesis using Cons.IH [of j] Suc by simp
  qed
qed simp

definition dec_window :: "byte list \<Rightarrow> nat \<Rightarrow> u32 \<Rightarrow> int \<Rightarrow> ec_ctx \<Rightarrow> bool" where
  "dec_window S c w a d \<longleftrightarrow> 0 \<le> a \<and> a \<le> 32 \<and> 8 dvd c + nat a
     \<and> ec_buf d = S \<and> ec_storage d = length S
     \<and> ec_end_offs d = min ((c + nat a) div 8) (length S)
     \<and> uint w = le_value (rev S) div 2 ^ c mod 2 ^ nat a"

lemma refill_step_ok:
  assumes dw: "dec_window S c w a d" and a: "a \<le> 24"
    and r: "ec_refill_step (w, a, d) = (w', a', d')"
  shows "dec_window S c w' a' d' \<and> a' = a + 8 \<and> (\<exists>n. d' = d\<lparr>ec_end_offs := n\<rparr>)"
proof -
  let ?X = "le_value (rev S)"
  define k where "k = (c + nat a) div 8"
  have a0: "0 \<le> a" using dw by (simp add: dec_window_def)
  have ck: "c + nat a = 8 * k" using dw by (simp add: dec_window_def k_def)
  define b where "b = (if k < length S then uint (rev S ! k) else 0)"
  have b: "0 \<le> b" "b < 256" using uint_lt8 by (auto simp: b_def)
  have rd: "fst (ec_read_byte_from_end d) = b"
    using dw by (auto simp: ec_read_byte_from_end_def dec_window_def b_def rev_nth k_def min_def)
  have "?X div 2 ^ c div 2 ^ nat a mod 256 = b"
  proof -
    have "?X div 2 ^ c div 2 ^ nat a = ?X div 2 ^ (c + nat a)"
      by (simp add: power_add zdiv_zmult2_eq)
    also have "\<dots> = ?X div 256 ^ k" by (simp add: ck power_mult)
    finally show ?thesis using le_digit [of "rev S" k] by (simp add: b_def)
  qed
  then have slice: "?X div 2 ^ c mod 2 ^ (nat a + 8) = uint w + b * 2 ^ nat a"
    using dw by (simp add: dec_window_def power_add zmod_zmult2_eq algebra_simps)
  have wl: "uint w < 2 ^ nat a" using dw by (simp add: dec_window_def)
  have ub: "uint (of_int b :: u32) = b" using b by (simp add: uint_word_of_int)
  have "b * 2 ^ nat a < 256 * 2 ^ nat a" using b by (intro mult_strict_right_mono) simp_all
  also have "(256 :: int) * 2 ^ nat a = 2 ^ (nat a + 8)" by (simp add: power_add)
  also have "(2 :: int) ^ (nat a + 8) \<le> 2 ^ 32" using a by (intro power_increasing) simp_all
  finally have w': "uint (w OR push_bit (nat a) (of_int b)) = uint w + b * 2 ^ nat a"
    using uint_or_push [OF wl, of "of_int b"] ub by simp
  have na: "nat (a + 8) = nat a + 8" using a0 by simp
  have res: "w' = w OR push_bit (nat a) (of_int b)" "a' = a + 8" "d' = snd (ec_read_byte_from_end d)"
    using r rd by (auto simp: ec_refill_step_def ec_consts split: prod.splits)
  have "(c + nat a') div 8 = Suc k" using ck na by (simp add: res)
  then have end_offs: "ec_end_offs d' = min ((c + nat a') div 8) (length S)"
    using dw by (auto simp: res(3) ec_read_byte_from_end_def dec_window_def k_def [symmetric])
  have "\<exists>n. d' = d\<lparr>ec_end_offs := n\<rparr>"
    by (simp add: res ec_read_byte_from_end_def) (metis ec_ctx.surjective ec_ctx.update_convs(3))
  then obtain n where n: "d' = d\<lparr>ec_end_offs := n\<rparr>" ..
  have "c + nat a' = 8 * Suc k" using ck na by (simp add: res)
  then have "8 dvd c + nat a'" by simp
  then have "dec_window S c w' a' d'"
    using dw a a0 end_offs n w' slice na by (simp add: dec_window_def res(1,2))
  then show ?thesis using n res by auto
qed

lemma refill_ok:
  assumes "ec_refill w a d = (w', a', d')" and "dec_window S c w a d"
  shows "dec_window S c w' a' d' \<and> 24 < a' \<and> (\<exists>n. d' = d\<lparr>ec_end_offs := n\<rparr>)"
  using assms
proof (induction w a d rule: ec_refill.induct)
  case (1 w a d)
  show ?case
  proof (cases "a \<le> EC_WINDOW_SIZE - int EC_SYM_BITS")
    case True
    obtain w1 a1 d1 where st: "ec_refill_step (w, a, d) = (w1, a1, d1)" by (metis prod_cases3)
    have a: "a \<le> 24" using True by (simp add: ec_consts)
    note ok = refill_step_ok [OF 1(3) a st]
    obtain b d2 where rd: "ec_read_byte_from_end d = (b, d2)" by (metis surj_pair)
    have w1: "w1 = w OR push_bit (nat a) (of_int b)" "a1 = a + int EC_SYM_BITS" "d1 = d2"
      using st rd by (simp_all add: ec_refill_step_def)
    have "ec_refill w1 a1 d1 = (w', a', d')"
      using 1(2) True by (simp add: ec_refill.simps [of w a d] rd w1)
    from 1(1) [OF True rd [symmetric] refl this [unfolded w1] ] ok
    show ?thesis by (auto simp: w1)
  next
    case False
    then show ?thesis using 1(2,3) by (simp add: ec_refill.simps [of w a d] ec_consts) (metis ec_ctx.surjective ec_ctx.update_convs(3))
  qed
qed

lemma dec_window_take:
  assumes "dec_window S c w a d" and "int bits \<le> a"
  shows "uint (w AND (push_bit bits 1 - 1)) = le_value (rev S) div 2 ^ c mod 2 ^ bits"
    and "dec_window S (c + bits) (drop_bit bits w) (a - int bits) d"
proof -
  let ?X = "le_value (rev S)"
  have a: "nat a = bits + nat (a - int bits)" using assms by (simp add: dec_window_def)
  have w: "uint w = ?X div 2 ^ c mod 2 ^ nat a" using assms by (simp add: dec_window_def)
  have "w AND (push_bit bits 1 - 1) = take_bit bits w"
    by (simp only: take_bit_eq_mask mask_eq_exp_minus_1 push_bit_of_1)
  then have "uint (w AND (push_bit bits 1 - 1)) = uint w mod 2 ^ bits"
    by (simp only: unsigned_take_bit_eq) (rule take_bit_eq_mod)
  also have "\<dots> = ?X div 2 ^ c mod 2 ^ bits"
    unfolding w by (rule mod_mod_cancel) (simp add: a le_imp_power_dvd)
  finally show "uint (w AND (push_bit bits 1 - 1)) = ?X div 2 ^ c mod 2 ^ bits" .
  have "?X div 2 ^ (c + bits) = ?X div 2 ^ c div 2 ^ bits"
    by (simp add: power_add zdiv_zmult2_eq)
  moreover have "uint w div 2 ^ bits = ?X div 2 ^ c div 2 ^ bits mod 2 ^ nat (a - int bits)"
    using drop_bit_take_bit [of bits "nat a" "?X div 2 ^ c"] a
    by (simp only: w drop_bit_eq_div take_bit_eq_mod) simp
  ultimately have "uint (drop_bit bits w) = ?X div 2 ^ (c + bits) mod 2 ^ nat (a - int bits)"
    by (simp only: uint_drop_bit)
  moreover have "c + bits + nat (a - int bits) = c + nat a" using a by simp
  ultimately show "dec_window S (c + bits) (drop_bit bits w) (a - int bits) d"
    using assms by (simp only: dec_window_def) simp
qed

lemma sync_window:
  "sync S e d \<Longrightarrow> dec_window S (enc_nraw e) (ec_end_window d) (ec_nend_bits d) d"
  by (simp add: sync_def dec_window_def)

lemma dec_bits_sync:
  assumes sy: "sync S e d" and bits: "bits \<le> 25"
    and e': "enc_bytes e' = enc_bytes e" "enc_low e' = enc_low e" "ec_rng e' = ec_rng e"
      "ec_nbits_total e' = ec_nbits_total e + int bits" "enc_nraw e' = enc_nraw e + bits"
  shows "uint (fst (ec_dec_bits bits d)) = le_value (rev S) div 2 ^ enc_nraw e mod 2 ^ bits"
    and "sync S e' (snd (ec_dec_bits bits d))"
proof -
  obtain w a d1 where r: "(if ec_nend_bits d < int bits then
              let (window, available, this) = ec_refill_step (ec_end_window d, ec_nend_bits d, d)
              in ec_refill window available this
            else (ec_end_window d, ec_nend_bits d, d)) = (w, a, d1)"
    by (metis prod_cases3)
  have dw: "dec_window S (enc_nraw e) w a d1 \<and> int bits \<le> a \<and> (\<exists>n. d1 = d\<lparr>ec_end_offs := n\<rparr>)"
  proof (cases "ec_nend_bits d < int bits")
    case True
    obtain w1 a1 d2 where st: "ec_refill_step (ec_end_window d, ec_nend_bits d, d) = (w1, a1, d2)"
      by (metis prod_cases3)
    have a: "ec_nend_bits d \<le> 24" using True bits by simp
    have "ec_refill w1 a1 d2 = (w, a, d1)" using r True st by simp
    from refill_ok [OF this] refill_step_ok [OF sync_window [OF sy] a st]
    have "dec_window S (enc_nraw e) w a d1" "24 < a" "\<exists>n. d1 = d\<lparr>ec_end_offs := n\<rparr>"
      by auto
    then show ?thesis using bits by auto
  next
    case False
    then show ?thesis using r sync_window [OF sy] by (auto intro: exI [of _ "ec_end_offs d"])
  qed
  then obtain n where d1: "d1 = d\<lparr>ec_end_offs := n\<rparr>" by blast
  have out: "ec_dec_bits bits d = (w AND (push_bit bits 1 - 1),
      d1\<lparr>ec_end_window := drop_bit bits w, ec_nend_bits := a - int bits,
         ec_nbits_total := ec_nbits_total d1 + int bits\<rparr>)"
    by (simp only: ec_dec_bits_def Let_def r [unfolded Let_def] prod.case)
  show "uint (fst (ec_dec_bits bits d)) = le_value (rev S) div 2 ^ enc_nraw e mod 2 ^ bits"
    using dec_window_take(1) [of S "enc_nraw e" w a d1 bits] dw by (simp add: out)
  have "dec_window S (enc_nraw e') (drop_bit bits w) (a - int bits) d1"
    using dec_window_take(2) [of S "enc_nraw e" w a d1 bits] dw by (simp add: e')
  then show "sync S e' (snd (ec_dec_bits bits d))"
    using sy by (simp add: sync_def out d1 e' dec_window_def)
qed

section \<open>The end of the stream\<close>

text \<open>
  \<open>ec_done_end\<close> picks a multiple \<open>end\<close> of \<open>2 ^ (31 - l)\<close> such that every continuation
  of its first \<open>l\<close> bits lies in the interval.
\<close>

lemma uint_mask: "n \<le> 32 \<Longrightarrow> uint (mask n :: u32) = 2 ^ n - 1"
proof -
  assume n: "n \<le> 32"
  have "mask n = take_bit n (- 1 :: u32)" by (rule take_bit_minus_one_eq_mask [symmetric])
  then have "uint (mask n :: u32) = take_bit n (mask 32)"
    by (simp only: unsigned_take_bit_eq unsigned_minus_1_eq_mask) simp
  also have "\<dots> = mask n" using n by (intro bit_eqI) (auto simp: bit_simps)
  finally show ?thesis by (simp add: mask_eq_exp_minus_1)
qed

lemma dvd_room:
  assumes "2 ^ n dvd (x :: int)" and "x < 2 ^ m" and "n \<le> m"
  shows "x + 2 ^ n \<le> 2 ^ m"
proof -
  obtain q where q: "x = 2 ^ n * q" using assms(1) by blast
  have m: "(2 :: int) ^ m = 2 ^ n * 2 ^ (m - n)" using assms(3) by (simp add: power_add [symmetric])
  have "q < 2 ^ (m - n)" using assms(2) q m by simp
  then have "2 ^ n * (q + 1) \<le> 2 ^ n * (2 :: int) ^ (m - n)" by (intro mult_left_mono) simp_all
  then show ?thesis using q m by (simp add: algebra_simps)
qed

lemma drop_mask: "drop_bit m (mask n :: u32) = mask (n - m)" if "n \<le> 32"
  using that by (intro bit_eqI) (auto simp: bit_simps)

lemma and_not_mask: "uint ((x :: u32) AND NOT (mask n)) = uint x div 2 ^ n * 2 ^ n"
proof -
  have "x AND NOT (mask n) = push_bit n (drop_bit n x)"
    by (rule bit_eqI) (auto simp: bit_simps)
  moreover have "uint x div 2 ^ n * 2 ^ n \<le> uint x"
    using int_le_div [of "2 ^ n" "uint x div 2 ^ n" "uint x"] by simp
  moreover have "0 \<le> uint x div 2 ^ n * 2 ^ n" by (simp add: pos_imp_zdiv_nonneg_iff)
  ultimately show ?thesis
    using uint_lt32 [of x] by (simp only: uint_push_bit uint_drop_bit) simp
qed

lemma or_mask_add:
  assumes "2 ^ n dvd uint (x :: u32)" and "uint x + (2 ^ n - 1) < 2 ^ 32"
  shows "uint (x OR mask n) = uint x + (2 ^ n - 1)"
proof -
  obtain q where q: "uint x = 2 ^ n * q" using assms(1) by blast
  have n: "n \<le> 32"
  proof (rule ccontr)
    assume "\<not> n \<le> 32"
    then have "(2 :: int) ^ 33 \<le> 2 ^ n" by (intro power_increasing) simp_all
    then show False using assms(2) uint_ge_0 [of x] by simp
  qed
  have "uint (mask n :: u32) = 2 ^ n - 1" by (rule uint_mask [OF n])
  then have "uint (x OR mask n) = push_bit n q OR (2 ^ n - 1)"
    by (simp only: unsigned_or_eq q push_bit_eq_mult mult.commute)
  then show ?thesis using push_or [of "2 ^ n - 1" n q] q by simp
qed

lemma done_end_ok:
  assumes inv: "enc_inv e" and r: "ec_done_end e = (l, end)"
  shows "0 \<le> l \<and> l \<le> 9 \<and> 2 ^ nat (31 - l) dvd uint end \<and> uint (ec_val e) \<le> uint end
    \<and> uint end + 2 ^ nat (31 - l) - 1 < uint (ec_val e) + uint (ec_rng e)"
proof -
  let ?v = "uint (ec_val e)" and ?r = "uint (ec_rng e)"
  have rng: "2 ^ 23 < ?r" "?r \<le> 2 ^ 31" and sum: "?v + ?r < 2 ^ 32"
    using inv by (simp_all add: enc_inv_def enc_mid_def)
  define g where "g = ec_ilog (ec_rng e)"
  have "0 < ec_rng e" using rng by (simp add: word_less_def)
  then have lg: "0 < g" "2 ^ nat (g - 1) \<le> ?r" "?r < 2 ^ nat g"
    using ec_ilog_correct by (auto simp: g_def is_ilog_def)
  have g32: "g \<le> 32"
  proof (rule ccontr)
    assume "\<not> g \<le> 32"
    then have "(2 :: int) ^ 32 \<le> 2 ^ nat (g - 1)" by (intro power_increasing) simp_all
    then show False using lg rng by simp
  qed
  have g24: "24 \<le> g"
  proof (rule ccontr)
    assume "\<not> 24 \<le> g"
    then have "(2 :: int) ^ nat g \<le> 2 ^ 23" by (intro power_increasing) simp_all
    then show False using lg rng by linarith
  qed
  have pick: "2 ^ n dvd uint (ec_val e + mask n AND NOT (mask n))
      \<and> ?v \<le> uint (ec_val e + mask n AND NOT (mask n))
      \<and> uint (ec_val e + mask n AND NOT (mask n)) \<le> ?v + 2 ^ n - 1"
    if n: "n \<le> nat (g - 1)" for n
  proof -
    have "(2 :: int) ^ n \<le> 2 ^ nat (g - 1)" using n by (intro power_increasing) simp_all
    then have nr: "2 ^ n \<le> ?r" using lg by linarith
    have n31: "n \<le> 31" using n g32 by simp
    have "uint (mask n :: u32) = 2 ^ n - 1"
      using n31 by (simp add: uint_mask)
    then have s: "uint (ec_val e + mask n) = ?v + (2 ^ n - 1)"
      using nr sum by (subst uint_add_nowrap) simp_all
    let ?q = "(?v + (2 ^ n - 1)) div 2 ^ n * 2 ^ n"
    have "?q = ?v + (2 ^ n - 1) - (?v + (2 ^ n - 1)) mod 2 ^ n"
      by (simp add: minus_mod_eq_div_mult)
    moreover have "0 \<le> (?v + (2 ^ n - 1)) mod 2 ^ n" "(?v + (2 ^ n - 1)) mod 2 ^ n < 2 ^ n"
      by simp_all
    ultimately have "?v \<le> ?q" "?q \<le> ?v + 2 ^ n - 1" by linarith+
    then show ?thesis unfolding and_not_mask s by simp
  qed
  define n where "n = nat (g - 1)"
  have n31: "n \<le> 31" "nat (31 - (32 - g)) = n" "23 \<le> n" using g32 g24 by (simp_all add: n_def)
  have msk: "drop_bit (nat (32 - g)) (EC_CODE_TOP - 1) = mask n"
  proof -
    have "EC_CODE_TOP - 1 = mask 31" by (simp add: ec_const_values mask_eq_exp_minus_1)
    moreover have "31 - nat (32 - g) = n" using g24 g32 by (simp add: n_def)
    ultimately show ?thesis using drop_mask [of 31 "nat (32 - g)"] by (simp only:)
  qed
  have msk1: "drop_bit 1 (mask n :: u32) = mask (n - 1)"
    using n31 by (intro drop_mask) simp
  have top: "uint (ec_val e + ec_rng e) = ?v + ?r" using sum by (subst uint_add_nowrap) simp_all
  define end0 where "end0 = (ec_val e + mask n AND NOT (mask n))"
  have e0: "2 ^ n dvd uint end0" "?v \<le> uint end0" "uint end0 \<le> ?v + 2 ^ n - 1"
    using pick [of n] by (simp_all add: end0_def n_def)
  have r': "(l, end) = (if (end0 OR mask n) \<ge> ec_val e + ec_rng e
      then (32 - g + 1, ec_val e + mask (n - 1) AND NOT (mask (n - 1))) else (32 - g, end0))"
    using r [symmetric] unfolding ec_done_end_def Let_def g_def [symmetric]
    by (simp add: ec_consts msk [simplified] msk1 [simplified] end0_def)
  have nn: "(2 :: int) ^ n = 2 * 2 ^ (n - 1)" using n31 by (cases n) simp_all
  show ?thesis
  proof (cases "(end0 OR mask n) \<ge> ec_val e + ec_rng e")
    case True
    then have le: "l = 32 - g + 1" "end = ec_val e + mask (n - 1) AND NOT (mask (n - 1))"
      using r' by simp_all
    have l: "nat (31 - l) = n - 1" using g24 g32 le(1) by (simp add: n_def nat_diff_distrib')
    have "uint end + 2 ^ (n - 1) - 1 < ?v + 2 * 2 ^ (n - 1)"
      using pick [of "n - 1"] by (simp add: n_def le(2))
    also have "\<dots> \<le> ?v + ?r" using lg(2) by (simp add: n_def [symmetric] nn)
    finally show ?thesis
      using pick [of "n - 1"] g24 g32 l le by (simp add: n_def)
  next
    case False
    then have le: "l = 32 - g" "end = end0" using r' by simp_all
    have lt: "uint (end0 OR mask n) < ?v + ?r" using False by (simp add: word_le_def not_le top)
    have "uint end0 + (2 ^ n - 1) < 2 ^ 32"
      using dvd_room [OF e0(1), of 32] uint_lt32 [of end0] n31 by simp
    then have "uint (end0 OR mask n) = uint end0 + (2 ^ n - 1)" using or_mask_add e0 by blast
    then show ?thesis using lt e0 le n31 g24 g32 by simp
  qed
qed

text \<open>The value that is left after the top byte of \<open>end\<close> was written.\<close>

abbreviation end_next :: "u32 \<Rightarrow> u32" where
  "end_next x \<equiv> push_bit EC_SYM_BITS x AND (EC_CODE_TOP - 1)"

lemma end_next_uint: "uint (end_next x) = 256 * uint x mod 2 ^ 31"
proof -
  have "uint (end_next x) = uint x * 256 mod 2 ^ 32 mod 2 ^ 31"
    by (simp only: and_code_top uint_push_bit ec_consts) simp
  also have "\<dots> = 256 * uint x mod 2 ^ 31" by (simp add: mod_mod_cancel mult.commute)
  finally show ?thesis .
qed

lemma end_next_split: "256 * uint x = uint (drop_bit EC_CODE_SHIFT x) * 2 ^ 31 + uint (end_next x)"
proof -
  have "uint (drop_bit EC_CODE_SHIFT x) = 256 * uint x div 2 ^ 31"
    by (simp only: uint_drop_bit ec_const_values) simp
  then show ?thesis using div_mult_mod_eq [of "256 * uint x" "2 ^ 31"] by (simp add: end_next_uint)
qed

definition done_rest :: "int \<Rightarrow> u32 \<Rightarrow> bool" where
  "done_rest l x \<longleftrightarrow> -8 < l \<and> l \<le> 16 \<and> (if l \<le> 0 then x = 0 else 2 ^ nat (31 - l) dvd uint x)"

lemma done_rest_next:
  assumes dr: "done_rest l x" and pos: "0 < l"
  shows "done_rest (l - int EC_SYM_BITS) (end_next x)"
proof -
  have l: "l \<le> 16" using dr by (simp add: done_rest_def)
  have "2 ^ nat (31 - l) dvd uint x" using dr pos by (simp add: done_rest_def)
  then have "2 ^ (nat (31 - l) + 8) dvd uint x * 2 ^ 8"
    unfolding power_add by (intro mult_dvd_mono) simp_all
  then have dvd: "2 ^ (nat (31 - l) + 8) dvd 256 * uint x" by (simp add: mult.commute)
  show ?thesis
  proof (cases "l \<le> 8")
    case True
    have "(2 :: int) ^ 31 dvd 2 ^ (nat (31 - l) + 8)"
      using True by (intro le_imp_power_dvd) simp
    then have "2 ^ 31 dvd 256 * uint x" using dvd by (rule dvd_trans)
    then have "uint (end_next x) = 0" by (simp only: end_next_uint mod_eq_0_iff_dvd)
    then have "end_next x = 0" by (simp only: uint_0_iff)
    then show ?thesis using True pos by (simp add: done_rest_def ec_consts)
  next
    case False
    have "(2 :: int) ^ (nat (31 - l) + 8) dvd 2 ^ 31"
      using False l by (intro le_imp_power_dvd) simp
    then have "2 ^ (nat (31 - l) + 8) dvd uint (end_next x)"
      unfolding end_next_uint using dvd by (intro dvd_mod)
    moreover have "nat (31 - (l - int EC_SYM_BITS)) = nat (31 - l) + 8"
      using l by (simp add: ec_consts nat_add_distrib [symmetric])
    ultimately show ?thesis using False l by (simp add: done_rest_def ec_consts)
  qed
qed

lemma done_out_error: "ec_done_out l x e = (l', e') \<Longrightarrow> ec_error e' = 0 \<Longrightarrow> ec_error e = 0"
proof (induction l x e rule: ec_done_out.induct)
  case (1 l x e)
  then show ?case
    by (cases "l > 0") (auto simp: ec_done_out.simps [of l x e] dest: carry_out_error)
qed

text \<open>The conditions under which a carry of \<open>x\<close> can be propagated.\<close>

definition carry_ok :: "u32 \<Rightarrow> ec_ctx \<Rightarrow> bool" where
  "carry_ok x e \<longleftrightarrow> -1 \<le> ec_rem e \<and> ec_rem e < 256
     \<and> (2 ^ 31 \<le> uint x \<longrightarrow> ec_rem e \<noteq> -1 \<and> ec_rem e \<noteq> 255)"

lemma done_step_ok:
  assumes sh: "enc_shape e" and er: "ec_error (ec_enc_carry_out e (uint (drop_bit EC_CODE_SHIFT x))) = 0"
    and co: "carry_ok x e" and len: "length (enc_bytes e) < 2 ^ 32 - 1"
  defines "e1 \<equiv> ec_enc_carry_out e (uint (drop_bit EC_CODE_SHIFT x))"
  shows "be_value 0 (enc_bytes e1) * 2 ^ 31 + uint (end_next x)
      = 256 * (be_value 0 (enc_bytes e) * 2 ^ 31 + uint x)"
    and "length (enc_bytes e1) = Suc (length (enc_bytes e))" and "enc_tail e1 = enc_tail e"
    and "carry_ok (end_next x) e1"
proof -
  let ?c = "uint (drop_bit EC_CODE_SHIFT x)"
  have c: "?c = uint x div 2 ^ 23" by (simp only: uint_drop_bit ec_const_values)
  have c01: "0 \<le> ?c" "?c < 512"
    unfolding c using uint_lt32 [of x] by (simp_all add: pos_imp_zdiv_nonneg_iff int_div_less)
  have big: "256 \<le> ?c \<Longrightarrow> ec_rem e \<noteq> -1 \<and> ec_rem e \<noteq> 255"
    using co unfolding c by (simp add: int_le_div carry_ok_def)
  have "unat (ec_ext e) \<le> length (enc_bytes e)" by (simp add: enc_bytes_def)
  then have ext: "unat (ec_ext e) < 2 ^ 32 - 1" using len by linarith
  have rem: "-1 \<le> ec_rem e" "ec_rem e < 256" using co by (simp_all add: carry_ok_def)
  note ok = carry_out_ok [OF sh er c01 rem big ext]
  show "be_value 0 (enc_bytes e1) * 2 ^ 31 + uint (end_next x)
      = 256 * (be_value 0 (enc_bytes e) * 2 ^ 31 + uint x)"
    using ok end_next_split [of x] by (simp add: e1_def algebra_simps)
  show "length (enc_bytes e1) = Suc (length (enc_bytes e))" and "enc_tail e1 = enc_tail e"
    using ok by (simp_all add: e1_def)
  have "\<not> 2 ^ 31 \<le> uint (end_next x)" by (simp add: end_next_uint)
  moreover have "-1 \<le> ec_rem e1" "ec_rem e1 < 256"
    using carry_out_rem [OF c01(1), of e] rem pos_mod_sign [of 256 ?c] pos_mod_bound [of 256 ?c]
    by (auto simp: e1_def simp del: pos_mod_sign pos_mod_bound)
  ultimately show "carry_ok (end_next x) e1" by (simp add: carry_ok_def)
qed

text \<open>
  \<open>ec_done_out\<close> writes the chosen value: afterwards the bytes, with the pending carries,
  are exactly that value.
\<close>

lemma done_out_ok:
  assumes "ec_done_out l x e = (l', e')" and "enc_shape e" and "ec_error e' = 0"
    and "done_rest l x" and "carry_ok x e" and "length (enc_bytes e) + nat l < 2 ^ 32 - 1"
  shows "\<exists>j. l' = l - 8 * int j \<and> -8 < l' \<and> l' \<le> 0 \<and> enc_shape e'
    \<and> be_value 0 (enc_bytes e') * 2 ^ 31 = 256 ^ j * (be_value 0 (enc_bytes e) * 2 ^ 31 + uint x)
    \<and> length (enc_bytes e') = length (enc_bytes e) + j \<and> enc_tail e' = enc_tail e
    \<and> carry_ok 0 e' \<and> ec_end_offs e' = ec_end_offs e
    \<and> ec_end_window e' = ec_end_window e \<and> ec_nend_bits e' = ec_nend_bits e
    \<and> ec_storage e' = ec_storage e"
  using assms
proof (induction l x e rule: ec_done_out.induct)
  case (1 l x e)
  show ?case
  proof (cases "l > 0")
    case False
    then have "l' = l" "e' = e" using 1(2) by (simp_all add: ec_done_out.simps [of l x e])
    then show ?thesis
      using False 1(3,5,6) by (intro exI [of _ 0]) (simp add: done_rest_def carry_ok_def)
  next
    case True
    let ?e = "ec_enc_carry_out e (uint (drop_bit EC_CODE_SHIFT x))"
    have rec: "ec_done_out (l - int EC_SYM_BITS) (end_next x) ?e = (l', e')"
      using 1(2) True by (simp add: ec_done_out.simps [of l x e])
    have len: "length (enc_bytes e) < 2 ^ 32 - 1" using 1(7) by linarith
    note st = done_step_ok [OF 1(3) done_out_error [OF rec 1(4)] 1(6) len]
    have len': "length (enc_bytes ?e) + nat (l - int EC_SYM_BITS) < 2 ^ 32 - 1"
      using st(2) 1(7) True by (simp add: ec_consts)
    from 1(1) [OF True rec carry_out_shape [OF 1(3)] 1(4) done_rest_next [OF 1(5) True] st(4) len']
    obtain j where j: "l' = l - int EC_SYM_BITS - 8 * int j" "-8 < l'" "l' \<le> 0" "enc_shape e'"
      "be_value 0 (enc_bytes e') * 2 ^ 31 = 256 ^ j * (be_value 0 (enc_bytes ?e) * 2 ^ 31 + uint (end_next x))"
      "length (enc_bytes e') = length (enc_bytes ?e) + j" "enc_tail e' = enc_tail ?e" "carry_ok 0 e'"
      "ec_end_offs e' = ec_end_offs e" "ec_end_window e' = ec_end_window e"
      "ec_nend_bits e' = ec_nend_bits e" "ec_storage e' = ec_storage e"
      by auto
    have "be_value 0 (enc_bytes e') * 2 ^ 31
        = 256 ^ Suc j * (be_value 0 (enc_bytes e) * 2 ^ 31 + uint x)"
      unfolding j(5) st(1) by simp
    then show ?thesis
      using j(1-4,6-12) st(2,3) by (intro exI [of _ "Suc j"] conjI) (assumption | simp add: ec_consts)+
  qed
qed

text \<open>The buffered byte and the pending symbols are flushed.\<close>

lemma done_flush_ok:
  assumes sh: "enc_shape e" and co: "carry_ok 0 e" and len: "length (enc_bytes e) < 2 ^ 32 - 1"
  defines "e2 \<equiv> (if ec_rem e \<ge> 0 \<or> ec_ext e > 0 then ec_enc_carry_out e 0 else e)"
  shows "enc_shape e2" and "ec_error e2 = 0 \<Longrightarrow> be_value 0 (enc_out e2) = be_value 0 (enc_bytes e)
      \<and> length (enc_out e2) = length (enc_bytes e) \<and> enc_tail e2 = enc_tail e"
    and "ec_end_offs e2 = ec_end_offs e" and "ec_end_window e2 = ec_end_window e"
    and "ec_nend_bits e2 = ec_nend_bits e" and "ec_storage e2 = ec_storage e"
proof -
  show "enc_shape e2" using sh carry_out_shape by (simp add: e2_def)
  show "ec_end_offs e2 = ec_end_offs e" "ec_end_window e2 = ec_end_window e"
    "ec_nend_bits e2 = ec_nend_bits e" "ec_storage e2 = ec_storage e"
    by (simp_all add: e2_def)
  show "be_value 0 (enc_out e2) = be_value 0 (enc_bytes e)
      \<and> length (enc_out e2) = length (enc_bytes e) \<and> enc_tail e2 = enc_tail e" if "ec_error e2 = 0"
  proof (cases "ec_rem e \<ge> 0 \<or> ec_ext e > 0")
    case True
    have er: "ec_error (ec_enc_carry_out e 0) = 0" using that True by (simp add: e2_def)
    have "unat (ec_ext e) \<le> length (enc_bytes e)" by (simp add: enc_bytes_def)
    then have ext: "unat (ec_ext e) < 2 ^ 32 - 1" using len by linarith
    have r: "-1 \<le> ec_rem e" "ec_rem e < 256" using co by (simp_all add: carry_ok_def)
    note ok = carry_out_ok [OF sh er _ _ r _ ext]
    have rem0: "ec_rem e2 = 0" using carry_out_rem [of 0 e] True by (simp add: e2_def)
    have "ec_ext e2 = 0"
      using True by (simp add: e2_def ec_enc_carry_out_def Let_def ec_const_values write_ext_ext)
    then have "enc_bytes e2 = enc_out e2 @ [0]" using rem0 by (simp add: enc_bytes_def)
    then show ?thesis using ok True by (simp add: e2_def)
  next
    case False
    then show ?thesis by (simp add: e2_def enc_bytes_def word_gt_0)
  qed
qed

lemma le_value_mod:
  assumes "u \<le> 8"
  shows "le_value (ys @ b # zs) mod 2 ^ (8 * length ys + u)
    = le_value ys + 256 ^ length ys * (uint b mod 2 ^ u)"
proof -
  let ?n = "length ys"
  define P :: int where "P = 256 ^ ?n"
  define q :: int where "q = uint b div 2 ^ u + 2 ^ (8 - u) * le_value zs"
  have m: "(2 :: int) ^ (8 * ?n + u) = P * 2 ^ u" by (simp add: P_def power_add power_mult)
  have "(2 :: int) ^ u * 2 ^ (8 - u) = 2 ^ 8"
    unfolding power_add [symmetric] using assms by simp
  then have "256 * le_value zs = 2 ^ u * (2 ^ (8 - u) * le_value zs)"
    by (simp only: mult.assoc [symmetric]) simp
  moreover have "uint b = uint b mod 2 ^ u + 2 ^ u * (uint b div 2 ^ u)" by simp
  ultimately have b: "uint b + 256 * le_value zs = uint b mod 2 ^ u + 2 ^ u * q"
    by (simp only: q_def distrib_left)
  have "le_value (ys @ b # zs) = le_value ys + P * (uint b + 256 * le_value zs)"
    by (simp add: le_value_append P_def)
  then have eq: "le_value (ys @ b # zs) = (le_value ys + P * (uint b mod 2 ^ u)) + P * 2 ^ u * q"
    unfolding b by (simp only: distrib_left mult.assoc add.assoc)
  have P: "0 < P" by (simp add: P_def)
  have "P * (uint b mod 2 ^ u + 1) \<le> P * 2 ^ u"
    using P by (intro mult_left_mono) (simp_all add: zless_imp_add1_zle)
  then have "le_value ys + P * (uint b mod 2 ^ u) < P * 2 ^ u"
    using le_value_less [of ys] by (simp add: P_def distrib_left)
  moreover have "0 \<le> le_value ys + P * (uint b mod 2 ^ u)"
    using le_value_ge0 [of ys] P by simp
  ultimately show ?thesis unfolding eq m P_def [symmetric]
    by (simp only: mod_mult_self2 mod_pos_pos_trivial)
qed

lemma byte_or_add:
  assumes "2 ^ k dvd uint (b :: byte)" and "uint (w :: u32) < 2 ^ u" and "u \<le> k" and "u \<le> 8"
  shows "uint (b OR ucast w) = uint b + uint w"
proof -
  obtain q where q: "uint b = 2 ^ k * q" using assms(1) by blast
  have "(2 :: int) ^ u \<le> 2 ^ 8" using assms(4) by (intro power_increasing) simp_all
  then have "uint w < 2 ^ 8" using assms(2) by linarith
  then have w: "uint (ucast w :: byte) = uint w"
    by (simp add: unsigned_ucast_eq take_bit_int_eq_self)
  have "(2 :: int) ^ u \<le> 2 ^ k" using assms(3) by (intro power_increasing) simp_all
  then have wk: "uint w < 2 ^ k" using assms(2) by linarith
  have "uint (b OR ucast w) = uint b OR uint w" by (simp only: unsigned_or_eq w)
  also have "uint b = push_bit k q" by (simp add: q push_bit_eq_mult mult.commute)
  also have "push_bit k q OR uint w = 2 ^ k * q + uint w" using wk by (intro push_or) simp_all
  finally show ?thesis by (simp add: q)
qed

end
