(* ===== verification/Range_Coder_Done.thy ===== *)
theory Range_Coder_Done
  imports Range_Coder_Roundtrip
begin

text \<open>
  The last step of the end of the stream, \<open>ec_done_bits\<close>, and its consequence: when
  \<open>ec_enc_done\<close> reports no error, the buffer it leaves is a codeword of everything that
  was encoded.
\<close>

section \<open>The last raw bits\<close>

lemma clear_unused_split:
  assumes "enc_shape e"
  shows "ec_buf (ec_clear_unused e)
    = enc_out e @ replicate (ec_storage e - ec_offs e - ec_end_offs e) 0 @ enc_tail e"
  by (simp add: ec_clear_unused_def enc_out_def enc_tail_def)

lemma length_enc_out: "enc_shape e \<Longrightarrow> length (enc_out e) = ec_offs e"
  by (simp add: enc_shape_def enc_out_def)

text \<open>The buffer of a final byte that carries the raw bits \<open>w\<close> in its low \<open>u\<close> bits.\<close>

lemma last_byte_raw:
  assumes sh: "enc_shape e" and u: "u \<le> 8" and b: "uint b mod 2 ^ u = uint w"
  shows "le_value (rev (xs @ b # enc_tail e)) mod 2 ^ (8 * ec_end_offs e + u) = raw_bits w e"
  using le_value_mod [OF u, of "rev (enc_tail e)" b "rev xs"] length_enc_tail [OF sh] b
  by (simp add: raw_bits_def)

definition done_ok :: "ec_ctx \<Rightarrow> int \<Rightarrow> nat \<Rightarrow> u32 \<Rightarrow> byte list \<Rightarrow> bool" where
  "done_ok e l u w B \<longleftrightarrow> length B = ec_storage e
     \<and> (\<exists>\<delta>. 0 \<le> \<delta> \<and> \<delta> < 2 ^ nat (- l) \<and> be_value 0 (take (ec_offs e) B) = be_value 0 (enc_out e) + \<delta>)
     \<and> le_value (rev B) mod 2 ^ (8 * ec_end_offs e + u) = raw_bits w e"

lemma done_ok_plain:
  assumes sh: "enc_shape e"
  shows "done_ok e l 0 0 (ec_buf (ec_clear_unused e))"
proof -
  have "length (ec_buf (ec_clear_unused e)) = ec_storage e"
    using sh by (simp add: clear_unused_split length_enc_out length_enc_tail enc_shape_def)
  moreover have "take (ec_offs e) (ec_buf (ec_clear_unused e)) = enc_out e"
    using sh by (simp add: clear_unused_split length_enc_out)
  moreover have "le_value (rev (ec_buf (ec_clear_unused e))) mod 2 ^ (8 * ec_end_offs e)
      = le_value (rev (enc_tail e))"
  proof -
    have "(2 :: int) ^ (8 * ec_end_offs e) = 256 ^ length (rev (enc_tail e))"
      using sh by (simp add: power_mult length_enc_tail)
    then show ?thesis
      using le_value_less [of "rev (enc_tail e)"] le_value_ge0 [of "rev (enc_tail e)"]
      by (simp add: clear_unused_split [OF sh] le_value_append)
  qed
  ultimately show ?thesis
    unfolding done_ok_def by (intro conjI exI [of _ 0]) (simp_all add: raw_bits_def)
qed

lemma done_ok_free:
  assumes sh: "enc_shape e" and u: "u \<le> 8" and w: "uint w < 2 ^ u"
    and free: "ec_offs e + ec_end_offs e < ec_storage e"
  shows "done_ok e l u w ((ec_buf (ec_clear_unused e))
    [ec_storage e - ec_end_offs e - 1 := ec_buf (ec_clear_unused e) ! (ec_storage e - ec_end_offs e - 1) OR ucast w])"
    (is "done_ok e l u w ?B")
proof -
  define m where "m = ec_storage e - ec_offs e - ec_end_offs e - 1"
  define xs where "xs = enc_out e @ replicate m 0"
  have rep: "replicate (ec_storage e - ec_offs e - ec_end_offs e) (0 :: byte) = replicate m 0 @ [0]"
  proof -
    have m: "ec_storage e - ec_offs e - ec_end_offs e = Suc m" using free by (simp add: m_def)
    show ?thesis unfolding m by (simp only: replicate_append_same replicate_Suc)
  qed
  have buf: "ec_buf (ec_clear_unused e) = xs @ 0 # enc_tail e"
    unfolding clear_unused_split [OF sh] rep by (simp add: xs_def)
  have i: "ec_storage e - ec_end_offs e - 1 = length xs"
    using free by (simp add: xs_def length_enc_out [OF sh] m_def)
  have B: "?B = xs @ ucast w # enc_tail e" unfolding buf i by simp
  have "(2 :: int) ^ u \<le> 2 ^ 8" using u by (intro power_increasing) simp_all
  then have "uint w < 2 ^ 8" using w by linarith
  then have "uint (ucast w :: byte) = uint w" by (simp add: unsigned_ucast_eq take_bit_int_eq_self)
  then have "le_value (rev ?B) mod 2 ^ (8 * ec_end_offs e + u) = raw_bits w e"
    unfolding B using last_byte_raw [OF sh u, of "ucast w" w xs] w by simp
  moreover have "take (ec_offs e) ?B = enc_out e"
    unfolding B by (simp add: xs_def length_enc_out [OF sh])
  moreover have "length ?B = ec_storage e"
    unfolding B using sh free by (simp add: xs_def length_enc_out length_enc_tail m_def)
  ultimately show ?thesis unfolding done_ok_def by (intro conjI exI [of _ 0]) simp_all
qed

lemma done_ok_shared:
  assumes sh: "enc_shape e" and u: "u \<le> nat (- l)" and l: "-8 < l" and w: "uint w < 2 ^ u"
    and full: "ec_offs e + ec_end_offs e = ec_storage e" and pos: "ec_end_offs e < ec_storage e"
    and dvd: "2 ^ nat (- l) dvd be_value 0 (enc_out e)"
  shows "done_ok e l u w ((ec_buf (ec_clear_unused e))
    [ec_storage e - ec_end_offs e - 1 := ec_buf (ec_clear_unused e) ! (ec_storage e - ec_end_offs e - 1) OR ucast w])"
    (is "done_ok e l u w ?B")
proof -
  let ?k = "nat (- l)"
  have k: "?k \<le> 8" using l by simp
  obtain xs b where out: "enc_out e = xs @ [b]"
    using full pos length_enc_out [OF sh] by (cases "enc_out e" rule: rev_cases) auto
  have buf: "ec_buf (ec_clear_unused e) = xs @ b # enc_tail e"
    using full by (simp add: clear_unused_split [OF sh] out)
  have lo: "Suc (length xs) = ec_offs e" using length_enc_out [OF sh] out by simp
  then have i: "ec_storage e - ec_end_offs e - 1 = length xs" using full by simp
  have B: "?B = xs @ (b OR ucast w) # enc_tail e" unfolding buf i by simp
  have "(2 :: int) ^ ?k dvd 2 ^ 8" using k by (rule le_imp_power_dvd)
  then have "(2 :: int) ^ ?k dvd 256 * be_value 0 xs" by (intro dvd_mult2) simp
  moreover have "2 ^ ?k dvd 256 * be_value 0 xs + uint b" using dvd out by simp
  ultimately have bd: "2 ^ ?k dvd uint b" by (simp only: dvd_add_right_iff)
  have b': "uint (b OR ucast w) = uint b + uint w"
    using byte_or_add [OF bd w u] u k by simp
  have "2 ^ u dvd uint b" using bd by (rule dvd_trans [OF le_imp_power_dvd [OF u]])
  then have "uint (b OR ucast w) mod 2 ^ u = uint w" using w by (auto simp: b' elim!: dvdE)
  then have "le_value (rev ?B) mod 2 ^ (8 * ec_end_offs e + u) = raw_bits w e"
    unfolding B using u k by (intro last_byte_raw [OF sh]) simp_all
  moreover have "take (ec_offs e) ?B = xs @ [b OR ucast w]"
    unfolding B lo [symmetric] by simp
  then have "be_value 0 (take (ec_offs e) ?B) = be_value 0 (enc_out e) + uint w"
    by (simp add: out b')
  moreover have "uint w < 2 ^ ?k"
    using w power_increasing [OF u, of "2 :: int"] by linarith
  moreover have "length ?B = ec_storage e"
    unfolding B using full lo by (simp add: length_enc_tail [OF sh])
  ultimately show ?thesis unfolding done_ok_def by (intro conjI exI [of _ "uint w"]) simp_all
qed

lemma done_bits_ok:
  assumes sh: "enc_shape e" and u: "0 \<le> u" "u < 8" and w: "uint w < 2 ^ nat u"
    and l: "-8 < l" "l \<le> 0" and dvd: "2 ^ nat (- l) dvd be_value 0 (enc_out e)"
    and er: "ec_error (ec_done_bits l w u e) = 0"
  shows "ec_error e = 0 \<and> done_ok e l (nat u) w (ec_buf (ec_done_bits l w u e))"
proof -
  have e0: "ec_error e = 0" using er by (auto simp: ec_done_bits_def split: if_splits)
  have cl: "ec_storage (ec_clear_unused e) = ec_storage e" "ec_offs (ec_clear_unused e) = ec_offs e"
      "ec_end_offs (ec_clear_unused e) = ec_end_offs e"
    by (simp_all add: ec_clear_unused_def)
  show ?thesis
  proof (cases "u > 0")
    case False
    then have "u = 0" using u by simp
    moreover have "uint w < 1" using w \<open>u = 0\<close> by simp
    then have "uint w = 0" using uint_ge_0 [of w] by linarith
    then have "w = 0" by (simp only: uint_0_iff)
    ultimately show ?thesis using done_ok_plain [OF sh, of l] e0 by (simp add: ec_done_bits_def)
  next
    case True
    let ?busted = "ec_offs e + ec_end_offs e \<ge> ec_storage e \<and> - l < u"
    have pos: "ec_end_offs e < ec_storage e"
      using er e0 True cl by (simp add: ec_done_bits_def Let_def not_le [symmetric] split: if_splits)
    have nb: "\<not> ?busted"
      using er e0 True cl pos by (simp add: ec_done_bits_def Let_def split: if_splits)
    have B: "ec_buf (ec_done_bits l w u e) = (ec_buf (ec_clear_unused e))
        [ec_storage e - ec_end_offs e - 1 := ec_buf (ec_clear_unused e) ! (ec_storage e - ec_end_offs e - 1) OR ucast w]"
      using e0 True cl pos nb by (auto simp add: ec_done_bits_def Let_def)
    show ?thesis
    proof (cases "ec_offs e + ec_end_offs e < ec_storage e")
      case True
      then show ?thesis unfolding B using done_ok_free [OF sh _ w True] u e0 by simp
    next
      case False
      then have full: "ec_offs e + ec_end_offs e = ec_storage e" using sh by (simp add: enc_shape_def)
      then have "nat u \<le> nat (- l)" using nb by simp
      then show ?thesis unfolding B using done_ok_shared [OF sh _ l(1) w full pos dvd] e0 by simp
    qed
  qed
qed

section \<open>The finished buffer is a codeword\<close>

lemma sval_take: "k \<le> length S \<Longrightarrow> sval S k = be_value 0 (take k S)"
  by (induction k) (simp_all add: take_Suc_conv_app_nth sbyte_def)

lemma sval_add:
  "sval S k * 256 ^ m \<le> sval S (k + m) \<and> sval S (k + m) < (sval S k + 1) * 256 ^ m"
proof (induction m)
  case (Suc m)
  have b: "0 \<le> sbyte S (k + m)" "sbyte S (k + m) < 256" by (rule sbyte_bounds)+
  have "256 * (sval S k * 256 ^ m) \<le> 256 * sval S (k + m)"
    using Suc by (intro mult_left_mono) simp_all
  moreover have "256 * (sval S (k + m) + 1) \<le> 256 * ((sval S k + 1) * 256 ^ m)"
    using Suc by (intro mult_left_mono) simp_all
  ultimately show ?case using b by (simp add: algebra_simps)
qed simp

lemma code_bounds:
  assumes "j \<le> 2" and "n + j \<le> length S"
  defines "V \<equiv> be_value 0 (take (n + j) S)" and "K \<equiv> 2 ^ (31 - 8 * j)"
  shows "V * K \<le> code S n" and "code S n < (V + 1) * K"
proof -
  define m where "m = 4 - j"
  have nm: "n + 4 = (n + j) + m" using assms(1) by (simp add: m_def)
  have V: "sval S (n + j) = V" by (simp add: V_def sval_take [OF assms(2)])
  have K: "256 ^ m = 2 * K"
  proof -
    have "8 * m = Suc (31 - 8 * j)" using assms(1) by (simp add: m_def)
    then have "(2 :: int) ^ (8 * m) = 2 ^ Suc (31 - 8 * j)" by (simp only:)
    then show ?thesis by (simp add: K_def power_mult)
  qed
  have b: "V * (2 * K) \<le> sval S (n + 4)" "sval S (n + 4) < (V + 1) * (2 * K)"
    using sval_add [of S "n + j" m] by (simp_all only: nm V K)
  show "V * K \<le> code S n" unfolding code_def using b(1) by (simp add: int_le_div)
  show "code S n < (V + 1) * K" unfolding code_def using b(2) by (simp add: int_div_less)
qed

text \<open>The arithmetic of the end of the stream: the bytes written and any last bits fit.\<close>

lemma done_interval:
  fixes Q low x v r \<delta> :: int
  assumes l: "0 \<le> l" "l \<le> 9" and l': "l' = l - 8 * int j" "-8 < l'" "l' \<le> 0"
    and Q: "Q * 2 ^ 31 = 256 ^ j * (low + x)"
    and e: "2 ^ nat (31 - l) dvd x" "v \<le> x" "x + 2 ^ nat (31 - l) - 1 < v + r"
    and low: "2 ^ 31 dvd low" and \<delta>: "0 \<le> \<delta>" "\<delta> < 2 ^ nat (- l')"
  shows "j \<le> 2" and "2 ^ nat (- l') dvd Q" and "low + v \<le> (Q + \<delta>) * 2 ^ (31 - 8 * j)"
    and "(Q + \<delta> + 1) * 2 ^ (31 - 8 * j) \<le> low + v + r"
proof -
  define K :: int where "K = 2 ^ (31 - 8 * j)"
  have K0: "0 < K" by (simp add: K_def)
  show j: "j \<le> 2" using l l' by linarith
  have "31 = (31 - 8 * j) + 8 * j" using j by simp
  then have "(2 :: int) ^ 31 = 2 ^ ((31 - 8 * j) + 8 * j)" by (simp only:)
  then have K: "(2 :: int) ^ 31 = K * 256 ^ j" by (simp only: K_def power_add power_mult) simp
  have "256 ^ j * (Q * K) = Q * 2 ^ 31" by (simp only: K mult.commute mult.left_commute)
  then have "256 ^ j * (Q * K) = 256 ^ j * (low + x)" using Q by (simp only:)
  then have QK: "Q * K = low + x" by simp
  have "nat (31 - l) = nat (- l') + (31 - 8 * j)" using l l' j by simp
  then have L: "(2 :: int) ^ nat (31 - l) = 2 ^ nat (- l') * K" by (simp add: K_def power_add)
  have "(2 :: int) ^ nat (31 - l) dvd 2 ^ 31" using l by (intro le_imp_power_dvd) simp
  then have "2 ^ nat (31 - l) dvd Q * K" unfolding QK using low e(1) by (meson dvd_add dvd_trans)
  then show "2 ^ nat (- l') dvd Q" using K0 by (simp add: L)
  have "0 \<le> \<delta> * K" using \<delta> K0 by simp
  then show "low + v \<le> (Q + \<delta>) * 2 ^ (31 - 8 * j)"
    using QK e(2) unfolding K_def [symmetric] by (simp add: distrib_right)
  have "(\<delta> + 1) * K \<le> 2 ^ nat (- l') * K" using \<delta> K0 by (intro mult_right_mono) simp_all
  then show "(Q + \<delta> + 1) * 2 ^ (31 - 8 * j) \<le> low + v + r"
    using QK e(3) L unfolding K_def [symmetric] by (simp add: distrib_right)
qed

lemma done_end_rest:
  assumes inv: "enc_inv e" and r: "ec_done_end e = (l, x)"
  shows "done_rest l x" and "carry_ok x e"
proof -
  note ok = done_end_ok [OF inv r]
  have mid: "uint (ec_val e) + uint (ec_rng e) < 2 ^ 32" "-1 \<le> ec_rem e" "ec_rem e < 256"
      "ec_rem e = -1 \<or> ec_rem e = 255 \<Longrightarrow> uint (ec_val e) + uint (ec_rng e) \<le> 2 ^ 31"
    using inv by (simp_all add: enc_inv_def enc_mid_def)
  have "uint x < 2 ^ 31" if "l = 0" using ok mid(1) that by simp
  then have "uint x = 0" if "l = 0"
    using ok that zdvd_not_zless [of "uint x" "2 ^ 31"] uint_ge_0 [of x] by fastforce
  then have "x = 0" if "l = 0" using that by (simp only: uint_0_iff)
  then show "done_rest l x" using ok by (auto simp: done_rest_def)
  have "1 \<le> (2 :: int) ^ nat (31 - l)" by simp
  then have "uint x < uint (ec_val e) + uint (ec_rng e)" using ok by linarith
  then show "carry_ok x e" using mid by (auto simp: carry_ok_def)
qed

lemma flush_window_error:
  "ec_flush_window w u e = (w', u', e') \<Longrightarrow> ec_error e' = 0 \<Longrightarrow> ec_error e = 0"
proof (induction w u e rule: ec_flush_window.induct)
  case (1 w u e)
  then show ?case
    by (cases "int EC_SYM_BITS \<le> u") (simp_all add: ec_flush_window.simps [of w u e])
qed

lemma enc_done_cases:
  assumes "ec_error (ec_enc_done e) = 0" and "enc_shape e"
  obtains l x l' e1 e2 w u e3 where "ec_done_end e = (l, x)" and "ec_done_out l x e = (l', e1)"
    and "e2 = (if ec_rem e1 \<ge> 0 \<or> ec_ext e1 > 0 then ec_enc_carry_out e1 0 else e1)"
    and "ec_flush_window (ec_end_window e2) (ec_nend_bits e2) e2 = (w, u, e3)"
    and "ec_enc_done e = ec_done_bits l' w u e3"
    and "ec_error e = 0" and "ec_error e1 = 0" and "ec_error e3 = 0"
proof -
  obtain l x where de: "ec_done_end e = (l, x)" by (metis surj_pair)
  obtain l' e1 where dout: "ec_done_out l x e = (l', e1)" by (metis surj_pair)
  define e2 where "e2 = (if ec_rem e1 \<ge> 0 \<or> ec_ext e1 > 0 then ec_enc_carry_out e1 0 else e1)"
  obtain w u e3 where fw: "ec_flush_window (ec_end_window e2) (ec_nend_bits e2) e2 = (w, u, e3)"
    by (metis prod_cases3)
  have fin: "ec_enc_done e = ec_done_bits l' w u e3"
    by (simp only: ec_enc_done_def Let_def de dout prod.case e2_def [symmetric] fw)
  have er3: "ec_error e3 = 0"
    using assms(1) unfolding fin by (auto simp: ec_done_bits_def split: if_splits)
  have er2: "ec_error e2 = 0" by (rule flush_window_error [OF fw er3])
  then have er1: "ec_error e1 = 0" by (auto simp: e2_def dest: carry_out_error split: if_splits)
  have "ec_error e = 0" by (rule done_out_error [OF dout er1])
  then show ?thesis using that [OF de dout e2_def fw fin] er1 er3 by blast
qed

lemma enc_done_final:
  assumes inv: "enc_inv e" and n: "ec_nbits_total e < 2 ^ 31"
    and er: "ec_error (ec_enc_done e) = 0"
  defines "B \<equiv> ec_buf (ec_enc_done e)" and "k \<equiv> length (enc_bytes e)"
  shows "\<exists>j V. enc_good e \<and> j \<le> 2 \<and> k + j \<le> length B \<and> V = be_value 0 (take (k + j) B)
    \<and> enc_low e \<le> V * 2 ^ (31 - 8 * j) \<and> (V + 1) * 2 ^ (31 - 8 * j) \<le> enc_low e + uint (ec_rng e)
    \<and> length B = ec_storage e \<and> le_value (rev B) mod 2 ^ enc_nraw e = enc_raw e"
proof -
  have mid: "enc_shape e" "0 \<le> ec_nend_bits e" "uint (ec_end_window e) < 2 ^ nat (ec_nend_bits e)"
      "enc_good e \<Longrightarrow> ec_nbits_total e = 33 + 8 * int (length (enc_bytes e)) + int (enc_nraw e)"
    using inv by (simp_all add: enc_inv_def enc_mid_def)
  obtain l x l' e1 e2 w u e3 where de: "ec_done_end e = (l, x)"
    and dout: "ec_done_out l x e = (l', e1)"
    and e2: "e2 = (if ec_rem e1 \<ge> 0 \<or> ec_ext e1 > 0 then ec_enc_carry_out e1 0 else e1)"
    and fw: "ec_flush_window (ec_end_window e2) (ec_nend_bits e2) e2 = (w, u, e3)"
    and fin: "ec_enc_done e = ec_done_bits l' w u e3"
    and e0: "ec_error e = 0" and er1: "ec_error e1 = 0" and er3: "ec_error e3 = 0"
    using enc_done_cases [OF er mid(1)] by metis
  have g: "enc_good e" using e0 n by (simp add: enc_good_def)
  define Q where "Q = be_value 0 (enc_bytes e1)"
  note de_ok = done_end_ok [OF inv de]
  have "l \<le> 9" using de_ok by blast
  then have len: "length (enc_bytes e) < 2 ^ 28" "nat l \<le> 9" using mid(4) [OF g] n by simp_all
  then have "length (enc_bytes e) + nat l < 2 ^ 32 - 1" by simp
  from done_out_ok [OF dout mid(1) er1 done_end_rest [OF inv de] this]
  obtain j where j: "l' = l - 8 * int j" "-8 < l'" "l' \<le> 0" "enc_shape e1"
      "Q * 2 ^ 31 = 256 ^ j * (be_value 0 (enc_bytes e) * 2 ^ 31 + uint x)"
      "length (enc_bytes e1) = k + j" "enc_tail e1 = enc_tail e"
      "carry_ok 0 e1" "ec_end_offs e1 = ec_end_offs e" "ec_end_window e1 = ec_end_window e"
      "ec_nend_bits e1 = ec_nend_bits e" "ec_storage e1 = ec_storage e"
    unfolding Q_def k_def by blast
  have j2: "j \<le> 2" using j(1-3) de_ok by linarith
  have "length (enc_bytes e1) < 2 ^ 32 - 1" using len j2 by (simp add: j(6) k_def)
  note fl = done_flush_ok [OF j(4,8) this, folded e2]
  have "0 \<le> ec_nend_bits e2" "uint (ec_end_window e2) < 2 ^ nat (ec_nend_bits e2)"
    using fl j mid by simp_all
  note fw_ok = flush_window_ok [OF fw fl(1) this]
  have er2: "ec_error e2 = 0" by (rule flush_window_error [OF fw er3])
  have out: "be_value 0 (enc_out e3) = Q" "length (enc_out e3) = k + j"
    using fw_ok er3 fl(2) [OF er2] j(6) by (simp_all add: Q_def)
  have raw: "raw_bits w e3 = enc_raw e" "8 * ec_end_offs e3 + nat u = enc_nraw e"
    using fw_ok er3 fl(2-5) er2 j by (simp_all add: raw_bits_def enc_raw_def enc_nraw_def)
  have offs: "ec_offs e3 = k + j" using out(2) length_enc_out fw_ok by simp
  have sto: "ec_storage e3 = ec_storage e" using flush_window_frame [OF fw] fl(6) j(12) by simp
  note iv = done_interval [of l l' j Q "be_value 0 (enc_bytes e) * 2 ^ 31" "uint x"
      "uint (ec_val e)" "uint (ec_rng e)"]
  have "2 ^ nat (- l') dvd be_value 0 (enc_out e3)"
    unfolding out using iv(2) [of 0] j(1-3,5) de_ok by simp
  then have ok: "done_ok e3 l' (nat u) w B"
    using done_bits_ok [of e3 u w l'] fw_ok j(2,3) er unfolding fin B_def by blast
  then obtain \<delta> where \<delta>: "0 \<le> \<delta>" "\<delta> < 2 ^ nat (- l')"
      "be_value 0 (take (k + j) B) = Q + \<delta>"
    unfolding done_ok_def offs out by blast
  have B: "length B = ec_storage e" "le_value (rev B) mod 2 ^ enc_nraw e = enc_raw e"
    using ok by (simp_all add: done_ok_def sto raw)
  have "k + j \<le> length B" using fw_ok offs by (simp add: enc_shape_def sto B)
  moreover have "enc_low e \<le> (Q + \<delta>) * 2 ^ (31 - 8 * j)"
    "(Q + \<delta> + 1) * 2 ^ (31 - 8 * j) \<le> enc_low e + uint (ec_rng e)"
    using iv(3,4) [of \<delta>] j(1-3,5) de_ok \<delta> by (simp_all add: enc_low_def)
  ultimately show ?thesis using g j2 B \<delta>(3) by (intro exI [of _ j] exI [of _ "Q + \<delta>"]) simp
qed

lemma enc_done_hits:
  assumes "enc_inv e" and "ec_nbits_total e < 2 ^ 31" and "ec_error (ec_enc_done e) = 0"
  shows "hits (ec_buf (ec_enc_done e)) e" and "length (ec_buf (ec_enc_done e)) = ec_storage e"
proof -
  from enc_done_final [OF assms] obtain j V where f: "enc_good e" "j \<le> 2"
    "length (enc_bytes e) + j \<le> length (ec_buf (ec_enc_done e))"
    "V = be_value 0 (take (length (enc_bytes e) + j) (ec_buf (ec_enc_done e)))"
    "enc_low e \<le> V * 2 ^ (31 - 8 * j)" "(V + 1) * 2 ^ (31 - 8 * j) \<le> enc_low e + uint (ec_rng e)"
    "length (ec_buf (ec_enc_done e)) = ec_storage e"
    "le_value (rev (ec_buf (ec_enc_done e))) mod 2 ^ enc_nraw e = enc_raw e"
    by blast
  note c = code_bounds [OF f(2,3), folded f(4)]
  show "hits (ec_buf (ec_enc_done e)) e" unfolding hits_def using f c by linarith
  show "length (ec_buf (ec_enc_done e)) = ec_storage e" by (rule f(7))
qed

end
