(* ===== verification/Range_Coder_Budget.thy ===== *)
theory Range_Coder_Budget
  imports Range_Coder_Done
begin

text \<open>
  The buffer never overflows while the bits used, as \<open>ec_tell\<close> counts them, fit in it:
  no writer fails, neither during a coding step nor at the end of the stream.
\<close>

section \<open>Coding steps within the budget\<close>

definition within :: "ec_ctx \<Rightarrow> bool" where
  "within e \<longleftrightarrow> ec_nbits_total e \<le> 8 * int (ec_storage e) + 32 \<and> ec_storage e < 2 ^ 27"

lemma within_good: "within e \<Longrightarrow> ec_error e = 0 \<Longrightarrow> enc_good e"
  by (simp add: within_def enc_good_def)

lemma within_mono:
  "within e' \<Longrightarrow> ec_storage e' = ec_storage e \<Longrightarrow> ec_nbits_total e \<le> ec_nbits_total e' \<Longrightarrow> within e"
  by (simp add: within_def)

lemma tell_within:
  assumes "enc_inv e" and "ec_tell e \<le> 8 * int (ec_storage e)" and "ec_storage e < 2 ^ 27"
  shows "within e"
proof -
  have "0 < ec_rng e" using assms(1) by (simp add: enc_inv_def word_less_def)
  then have lg: "2 ^ nat (ec_ilog (ec_rng e) - 1) \<le> uint (ec_rng e)"
    using ec_ilog_correct by (simp add: is_ilog_def)
  have "ec_ilog (ec_rng e) \<le> 32"
  proof (rule ccontr)
    assume "\<not> ec_ilog (ec_rng e) \<le> 32"
    then have "(2 :: int) ^ 32 \<le> 2 ^ nat (ec_ilog (ec_rng e) - 1)" by (intro power_increasing) simp_all
    then show False using lg uint_lt32 [of "ec_rng e"] by simp
  qed
  then show ?thesis using assms(2,3) by (simp add: within_def ec_tell_def)
qed

lemma write_ext_fits:
  "ec_offs e + n + ec_end_offs e \<le> ec_storage e \<Longrightarrow> ec_error (ec_write_ext n b e) = ec_error e"
  by (induction n b e rule: ec_write_ext.induct) (simp_all add: Let_def or_error_def ec_write_byte_def)

lemma carry_out_fits:
  assumes "enc_shape e" and "length (enc_bytes e) + ec_end_offs e \<le> ec_storage e"
  shows "ec_error (ec_enc_carry_out e c) = ec_error e"
proof -
  have n: "ec_offs e + (if ec_rem e \<ge> 0 then 1 else 0) + unat (ec_ext e) + ec_end_offs e \<le> ec_storage e"
    using assms(2) length_enc_out [OF assms(1)] by (simp add: enc_bytes_def split: if_splits)
  show ?thesis
  proof (cases "ec_rem e \<ge> 0")
    case True
    then show ?thesis
      using n by (simp add: ec_enc_carry_out_def Let_def write_ext_fits or_error_def ec_write_byte_def)
  next
    case False
    then show ?thesis using n by (simp add: ec_enc_carry_out_def Let_def write_ext_fits)
  qed
qed

lemma count:
  assumes "enc_mid e" and "enc_good e"
  shows "ec_nbits_total e = 33 + 8 * (int (length (enc_bytes e)) + int (ec_end_offs e)) + ec_nend_bits e"
    and "0 \<le> ec_nend_bits e"
  using assms by (simp_all add: enc_mid_def enc_nraw_def)

lemma normalize_fits:
  assumes "enc_mid e" and "ec_enc_normalize e = Some e'"
  shows "ec_nbits_total e \<le> ec_nbits_total e'"
    and "ec_error e = 0 \<Longrightarrow> within e' \<Longrightarrow> ec_error e' = 0"
proof -
  have "ec_nbits_total e \<le> ec_nbits_total e' \<and> ec_storage e' = ec_storage e
      \<and> (ec_error e = 0 \<and> within e' \<longrightarrow> ec_error e' = 0)"
    using assms
  proof (induction rule: enc_norm_induct)
    case (step e)
    show ?case
    proof (cases "uint (ec_rng e) \<le> 2 ^ 23")
      case True
      have IH: "ec_nbits_total e + 8 \<le> ec_nbits_total e'" "ec_storage e' = ec_storage e"
        "ec_error (ec_enc_norm_step e) = 0 \<Longrightarrow> within e' \<Longrightarrow> ec_error e' = 0"
        using step.IH [OF True] step.prems True by (simp_all add: enc_normalize_step)
      have "ec_error (ec_enc_norm_step e) = 0" if er: "ec_error e = 0" and w: "within e'"
      proof -
        have "enc_good e"
          using within_good [OF within_mono [OF w IH(2)] er] IH(1) by simp
        note c = count [OF step.hyps this]
        have "length (enc_bytes e) + ec_end_offs e \<le> ec_storage e"
          using c IH(1,2) w by (simp add: within_def)
        then show ?thesis
          using carry_out_fits er step.hyps by (simp add: norm_step_frame enc_mid_def)
      qed
      then show ?thesis using IH by simp
    next
      case False
      then show ?thesis using step.prems by (simp add: enc_normalize_stop)
    qed
  qed
  then show "ec_nbits_total e \<le> ec_nbits_total e'"
    and "ec_error e = 0 \<Longrightarrow> within e' \<Longrightarrow> ec_error e' = 0" by simp_all
qed

lemma flush_window_fits:
  assumes "ec_flush_window w u e = (w', u', e')" and "0 \<le> u"
    and "8 * int (ec_offs e + ec_end_offs e) + u \<le> 8 * int (ec_storage e) + 7"
  shows "ec_error e' = ec_error e"
  using assms
proof (induction w u e rule: ec_flush_window.induct)
  case (1 w u e)
  show ?case
  proof (cases "int EC_SYM_BITS \<le> u")
    case True
    let ?e = "flush_byte w e"
    have free: "ec_offs e + ec_end_offs e < ec_storage e" using True 1(4) by (simp add: ec_consts)
    then have f: "ec_error ?e = ec_error e" "ec_end_offs ?e = Suc (ec_end_offs e)"
      by (simp_all add: or_error_def ec_write_byte_at_end_def)
    have "ec_flush_window (drop_bit EC_SYM_BITS w) (u - int EC_SYM_BITS) ?e = (w', u', e')"
      using 1(2) True by (simp add: ec_flush_window.simps [of w u e])
    from 1(1) [OF True this] show ?thesis using True 1(4) f by (simp add: ec_consts)
  next
    case False
    then show ?thesis using 1(2) by (simp add: ec_flush_window.simps [of w u e])
  qed
qed

lemma enc_bits_fits:
  assumes inv: "enc_inv e" and bits: "bits \<le> 25"
  shows "ec_nbits_total (ec_enc_bits fl bits e) = ec_nbits_total e + int bits"
    and "ec_error e = 0 \<Longrightarrow> within (ec_enc_bits fl bits e) \<Longrightarrow> ec_error (ec_enc_bits fl bits e) = 0"
proof -
  obtain w u e1 where r: "(if ec_nend_bits e + int bits > EC_WINDOW_SIZE
      then ec_flush_window (drop_bit EC_SYM_BITS (ec_end_window e)) (ec_nend_bits e - int EC_SYM_BITS)
             (flush_byte (ec_end_window e) e)
      else (ec_end_window e, ec_nend_bits e, e)) = (w, u, e1)"
    by (metis prod_cases3)
  have e': "ec_enc_bits fl bits e = e1\<lparr>ec_end_window := w OR push_bit (nat u) fl, ec_nend_bits := u + int bits,
      ec_nbits_total := ec_nbits_total e1 + int bits\<rparr>"
    by (simp add: ec_enc_bits_def Let_def r)
  have fr: "ec_nbits_total e1 = ec_nbits_total e" "ec_storage e1 = ec_storage e"
    using r flush_window_frame by (auto split: if_splits dest!: flush_window_frame)
  show "ec_nbits_total (ec_enc_bits fl bits e) = ec_nbits_total e + int bits" by (simp add: e' fr)
  assume er: "ec_error e = 0" and w: "within (ec_enc_bits fl bits e)"
  have wi: "ec_nbits_total e + int bits \<le> 8 * int (ec_storage e) + 32" "ec_storage e < 2 ^ 27"
    using w by (simp_all add: within_def e' fr)
  have mid: "enc_mid e" using inv by (simp add: enc_inv_def)
  have "enc_good e" using er wi by (simp add: enc_good_def)
  note c = count [OF mid this]
  have sh: "enc_shape e" using mid by (simp add: enc_mid_def)
  have "ec_offs e \<le> length (enc_bytes e)" using length_enc_out [OF sh] by (simp add: enc_bytes_def)
  then have fit: "8 * int (ec_offs e + ec_end_offs e) + ec_nend_bits e \<le> 8 * int (ec_storage e)"
    using c wi by simp
  have "ec_error e1 = ec_error e"
  proof (cases "ec_nend_bits e + int bits > EC_WINDOW_SIZE")
    case True
    then have "int EC_SYM_BITS \<le> ec_nend_bits e" using bits by (simp add: ec_consts)
    then have "ec_flush_window (ec_end_window e) (ec_nend_bits e) e = (w, u, e1)"
      using r True by (simp add: ec_flush_window.simps [of "ec_end_window e"])
    from flush_window_fits [OF this c(2)] fit show ?thesis by simp
  next
    case False
    then show ?thesis using r by simp
  qed
  then show "ec_error (ec_enc_bits fl bits e) = 0" using er by (simp add: e')
qed

section \<open>The end of the stream within the budget\<close>

lemma done_end_bits:
  assumes "ec_done_end e = (l, x)"
  shows "l \<le> 33 - ec_ilog (ec_rng e)"
  using assms by (auto simp: ec_done_end_def Let_def ec_consts split: if_splits)

lemma done_out_fits:
  assumes "ec_done_out l x e = (l', e')" and "enc_shape e" and "ec_error e = 0"
    and "done_rest l x" and "carry_ok x e"
    and "8 * int (length (enc_bytes e) + ec_end_offs e) + l \<le> 8 * int (ec_storage e)"
    and "ec_storage e < 2 ^ 27"
  shows "ec_error e' = 0"
  using assms
proof (induction l x e rule: ec_done_out.induct)
  case (1 l x e)
  show ?case
  proof (cases "l > 0")
    case False
    then show ?thesis using 1(2,4) by (simp add: ec_done_out.simps [of l x e])
  next
    case True
    let ?e = "ec_enc_carry_out e (uint (drop_bit EC_CODE_SHIFT x))"
    have rec: "ec_done_out (l - int EC_SYM_BITS) (end_next x) ?e = (l', e')"
      using 1(2) True by (simp add: ec_done_out.simps [of l x e])
    have "length (enc_bytes e) + ec_end_offs e \<le> ec_storage e" using 1(7) True by simp
    then have er: "ec_error ?e = 0" using carry_out_fits [OF 1(3)] 1(4) by simp
    have len: "length (enc_bytes e) < 2 ^ 32 - 1" using 1(7,8) True by simp
    note st = done_step_ok [OF 1(3) er 1(6) len]
    have "8 * int (length (enc_bytes ?e) + ec_end_offs ?e) + (l - int EC_SYM_BITS) \<le> 8 * int (ec_storage ?e)"
      using st(2) 1(7) by (simp add: ec_consts)
    from 1(1) [OF True rec carry_out_shape [OF 1(3)] er done_rest_next [OF 1(5) True] st(4) this]
    show ?thesis using 1(8) by simp
  qed
qed

lemma done_bits_fits:
  assumes er: "ec_error e = 0" and u: "0 \<le> u"
    and fit: "8 * int (ec_offs e + ec_end_offs e) + u + l \<le> 8 * int (ec_storage e)"
    and l: "-8 < l" "l \<le> 0" "l < 0 \<Longrightarrow> 0 < ec_offs e"
  shows "ec_error (ec_done_bits l w u e) = 0"
proof (cases "u > 0")
  case True
  have "ec_end_offs e < ec_storage e" using fit True l by (cases "l < 0") auto
  moreover have "\<not> (ec_offs e + ec_end_offs e \<ge> ec_storage e \<and> - l < u)" using fit by auto
  ultimately show ?thesis using er True by (auto simp: ec_done_bits_def ec_clear_unused_def Let_def)
next
  case False
  then show ?thesis using er by (simp add: ec_done_bits_def ec_clear_unused_def)
qed

lemma enc_done_fits:
  assumes inv: "enc_inv e" and er: "ec_error e = 0" and tell: "ec_tell e \<le> 8 * int (ec_storage e)"
    and sto: "ec_storage e < 2 ^ 27"
  shows "ec_error (ec_enc_done e) = 0"
proof -
  have mid: "enc_mid e" "enc_shape e" "0 \<le> ec_nend_bits e" "uint (ec_end_window e) < 2 ^ nat (ec_nend_bits e)"
    using inv by (simp_all add: enc_inv_def enc_mid_def)
  have g: "enc_good e" by (rule within_good [OF tell_within [OF inv tell sto] er])
  obtain l x where de: "ec_done_end e = (l, x)" by (metis surj_pair)
  obtain l' e1 where dout: "ec_done_out l x e = (l', e1)" by (metis surj_pair)
  define e2 where "e2 = (if ec_rem e1 \<ge> 0 \<or> ec_ext e1 > 0 then ec_enc_carry_out e1 0 else e1)"
  obtain w u e3 where fw: "ec_flush_window (ec_end_window e2) (ec_nend_bits e2) e2 = (w, u, e3)"
    by (metis prod_cases3)
  have fin: "ec_enc_done e = ec_done_bits l' w u e3"
    by (simp only: ec_enc_done_def Let_def de dout prod.case e2_def [symmetric] fw)
  have fit: "8 * int (length (enc_bytes e) + ec_end_offs e) + ec_nend_bits e + l \<le> 8 * int (ec_storage e)"
    using count [OF mid(1) g] tell done_end_bits [OF de] by (simp add: ec_tell_def)
  have l: "0 \<le> l" "l \<le> 9" using done_end_ok [OF inv de] by blast+
  note dr = done_end_rest [OF inv de]
  have er1: "ec_error e1 = 0" using done_out_fits [OF dout mid(2) er dr] fit mid(3) sto by simp
  have "length (enc_bytes e) + nat l < 2 ^ 32 - 1" using fit l mid(3) sto by simp
  from done_out_ok [OF dout mid(2) er1 dr this]
  obtain j where j: "l' = l - 8 * int j" "-8 < l'" "l' \<le> 0" "enc_shape e1"
      "length (enc_bytes e1) = length (enc_bytes e) + j" "carry_ok 0 e1"
      "ec_end_offs e1 = ec_end_offs e" "ec_end_window e1 = ec_end_window e"
      "ec_nend_bits e1 = ec_nend_bits e" "ec_storage e1 = ec_storage e" by blast
  have "8 * int (length (enc_bytes e1) + ec_end_offs e1) < 8 * int (ec_storage e1) + 8"
    unfolding j(5,7,10) using fit j(1,2) mid(3) by simp
  then have fit1: "length (enc_bytes e1) + ec_end_offs e1 \<le> ec_storage e1" by presburger
  have er2: "ec_error e2 = 0" using carry_out_fits [OF j(4) fit1] er1 by (simp add: e2_def)
  have "length (enc_bytes e1) < 2 ^ 32 - 1" using fit1 sto j(10) by simp
  note fl = done_flush_ok [OF j(4,6) this, folded e2_def]
  have f2: "ec_end_offs e2 = ec_end_offs e" "ec_nend_bits e2 = ec_nend_bits e" "ec_storage e2 = ec_storage e"
    "ec_end_window e2 = ec_end_window e"
    using fl j by simp_all
  have o2: "ec_offs e2 = length (enc_bytes e) + j" using fl(2) [OF er2] length_enc_out [OF fl(1)] j(5) by simp
  have "8 * int (ec_offs e2 + ec_end_offs e2) + ec_nend_bits e2 \<le> 8 * int (ec_storage e2) + 7"
    unfolding f2 o2 using fit j(1,2) by simp
  then have er3: "ec_error e3 = 0" using flush_window_fits [OF fw] f2(2) mid(3) er2 by simp
  have "0 \<le> ec_nend_bits e2" "uint (ec_end_window e2) < 2 ^ nat (ec_nend_bits e2)"
    using f2 mid by simp_all
  note fw_ok = flush_window_ok [OF fw fl(1) this]
  have fr: "ec_offs e3 = ec_offs e2" "ec_storage e3 = ec_storage e" using flush_window_frame [OF fw] f2 by simp_all
  have u: "0 \<le> u" "8 * ec_end_offs e3 + nat u = 8 * ec_end_offs e + nat (ec_nend_bits e)"
    using fw_ok er3 f2 by simp_all
  then have ui: "8 * int (ec_end_offs e3) + u = 8 * int (ec_end_offs e) + ec_nend_bits e"
    using mid(3) by linarith
  show ?thesis unfolding fin
  proof (rule done_bits_fits [OF er3 u(1) _ j(2,3)])
    show "8 * int (ec_offs e3 + ec_end_offs e3) + u + l' \<le> 8 * int (ec_storage e3)"
      unfolding fr o2 using ui fit j(1) by simp
    show "l' < 0 \<Longrightarrow> 0 < ec_offs e3" unfolding fr o2 using j(1) l by (cases j) simp_all
  qed
qed

end
