(* ===== verification/Codec.thy ===== *)
theory Codec
  imports Range_Coder_Budget
begin

text \<open>
  The contract between the entropy coder and the code that uses it. \<open>codes E D x\<close> says
  that the encoding step \<open>E\<close> ends, keeps the invariant, and that a decoder in step with
  the encoder which runs \<open>D\<close> reads \<open>x\<close> and stays in step. Steps compose; the locale
  \<open>codec\<close> is the interface of a pair of an encoding and a decoding routine, and every
  routine of the range coder is an instance of it.
\<close>

section \<open>The contract of one step\<close>

text \<open>The bit counter advances, and a step that stays within the budget does not fail.\<close>

definition advance :: "ec_ctx \<Rightarrow> ec_ctx \<Rightarrow> bool" where
  "advance e e' \<longleftrightarrow> ec_storage e' = ec_storage e \<and> ec_nbits_total e \<le> ec_nbits_total e'
     \<and> (ec_error e = 0 \<and> within e' \<longrightarrow> ec_error e' = 0)"

lemma advance_refl: "advance e e"
  by (simp add: advance_def)

lemma advance_trans: "advance e e1 \<Longrightarrow> advance e1 e2 \<Longrightarrow> advance e e2"
  by (auto simp: advance_def intro: within_mono)

definition codes :: "(ec_ctx \<Rightarrow> ec_ctx option) \<Rightarrow> (ec_ctx \<Rightarrow> ('x \<times> ec_ctx) option) \<Rightarrow> 'x \<Rightarrow> bool" where
  "codes E D x \<longleftrightarrow> (\<forall>e. enc_inv e \<longrightarrow>
     (\<exists>e'. E e = Some e' \<and> enc_inv e' \<and> advance e e'
        \<and> (\<forall>S. hits S e' \<longrightarrow> hits S e
             \<and> (\<forall>d. sync S e d \<longrightarrow> (\<exists>d'. D d = Some (x, d') \<and> sync S e' d')))))"

lemma codesI:
  assumes "\<And>e. enc_inv e \<Longrightarrow> \<exists>e'. E e = Some e' \<and> enc_inv e' \<and> advance e e'
     \<and> (\<forall>S. hits S e' \<longrightarrow> hits S e
             \<and> (\<forall>d. sync S e d \<longrightarrow> (\<exists>d'. D d = Some (x, d') \<and> sync S e' d')))"
  shows "codes E D x"
  using assms by (simp add: codes_def)

lemma codesE:
  assumes "codes E D x" and "enc_inv e"
  obtains e' where "E e = Some e'" and "enc_inv e'" and "advance e e'"
    and "\<And>S. hits S e' \<Longrightarrow> hits S e"
    and "\<And>S d. hits S e' \<Longrightarrow> sync S e d \<Longrightarrow> \<exists>d'. D d = Some (x, d') \<and> sync S e' d'"
  using assms unfolding codes_def by blast

lemma codes_cong:
  assumes "\<And>e. E e = E' e" and "\<And>d. D d = D' d"
  shows "codes E D x \<longleftrightarrow> codes E' D' x"
  by (simp add: codes_def assms)

text \<open>Steps compose: what the decoder runs next may depend on what it has read.\<close>

lemma codes_return [intro]: "codes Some (\<lambda>d. Some (x, d)) x"
  by (simp add: codes_def advance_refl)

lemma codes_bind:
  assumes "codes E D x" and "codes E' (D' x) y"
  shows "codes (\<lambda>e. E e \<bind> E') (\<lambda>d. D d \<bind> (\<lambda>(x, d). D' x d)) y"
proof (rule codesI)
  fix e assume "enc_inv e"
  with assms(1) obtain e1 where e1: "E e = Some e1" "enc_inv e1" "advance e e1"
    "\<And>S. hits S e1 \<Longrightarrow> hits S e"
    "\<And>S d. hits S e1 \<Longrightarrow> sync S e d \<Longrightarrow> \<exists>d'. D d = Some (x, d') \<and> sync S e1 d'"
    by (rule codesE) blast
  from assms(2) e1(2) obtain e2 where e2: "E' e1 = Some e2" "enc_inv e2" "advance e1 e2"
    "\<And>S. hits S e2 \<Longrightarrow> hits S e1"
    "\<And>S d. hits S e2 \<Longrightarrow> sync S e1 d \<Longrightarrow> \<exists>d'. D' x d = Some (y, d') \<and> sync S e2 d'"
    by (rule codesE) blast
  show "\<exists>e'. E e \<bind> E' = Some e' \<and> enc_inv e' \<and> advance e e'
     \<and> (\<forall>S. hits S e' \<longrightarrow> hits S e \<and> (\<forall>d. sync S e d \<longrightarrow>
          (\<exists>d'. D d \<bind> (\<lambda>(x, d). D' x d) = Some (y, d') \<and> sync S e' d')))"
    using e1 e2 advance_trans [OF e1(3) e2(3)] by (intro exI [of _ e2]) fastforce
qed

lemma codes_map:
  assumes "codes E D x" and "\<And>d. D' d = D d \<bind> (\<lambda>(x, d). Some (f x, d))" and "y = f x"
  shows "codes E D' y"
proof -
  have "codes (\<lambda>e. E e \<bind> Some) (\<lambda>d. D d \<bind> (\<lambda>(x, d). Some (f x, d))) y"
    unfolding assms(3) by (rule codes_bind [OF assms(1) codes_return])
  moreover have "D' = (\<lambda>d. D d \<bind> (\<lambda>(x, d). Some (f x, d)))" by (rule ext) (rule assms(2))
  ultimately show ?thesis by simp
qed

text \<open>A step may look at the range and the number of bits used, which both sides share.\<close>

lemma sync_tell: "sync S e d \<Longrightarrow> ec_tell d = ec_tell e \<and> ec_tell_frac d = ec_tell_frac e"
  by (simp add: sync_def ec_tell_def ec_tell_frac_def)

lemma codes_state:
  assumes "\<And>r n. codes (E r n) (D r n) x"
  shows "codes (\<lambda>e. E (ec_rng e) (ec_nbits_total e) e) (\<lambda>d. D (ec_rng d) (ec_nbits_total d) d) x"
proof (rule codesI)
  fix e assume e: "enc_inv e"
  from codesE [OF assms [of "ec_rng e" "ec_nbits_total e"] e]
  obtain e' where e': "E (ec_rng e) (ec_nbits_total e) e = Some e'" "enc_inv e'"
    "advance e e'" "\<And>S. hits S e' \<Longrightarrow> hits S e"
    "\<And>S d. hits S e' \<Longrightarrow> sync S e d \<Longrightarrow>
       \<exists>d'. D (ec_rng e) (ec_nbits_total e) d = Some (x, d') \<and> sync S e' d'" by blast
  moreover have "ec_rng d = ec_rng e \<and> ec_nbits_total d = ec_nbits_total e" if "sync S e d" for S d
    using that by (simp add: sync_def)
  ultimately show "\<exists>e'. E (ec_rng e) (ec_nbits_total e) e = Some e' \<and> enc_inv e' \<and>
      advance e e' \<and> (\<forall>S. hits S e' \<longrightarrow> hits S e \<and> (\<forall>d. sync S e d \<longrightarrow>
         (\<exists>d'. D (ec_rng d) (ec_nbits_total d) d = Some (x, d') \<and> sync S e' d')))"
    by (intro exI [of _ e']) (metis (no_types))
qed

section \<open>The interface\<close>

text \<open>
  A codec is a pair of routines with a set of values they are made for. The lemmas of the
  locale extend the contract to sequences of values.
\<close>

primrec enc_seq :: "('x \<Rightarrow> ec_ctx \<Rightarrow> ec_ctx option) \<Rightarrow> 'x list \<Rightarrow> ec_ctx \<Rightarrow> ec_ctx option" where
  "enc_seq enc [] e = Some e"
| "enc_seq enc (x # xs) e = enc x e \<bind> enc_seq enc xs"

primrec dec_seq :: "(ec_ctx \<Rightarrow> ('x \<times> ec_ctx) option) \<Rightarrow> nat \<Rightarrow> ec_ctx \<Rightarrow> ('x list \<times> ec_ctx) option" where
  "dec_seq dec 0 d = Some ([], d)"
| "dec_seq dec (Suc n) d = dec d \<bind> (\<lambda>(x, d). dec_seq dec n d \<bind> (\<lambda>(xs, d). Some (x # xs, d)))"

locale codec =
  fixes enc :: "'x \<Rightarrow> ec_ctx \<Rightarrow> ec_ctx option"
    and dec :: "ec_ctx \<Rightarrow> ('x \<times> ec_ctx) option"
    and valid :: "'x \<Rightarrow> bool"
  assumes codes: "valid x \<Longrightarrow> codes (enc x) dec x"
begin

lemma enc_total:
  assumes "valid x" and "enc_inv e"
  shows "\<exists>e'. enc x e = Some e' \<and> enc_inv e'"
  using codesE [OF codes [OF assms(1)] assms(2)] by metis

lemma enc_advance:
  assumes "valid x" and "enc_inv e" and "enc x e = Some e'"
  shows "advance e e'"
  using codesE [OF codes [OF assms(1)] assms(2)] assms(3) by (metis option.inject)

lemma dec_enc:
  assumes "valid x" and "enc_inv e" and "enc x e = Some e'" and "hits S e'" and "sync S e d"
  shows "\<exists>d'. dec d = Some (x, d') \<and> sync S e' d'"
  using codesE [OF codes [OF assms(1)] assms(2)] assms(3-5) by (metis option.inject)

lemma codes_seq: "list_all valid xs \<Longrightarrow> codes (enc_seq enc xs) (dec_seq dec (length xs)) xs"
proof (induction xs)
  case Nil
  then show ?case by (simp add: codes_return eta_contract_eq)
next
  case (Cons x xs)
  have "codes (\<lambda>e. enc x e \<bind> enc_seq enc xs)
     (\<lambda>d. dec d \<bind> (\<lambda>(x, d). dec_seq dec (length xs) d \<bind> (\<lambda>(xs, d). Some (x # xs, d)))) (x # xs)"
    using Cons by (intro codes_bind [OF codes] codes_map [OF Cons.IH]) simp_all
  then show ?case by simp
qed

end

end
