(* ===== verification/Range_Coder_Ops.thy ===== *)
theory Range_Coder_Ops
  imports Codec
begin

text \<open>
  The start of a stream and the routines of the range coder as instances of the codec
  interface.
\<close>

section \<open>The start of a stream\<close>

lemma enc_init_inv: "length buf = sz \<Longrightarrow> enc_inv (ec_enc_init buf sz)"
  by (simp add: enc_inv_def enc_mid_def ec_enc_init_def enc_shape_def ec_consts ec_const_values
      enc_bytes_def enc_out_def enc_nraw_def)

text \<open>The decoder after it has read \<open>k + 1\<close> of the four bytes it starts with.\<close>

definition dec_pre :: "byte list \<Rightarrow> nat \<Rightarrow> ec_ctx \<Rightarrow> bool" where
  "dec_pre S k d \<longleftrightarrow> ec_buf d = S \<and> ec_storage d = length S \<and> ec_error d = 0
     \<and> uint (ec_rng d) = 2 ^ (8 * k + 7)
     \<and> uint (ec_val d) = 2 ^ (8 * k + 7) - 1 - sval S (Suc k) div 2
     \<and> ec_rem d = sbyte S k \<and> ec_offs d = min (Suc k) (length S)
     \<and> ec_nbits_total d = 9 + 8 * int k
     \<and> ec_nend_bits d = 0 \<and> ec_end_offs d = 0 \<and> ec_end_window d = 0"

lemma half_step: "(256 * (256 * x + a) + b) div 2 = 256 * ((256 * x + a) div 2) + (128 * (a mod 2) + b div 2)"
  for a b x :: int
proof -
  define q m where "q = (256 * x + a) div 2" and "m = a mod 2"
  have "(256 * x + a) mod 2 = m" unfolding m_def by presburger
  then have "256 * x + a = 2 * q + m"
    using div_mult_mod_eq [of "256 * x + a" 2] by (simp add: q_def)
  then have "256 * (256 * x + a) + b = 256 * (2 * q + m) + b" by (simp only:)
  also have "\<dots> = 2 * (256 * q + 128 * m) + b" by (simp add: algebra_simps)
  finally have "256 * (256 * x + a) + b = 2 * (256 * q + 128 * m) + b" .
  then show ?thesis unfolding q_def [symmetric] m_def [symmetric] by simp
qed

lemma dec_pre_step:
  assumes p: "dec_pre S k d" and k: "k < 3"
  shows "dec_pre S (Suc k) (ec_dec_norm_step d)"
proof -
  have le: "(2 :: int) ^ (8 * k + 7) \<le> 2 ^ 23" using k by (intro power_increasing) simp_all
  have s0: "0 \<le> sval S (Suc k)"
    using sval_add [of S 0 "Suc k"] by simp
  have v: "uint (ec_val d) < 2 ^ 23"
    using p le s0 unfolding dec_pre_def by (auto simp: pos_imp_zdiv_nonneg_iff intro: le_less_trans)
  have rem: "ec_rem (ec_dec_norm_step d) = sbyte S (Suc k)"
    using p by (auto simp: dec_pre_def sbyte_def)
  have r: "0 \<le> ec_rem d" "ec_rem d < 256" using p sbyte_bounds by (simp_all add: dec_pre_def)
  have e: "(2 :: int) ^ (8 * Suc k + 7) = 256 * 2 ^ (8 * k + 7)" by (simp add: power_add)
  have val: "uint (ec_val (ec_dec_norm_step d)) = 2 ^ (8 * Suc k + 7) - 1 - sval S (Suc (Suc k)) div 2"
    unfolding dec_norm_step_val [OF r v] rem e
    using p half_step [of "sval S k" "sbyte S k" "sbyte S (Suc k)"]
    by (simp add: dec_pre_def)
  have rng: "uint (ec_rng (ec_dec_norm_step d)) = 2 ^ (8 * Suc k + 7)"
    unfolding e using p le by (simp add: dec_pre_def uint_push_bit)
  have offs: "ec_offs (ec_dec_norm_step d) = min (Suc (Suc k)) (length S)"
    using p by (auto simp: dec_pre_def)
  show ?thesis
    unfolding dec_pre_def by (intro conjI rng val rem offs) (use p in \<open>simp_all add: dec_pre_def\<close>)
qed

lemma dec_pre_normalize:
  assumes "dec_pre S k d" and "k \<le> 3"
  shows "\<exists>d'. ec_dec_normalize d = Some d' \<and> dec_pre S 3 d'"
  using assms
proof (induction "3 - k" arbitrary: k d)
  case 0
  then have k: "k = 3" by simp
  then have "\<not> uint (ec_rng d) \<le> 2 ^ 23" using 0 by (simp add: dec_pre_def)
  then show ?case using 0 k by (simp add: dec_normalize_stop)
next
  case (Suc n)
  then have k: "k < 3" by simp
  have "(2 :: int) ^ (8 * k + 7) \<le> 2 ^ 23" using k by (intro power_increasing) simp_all
  then have "uint (ec_rng d) \<le> 2 ^ 23" using Suc.prems by (simp add: dec_pre_def)
  then show ?case
    using Suc.hyps(1) [OF _ dec_pre_step [OF Suc.prems(1) k]] Suc.hyps(2) k
    by (simp add: dec_normalize_step)
qed

lemma dec_init_sync:
  "\<exists>d. ec_dec_init S (length S) = Some d \<and> sync S (ec_enc_init buf sz) d"
proof -
  define b where "b = sbyte S 0"
  have b: "0 \<le> b" "b < 256" by (simp_all only: b_def sbyte_bounds)
  define d where "d = \<lparr>ec_buf = S, ec_storage = length S, ec_end_offs = 0, ec_end_window = 0,
    ec_nend_bits = 0, ec_nbits_total = 9, ec_offs = min 1 (length S), ec_rng = 128,
    ec_val = 127 - of_int (b div 2), ec_ext = 0, ec_rem = b, ec_error = 0\<rparr>"
  have init: "ec_dec_init S (length S) = ec_dec_normalize d"
    by (simp add: ec_dec_init_def ec_read_byte_def Let_def ec_consts ec_const_values d_def b_def
        sbyte_def drop_bit_eq_div min_def Suc_le_eq)
  have "uint (of_int (b div 2) :: u32) = b div 2"
    using b by (simp add: uint_word_of_int pos_imp_zdiv_nonneg_iff)
  moreover have "b div 2 < 128" using b by simp
  ultimately have "uint (127 - of_int (b div 2) :: u32) = 127 - b div 2"
    by (subst uint_sub_nowrap) simp_all
  then have p0: "dec_pre S 0 d"
    by (simp add: dec_pre_def d_def b_def)
  from dec_pre_normalize [OF p0] obtain d3
    where "ec_dec_normalize d = Some d3" and p3: "dec_pre S 3 d3" by auto
  moreover have "sync S (ec_enc_init buf sz) d3"
  proof -
    let ?e = "ec_enc_init buf sz"
    have e: "enc_bytes ?e = []" "uint (ec_rng ?e) = 2 ^ 31" "ec_nbits_total ?e = 33" "enc_nraw ?e = 0"
      and low: "enc_low ?e = 0"
      by (simp_all add: ec_enc_init_def enc_low_def enc_bytes_def enc_out_def enc_nraw_def
          ec_const_values ec_consts)
    have "uint (ec_rng d3) = uint (ec_rng ?e)" using p3 by (simp add: e dec_pre_def)
    then have "ec_rng d3 = ec_rng ?e" by (simp only: word_uint_eq_iff)
    moreover have "code S 0 = sval S (Suc 3) div 2" by (simp add: code_def)
    ultimately show ?thesis
      using p3 unfolding sync_def dec_pre_def e low by simp
  qed
  ultimately show ?thesis using init by simp
qed

section \<open>Symbols of an explicit frequency range\<close>

lemma celt_udiv_Some: "0 < d \<Longrightarrow> celt_udiv n d = Some (n div d)"
  by (simp add: celt_udiv_def word_gt_0)

lemma part_udiv:
  assumes "2 ^ 23 < uint rng" and "fl < fh" and "fh \<le> ft" and "uint ft \<le> 2 ^ 23"
  shows "part rng (rng div ft) fl fh ft"
proof -
  have f: "0 < uint ft"
    using assms(2,3) uint_ge_0 [of fl] unfolding word_less_def word_le_def by linarith
  have d: "uint (rng div ft) = uint rng div uint ft" by (rule uint_div)
  have "1 \<le> uint rng div uint ft" using assms f by (simp add: int_le_div)
  then have "0 < rng div ft" by (simp add: word_less_def d)
  moreover have "uint (rng div ft) * uint ft \<le> uint rng"
    unfolding d using int_le_div [OF f, of "uint rng div uint ft" "uint rng"] by simp
  ultimately show ?thesis using assms by (simp add: part_def)
qed

lemma part_drop:
  assumes "2 ^ 23 < uint rng" and "fl < fh" and "fh \<le> push_bit bits 1" and "bits \<le> 23"
  shows "part rng (drop_bit bits rng) fl fh (push_bit bits 1)"
proof -
  have le: "(2 :: int) ^ bits \<le> 2 ^ 23" using assms(4) by (intro power_increasing) simp_all
  have p: "uint (push_bit bits 1 :: u32) = 2 ^ bits"
  proof -
    have "uint (push_bit bits 1 :: u32) = 2 ^ bits mod 2 ^ 32"
      by (simp only: uint_push_bit) simp
    then show ?thesis using le by simp
  qed
  have "1 \<le> uint rng div 2 ^ bits" using assms(1) le by (simp add: int_le_div)
  then have "0 < drop_bit bits rng" by (simp only: word_less_def uint_drop_bit) simp
  moreover have "uint (drop_bit bits rng) * uint (push_bit bits 1 :: u32) \<le> uint rng"
    unfolding p uint_drop_bit using int_le_div [of "2 ^ bits" "uint rng div 2 ^ bits" "uint rng"] by simp
  ultimately show ?thesis using assms by (simp add: part_def)
qed

lemma normalize_storage: "ec_enc_normalize e = Some e' \<Longrightarrow> enc_mid e \<Longrightarrow> ec_storage e' = ec_storage e"
proof (rotate_tac, induction rule: enc_norm_induct)
  case (step e)
  then show ?case
    by (cases "uint (ec_rng e) \<le> 2 ^ 23") (simp_all add: enc_normalize_step enc_normalize_stop)
qed

text \<open>
  Narrowing to any part of the range is a coding step: \<open>D\<close> has to end in the same part.
\<close>

lemma codes_narrow:
  assumes pt: "\<And>e. enc_inv e \<Longrightarrow> part (ec_rng e) (r (ec_rng e)) fl fh ft"
    and E: "\<And>e. enc_inv e \<Longrightarrow> E e = ec_enc_normalize (enc_narrow (r (ec_rng e)) fl fh ft e)"
    and D: "\<And>d. part (ec_rng d) (r (ec_rng d)) fl fh ft \<Longrightarrow>
      uint (r (ec_rng d)) * (uint ft - uint fh) \<le> uint (ec_val d) \<Longrightarrow>
      (fl > 0 \<Longrightarrow> uint (ec_val d) < uint (r (ec_rng d)) * (uint ft - uint fl)) \<Longrightarrow>
      uint (ec_val d) < uint (ec_rng d) \<Longrightarrow>
      \<exists>x. D d = ec_dec_normalize (dec_narrow (r (ec_rng d)) fl fh ft (d\<lparr>ec_ext := x\<rparr>))
          \<bind> (\<lambda>d. Some (s, d))"
  shows "codes E D s"
proof (rule codesI)
  fix e assume e: "enc_inv e"
  let ?n = "enc_narrow (r (ec_rng e)) fl fh ft e"
  have mid: "enc_mid e" using e by (simp add: enc_inv_def)
  note ptE = pt [OF e]
  obtain e' where e': "ec_enc_normalize ?n = Some e'" "enc_inv e'"
    using narrow_normalize_ex [OF e ptE] by blast
  have "ec_storage ?n = ec_storage e" by (simp add: enc_narrow_def)
  then have sto: "advance e e'"
    using normalize_storage [OF e'(1) enc_narrow_mid [OF mid ptE]]
      normalize_fits [OF enc_narrow_mid [OF mid ptE] e'(1)] by (simp add: advance_def)
  have bk: "hits S e \<and> (\<forall>d. sync S e d \<longrightarrow> (\<exists>d'. D d = Some (s, d') \<and> sync S e' d'))"
    if h: "hits S e'" for S
  proof (intro conjI allI impI)
    show "hits S e" by (rule narrow_normalize_hits(2) [OF e ptE e'(1) h])
    fix d assume sy: "sync S e d"
    have rng: "ec_rng d = ec_rng e" using sy by (simp add: sync_def)
    have hn: "hits S ?n" by (rule narrow_normalize_hits(1) [OF e ptE e'(1) h])
    note iv = dec_narrow_sync(2-4) [OF mid ptE hn sy]
    obtain x where D': "D d = ec_dec_normalize (dec_narrow (r (ec_rng e)) fl fh ft (d\<lparr>ec_ext := x\<rparr>))
          \<bind> (\<lambda>d. Some (s, d))"
      using D [of d] ptE iv rng by auto
    from narrow_normalize_sync [OF e ptE e'(1) h, of "d\<lparr>ec_ext := x\<rparr>"] sy
    obtain d' where "ec_dec_normalize (dec_narrow (r (ec_rng e)) fl fh ft (d\<lparr>ec_ext := x\<rparr>)) = Some d'"
      "sync S e' d'" by auto
    then show "\<exists>d'. D d = Some (s, d') \<and> sync S e' d'" using D' by simp
  qed
  show "\<exists>e'. E e = Some e' \<and> enc_inv e' \<and> advance e e' \<and>
      (\<forall>S. hits S e' \<longrightarrow> hits S e \<and> (\<forall>d. sync S e d \<longrightarrow> (\<exists>d'. D d = Some (s, d') \<and> sync S e' d')))"
  proof (intro exI [of _ e'] conjI)
    show "E e = Some e'" using E [OF e] e'(1) by simp
    show "\<forall>S. hits S e' \<longrightarrow> hits S e \<and> (\<forall>d. sync S e d \<longrightarrow> (\<exists>d'. D d = Some (s, d') \<and> sync S e' d'))"
      using bk by blast
  qed (fact e'(2) sto)+
qed

lemma dec_update_narrow:
  "ec_dec_update fl fh ft (d\<lparr>ec_ext := r\<rparr>) = ec_dec_normalize (dec_narrow r fl fh ft (d\<lparr>ec_ext := r\<rparr>))"
  by (simp add: ec_dec_update_def dec_narrow_def Let_def)

text \<open>
  \<open>ec_encode\<close> is read back by \<open>ec_decode\<close>, a search \<open>find\<close> of the symbol whose range
  contains the value returned, and \<open>ec_dec_update\<close> with that range.
\<close>

lemma codes_encode:
  assumes "fl < fh" and "fh \<le> ft" and "uint ft \<le> 2 ^ 23"
    and find: "\<And>f d. fl \<le> f \<Longrightarrow> f < fh \<Longrightarrow> F f d = ec_dec_update fl fh ft d \<bind> (\<lambda>d. Some (s, d))"
  shows "codes (ec_encode fl fh ft) (\<lambda>d. ec_decode ft d \<bind> (\<lambda>(f, d). F f d)) s"
proof (rule codes_narrow [where r = "\<lambda>rng. rng div ft" and fl = fl and fh = fh and ft = ft])
  have ft: "0 < ft" using assms(1,2) by (metis le_less_trans word_coorder.not_eq_extremum
        word_zero_le less_le_trans)
  show "part (ec_rng e) (ec_rng e div ft) fl fh ft" if "enc_inv e" for e
    using that assms by (intro part_udiv) (simp_all add: enc_inv_def)
  show "ec_encode fl fh ft e = ec_enc_normalize (enc_narrow (ec_rng e div ft) fl fh ft e)" for e
    using ft by (simp add: ec_encode_def celt_udiv_Some enc_narrow_def)
  fix d :: ec_ctx
  assume pt: "part (ec_rng d) (ec_rng d div ft) fl fh ft"
    and iv: "uint (ec_rng d div ft) * (uint ft - uint fh) \<le> uint (ec_val d)"
      "fl > 0 \<Longrightarrow> uint (ec_val d) < uint (ec_rng d div ft) * (uint ft - uint fl)"
      "uint (ec_val d) < uint (ec_rng d)"
  let ?r = "ec_rng d div ft"
  have r: "0 < ?r" using pt by (simp add: part_def)
  have "F (ft - EC_MINI (ec_val d div ?r + 1) ft) (d\<lparr>ec_ext := ?r\<rparr>)
      = ec_dec_update fl fh ft (d\<lparr>ec_ext := ?r\<rparr>) \<bind> (\<lambda>d. Some (s, d))"
    using decode_index [OF pt iv] by (intro find) simp_all
  then show "\<exists>x. ec_decode ft d \<bind> (\<lambda>(f, d). F f d)
      = ec_dec_normalize (dec_narrow ?r fl fh ft (d\<lparr>ec_ext := x\<rparr>)) \<bind> (\<lambda>d. Some (s, d))"
    using ft r by (intro exI [of _ ?r])
      (simp add: ec_decode_def celt_udiv_Some dec_update_narrow)
qed

lemma codes_encode_bin:
  assumes "fl < fh" and "fh \<le> push_bit bits 1" and "bits \<le> 23"
    and find: "\<And>f d. fl \<le> f \<Longrightarrow> f < fh \<Longrightarrow>
      F f d = ec_dec_update fl fh (push_bit bits 1) d \<bind> (\<lambda>d. Some (s, d))"
  shows "codes (ec_encode_bin fl fh bits) (\<lambda>d. ec_decode_bin bits d \<bind> (\<lambda>(f, d). F f d)) s"
proof (rule codes_narrow [where r = "drop_bit bits" and fl = fl and fh = fh and ft = "push_bit bits 1"])
  show "part (ec_rng e) (drop_bit bits (ec_rng e)) fl fh (push_bit bits 1)" if "enc_inv e" for e
    using that assms by (intro part_drop) (simp_all only: enc_inv_def)
  show "ec_encode_bin fl fh bits e
      = ec_enc_normalize (enc_narrow (drop_bit bits (ec_rng e)) fl fh (push_bit bits 1) e)" for e
    by (simp only: ec_encode_bin_def enc_narrow_def Let_def)
  fix d :: ec_ctx
  let ?r = "drop_bit bits (ec_rng d)"
  assume pt: "part (ec_rng d) ?r fl fh (push_bit bits 1)"
    and iv: "uint ?r * (uint (push_bit bits 1 :: u32) - uint fh) \<le> uint (ec_val d)"
      "fl > 0 \<Longrightarrow> uint (ec_val d) < uint ?r * (uint (push_bit bits 1 :: u32) - uint fl)"
      "uint (ec_val d) < uint (ec_rng d)"
  have r: "0 < ?r" using pt by (simp only: part_def)
  have "F (push_bit bits 1 - EC_MINI (ec_val d div ?r + 1) (push_bit bits 1)) (d\<lparr>ec_ext := ?r\<rparr>)
      = ec_dec_update fl fh (push_bit bits 1) (d\<lparr>ec_ext := ?r\<rparr>) \<bind> (\<lambda>d. Some (s, d))"
    using decode_index [OF pt iv] by (intro find) simp_all
  then show "\<exists>x. ec_decode_bin bits d \<bind> (\<lambda>(f, d). F f d)
      = ec_dec_normalize (dec_narrow ?r fl fh (push_bit bits 1) (d\<lparr>ec_ext := x\<rparr>)) \<bind> (\<lambda>d. Some (s, d))"
    by (intro exI [of _ ?r])
      (simp only: ec_decode_bin_def celt_udiv_Some [OF r] dec_update_narrow Let_def
        bind.bind_lunit prod.case)
qed

section \<open>Bits and symbols of a table\<close>

lemma codes_bit_logp:
  assumes "1 \<le> logp" and "logp \<le> 23"
  shows "codes (ec_enc_bit_logp v logp) (ec_dec_bit_logp logp) v"
proof (rule codes_narrow [where r = "drop_bit logp" and fl = "of_bool v" and fh = "1 + of_bool v" and ft = 2])
  have "(2 :: int) ^ 1 \<le> 2 ^ logp" using assms(1) by (intro power_increasing) simp_all
  then have two: "uint (2 :: u32) \<le> uint (push_bit logp 1 :: u32)"
  proof -
    have "(2 :: int) ^ logp < 2 ^ 32" using assms(2) by (intro power_strict_increasing) simp_all
    then have "uint (push_bit logp 1 :: u32) = 2 ^ logp" by (simp only: uint_push_bit) simp
    then show ?thesis using \<open>(2 :: int) ^ 1 \<le> 2 ^ logp\<close> by simp
  qed
  show "part (ec_rng e) (drop_bit logp (ec_rng e)) (of_bool v) (1 + of_bool v) 2" if e: "enc_inv e" for e
  proof -
    have p: "part (ec_rng e) (drop_bit logp (ec_rng e)) 0 1 (push_bit logp 1)"
      using e assms two by (intro part_drop) (simp_all add: enc_inv_def word_le_def del: push_bit_of_1)
    have "uint (drop_bit logp (ec_rng e)) * uint (2 :: u32)
        \<le> uint (drop_bit logp (ec_rng e)) * uint (push_bit logp 1 :: u32)"
      using two by (intro mult_left_mono) simp_all
    then show ?thesis using p by (auto simp: part_def)
  qed
  show "ec_enc_bit_logp v logp e
      = ec_enc_normalize (enc_narrow (drop_bit logp (ec_rng e)) (of_bool v) (1 + of_bool v) 2 e)" for e
    by (cases v) (simp_all add: ec_enc_bit_logp_def enc_narrow_def Let_def)
  fix d :: ec_ctx
  let ?r = "drop_bit logp (ec_rng d)"
  assume lo: "uint ?r * (uint (2 :: u32) - uint (1 + of_bool v :: u32)) \<le> uint (ec_val d)"
    and hi: "of_bool v > (0 :: u32) \<Longrightarrow> uint (ec_val d) < uint ?r * (uint (2 :: u32) - uint (of_bool v :: u32))"
  have "ec_val d < ?r \<longleftrightarrow> v" using lo hi by (cases v) (simp_all add: word_less_def not_less)
  then show "\<exists>x. ec_dec_bit_logp logp d = ec_dec_normalize (dec_narrow ?r (of_bool v) (1 + of_bool v) 2
      (d\<lparr>ec_ext := x\<rparr>)) \<bind> (\<lambda>d. Some (v, d))"
    by (intro exI [of _ "ec_ext d"], cases v) (simp_all add: ec_dec_bit_logp_def dec_narrow_def Let_def)
qed

text \<open>
  An inverse cumulative frequency table of \<open>ftb\<close> bits: its entries are below
  \<open>2 ^ ftb\<close> and do not increase, and a symbol can be coded when its frequency is not 0.
\<close>

definition icdf_prev :: "u32 list \<Rightarrow> nat \<Rightarrow> nat \<Rightarrow> u32" where
  "icdf_prev icdf ftb s = (if s = 0 then push_bit ftb 1 else icdf ! (s - 1))"

definition icdf_valid :: "u32 list \<Rightarrow> nat \<Rightarrow> nat \<Rightarrow> bool" where
  "icdf_valid icdf ftb s \<longleftrightarrow> ftb \<le> 23 \<and> sorted_wrt (\<ge>) icdf
     \<and> list_all (\<lambda>x. x < push_bit ftb 1) icdf \<and> s < length icdf
     \<and> icdf ! s < icdf_prev icdf ftb s"

lemma icdf_search_find:
  assumes "s < length icdf" and "\<And>k. k < s \<Longrightarrow> d < r * icdf ! k" and "\<not> d < r * icdf ! s"
  shows "icdf_search r d t n icdf = Some (n + s, r * icdf ! s, if s = 0 then t else r * icdf ! (s - 1))"
  using assms
proof (induction icdf arbitrary: s t n)
  case (Cons x xs)
  show ?case
  proof (cases s)
    case 0
    then show ?thesis using Cons.prems by simp
  next
    case (Suc s')
    have "d < r * x" using Cons.prems(2) [of 0] Suc by simp
    moreover have "d < r * xs ! k" if "k < s'" for k using Cons.prems(2) [of "Suc k"] that Suc by simp
    ultimately show ?thesis
      using Cons.IH [of s' "r * x" "Suc n"] Cons.prems Suc by (simp add: nth_Cons' Let_def)
  qed
qed simp

lemma icdf_before:
  fixes icdf :: "u32 list"
  assumes "sorted_wrt (\<ge>) icdf" and "s < length icdf" and "k < s"
  shows "icdf ! (s - 1) \<le> icdf ! k"
proof (cases "k = s - 1")
  case False
  then have "k < s - 1" using assms(3) by simp
  moreover have "s - 1 < length icdf" using assms(2) by simp
  ultimately show ?thesis using assms(1) unfolding sorted_wrt_iff_nth_less by blast
qed simp

text \<open>The part of the range that a symbol of the table gets.\<close>

lemma icdf_range:
  assumes v: "icdf_valid icdf ftb s"
  defines "t \<equiv> push_bit ftb 1" and "p \<equiv> icdf_prev icdf ftb s"
  shows "icdf ! s < p" and "p \<le> t" and "icdf ! s < t" and "s > 0 \<longleftrightarrow> p < t"
    and "t - p < t - icdf ! s" and "t - icdf ! s \<le> t" and "0 < t - p \<longleftrightarrow> s > 0"
proof -
  have all: "\<And>k. k < length icdf \<Longrightarrow> icdf ! k < t"
    using v by (simp only: icdf_valid_def t_def list_all_length)
  have s: "s < length icdf" using v by (simp only: icdf_valid_def)
  show sp: "icdf ! s < p" using v by (simp only: icdf_valid_def p_def)
  show st: "icdf ! s < t" by (rule all [OF s])
  show pt: "s > 0 \<longleftrightarrow> p < t" using all [of "s - 1"] s by (auto simp: p_def icdf_prev_def t_def)
  then show pl: "p \<le> t" by (cases "s = 0") (simp_all add: p_def icdf_prev_def t_def)
  have u: "uint (t - p) = uint t - uint p" "uint (t - icdf ! s) = uint t - uint (icdf ! s)"
    using pl st by (simp_all add: uint_sub_nowrap word_le_def word_less_def)
  show "t - p < t - icdf ! s" using sp by (simp add: word_less_def u)
  show "t - icdf ! s \<le> t" using st by (simp add: word_le_def u)
  show "0 < t - p \<longleftrightarrow> s > 0" unfolding pt by (simp add: word_less_def u)
qed

lemma enc_icdf_narrow:
  assumes v: "icdf_valid icdf ftb s"
  defines "t \<equiv> push_bit ftb 1"
  shows "ec_enc_icdf s icdf ftb e
      = ec_enc_normalize (enc_narrow (drop_bit ftb (ec_rng e)) (t - icdf_prev icdf ftb s) (t - icdf ! s) t e)"
proof -
  have s: "s < length icdf" using v by (simp only: icdf_valid_def)
  note g = icdf_range(7) [OF v, folded t_def]
  show ?thesis
  proof (cases "s = 0")
    case True
    then show ?thesis
      using s g by (simp add: ec_enc_icdf_def enc_narrow_def icdf_prev_def t_def del: push_bit_of_1)
  next
    case False
    then have "0 < t - icdf_prev icdf ftb s" using g by simp
    then show ?thesis
      using s False by (simp add: ec_enc_icdf_def enc_narrow_def icdf_prev_def Let_def)
  qed
qed

lemma dec_icdf_narrow:
  assumes v: "icdf_valid icdf ftb s"
  defines "t \<equiv> push_bit ftb 1" and "p \<equiv> icdf_prev icdf ftb s"
  assumes pt: "part (ec_rng d) (drop_bit ftb (ec_rng d)) (t - p) (t - icdf ! s) t"
    and lo: "uint (drop_bit ftb (ec_rng d)) * (uint t - uint (t - icdf ! s)) \<le> uint (ec_val d)"
    and hi: "t - p > 0 \<Longrightarrow> uint (ec_val d) < uint (drop_bit ftb (ec_rng d)) * (uint t - uint (t - p))"
  shows "ec_dec_icdf icdf ftb d = ec_dec_normalize (dec_narrow (drop_bit ftb (ec_rng d)) (t - p) (t - icdf ! s) t d)
        \<bind> (\<lambda>d. Some (s, d))"
proof -
  let ?r = "drop_bit ftb (ec_rng d)" and ?x = "icdf ! s"
  note g = icdf_range [OF v, folded t_def p_def]
  have s: "s < length icdf" and so: "sorted_wrt (\<ge>) icdf" using v by (simp_all only: icdf_valid_def)
  have rt: "uint ?r * uint t < 2 ^ 32"
    using pt uint_lt32 [of "ec_rng d"] unfolding part_def by simp
  have m: "uint (?r * y) = uint ?r * uint y" if "y \<le> t" for y
  proof (rule uint_mult_nowrap)
    have "uint ?r * uint y \<le> uint ?r * uint t"
      using that by (intro mult_left_mono) (simp_all add: word_le_def)
    then show "uint ?r * uint y < 2 ^ LENGTH(32)" using rt by simp
  qed
  have w: "uint (t - p) = uint t - uint p" "uint (t - ?x) = uint t - uint ?x"
    using g(2,3) by (simp_all add: uint_sub_nowrap word_le_def word_less_def)
  have stop: "\<not> ec_val d < ?r * ?x"
    using lo by (simp add: word_less_def m [OF less_imp_le [OF g(3)]] w)
  have cont: "ec_val d < ?r * icdf ! k" if k: "k < s" for k
  proof -
    have "p \<le> icdf ! k" using icdf_before [OF so s k] k by (simp add: p_def icdf_prev_def)
    moreover have kt: "icdf ! k < t" using v k s by (simp only: icdf_valid_def t_def list_all_length)
    moreover have "ec_val d < ?r * p"
      using hi g(7) k by (simp add: word_less_def m [OF g(2)] w)
    ultimately show ?thesis
      using mult_left_mono [of "uint p" "uint (icdf ! k)" "uint ?r"]
      by (simp add: word_less_def word_le_def m [OF g(2)] m [OF less_imp_le [OF kt]])
  qed
  note find = icdf_search_find [OF s cont stop, of "ec_rng d" 0]
  show ?thesis
  proof (cases "s = 0")
    case True
    then show ?thesis using find g(7) by (simp add: ec_dec_icdf_def dec_narrow_def Let_def)
  next
    case False
    then have "p = icdf ! (s - 1)" by (simp add: p_def icdf_prev_def)
    then show ?thesis
      using False find g(7) by (simp add: ec_dec_icdf_def dec_narrow_def Let_def right_diff_distrib)
  qed
qed

lemma codes_icdf:
  assumes v: "icdf_valid icdf ftb s"
  shows "codes (ec_enc_icdf s icdf ftb) (ec_dec_icdf icdf ftb) s"
proof -
  define t :: u32 where "t = push_bit ftb 1"
  define p where "p = icdf_prev icdf ftb s"
  note g = icdf_range [OF v, folded t_def p_def]
  show ?thesis
  proof (rule codes_narrow [where r = "drop_bit ftb" and fl = "t - p" and fh = "t - icdf ! s" and ft = t])
    show "part (ec_rng e) (drop_bit ftb (ec_rng e)) (t - p) (t - icdf ! s) t" if "enc_inv e" for e
      unfolding t_def using g that v
      by (intro part_drop) (simp_all add: enc_inv_def t_def icdf_valid_def del: push_bit_of_1)
    show "ec_enc_icdf s icdf ftb e = ec_enc_normalize (enc_narrow (drop_bit ftb (ec_rng e)) (t - p) (t - icdf ! s) t e)" for e
      by (simp only: enc_icdf_narrow [OF v] t_def p_def)
    fix d :: ec_ctx
    let ?r = "drop_bit ftb (ec_rng d)"
    assume pt: "part (ec_rng d) ?r (t - p) (t - icdf ! s) t"
      and lo: "uint ?r * (uint t - uint (t - icdf ! s)) \<le> uint (ec_val d)"
      and hi: "t - p > 0 \<Longrightarrow> uint (ec_val d) < uint ?r * (uint t - uint (t - p))"
    show "\<exists>x. ec_dec_icdf icdf ftb d = ec_dec_normalize (dec_narrow ?r (t - p) (t - icdf ! s) t (d\<lparr>ec_ext := x\<rparr>))
        \<bind> (\<lambda>d. Some (s, d))"
      using dec_icdf_narrow [OF v, of d, folded t_def p_def, OF pt lo hi]
      by (intro exI [of _ "ec_ext d"]) simp
  qed
qed

end
