(* ===== verification/Range_Coder_Streams.thy ===== *)
theory Range_Coder_Streams
  imports Range_Coder_Ops
begin

text \<open>
  Raw bits and uniformly distributed integers, the routines of the range coder as
  interpretations of the codec interface, and whole streams: what was encoded between
  \<open>ec_enc_init\<close> and \<open>ec_enc_done\<close> is what a decoder reads from the buffer.
\<close>

section \<open>Raw bits and uniform integers\<close>

lemma flush_window_storage:
  "ec_flush_window w u e = (w', u', e') \<Longrightarrow> ec_storage e' = ec_storage e"
  using flush_window_frame by blast

lemma enc_bits_storage: "ec_storage (ec_enc_bits fl bits e) = ec_storage e"
  by (auto simp: ec_enc_bits_def Let_def split: prod.splits dest: flush_window_storage)

lemma codes_bits:
  assumes "bits \<le> 25" and "uint fl < 2 ^ bits"
  shows "codes (\<lambda>e. Some (ec_enc_bits fl bits e)) (\<lambda>d. Some (ec_dec_bits bits d)) fl"
proof (rule codesI)
  fix e assume e: "enc_inv e"
  let ?e = "ec_enc_bits fl bits e"
  have "hits S e \<and> (\<forall>d. sync S e d \<longrightarrow> (\<exists>d'. ec_dec_bits bits d = (fl, d') \<and> sync S ?e d'))"
    if h: "hits S ?e" for S
  proof (intro conjI allI impI)
    show "hits S e" by (rule enc_bits_hits(1) [OF e assms h])
    fix d assume sy: "sync S e d"
    have g: "enc_good ?e" using h by (simp add: hits_def)
    note ok = enc_bits_ok(2) [OF e assms g]
    have "uint (fst (ec_dec_bits bits d)) = uint fl"
      using dec_bits_sync(1) [OF sy assms(1), of ?e] enc_bits_hits(2) [OF e assms h] ok by simp
    then have "fst (ec_dec_bits bits d) = fl" by (simp add: word_uint_eq_iff)
    moreover have "sync S ?e (snd (ec_dec_bits bits d))"
      using dec_bits_sync(2) [OF sy assms(1), of ?e] ok by simp
    ultimately show "\<exists>d'. ec_dec_bits bits d = (fl, d') \<and> sync S ?e d'"
      by (metis prod.collapse)
  qed
  moreover have "advance e ?e"
    using enc_bits_fits [OF e assms(1)] by (simp add: advance_def enc_bits_storage)
  ultimately show "\<exists>e'. Some ?e = Some e' \<and> enc_inv e' \<and> advance e e' \<and> (\<forall>S. hits S e' \<longrightarrow>
      hits S e \<and> (\<forall>d. sync S e d \<longrightarrow> (\<exists>d'. Some (ec_dec_bits bits d) = Some (fl, d') \<and> sync S e' d')))"
    using enc_bits_ok(1) [OF e assms] by (intro exI [of _ ?e]) simp
qed

text \<open>The top bits of a uniform integer, and an integer of at most eight bits.\<close>

lemma codes_index:
  assumes "fl < ft" and "uint ft \<le> 2 ^ 23"
  shows "codes (ec_encode fl (fl + 1) ft)
    (\<lambda>d. ec_decode ft d \<bind> (\<lambda>(s, d). ec_dec_update s (s + 1) ft d \<bind> (\<lambda>d. Some (s, d)))) fl"
proof -
  have "uint fl + 1 < 2 ^ LENGTH(32)" using assms by (simp add: word_less_def)
  then have u: "uint (fl + 1) = uint fl + 1" by (subst uint_add_nowrap) simp_all
  have b: "fl < fl + 1" "fl + 1 \<le> ft" using assms by (simp_all add: word_less_def word_le_def u)
  have "f = fl" if "fl \<le> f" "f < fl + 1" for f
    using that by (simp add: word_less_def word_le_def word_uint_eq_iff u)
  then show ?thesis using b by (intro codes_encode [OF _ _ assms(2)]) auto
qed

text \<open>The number of bits of \<open>ft - 1\<close>.\<close>

lemma ilog_pred:
  assumes "v < (ft :: u32)"
  shows "uint (ft - 1) = uint ft - 1" and "v \<le> ft - 1" and "1 \<le> uint ft"
    and "0 < ec_ilog (ft - 1) \<Longrightarrow> is_ilog (uint (ft - 1)) (ec_ilog (ft - 1))"
    and "uint (ft - 1) < 2 ^ nat (ec_ilog (ft - 1))"
proof -
  have lt: "uint v < uint ft" using assms by (simp only: word_less_def)
  show f1: "1 \<le> uint ft" using lt uint_ge_0 [of v] by linarith
  show u: "uint (ft - 1) = uint ft - 1" using f1 by (subst uint_sub_nowrap) simp_all
  show "v \<le> ft - 1" using lt unfolding word_le_def u by simp
  have z: "ec_ilog 0 = 0" by (simp add: ec_ilog_def)
  have c: "ft - 1 = 0 \<or> 0 < ft - 1" by (simp add: word_gt_0)
  then show "0 < ec_ilog (ft - 1) \<Longrightarrow> is_ilog (uint (ft - 1)) (ec_ilog (ft - 1))"
    using ec_ilog_correct [of "ft - 1"] z by auto
  show "uint (ft - 1) < 2 ^ nat (ec_ilog (ft - 1))"
    using c ec_ilog_correct [of "ft - 1"] by (auto simp: z is_ilog_def)
qed

lemma split_low_bits: "push_bit n (drop_bit n v) OR (v AND (push_bit n 1 - 1)) = (v :: u32)"
proof -
  have "v AND (push_bit n 1 - 1) = take_bit n v"
    by (simp only: take_bit_eq_mask mask_eq_exp_minus_1 push_bit_of_1)
  then show ?thesis
    by (simp only:) (rule bit_eqI, auto simp: bit_simps)
qed

lemma codes_uint_small:
  assumes v: "v < ft" and small: "ec_ilog (ft - 1) \<le> EC_UINT_BITS"
  shows "codes (ec_enc_uint v ft) (ec_dec_uint ft) v"
proof -
  have "(2 :: int) ^ nat (ec_ilog (ft - 1)) \<le> 2 ^ 8"
    using small by (intro power_increasing) (simp_all add: ec_consts)
  then have "uint ft \<le> 2 ^ 23" using ilog_pred(1,5) [OF v] by simp
  note ix = codes_index [OF v this]
  show ?thesis
  proof (rule iffD2 [OF codes_cong ix])
    show "ec_enc_uint v ft e = ec_encode v (v + 1) ft e" for e
      using small by (simp add: ec_enc_uint_def Let_def)
    show "ec_dec_uint ft d = ec_decode ft d \<bind>
        (\<lambda>(s, d). ec_dec_update s (s + 1) ft d \<bind> (\<lambda>d. Some (s, d)))" for d
      using small by (simp add: ec_dec_uint_def Let_def)
  qed
qed

text \<open>The two parts of a larger integer: its top bits, below \<open>uint_top\<close>, and \<open>n\<close> raw bits.\<close>

lemma uint_parts:
  assumes v: "v < ft" and big: "ec_ilog (ft - 1) > EC_UINT_BITS"
  defines "n \<equiv> nat (ec_ilog (ft - 1) - EC_UINT_BITS)"
  defines "f \<equiv> drop_bit n (ft - 1) + 1"
  shows "n \<le> 25" and "drop_bit n v < f" and "uint f \<le> 2 ^ 23"
    and "uint (v AND (push_bit n 1 - 1)) < 2 ^ n"
proof -
  note p = ilog_pred [OF v]
  have lg: "2 ^ nat (ec_ilog (ft - 1) - 1) \<le> uint (ft - 1)"
    using p(4) big by (simp add: is_ilog_def ec_consts)
  have n: "nat (ec_ilog (ft - 1)) = n + 8" "nat (ec_ilog (ft - 1) - 1) = n + 7"
    using big by (simp_all add: n_def ec_consts)
  show "n \<le> 25"
  proof (rule ccontr)
    assume "\<not> n \<le> 25"
    then have "(2 :: int) ^ 32 \<le> 2 ^ (n + 7)" by (intro power_increasing) simp_all
    then show False using lg uint_lt32 [of "ft - 1"] unfolding n by simp
  qed
  have dv: "uint (drop_bit n (ft - 1)) < 256"
    unfolding uint_drop_bit using p(5) unfolding n by (simp add: int_div_less power_add)
  have f: "uint f = uint (drop_bit n (ft - 1)) + 1"
    unfolding f_def by (rule trans [OF uint_add_nowrap]) (use dv in \<open>simp_all only: uint_1\<close>, simp)
  have "uint (drop_bit n v) \<le> uint (drop_bit n (ft - 1))"
    unfolding uint_drop_bit using p(2) by (intro zdiv_mono1) (simp_all only: word_le_def, simp)
  then show "drop_bit n v < f" unfolding word_less_def f by simp
  show "uint f \<le> 2 ^ 23" unfolding f using dv by simp
  have "v AND (push_bit n 1 - 1) = take_bit n v"
    by (simp only: take_bit_eq_mask mask_eq_exp_minus_1 push_bit_of_1)
  then have "uint (v AND (push_bit n 1 - 1)) = uint v mod 2 ^ n"
    by (simp only: unsigned_take_bit_eq) (rule take_bit_eq_mod)
  then show "uint (v AND (push_bit n 1 - 1)) < 2 ^ n" by simp
qed

lemma codes_uint_large:
  assumes v: "v < ft" and big: "ec_ilog (ft - 1) > EC_UINT_BITS"
  shows "codes (ec_enc_uint v ft) (ec_dec_uint ft) v"
proof -
  define n where "n = nat (ec_ilog (ft - 1) - EC_UINT_BITS)"
  define f where "f = drop_bit n (ft - 1) + 1"
  note pt = uint_parts [OF v big, folded n_def, folded f_def]
  let ?E = "\<lambda>e. ec_encode (drop_bit n v) (drop_bit n v + 1) f e \<bind>
        (\<lambda>e. Some (ec_enc_bits (v AND (push_bit n 1 - 1)) n e) \<bind> Some)"
  let ?D = "\<lambda>d. (ec_decode f d \<bind> (\<lambda>(s, d). ec_dec_update s (s + 1) f d \<bind> (\<lambda>d. Some (s, d)))) \<bind>
        (\<lambda>(s, d). Some (ec_dec_bits n d) \<bind> (\<lambda>(low, d). if push_bit n s OR low \<le> ft - 1
             then Some (push_bit n s OR low, d) else Some (ft - 1, d\<lparr>ec_error := 1\<rparr>)))"
  have fin: "codes Some (\<lambda>d. if v \<le> ft - 1 then Some (v, d) else Some (ft - 1, d\<lparr>ec_error := 1\<rparr>)) v"
    by (simp only: ilog_pred(2) [OF v] if_True codes_return)
  have "codes ?E ?D v"
  proof (rule codes_bind [OF codes_index [OF pt(2,3)]], rule codes_bind [OF codes_bits [OF pt(1,4)]])
    show "codes Some (\<lambda>d. if push_bit n (drop_bit n v) OR (v AND (push_bit n 1 - 1)) \<le> ft - 1
         then Some (push_bit n (drop_bit n v) OR (v AND (push_bit n 1 - 1)), d)
         else Some (ft - 1, d\<lparr>ec_error := 1\<rparr>)) v"
      unfolding split_low_bits by (rule fin)
  qed
  moreover have "ec_enc_uint v ft e = ?E e" for e
    unfolding ec_enc_uint_def Let_def if_P [OF big] n_def [symmetric] f_def [symmetric]
    by (simp only: bind.bind_lunit)
  moreover have "ec_dec_uint ft d = ?D d" for d
    unfolding ec_dec_uint_def Let_def if_P [OF big] n_def [symmetric] f_def [symmetric]
    by (simp only: bind.bind_lunit bind_assoc split_def fst_conv snd_conv)
  ultimately show ?thesis using codes_cong [of "ec_enc_uint v ft" ?E "ec_dec_uint ft" ?D v] by blast
qed

lemma codes_uint: "v < ft \<Longrightarrow> codes (ec_enc_uint v ft) (ec_dec_uint ft) v"
  using codes_uint_small codes_uint_large by (cases "ec_ilog (ft - 1) \<le> EC_UINT_BITS") auto

section \<open>The routines as codecs\<close>

interpretation bit_logp: codec "\<lambda>v. ec_enc_bit_logp v logp" "ec_dec_bit_logp logp"
    "\<lambda>_. 1 \<le> logp \<and> logp \<le> 23" for logp
  by unfold_locales (simp add: codes_bit_logp)

interpretation icdf: codec "\<lambda>s. ec_enc_icdf s icdf ftb" "ec_dec_icdf icdf ftb"
    "icdf_valid icdf ftb" for icdf ftb
  by unfold_locales (rule codes_icdf)

interpretation raw: codec "\<lambda>v e. Some (ec_enc_bits v bits e)" "\<lambda>d. Some (ec_dec_bits bits d)"
    "\<lambda>v. bits \<le> 25 \<and> uint v < 2 ^ bits" for bits
  by unfold_locales (rule codes_bits, simp_all)

interpretation uniform: codec "\<lambda>v. ec_enc_uint v ft" "ec_dec_uint ft" "\<lambda>v. v < ft" for ft
  by unfold_locales (rule codes_uint)

section \<open>Whole streams\<close>

text \<open>A stream of symbols: each has a kind, which both sides know, and a value.\<close>

datatype sym_kind = Bit_logp nat | Icdf "u32 list" nat | Uint u32 | Raw_bits nat

fun enc_sym :: "sym_kind \<Rightarrow> u32 \<Rightarrow> ec_ctx \<Rightarrow> ec_ctx option" where
  "enc_sym (Bit_logp logp) v = ec_enc_bit_logp (v \<noteq> 0) logp"
| "enc_sym (Icdf icdf ftb) v = ec_enc_icdf (unat v) icdf ftb"
| "enc_sym (Uint ft) v = ec_enc_uint v ft"
| "enc_sym (Raw_bits bits) v = (\<lambda>e. Some (ec_enc_bits v bits e))"

fun dec_sym :: "sym_kind \<Rightarrow> ec_ctx \<Rightarrow> (u32 \<times> ec_ctx) option" where
  "dec_sym (Bit_logp logp) d = map_option (apfst of_bool) (ec_dec_bit_logp logp d)"
| "dec_sym (Icdf icdf ftb) d = map_option (apfst of_nat) (ec_dec_icdf icdf ftb d)"
| "dec_sym (Uint ft) d = ec_dec_uint ft d"
| "dec_sym (Raw_bits bits) d = Some (ec_dec_bits bits d)"

fun sym_valid :: "sym_kind \<Rightarrow> u32 \<Rightarrow> bool" where
  "sym_valid (Bit_logp logp) v \<longleftrightarrow> 1 \<le> logp \<and> logp \<le> 23 \<and> v \<le> 1"
| "sym_valid (Icdf icdf ftb) v \<longleftrightarrow> icdf_valid icdf ftb (unat v)"
| "sym_valid (Uint ft) v \<longleftrightarrow> v < ft"
| "sym_valid (Raw_bits bits) v \<longleftrightarrow> bits \<le> 25 \<and> uint v < 2 ^ bits"

lemma bind_apfst: "map_option (apfst f) m = m \<bind> (\<lambda>(x, d). Some (f x, d))"
  by (cases m) auto

lemma codes_sym: "sym_valid k v \<Longrightarrow> codes (enc_sym k v) (dec_sym k) v"
proof (induction k v rule: sym_valid.induct)
  case (1 logp v)
  then have "uint v \<le> 1" by (simp add: word_le_def)
  then have "uint v = 0 \<or> uint v = 1" using uint_ge_0 [of v] by linarith
  then have "v = of_bool (v \<noteq> 0)" by (auto simp: word_uint_eq_iff)
  then show ?case
    using 1 codes_map [OF codes_bit_logp [of logp "v \<noteq> 0"], of "dec_sym (Bit_logp logp)" of_bool v]
    by (simp add: bind_apfst codes_def)
next
  case (2 icdf ftb v)
  then show ?case
    using codes_map [OF codes_icdf [of icdf ftb "unat v"], of "dec_sym (Icdf icdf ftb)" of_nat v]
    by (simp add: bind_apfst codes_def)
next
  case (3 ft v)
  then show ?case using codes_uint [of v ft] by (simp add: codes_def)
next
  case (4 bits v)
  then show ?case using codes_bits [of bits v] by (simp add: codes_def)
qed

fun enc_stream :: "(sym_kind \<times> u32) list \<Rightarrow> ec_ctx \<Rightarrow> ec_ctx option" where
  "enc_stream [] e = Some e"
| "enc_stream ((k, v) # xs) e = enc_sym k v e \<bind> enc_stream xs"

fun dec_stream :: "sym_kind list \<Rightarrow> ec_ctx \<Rightarrow> ((sym_kind \<times> u32) list \<times> ec_ctx) option" where
  "dec_stream [] d = Some ([], d)"
| "dec_stream (k # ks) d =
    dec_sym k d \<bind> (\<lambda>(v, d). dec_stream ks d \<bind> (\<lambda>(xs, d). Some ((k, v) # xs, d)))"

lemma codes_stream:
  "list_all (\<lambda>(k, v). sym_valid k v) xs \<Longrightarrow> codes (enc_stream xs) (dec_stream (map fst xs)) xs"
proof (induction xs)
  case Nil
  then show ?case by (simp add: codes_def advance_refl)
next
  case (Cons x xs)
  obtain k v where x: "x = (k, v)" by fastforce
  have "codes (\<lambda>e. enc_sym k v e \<bind> enc_stream xs)
     (\<lambda>d. dec_sym k d \<bind> (\<lambda>(v, d). dec_stream (map fst xs) d \<bind> (\<lambda>(xs, d). Some ((k, v) # xs, d))))
     ((k, v) # xs)"
    using Cons x by (intro codes_bind [OF codes_sym] codes_map [OF Cons.IH]) simp_all
  then show ?case by (simp add: codes_def x)
qed

interpretation stream: codec enc_stream "dec_stream ks" "\<lambda>xs. map fst xs = ks \<and> list_all (\<lambda>(k, v). sym_valid k v) xs"
  for ks
  by unfold_locales (use codes_stream in blast)

text \<open>
  Encoding a whole stream, finishing it, and starting a decoder on the buffer. When the
  bits used fit in the buffer nothing fails and the decoder reads everything back.
\<close>

lemma codes_run:
  assumes "codes E D x" and "length buf = sz"
  obtains e where "E (ec_enc_init buf sz) = Some e" and "enc_inv e" and "ec_storage e = sz"
    and "within e \<Longrightarrow> ec_error e = 0"
    and "\<And>S d. hits S e \<Longrightarrow> sync S (ec_enc_init buf sz) d \<Longrightarrow> \<exists>d'. D d = Some (x, d') \<and> sync S e d'"
proof (rule codesE [OF assms(1) enc_init_inv [OF assms(2)]])
  fix e assume e: "E (ec_enc_init buf sz) = Some e" "enc_inv e" "advance (ec_enc_init buf sz) e"
    "\<And>S d. hits S e \<Longrightarrow> sync S (ec_enc_init buf sz) d \<Longrightarrow> \<exists>d'. D d = Some (x, d') \<and> sync S e d'"
  have i: "ec_storage (ec_enc_init buf sz) = sz" "ec_error (ec_enc_init buf sz) = 0"
    by (simp_all add: ec_enc_init_def)
  have "ec_storage e = sz" "within e \<Longrightarrow> ec_error e = 0" using e(3) i by (simp_all add: advance_def)
  then show thesis by (rule that [OF e(1,2) _ _ e(4)])
qed

text \<open>What a decoder has in common with an encoder that reached the same point.\<close>

definition same_state :: "ec_ctx \<Rightarrow> ec_ctx \<Rightarrow> bool" where
  "same_state e d \<longleftrightarrow> ec_rng d = ec_rng e \<and> ec_tell d = ec_tell e \<and> ec_tell_frac d = ec_tell_frac e
     \<and> ec_get_error d = 0"

lemma sync_same_state: "sync S e d \<Longrightarrow> same_state e d"
  using sync_tell [of S e d] by (simp add: same_state_def sync_def ec_get_error_def)

lemma codes_finish:
  assumes c: "codes E D x" and buf: "length buf = sz" and e: "E (ec_enc_init buf sz) = Some e"
    and e': "enc_inv e'" "ec_storage e' = n" "ec_error e' = 0" "n < 2 ^ 27" "ec_tell e' \<le> 8 * int n"
    and h: "\<And>S. hits S e' \<Longrightarrow> hits S e"
  defines "B \<equiv> ec_buf (ec_enc_done e')"
  shows "ec_error (ec_enc_done e') = 0 \<and> length B = n
    \<and> (\<exists>d. (ec_dec_init B n \<bind> D) = Some (x, d) \<and> same_state e d)"
proof -
  obtain e0 where e0: "E (ec_enc_init buf sz) = Some e0"
    "\<And>S d. hits S e0 \<Longrightarrow> sync S (ec_enc_init buf sz) d \<Longrightarrow> \<exists>d'. D d = Some (x, d') \<and> sync S e0 d'"
    using codes_run [OF c buf] by metis
  have er: "ec_error (ec_enc_done e') = 0" using enc_done_fits e' by simp
  have "within e'" by (rule tell_within [OF e'(1)]) (use e' in simp_all)
  then have nb: "ec_nbits_total e' < 2 ^ 31" by (simp add: within_def)
  note dn = enc_done_hits [OF e'(1) nb er, folded B_def]
  have len: "length B = n" using dn(2) e' by simp
  from dec_init_sync [of B buf sz] obtain d0
    where d0: "ec_dec_init B n = Some d0" "sync B (ec_enc_init buf sz) d0"
    unfolding len by blast
  from e0(2) [OF _ d0(2)] h [OF dn(1)] e0(1) e obtain d where "D d0 = Some (x, d)" "sync B e d" by auto
  then show ?thesis using er len d0 sync_same_state by auto
qed

end
