(* ===== verification/Range_Decoder_Safe.thy ===== *)
theory Range_Decoder_Safe
  imports Range_Coder_Streams
begin

text \<open>
  The decoder on arbitrary input: whatever the bytes are, every routine of the range
  decoder ends, divides by nothing that is zero, reads nothing outside its buffer and
  returns a value in its range. \<open>reads D P\<close> is the contract of one step, the locale
  \<open>total_decoder\<close> its interface.
\<close>

section \<open>The decoder invariant\<close>

definition dec_shape :: "ec_ctx \<Rightarrow> bool" where
  "dec_shape d \<longleftrightarrow> length (ec_buf d) = ec_storage d \<and> ec_offs d \<le> ec_storage d
     \<and> ec_end_offs d \<le> ec_storage d \<and> 0 \<le> ec_rem d \<and> ec_rem d < 256
     \<and> 0 \<le> ec_nend_bits d \<and> ec_nend_bits d \<le> 32"

definition dec_mid :: "ec_ctx \<Rightarrow> bool" where
  "dec_mid d \<longleftrightarrow> dec_shape d \<and> uint (ec_val d) < uint (ec_rng d) \<and> uint (ec_rng d) \<le> 2 ^ 31"

definition dec_inv :: "ec_ctx \<Rightarrow> bool" where
  "dec_inv d \<longleftrightarrow> dec_mid d \<and> 2 ^ 23 < uint (ec_rng d)"

lemma dec_norm_step_mid:
  assumes mid: "dec_mid d" and small: "uint (ec_rng d) \<le> 2 ^ 23"
  shows "dec_mid (ec_dec_norm_step d)" and "uint (ec_rng (ec_dec_norm_step d)) = 256 * uint (ec_rng d)"
proof -
  let ?b = "ec_rem (ec_dec_norm_step d)"
  have r: "0 \<le> ec_rem d" "ec_rem d < 256" and v: "uint (ec_val d) < uint (ec_rng d)"
    using mid by (simp_all add: dec_mid_def dec_shape_def)
  have b: "0 \<le> ?b" "?b < 256" using uint_lt8 by auto
  show rng: "uint (ec_rng (ec_dec_norm_step d)) = 256 * uint (ec_rng d)"
    using small by (simp add: uint_push_bit flip: push_bit_eq_mult)
  have "uint (ec_val d) < 2 ^ 23" using v small by linarith
  from dec_norm_step_val [OF r this]
  have "uint (ec_val (ec_dec_norm_step d)) \<le> 256 * uint (ec_val d) + 255"
    using b by (simp add: pos_imp_zdiv_nonneg_iff)
  then have "uint (ec_val (ec_dec_norm_step d)) < uint (ec_rng (ec_dec_norm_step d))"
    unfolding rng using v by linarith
  moreover have "dec_shape (ec_dec_norm_step d)"
    using mid b unfolding dec_mid_def dec_shape_def by auto
  ultimately show "dec_mid (ec_dec_norm_step d)"
    using small unfolding dec_mid_def rng by simp
qed

lemma dec_normalize_total:
  assumes "dec_mid d"
  shows "\<exists>d'. ec_dec_normalize d = Some d' \<and> dec_inv d' \<and> ec_storage d' = ec_storage d"
  using assms
proof (induction "nat (2 ^ 33 - uint (ec_rng d))" arbitrary: d rule: less_induct)
  case less
  show ?case
  proof (cases "uint (ec_rng d) \<le> 2 ^ 23")
    case True
    note st = dec_norm_step_mid [OF less.prems True]
    have "0 < uint (ec_rng d)" using less.prems uint_ge_0 [of "ec_val d"] unfolding dec_mid_def by linarith
    then have "nat (2 ^ 33 - uint (ec_rng (ec_dec_norm_step d))) < nat (2 ^ 33 - uint (ec_rng d))"
      unfolding st(2) using True by simp
    from less.hyps [OF this st(1)] show ?thesis using True by (simp add: dec_normalize_step)
  next
    case False
    then show ?thesis using less.prems by (simp add: dec_normalize_stop dec_inv_def)
  qed
qed

lemma dec_init_storage:
  assumes "length buf = sz"
  shows "\<exists>d. ec_dec_init buf sz = Some d \<and> dec_inv d \<and> ec_storage d = sz"
proof -
  define b where "b = fst (ec_read_byte \<lparr>ec_buf = buf, ec_storage = sz, ec_end_offs = 0, ec_end_window = 0,
    ec_nend_bits = 0, ec_nbits_total = 9, ec_offs = 0, ec_rng = 128, ec_val = 0, ec_ext = 0, ec_rem = 0,
    ec_error = 0\<rparr>)"
  have b: "0 \<le> b" "b < 256" using uint_lt8 by (auto simp: b_def ec_read_byte_def)
  define d where "d = \<lparr>ec_buf = buf, ec_storage = sz, ec_end_offs = 0, ec_end_window = 0,
    ec_nend_bits = 0, ec_nbits_total = 9, ec_offs = min 1 sz, ec_rng = 128,
    ec_val = 127 - of_int (b div 2), ec_ext = 0, ec_rem = b, ec_error = 0\<rparr>"
  have init: "ec_dec_init buf sz = ec_dec_normalize d"
    by (simp add: ec_dec_init_def ec_read_byte_def Let_def ec_consts ec_const_values d_def b_def
        drop_bit_eq_div min_def Suc_le_eq)
  have "uint (of_int (b div 2) :: u32) = b div 2" "0 \<le> b div 2" "b div 2 < 128"
    using b by (simp_all add: uint_word_of_int pos_imp_zdiv_nonneg_iff)
  then have "uint (127 - of_int (b div 2) :: u32) = 127 - b div 2" "0 \<le> b div 2"
    by (auto simp: uint_sub_nowrap)
  then have "dec_mid d"
    using assms b by (simp add: dec_mid_def dec_shape_def d_def)
  then show ?thesis unfolding init using dec_normalize_total [of d] by (simp add: d_def)
qed

section \<open>The contract of a decoding step\<close>

definition reads :: "(ec_ctx \<Rightarrow> ('x \<times> ec_ctx) option) \<Rightarrow> ('x \<Rightarrow> bool) \<Rightarrow> bool" where
  "reads D P \<longleftrightarrow> (\<forall>d. dec_inv d \<longrightarrow> (\<exists>x d'. D d = Some (x, d') \<and> P x \<and> dec_inv d'
     \<and> ec_storage d' = ec_storage d))"

lemma readsI: "(\<And>d. dec_inv d \<Longrightarrow> \<exists>x d'. D d = Some (x, d') \<and> P x \<and> dec_inv d'
    \<and> ec_storage d' = ec_storage d) \<Longrightarrow> reads D P"
  by (simp add: reads_def)

lemma reads_return: "P x \<Longrightarrow> reads (\<lambda>d. Some (x, d)) P"
  by (simp add: reads_def)

lemma reads_bind:
  assumes "reads D P" and "\<And>x. P x \<Longrightarrow> reads (D' x) Q"
  shows "reads (\<lambda>d. D d \<bind> (\<lambda>(x, d). D' x d)) Q"
proof (rule readsI)
  fix d assume "dec_inv d"
  then obtain x d1 where d1: "D d = Some (x, d1)" "P x" "dec_inv d1" "ec_storage d1 = ec_storage d"
    using assms(1) unfolding reads_def by blast
  then obtain y d2 where "D' x d1 = Some (y, d2)" "Q y" "dec_inv d2" "ec_storage d2 = ec_storage d1"
    using assms(2) unfolding reads_def by blast
  then show "\<exists>y d'. D d \<bind> (\<lambda>(x, d). D' x d) = Some (y, d') \<and> Q y \<and> dec_inv d'
      \<and> ec_storage d' = ec_storage d"
    using d1 by simp
qed

lemma reads_weaken: "reads D P \<Longrightarrow> (\<And>x. P x \<Longrightarrow> Q x) \<Longrightarrow> reads D Q"
  unfolding reads_def by blast

text \<open>A decoding routine, for the parameters \<open>k\<close> it may be called with.\<close>

locale total_decoder =
  fixes dec :: "'k \<Rightarrow> ec_ctx \<Rightarrow> ('x \<times> ec_ctx) option"
    and good :: "'k \<Rightarrow> bool" and result :: "'k \<Rightarrow> 'x \<Rightarrow> bool"
  assumes reads: "good k \<Longrightarrow> reads (dec k) (result k)"
begin

lemma total: "good k \<Longrightarrow> dec_inv d \<Longrightarrow> \<exists>x d'. dec k d = Some (x, d') \<and> result k x \<and> dec_inv d'"
  using reads unfolding reads_def by blast

lemma reads_seq:
  assumes "good k"
  shows "reads (dec_seq (dec k) n) (\<lambda>xs. length xs = n \<and> list_all (result k) xs)"
proof (induction n)
  case 0
  then show ?case by (simp add: reads_def)
next
  case (Suc n)
  have "reads (\<lambda>d. dec k d \<bind> (\<lambda>(x, d). dec_seq (dec k) n d \<bind> (\<lambda>(xs, d). Some (x # xs, d))))
      (\<lambda>xs. length xs = Suc n \<and> list_all (result k) xs)"
    by (rule reads_bind [OF reads [OF assms]], rule reads_bind [OF Suc.IH], rule reads_return) simp
  then show ?case by simp
qed

end

section \<open>The routines\<close>

text \<open>Narrowing to the part that contains the value keeps the value below the range.\<close>

lemma dec_narrow_mid:
  assumes mid: "dec_mid d" and pt: "part (ec_rng d) r fl fh ft"
    and lo: "uint r * (uint ft - uint fh) \<le> uint (ec_val d)"
    and hi: "fl > 0 \<Longrightarrow> uint (ec_val d) < uint r * (uint ft - uint fl)"
  shows "dec_mid (dec_narrow r fl fh ft d)"
proof -
  note u = part_uint [OF pt]
  let ?d = "dec_narrow r fl fh ft d"
  have val: "uint (ec_val ?d) = uint (ec_val d) - uint r * (uint ft - uint fh)"
    using lo by (simp add: dec_narrow_def uint_sub_nowrap u(1))
  have rng: "uint (ec_rng ?d) = (if fl > 0 then uint r * (uint fh - uint fl)
      else uint (ec_rng d) - uint r * (uint ft - uint fh))"
    by (simp add: dec_narrow_def u(3,5))
  have s: "uint r * (uint ft - uint fl) = uint r * (uint ft - uint fh) + uint r * (uint fh - uint fl)"
    by (simp add: algebra_simps)
  have v: "uint (ec_val d) < uint (ec_rng d)" "uint (ec_rng d) \<le> 2 ^ 31"
    using mid by (simp_all add: dec_mid_def)
  have p: "0 \<le> uint r * (uint ft - uint fh)" using u(7-9) by simp
  have "uint (ec_val ?d) < uint (ec_rng ?d)"
    unfolding val rng using hi v s by auto
  moreover have "uint (ec_rng ?d) \<le> 2 ^ 31"
    unfolding rng using v p s u(4) by auto
  moreover have "dec_shape ?d" using mid by (simp add: dec_mid_def dec_shape_def dec_narrow_def)
  ultimately show ?thesis by (simp add: dec_mid_def)
qed

lemma dec_mid_ext [simp]: "dec_mid (d\<lparr>ec_ext := x\<rparr>) = dec_mid d" "dec_inv (d\<lparr>ec_ext := x\<rparr>) = dec_inv d"
  by (simp_all add: dec_mid_def dec_inv_def dec_shape_def)

text \<open>
  \<open>ec_decode\<close> returns a value below \<open>ft\<close>; the caller may then remove any symbol whose
  range contains it.
\<close>

definition index_lo :: "u32 \<Rightarrow> u32 \<Rightarrow> u32 \<Rightarrow> u32" where
  "index_lo v r ft = ft - EC_MINI (v div r + 1) ft"

lemma index_lo_bounds:
  fixes rng :: u32
  assumes r: "0 < uint r" and ft: "0 < uint ft" and rt: "uint r * uint ft \<le> uint rng" and v: "uint v < uint rng"
  defines "s \<equiv> index_lo v r ft"
  shows "s < ft" and "uint r * (uint ft - (uint s + 1)) \<le> uint v"
    and "0 < s \<Longrightarrow> uint v < uint r * (uint ft - uint s)"
proof -
  define q where "q = uint v div uint r"
  have qr: "q * uint r \<le> uint v" "uint v < (q + 1) * uint r"
    using r int_le_div [OF r, of q "uint v"] int_div_less [OF r, of "uint v" "q + 1"]
    by (simp_all add: q_def)
  have q0: "0 \<le> q" using r by (simp add: q_def pos_imp_zdiv_nonneg_iff)
  have "q * 1 \<le> q * uint r" using q0 r by (intro mult_left_mono) simp_all
  then have s1: "uint (v div r + 1) = q + 1"
    using qr v uint_lt32 [of rng] by (subst uint_add_nowrap) (simp_all add: q_def uint_div)
  have us: "uint s = uint ft - min (q + 1) (uint ft)"
  proof -
    have m: "uint (EC_MINI (v div r + 1) ft) = min (q + 1) (uint ft)"
      by (simp add: EC_MINI_min min_def word_le_def s1)
    then show ?thesis unfolding s_def index_lo_def by (subst uint_sub_nowrap) simp_all
  qed
  show "s < ft" unfolding word_less_def us using q0 ft by simp
  have "uint ft - (uint s + 1) \<le> q" unfolding us by simp
  then have "uint r * (uint ft - (uint s + 1)) \<le> uint r * q" using r by (intro mult_left_mono) simp_all
  then show "uint r * (uint ft - (uint s + 1)) \<le> uint v" using qr by (simp add: mult.commute)
  assume "0 < s"
  then have "uint ft - uint s = q + 1" unfolding word_less_def us by simp
  then show "uint v < uint r * (uint ft - uint s)" using qr by (simp add: mult.commute)
qed

lemma decode_reads:
  assumes inv: "dec_inv d" and ft: "0 < uint ft" "uint ft \<le> 2 ^ 23"
  defines "r \<equiv> ec_rng d div ft"
  shows "ec_decode ft d = Some (index_lo (ec_val d) r ft, d\<lparr>ec_ext := r\<rparr>)"
    and "index_lo (ec_val d) r ft < ft"
    and "fl \<le> index_lo (ec_val d) r ft \<Longrightarrow> index_lo (ec_val d) r ft < fh \<Longrightarrow> fh \<le> ft \<Longrightarrow>
      \<exists>d'. ec_dec_update fl fh ft (d\<lparr>ec_ext := r\<rparr>) = Some d' \<and> dec_inv d' \<and> ec_storage d' = ec_storage d"
proof -
  have d: "dec_mid d" "2 ^ 23 < uint (ec_rng d)" "uint (ec_val d) < uint (ec_rng d)"
    using inv by (simp_all add: dec_inv_def dec_mid_def)
  have "part (ec_rng d) r 0 ft ft"
    unfolding r_def using d ft by (intro part_udiv) (simp_all add: word_less_def)
  then have r: "0 < r" "0 < uint r" "uint r * uint ft \<le> uint (ec_rng d)"
    by (simp_all add: part_def word_less_def)
  have ft0: "0 < ft" using ft by (simp add: word_less_def)
  show "ec_decode ft d = Some (index_lo (ec_val d) r ft, d\<lparr>ec_ext := r\<rparr>)"
    using r by (simp add: ec_decode_def celt_udiv_Some [OF ft0] celt_udiv_Some index_lo_def flip: r_def)
  let ?s = "index_lo (ec_val d) r ft"
  note ib = index_lo_bounds [OF r(2) ft(1) r(3) d(3)]
  show "?s < ft" by (rule ib(1))
  assume f: "fl \<le> ?s" "?s < fh" "fh \<le> ft"
  then have fu: "uint fl \<le> uint ?s" "uint ?s < uint fh" "uint fh \<le> uint ft"
    by (simp_all add: word_le_def word_less_def)
  then have fl: "fl < fh" by (simp add: word_less_def)
  have pt: "part (ec_rng d) r fl fh ft" using r f fl by (simp add: part_def)
  have "uint r * (uint ft - uint fh) \<le> uint r * (uint ft - (uint ?s + 1))"
    using fu r by (intro mult_left_mono) simp_all
  then have lo: "uint r * (uint ft - uint fh) \<le> uint (ec_val d)" using ib(2) by linarith
  have hi: "uint (ec_val d) < uint r * (uint ft - uint fl)" if "fl > 0"
  proof -
    have "0 < ?s" using that f(1) by (rule less_le_trans)
    moreover have "uint r * (uint ft - uint ?s) \<le> uint r * (uint ft - uint fl)"
      using fu r by (intro mult_left_mono) simp_all
    ultimately show ?thesis using ib(3) by linarith
  qed
  have "dec_mid (dec_narrow r fl fh ft (d\<lparr>ec_ext := r\<rparr>))"
    unfolding dec_narrow_ext dec_mid_ext by (rule dec_narrow_mid [OF d(1) pt lo hi])
  from dec_normalize_total [OF this]
  show "\<exists>d'. ec_dec_update fl fh ft (d\<lparr>ec_ext := r\<rparr>) = Some d' \<and> dec_inv d' \<and> ec_storage d' = ec_storage d"
    unfolding dec_update_narrow by (simp add: dec_narrow_def)
qed

lemma reads_bit_logp:
  assumes "logp \<le> 23"
  shows "reads (ec_dec_bit_logp logp) (\<lambda>_. True)"
proof (rule readsI)
  fix d assume inv: "dec_inv d"
  let ?s = "drop_bit logp (ec_rng d)"
  define d1 where "d1 = (if ec_val d < ?s then d\<lparr>ec_rng := ?s\<rparr> else d\<lparr>ec_val := ec_val d - ?s, ec_rng := ec_rng d - ?s\<rparr>)"
  have v: "uint (ec_val d) < uint (ec_rng d)" "uint (ec_rng d) \<le> 2 ^ 31"
    using inv by (simp_all add: dec_inv_def dec_mid_def)
  have "uint (ec_rng d) div 2 ^ logp \<le> uint (ec_rng d) div 1"
    by (intro zdiv_mono2) simp_all
  then have sr: "uint ?s \<le> uint (ec_rng d)" by (simp only: uint_drop_bit) simp
  have "dec_mid d1"
  proof (cases "ec_val d < ?s")
    case True
    then show ?thesis using inv sr v by (simp add: d1_def dec_inv_def dec_mid_def dec_shape_def word_less_def)
  next
    case False
    then have "uint ?s \<le> uint (ec_val d)" by (simp add: word_less_def)
    then have "uint (ec_val d1) = uint (ec_val d) - uint ?s" "uint (ec_rng d1) = uint (ec_rng d) - uint ?s"
      using False v by (simp_all add: d1_def uint_sub_nowrap)
    moreover have "dec_shape d1" using inv by (simp add: d1_def dec_inv_def dec_mid_def dec_shape_def)
    ultimately show ?thesis using v uint_ge_0 [of ?s] unfolding dec_mid_def by linarith
  qed
  from dec_normalize_total [OF this] obtain d' where d': "ec_dec_normalize d1 = Some d'" "dec_inv d'"
    "ec_storage d' = ec_storage d" by (auto simp: d1_def)
  have "ec_dec_bit_logp logp d = Some (ec_val d < ?s, d')"
    using d'(1) by (cases "ec_val d < ?s") (simp_all add: ec_dec_bit_logp_def d1_def Let_def)
  then show "\<exists>x d'. ec_dec_bit_logp logp d = Some (x, d') \<and> True \<and> dec_inv d'
      \<and> ec_storage d' = ec_storage d" using d'(2,3) by blast
qed

text \<open>A table that the search never leaves: its last entry is 0.\<close>

definition icdf_closed :: "u32 list \<Rightarrow> nat \<Rightarrow> bool" where
  "icdf_closed icdf ftb \<longleftrightarrow> icdf \<noteq> [] \<and> last icdf = 0 \<and> ftb \<le> 23
     \<and> list_all (\<lambda>x. x < push_bit ftb 1) icdf"

lemma icdf_search_total:
  assumes "icdf \<noteq> []" and "last icdf = 0" and "d < t"
    and "list_all (\<lambda>x. uint r * uint x \<le> R) icdf" and "uint t \<le> R" and "R < 2 ^ 32"
  shows "\<exists>k s t'. icdf_search r d t n icdf = Some (n + k, s, t') \<and> k < length icdf
    \<and> s \<le> d \<and> d < t' \<and> uint t' \<le> R"
  using assms
proof (induction icdf arbitrary: t n)
  case (Cons x xs)
  show ?case
  proof (cases "d < r * x")
    case False
    then show ?thesis using Cons.prems
      by (intro exI [of _ 0] exI [of _ "r * x"] exI [of _ t]) (simp add: Let_def)
  next
    case True
    then have ne: "xs \<noteq> []" using Cons.prems by auto
    have "uint (r * x) \<le> R" using Cons.prems by (simp add: uint_mult_nowrap)
    with Cons.IH [OF ne _ True, of "Suc n"] ne Cons.prems
    obtain k s t' where "icdf_search r d (r * x) (Suc n) xs = Some (Suc n + k, s, t')" "k < length xs"
      "s \<le> d" "d < t'" "uint t' \<le> R" by auto
    then show ?thesis using True by (intro exI [of _ "Suc k"]) (simp add: Let_def)
  qed
qed simp

lemma reads_icdf:
  assumes c: "icdf_closed icdf ftb"
  shows "reads (ec_dec_icdf icdf ftb) (\<lambda>s. s < length icdf)"
proof (rule readsI)
  fix d assume inv: "dec_inv d"
  let ?r = "drop_bit ftb (ec_rng d)"
  have v: "ec_val d < ec_rng d" "uint (ec_rng d) \<le> 2 ^ 31" "dec_shape d"
    using inv by (simp_all add: dec_inv_def dec_mid_def word_less_def)
  have bound: "uint ?r * uint x \<le> uint (ec_rng d)" if "x < push_bit ftb 1" for x :: u32
  proof -
    have "uint (push_bit ftb 1 :: u32) \<le> 2 ^ ftb"
      by (simp only: uint_push_bit) (simp add: zmod_le_nonneg_dividend)
    then have "uint x \<le> 2 ^ ftb" using that unfolding word_less_def by linarith
    then have "uint ?r * uint x \<le> uint ?r * 2 ^ ftb" by (intro mult_left_mono) simp_all
    also have "\<dots> \<le> uint (ec_rng d)"
      unfolding uint_drop_bit using int_le_div [of "2 ^ ftb" "uint (ec_rng d) div 2 ^ ftb" "uint (ec_rng d)"] by simp
    finally show ?thesis .
  qed
  have all: "list_all (\<lambda>x. uint ?r * uint x \<le> uint (ec_rng d)) icdf"
    using c bound by (auto simp only: icdf_closed_def list_all_iff)
  from c icdf_search_total [OF _ _ v(1) all, of 0]
  obtain k s t where sr: "icdf_search ?r (ec_val d) (ec_rng d) 0 icdf = Some (k, s, t)"
    and k: "k < length icdf" and st: "s \<le> ec_val d" "ec_val d < t" "uint t \<le> uint (ec_rng d)"
    using v(2) by (auto simp: icdf_closed_def)
  let ?d = "d\<lparr>ec_val := ec_val d - s, ec_rng := t - s\<rparr>"
  have st': "uint s \<le> uint (ec_val d)" "uint (ec_val d) < uint t"
    using st by (simp_all add: word_le_def word_less_def)
  then have "uint (ec_val ?d) = uint (ec_val d) - uint s" "uint (ec_rng ?d) = uint t - uint s"
    by (simp_all add: uint_sub_nowrap)
  moreover have "dec_shape ?d" using v(3) by (simp add: dec_shape_def)
  ultimately have "dec_mid ?d" using st' st(3) v(2) uint_ge_0 [of s] unfolding dec_mid_def by linarith
  then obtain d' where "ec_dec_normalize ?d = Some d'" "dec_inv d'" "ec_storage d' = ec_storage d"
    using dec_normalize_total [of ?d] by auto
  then show "\<exists>x d'. ec_dec_icdf icdf ftb d = Some (x, d') \<and> x < length icdf \<and> dec_inv d'
      \<and> ec_storage d' = ec_storage d"
    using sr k by (simp add: ec_dec_icdf_def Let_def)
qed

lemma refill_shape:
  assumes "ec_refill w a d = (w', a', d')" and "dec_inv d" and "0 \<le> a" and "a \<le> 32"
  shows "dec_inv d' \<and> 24 < a' \<and> a' \<le> 32 \<and> ec_storage d' = ec_storage d"
  using assms
proof (induction w a d rule: ec_refill.induct)
  case (1 w a d)
  obtain b d2 where rd: "ec_read_byte_from_end d = (b, d2)" by (metis surj_pair)
  have inv2: "dec_inv d2" and st2: "ec_storage d2 = ec_storage d"
    using rd 1(3) by (auto simp: ec_read_byte_from_end_def dec_inv_def dec_mid_def dec_shape_def split: if_splits)
  show ?case
  proof (cases "a \<le> EC_WINDOW_SIZE - int EC_SYM_BITS")
    case True
    then have "ec_refill (w OR push_bit (nat a) (of_int b)) (a + int EC_SYM_BITS) d2 = (w', a', d')"
      using 1(2) by (simp add: ec_refill.simps [of w a d] rd)
    from 1(1) [OF True rd [symmetric] refl this inv2] show ?thesis
      using True 1(4) st2 by (simp add: ec_consts)
  next
    case False
    then show ?thesis using 1 by (simp add: ec_refill.simps [of w a d] ec_consts)
  qed
qed

lemma reads_bits:
  assumes bits: "bits \<le> 25"
  shows "reads (\<lambda>d. Some (ec_dec_bits bits d)) (\<lambda>v. uint v < 2 ^ bits)"
proof (rule readsI)
  fix d assume inv: "dec_inv d"
  obtain w a d1 where r: "(if ec_nend_bits d < int bits then
              let (window, available, this) = ec_refill_step (ec_end_window d, ec_nend_bits d, d)
              in ec_refill window available this
            else (ec_end_window d, ec_nend_bits d, d)) = (w, a, d1)"
    by (metis prod_cases3)
  have ok: "dec_inv d1 \<and> int bits \<le> a \<and> a \<le> 32 \<and> ec_storage d1 = ec_storage d"
  proof (cases "ec_nend_bits d < int bits")
    case True
    have "0 \<le> ec_nend_bits d" using inv by (simp add: dec_inv_def dec_mid_def dec_shape_def)
    then have a: "0 \<le> ec_nend_bits d" "ec_nend_bits d \<le> 24" using True bits by simp_all
    obtain b d2 where rd: "ec_read_byte_from_end d = (b, d2)" by (metis surj_pair)
    have inv2: "dec_inv d2" and st2: "ec_storage d2 = ec_storage d"
      using rd inv by (auto simp: ec_read_byte_from_end_def dec_inv_def dec_mid_def dec_shape_def split: if_splits)
    have "ec_refill (ec_end_window d OR push_bit (nat (ec_nend_bits d)) (of_int b))
        (ec_nend_bits d + int EC_SYM_BITS) d2 = (w, a, d1)"
      using r True rd by (simp add: ec_refill_step_def)
    from refill_shape [OF this inv2] show ?thesis using a bits st2 by (simp add: ec_consts)
  next
    case False
    then show ?thesis using r inv by (auto simp: dec_inv_def dec_mid_def dec_shape_def)
  qed
  have out: "ec_dec_bits bits d = (w AND (push_bit bits 1 - 1),
      d1\<lparr>ec_end_window := drop_bit bits w, ec_nend_bits := a - int bits,
         ec_nbits_total := ec_nbits_total d1 + int bits\<rparr>)"
    by (simp only: ec_dec_bits_def Let_def r [unfolded Let_def] prod.case)
  have "w AND (push_bit bits 1 - 1) = take_bit bits w"
    by (simp only: take_bit_eq_mask mask_eq_exp_minus_1 push_bit_of_1)
  then have "uint (w AND (push_bit bits 1 - 1)) = uint w mod 2 ^ bits"
    by (simp only: unsigned_take_bit_eq) (rule take_bit_eq_mod)
  then have "uint (fst (ec_dec_bits bits d)) < 2 ^ bits" by (simp only: out fst_conv) simp
  moreover have "dec_inv (snd (ec_dec_bits bits d))" "ec_storage (snd (ec_dec_bits bits d)) = ec_storage d"
    using ok by (simp_all add: out dec_inv_def dec_mid_def dec_shape_def)
  ultimately show "\<exists>x d'. Some (ec_dec_bits bits d) = Some (x, d') \<and> uint x < 2 ^ bits \<and> dec_inv d'
      \<and> ec_storage d' = ec_storage d"
    by (metis prod.collapse)
qed

lemma reads_index:
  assumes "0 < uint ft" and "uint ft \<le> 2 ^ 23"
  shows "reads (\<lambda>d. ec_decode ft d \<bind> (\<lambda>(s, d). ec_dec_update s (s + 1) ft d \<bind> (\<lambda>d. Some (s, d))))
    (\<lambda>s. s < ft)"
proof (rule readsI)
  fix d assume inv: "dec_inv d"
  let ?s = "index_lo (ec_val d) (ec_rng d div ft) ft"
  note dr = decode_reads [OF inv assms]
  have us: "uint (?s + 1) = uint ?s + 1"
  proof (rule trans [OF uint_add_nowrap])
    show "uint ?s + uint (1 :: u32) < 2 ^ LENGTH(32)"
      using dr(2) assms(2) by (simp add: word_less_def)
  qed simp
  have "\<exists>d'. ec_dec_update ?s (?s + 1) ft (d\<lparr>ec_ext := ec_rng d div ft\<rparr>) = Some d' \<and> dec_inv d'
      \<and> ec_storage d' = ec_storage d"
    using dr(2) by (intro dr(3)) (simp_all add: word_less_def word_le_def us)
  then show "\<exists>x d'. (ec_decode ft d \<bind> (\<lambda>(s, d). ec_dec_update s (s + 1) ft d \<bind> (\<lambda>d. Some (s, d))))
      = Some (x, d') \<and> x < ft \<and> dec_inv d' \<and> ec_storage d' = ec_storage d"
    using dr(1,2) by auto
qed

lemma reads_uint:
  assumes ft: "0 < ft"
  shows "reads (ec_dec_uint ft) (\<lambda>v. v < ft)"
proof (cases "ec_ilog (ft - 1) > EC_UINT_BITS")
  case big: True
  define n where "n = nat (ec_ilog (ft - 1) - EC_UINT_BITS)"
  define f where "f = drop_bit n (ft - 1) + 1"
  note pt = uint_parts [OF ft big, folded n_def, folded f_def]
  have f: "0 < uint f" using pt(2) uint_ge_0 [of "drop_bit n (0 :: u32)"] unfolding word_less_def by linarith
  have lt: "ft - 1 < ft" using ilog_pred(1) [OF ft] by (simp add: word_less_def)
  have "reads (\<lambda>d. (ec_decode f d \<bind> (\<lambda>(s, d). ec_dec_update s (s + 1) f d \<bind> (\<lambda>d. Some (s, d)))) \<bind>
        (\<lambda>(s, d). Some (ec_dec_bits n d) \<bind> (\<lambda>(low, d). if push_bit n s OR low \<le> ft - 1
             then Some (push_bit n s OR low, d) else Some (ft - 1, d\<lparr>ec_error := 1\<rparr>)))) (\<lambda>v. v < ft)"
  proof (rule reads_bind [OF reads_index [OF f pt(3)]], rule reads_bind [OF reads_bits [OF pt(1)]], rule readsI)
    fix s low d assume "dec_inv d"
    then show "\<exists>x d'. (if push_bit n s OR low \<le> ft - 1 then Some (push_bit n s OR low, d)
        else Some (ft - 1, d\<lparr>ec_error := 1\<rparr>)) = Some (x, d') \<and> x < ft \<and> dec_inv d'
        \<and> ec_storage d' = ec_storage d"
      using lt by (auto simp: dec_inv_def dec_mid_def dec_shape_def)
  qed
  moreover have "ec_dec_uint ft = (\<lambda>d. (ec_decode f d \<bind> (\<lambda>(s, d). ec_dec_update s (s + 1) f d \<bind> (\<lambda>d. Some (s, d)))) \<bind>
        (\<lambda>(s, d). Some (ec_dec_bits n d) \<bind> (\<lambda>(low, d). if push_bit n s OR low \<le> ft - 1
             then Some (push_bit n s OR low, d) else Some (ft - 1, d\<lparr>ec_error := 1\<rparr>))))"
    unfolding ec_dec_uint_def Let_def if_P [OF big] n_def [symmetric] f_def [symmetric]
    by (simp only: bind.bind_lunit bind_assoc split_def fst_conv snd_conv)
  ultimately show ?thesis by simp
next
  case False
  have "(2 :: int) ^ nat (ec_ilog (ft - 1)) \<le> 2 ^ 8"
    using False by (intro power_increasing) (simp_all add: ec_consts)
  then have b: "0 < uint ft" "uint ft \<le> 2 ^ 23" using ilog_pred(1,3,5) [OF ft] by simp_all
  have "ec_dec_uint ft = (\<lambda>d. ec_decode ft d \<bind> (\<lambda>(s, d). ec_dec_update s (s + 1) ft d \<bind> (\<lambda>d. Some (s, d))))"
    using False by (intro ext) (simp add: ec_dec_uint_def Let_def)
  then show ?thesis using reads_index [OF b] by simp
qed

interpretation bit_logp_in: total_decoder ec_dec_bit_logp "\<lambda>logp. logp \<le> 23" "\<lambda>_ _. True"
  by unfold_locales (rule reads_bit_logp)

interpretation icdf_in: total_decoder "\<lambda>icdf. ec_dec_icdf icdf ftb" "\<lambda>icdf. icdf_closed icdf ftb"
    "\<lambda>icdf s. s < length icdf" for ftb
  by unfold_locales (rule reads_icdf)

interpretation bits_in: total_decoder "\<lambda>bits d. Some (ec_dec_bits bits d)" "\<lambda>bits. bits \<le> 25"
    "\<lambda>bits v. uint v < 2 ^ bits"
  by unfold_locales (rule reads_bits)

interpretation uint_in: total_decoder ec_dec_uint "\<lambda>ft. 0 < ft" "\<lambda>ft v. v < ft"
  by unfold_locales (rule reads_uint)

section \<open>Streams\<close>

text \<open>The kinds of symbols a decoder may ask for, and the values it may get.\<close>

fun kind_ok :: "sym_kind \<Rightarrow> bool" where
  "kind_ok (Bit_logp logp) \<longleftrightarrow> logp \<le> 23"
| "kind_ok (Icdf icdf ftb) \<longleftrightarrow> icdf_closed icdf ftb \<and> length icdf < 2 ^ 32"
| "kind_ok (Uint ft) \<longleftrightarrow> 0 < ft"
| "kind_ok (Raw_bits bits) \<longleftrightarrow> bits \<le> 25"

fun value_ok :: "sym_kind \<Rightarrow> u32 \<Rightarrow> bool" where
  "value_ok (Bit_logp logp) v \<longleftrightarrow> v \<le> 1"
| "value_ok (Icdf icdf ftb) v \<longleftrightarrow> unat v < length icdf"
| "value_ok (Uint ft) v \<longleftrightarrow> v < ft"
| "value_ok (Raw_bits bits) v \<longleftrightarrow> uint v < 2 ^ bits"

lemma reads_map:
  assumes "reads D P" and "\<And>x. P x \<Longrightarrow> Q (f x)"
  shows "reads (\<lambda>d. map_option (apfst f) (D d)) Q"
  using reads_bind [OF assms(1), of "\<lambda>x d. Some (f x, d)" Q] assms(2)
  by (simp add: bind_apfst reads_return)

lemma reads_sym: "kind_ok k \<Longrightarrow> reads (dec_sym k) (value_ok k)"
proof (induction k rule: kind_ok.induct)
  case (1 logp)
  have "reads (\<lambda>d. map_option (apfst of_bool) (ec_dec_bit_logp logp d)) (value_ok (Bit_logp logp))"
    using 1 by (intro reads_map [OF reads_bit_logp]) simp_all
  then show ?case by (simp add: reads_def)
next
  case (2 icdf ftb)
  have "reads (\<lambda>d. map_option (apfst of_nat) (ec_dec_icdf icdf ftb d)) (value_ok (Icdf icdf ftb))"
    using 2 by (intro reads_map [OF reads_icdf]) (simp_all add: unat_of_nat)
  then show ?case by (simp add: reads_def)
next
  case (3 ft)
  then show ?case using reads_uint [of ft] by (simp add: reads_def)
next
  case (4 bits)
  then show ?case using reads_bits [of bits] by (simp add: reads_def)
qed

interpretation sym_in: total_decoder dec_sym kind_ok value_ok
  by unfold_locales (rule reads_sym)

lemma reads_stream:
  "list_all kind_ok ks \<Longrightarrow> reads (dec_stream ks) (\<lambda>xs. map fst xs = ks \<and> list_all (\<lambda>(k, v). value_ok k v) xs)"
proof (induction ks)
  case Nil
  then show ?case by (simp add: reads_def)
next
  case (Cons k ks)
  have "reads (\<lambda>d. dec_sym k d \<bind> (\<lambda>(v, d). dec_stream ks d \<bind> (\<lambda>(xs, d). Some ((k, v) # xs, d))))
      (\<lambda>xs. map fst xs = k # ks \<and> list_all (\<lambda>(k, v). value_ok k v) xs)"
    using Cons by (intro reads_bind [OF reads_sym] reads_bind [OF Cons.IH] reads_return) auto
  then show ?case by (simp add: reads_def)
qed

end
