(* ===== verification/Range_Coder_Tell.thy ===== *)
theory Range_Coder_Tell
  imports Range_Decoder_Safe
begin

text \<open>
  The bit counters: the table driven \<open>ec_tell_frac\<close> computes what the reference loop
  computes. The loop is read as a monotone integer function, which the eight thresholds
  of the table then determine.
\<close>

section \<open>The reference loop on integers\<close>

fun frac_bits :: "nat \<Rightarrow> int \<Rightarrow> int" where
  "frac_bits 0 r = 0"
| "frac_bits (Suc i) r =
    (let s = r * r div 32768
     in if 65536 \<le> s then 2 ^ i + frac_bits i (s div 2) else frac_bits i s)"

lemma sq_bounds:
  fixes r :: int
  assumes "32768 \<le> r" and "r < 65536"
  shows "32768 \<le> r * r div 32768" and "r * r div 32768 < 131072"
proof -
  have "32768 * 32768 \<le> r * r" using assms by (intro mult_mono) simp_all
  then show "32768 \<le> r * r div 32768" by (simp add: int_le_div)
  have "r * r < 65536 * 65536" using assms by (intro mult_strict_mono) simp_all
  then show "r * r div 32768 < 131072" by (simp add: int_div_less)
qed

lemma frac_bits_range:
  "32768 \<le> r \<Longrightarrow> r < 65536 \<Longrightarrow> 0 \<le> frac_bits i r \<and> frac_bits i r < 2 ^ i"
proof (induction i arbitrary: r)
  case (Suc i)
  note s = sq_bounds [OF Suc.prems]
  show ?case
  proof (cases "65536 \<le> r * r div 32768")
    case True
    have "32768 \<le> r * r div 32768 div 2" "r * r div 32768 div 2 < 65536"
      using True s by simp_all
    from Suc.IH [OF this] True show ?thesis by (simp add: Let_def)
  next
    case False
    have b: "r * r div 32768 < 65536" using False by simp
    have "0 < (2 :: int) ^ i" by simp
    with Suc.IH [OF s(1) b] False show ?thesis
      by (simp add: Let_def del: zero_less_power zero_less_power_eq_numeral)
  qed
qed simp

lemma frac_bits_mono:
  "32768 \<le> r \<Longrightarrow> r \<le> t \<Longrightarrow> t < 65536 \<Longrightarrow> frac_bits i r \<le> frac_bits i t"
proof (induction i arbitrary: r t)
  case (Suc i)
  let ?r = "r * r div 32768" and ?t = "t * t div 32768"
  have r: "32768 \<le> ?r" "?r < 131072" and t: "32768 \<le> ?t" "?t < 131072"
    using sq_bounds [of r] sq_bounds [of t] Suc.prems by simp_all
  have "r * r \<le> t * t" using Suc.prems by (intro mult_mono) simp_all
  then have rt: "?r \<le> ?t" by (intro zdiv_mono1) simp_all
  consider "65536 \<le> ?r" | "?r < 65536" "65536 \<le> ?t" | "?t < 65536" using rt by linarith
  then show ?case
  proof cases
    case 1
    have "?r div 2 \<le> ?t div 2" using rt by (rule zdiv_mono1) simp
    moreover have "32768 \<le> ?r div 2" using 1 by linarith
    moreover have "?t div 2 < 65536" using t by linarith
    ultimately have "frac_bits i (?r div 2) \<le> frac_bits i (?t div 2)" by (intro Suc.IH)
    then show ?thesis using 1 rt by (simp add: Let_def)
  next
    case 2
    have "frac_bits i ?r < 2 ^ i" using frac_bits_range [of ?r i] r 2 by simp
    moreover have "0 \<le> frac_bits i (?t div 2)" using frac_bits_range [of "?t div 2" i] t 2 by simp
    ultimately show ?thesis using 2 by (simp add: Let_def)
  next
    case 3
    then have "frac_bits i ?r \<le> frac_bits i ?t" using rt r by (intro Suc.IH) simp_all
    then show ?thesis using 3 rt by (simp add: Let_def)
  qed
qed simp

lemma tell_frac_loop_bits:
  "32768 \<le> uint r \<Longrightarrow> uint r < 65536 \<Longrightarrow> (uint l + 1) * 2 ^ i < 2 ^ 32 \<Longrightarrow>
   uint (tell_frac_loop i r l) = uint l * 2 ^ i + frac_bits i (uint r)"
proof (induction i arbitrary: r l)
  case (Suc i)
  have rr: "uint (r * r) = uint r * uint r"
  proof (rule uint_mult_nowrap)
    have "uint r * uint r < 65536 * 65536" using Suc.prems by (intro mult_strict_mono) simp_all
    then show "uint r * uint r < 2 ^ LENGTH(32)" by simp
  qed
  define s where "s = drop_bit 15 (r * r)"
  have us: "uint s = uint r * uint r div 32768" unfolding s_def uint_drop_bit rr by simp
  note sb = sq_bounds [OF Suc.prems(1,2), folded us]
  define b where "b = drop_bit 16 s"
  have ub: "uint b = uint s div 65536" unfolding b_def uint_drop_bit by simp
  have b01: "b = of_bool (65536 \<le> uint s)"
  proof -
    have "uint b = of_bool (65536 \<le> uint s)"
      using sb unfolding ub by (cases "65536 \<le> uint s") (simp_all add: div_pos_geq)
    then show ?thesis by (cases "65536 \<le> uint s") (simp_all add: word_uint_eq_iff)
  qed
  have "(2 :: int) ^ 1 \<le> 2 ^ Suc i" by (intro power_increasing) simp_all
  then have "(uint l + 1) * 2 \<le> (uint l + 1) * 2 ^ Suc i" by (intro mult_left_mono) simp_all
  then have "(uint l + 1) * 2 < 2 ^ 32" using Suc.prems(3) by (rule le_less_trans)
  then have l2: "uint l * 2 < 2 ^ 32 - 2" by simp
  have "uint (push_bit 1 l) = uint l * 2" using l2 by (simp only: uint_push_bit) simp
  then have "uint (push_bit 1 l OR b) = push_bit 1 (uint l) OR uint b"
    by (simp only: unsigned_or_eq push_bit_eq_mult) simp
  also have "\<dots> = 2 ^ 1 * uint l + uint b" by (rule push_or) (simp_all add: b01)
  finally have ul: "uint (push_bit 1 l OR b) = 2 * uint l + of_bool (65536 \<le> uint s)"
    by (simp add: b01)
  have nb: "unat b = of_bool (65536 \<le> uint s)" by (simp add: b01)
  have rec: "tell_frac_loop (Suc i) r l = tell_frac_loop i (drop_bit (unat b) s) (push_bit 1 l OR b)"
    by (simp only: tell_frac_loop.simps Let_def s_def b_def)
  have lb: "(uint (push_bit 1 l OR b) + 1) * 2 ^ i < 2 ^ 32"
  proof -
    have "(uint (push_bit 1 l OR b) + 1) * 2 ^ i \<le> (2 * (uint l + 1)) * 2 ^ i"
      unfolding ul by (intro mult_right_mono) simp_all
    also have "\<dots> = (uint l + 1) * 2 ^ Suc i" by simp
    also have "\<dots> < 2 ^ 32" by (rule Suc.prems(3))
    finally show ?thesis .
  qed
  show ?case
  proof (cases "65536 \<le> uint s")
    case True
    then have "uint (drop_bit (unat b) s) = uint s div 2" unfolding uint_drop_bit nb by simp
    then show ?thesis
      using Suc.IH [OF _ _ lb, of "drop_bit (unat b) s"] sb True
      unfolding rec ul by (simp add: Let_def us algebra_simps)
  next
    case False
    then have "uint (drop_bit (unat b) s) = uint s" unfolding uint_drop_bit nb by simp
    then show ?thesis
      using Suc.IH [OF _ _ lb, of "drop_bit (unat b) s"] sb False
      unfolding rec ul by (simp add: Let_def us algebra_simps)
  qed
qed simp

section \<open>The table\<close>

lemma frac_bits_at:
  "frac_bits 3 32768 = 0" "frac_bits 3 35733 = 0" "frac_bits 3 35734 = 1" "frac_bits 3 38967 = 1"
  "frac_bits 3 38968 = 2" "frac_bits 3 42495 = 2" "frac_bits 3 42496 = 3" "frac_bits 3 46340 = 3"
  "frac_bits 3 46341 = 4" "frac_bits 3 50535 = 4" "frac_bits 3 50536 = 5" "frac_bits 3 55109 = 5"
  "frac_bits 3 55110 = 6" "frac_bits 3 60097 = 6" "frac_bits 3 60098 = 7" "frac_bits 3 65535 = 7"
  by code_simp+

lemma frac_bits_between:
  "frac_bits 3 a = k \<Longrightarrow> frac_bits 3 b = k \<Longrightarrow> 32768 \<le> a \<Longrightarrow> a \<le> r \<Longrightarrow> r \<le> b \<Longrightarrow> b < 65536 \<Longrightarrow>
   frac_bits 3 r = k"
  using frac_bits_mono [of a r 3] frac_bits_mono [of r b 3] by simp

lemma frac_bits_table:
  assumes "32768 \<le> r" and "r < 65536"
  shows "frac_bits 3 r = (if r \<le> 35733 then 0 else if r \<le> 38967 then 1 else if r \<le> 42495 then 2
    else if r \<le> 46340 then 3 else if r \<le> 50535 then 4 else if r \<le> 55109 then 5
    else if r \<le> 60097 then 6 else 7)"
  using assms
  by (auto intro: frac_bits_between [OF frac_bits_at(1,2)] frac_bits_between [OF frac_bits_at(3,4)]
      frac_bits_between [OF frac_bits_at(5,6)] frac_bits_between [OF frac_bits_at(7,8)]
      frac_bits_between [OF frac_bits_at(9,10)] frac_bits_between [OF frac_bits_at(11,12)]
      frac_bits_between [OF frac_bits_at(13,14)] frac_bits_between [OF frac_bits_at(15,16)])

text \<open>The leading 16 bits of the range.\<close>

lemma top_bits:
  assumes "2 ^ 15 \<le> uint v"
  defines "l \<equiv> ec_ilog v"
  shows "16 \<le> l" and "l \<le> 32" and "32768 \<le> uint (drop_bit (nat (l - 16)) v)"
    and "uint (drop_bit (nat (l - 16)) v) < 65536"
proof -
  have "0 < v" using assms(1) by (simp add: word_less_def)
  then have lg: "0 < l" "2 ^ nat (l - 1) \<le> uint v" "uint v < 2 ^ nat l"
    using ec_ilog_correct by (auto simp: l_def is_ilog_def)
  show l16: "16 \<le> l"
  proof (rule ccontr)
    assume "\<not> 16 \<le> l"
    then have "(2 :: int) ^ nat l \<le> 2 ^ 15" by (intro power_increasing) simp_all
    then show False using lg assms(1) by linarith
  qed
  show "l \<le> 32"
  proof (rule ccontr)
    assume "\<not> l \<le> 32"
    then have "(2 :: int) ^ 32 \<le> 2 ^ nat (l - 1)" by (intro power_increasing) simp_all
    then show False using lg uint_lt32 [of v] by simp
  qed
  define k where "k = nat (l - 16)"
  have n: "nat (l - 1) = 15 + k" "nat l = 16 + k" using l16 by (simp_all add: k_def)
  have "2 ^ 15 * 2 ^ k \<le> uint v" "uint v < 2 ^ 16 * 2 ^ k"
    using lg(2,3) unfolding n power_add by simp_all
  then show "32768 \<le> uint (drop_bit (nat (l - 16)) v)" "uint (drop_bit (nat (l - 16)) v) < 65536"
    unfolding uint_drop_bit k_def [symmetric] by (simp_all add: int_le_div int_div_less)
qed

lemma correction_step:
  assumes "32768 \<le> uint r" and "uint r < 65536"
  defines "b \<equiv> drop_bit 12 r - 8 :: u32"
  shows "uint (b + of_bool (r > tell_correction ! unat b)) = frac_bits 3 (uint r)"
proof -
  define q where "q = uint r div 4096"
  have q: "8 \<le> q" "q < 16" using assms(1,2) by (simp_all add: q_def int_le_div int_div_less)
  have d: "uint (drop_bit 12 r) = q" unfolding uint_drop_bit q_def by simp
  have ub: "uint b = q - 8" unfolding b_def using q d by (simp add: uint_sub_nowrap)
  then have nb: "unat b = nat (q - 8)" by (simp only: unat_eq_nat_uint)
  have r: "4096 * q \<le> uint r" "uint r < 4096 * q + 4096"
    using int_le_div [of 4096 q "uint r"] int_div_less [of 4096 "uint r" "q + 1"] by (simp_all add: q_def)
  have u: "uint (b + of_bool c) = q - 8 + of_bool c" for c
    using q ub by (cases c) (simp_all add: uint_add_nowrap)
  have "q = 8 \<or> q = 9 \<or> q = 10 \<or> q = 11 \<or> q = 12 \<or> q = 13 \<or> q = 14 \<or> q = 15" using q by linarith
  then show ?thesis
    unfolding u nb frac_bits_table [OF assms(1,2)]
    by (elim disjE) (use r in \<open>simp_all add: tell_correction_def word_less_def\<close>)
qed

lemma tell_frac_eq_ref:
  assumes "2 ^ 15 \<le> uint (ec_rng c)"
  shows "ec_tell_frac c = ec_tell_frac_ref c"
proof -
  define l where "l = ec_ilog (ec_rng c)"
  define r where "r = drop_bit (nat (l - 16)) (ec_rng c)"
  note t = top_bits [OF assms, folded l_def, folded r_def]
  have ul: "uint (of_int l :: u32) = l" using t(1,2) by (simp add: uint_word_of_int)
  have "uint (tell_frac_loop 3 r (of_int l)) = uint (of_int l :: u32) * 2 ^ 3 + frac_bits 3 (uint r)"
    using t by (intro tell_frac_loop_bits) (simp_all add: ul)
  then have "of_int (uint (tell_frac_loop 3 r (of_int l))) = (of_int (l * 2 ^ 3 + frac_bits 3 (uint r)) :: u32)"
    unfolding ul by (simp only:)
  then have "tell_frac_loop 3 r (of_int l) = of_int (l * 8 + frac_bits 3 (uint r))"
    by (simp only: word_of_int_uint) simp
  moreover have "(drop_bit 12 r - 8) + of_bool (r > tell_correction ! unat (drop_bit 12 r - 8))
      = (of_int (frac_bits 3 (uint r)) :: u32)"
    using correction_step [OF t(3,4)] by (metis word_of_int_uint)
  ultimately show ?thesis
    by (simp only: ec_tell_frac_def ec_tell_frac_ref_def Let_def l_def [symmetric] r_def [symmetric]
        BITRES_def of_int_add)
qed

section \<open>Shrinking the buffer\<close>

text \<open>
  \<open>ec_enc_shrink\<close> moves the raw bits to the new end; everything that was encoded is still
  encoded.
\<close>

lemma shrink_ok:
  assumes inv: "enc_inv e" and sz: "ec_offs e + ec_end_offs e \<le> sz" "sz \<le> ec_storage e"
  defines "e' \<equiv> ec_enc_shrink sz e"
  shows "enc_inv e'" and "ec_storage e' = sz" and "enc_bytes e' = enc_bytes e" and "enc_raw e' = enc_raw e"
proof -
  have sh: "enc_shape e" using inv by (simp add: enc_inv_def enc_mid_def)
  then have st: "length (ec_buf e) = ec_storage e" "ec_offs e + ec_end_offs e \<le> ec_storage e"
    by (simp_all add: enc_shape_def)
  have buf: "ec_buf e' = take (sz - ec_end_offs e) (ec_buf e) @ enc_tail e"
    using st sz by (simp add: e'_def ec_enc_shrink_def enc_tail_def)
  have lt: "length (enc_tail e) = ec_end_offs e" by (rule length_enc_tail [OF sh])
  have f: "ec_storage e' = sz" "ec_offs e' = ec_offs e" "ec_end_offs e' = ec_end_offs e"
    "ec_rem e' = ec_rem e" "ec_ext e' = ec_ext e" "ec_rng e' = ec_rng e" "ec_val e' = ec_val e"
    "ec_nend_bits e' = ec_nend_bits e" "ec_end_window e' = ec_end_window e" "ec_error e' = ec_error e"
    "ec_nbits_total e' = ec_nbits_total e"
    by (simp_all add: e'_def ec_enc_shrink_def)
  show "ec_storage e' = sz" by (rule f)
  have out: "enc_out e' = enc_out e" using sz st by (simp add: enc_out_def buf f)
  have tl: "enc_tail e' = enc_tail e" using sz st lt by (simp add: enc_tail_def [of e'] buf f)
  show bs: "enc_bytes e' = enc_bytes e" by (simp add: enc_bytes_def out f)
  show "enc_raw e' = enc_raw e" by (simp add: enc_raw_def tl f)
  have "enc_shape e'" using sz st lt by (simp add: enc_shape_def buf f)
  then show "enc_inv e'"
    using inv unfolding enc_inv_def enc_mid_def enc_good_def enc_nraw_def f bs by blast
qed

end
