(* ===== verification/Range_Coder_Properties.thy ===== *)
theory Range_Coder_Properties
  imports Range_Coder_Tell
begin

text \<open>
  The properties of the range coder: round trip of whole streams, also after the buffer
  was shrunk, absence of overflow within the bit budget, totality of the decoder on
  arbitrary bytes, and the bit counters.
\<close>

section \<open>Streams\<close>

lemma stream_finish:
  assumes "list_all (\<lambda>(k, v). sym_valid k v) xs" and "length buf = sz" and "sz < 2 ^ 27"
    and "enc_stream xs (ec_enc_init buf sz) = Some e" and "ec_tell e \<le> 8 * int sz"
  shows "enc_inv e" and "ec_storage e = sz" and "ec_error e = 0"
proof -
  show e: "enc_inv e" "ec_storage e = sz"
    using codes_run [OF codes_stream [OF assms(1)] assms(2)] assms(4) by (metis option.inject)+
  have "within e" by (rule tell_within [OF e(1)]) (use assms e(2) in simp_all)
  then show "ec_error e = 0"
    using codes_run [OF codes_stream [OF assms(1)] assms(2)] assms(4) by (metis option.inject)
qed

text \<open>
  C1. Round trip of the entropy coder. A stream of bits, table symbols, uniform integers
  and raw bits is encoded into a buffer of \<open>sz\<close> bytes. When the bits it used, as
  \<open>ec_tell\<close> counts them, fit in the buffer, finishing the stream reports no error, and a
  decoder of the buffer that asks for the same kinds of symbols gets the same values, ends
  without an error flag and agrees with the encoder on the range and on both bit counters.
\<close>

theorem stream_roundtrip:
  assumes "list_all (\<lambda>(k, v). sym_valid k v) xs" and "length buf = sz" and "sz < 2 ^ 27"
    and "enc_stream xs (ec_enc_init buf sz) = Some e" and "ec_tell e \<le> 8 * int sz"
  shows "ec_get_error (ec_enc_done e) = 0 \<and> length (ec_buf (ec_enc_done e)) = sz
    \<and> (\<exists>d. (ec_dec_init (ec_buf (ec_enc_done e)) sz \<bind> dec_stream (map fst xs)) = Some (xs, d)
         \<and> same_state e d)"
  using codes_finish [OF codes_stream [OF assms(1)] assms(2,4)] stream_finish [OF assms] assms(3,5)
  by (simp add: ec_get_error_def)

definition example_stream :: "(sym_kind \<times> u32) list" where
  "example_stream = [(Bit_logp 1, 1), (Uint 1000, 999), (Raw_bits 5, 17), (Icdf [200, 100, 0] 8, 1)]"

definition example_ctx :: ec_ctx where
  "example_ctx = the (enc_stream example_stream (ec_enc_init (replicate 8 0) 8))"

lemma example_valid: "list_all (\<lambda>(k, v). sym_valid k v) example_stream"
  by code_simp

lemma example_run: "enc_stream example_stream (ec_enc_init (replicate 8 0) 8) = Some example_ctx"
proof -
  have "enc_stream example_stream (ec_enc_init (replicate 8 0) 8) \<noteq> None" by code_simp
  then show ?thesis by (simp add: example_ctx_def)
qed

lemma example_tell: "ec_tell example_ctx \<le> 8 * int 5" "ec_offs example_ctx + ec_end_offs example_ctx \<le> 5"
  by code_simp+

theorem stream_roundtrip_witness:
  "ec_get_error (ec_enc_done example_ctx) = 0 \<and> (\<exists>d. (ec_dec_init (ec_buf (ec_enc_done example_ctx)) 8
     \<bind> dec_stream (map fst example_stream)) = Some (example_stream, d))"
  using stream_roundtrip [OF example_valid _ _ example_run] example_tell by auto

text \<open>
  C4. The same after \<open>ec_enc_shrink\<close> has reduced the buffer to \<open>n\<close> bytes: the raw bits
  are moved to the new end and the first \<open>n\<close> bytes decode to the same stream.
\<close>

theorem shrink_roundtrip:
  assumes "list_all (\<lambda>(k, v). sym_valid k v) xs" and "length buf = sz" and "sz < 2 ^ 27"
    and "enc_stream xs (ec_enc_init buf sz) = Some e"
    and "ec_offs e + ec_end_offs e \<le> n" and "n \<le> sz" and "ec_tell e \<le> 8 * int n"
  shows "ec_get_error (ec_enc_done (ec_enc_shrink n e)) = 0
    \<and> length (ec_buf (ec_enc_done (ec_enc_shrink n e))) = n
    \<and> (\<exists>d. (ec_dec_init (ec_buf (ec_enc_done (ec_enc_shrink n e))) n \<bind> dec_stream (map fst xs)) = Some (xs, d)
         \<and> same_state e d)"
proof -
  have "ec_tell e \<le> 8 * int sz" using assms(6,7) by simp
  note e = stream_finish [OF assms(1-4) this]
  note s = shrink_ok [OF e(1) assms(5)] 
  have f: "ec_error (ec_enc_shrink n e) = 0" "ec_tell (ec_enc_shrink n e) \<le> 8 * int n"
    using e(3) assms(7) by (simp_all add: ec_enc_shrink_def ec_tell_def)
  have "hits S e" if "hits S (ec_enc_shrink n e)" for S
    using that s(3,4) assms(6) e(2)
    by (simp add: hits_def enc_low_def enc_good_def enc_nraw_def) (simp add: ec_enc_shrink_def)
  from codes_finish [OF codes_stream [OF assms(1)] assms(2,4) s(1,2) f(1) _ f(2) this]
  show ?thesis using assms(3,6) e(2) by (simp add: ec_get_error_def)
qed

theorem shrink_roundtrip_witness:
  "\<exists>d. (ec_dec_init (ec_buf (ec_enc_done (ec_enc_shrink 5 example_ctx))) 5
     \<bind> dec_stream (map fst example_stream)) = Some (example_stream, d)"
  using shrink_roundtrip [OF example_valid _ _ example_run example_tell(2)] example_tell(1) by auto

text \<open>
  C3. Every stream of valid symbols can be encoded: the normalization loops end, whatever
  the buffer size, the two ends of the output never cross and no byte outside the buffer
  is written; and while the bits used fit in the buffer no writer has failed.
\<close>

theorem encoder_total:
  assumes "list_all (\<lambda>(k, v). sym_valid k v) xs" and "length buf = sz" and "sz < 2 ^ 27"
  shows "\<exists>e. enc_stream xs (ec_enc_init buf sz) = Some e
    \<and> length (ec_buf e) = sz \<and> ec_storage e = sz \<and> ec_offs e + ec_end_offs e \<le> sz
    \<and> (ec_tell e \<le> 8 * int sz \<longrightarrow> ec_get_error e = 0)"
proof -
  obtain e where e: "enc_stream xs (ec_enc_init buf sz) = Some e" "enc_inv e" "ec_storage e = sz"
    using codes_run [OF codes_stream [OF assms(1)] assms(2)] by metis
  have "ec_tell e \<le> 8 * int sz \<longrightarrow> ec_get_error e = 0"
    using stream_finish(3) [OF assms e(1)] by (simp add: ec_get_error_def)
  then show ?thesis using e by (auto simp: enc_inv_def enc_mid_def enc_shape_def)
qed

theorem encoder_total_witness:
  "\<exists>e. enc_stream example_stream (ec_enc_init [1, 2, 3] 3) = Some e \<and> ec_offs e + ec_end_offs e \<le> 3"
  using encoder_total [OF example_valid, of "[1, 2, 3]" 3] by auto

text \<open>
  C6. Symbols coded with explicit frequencies: after any stream, encoding the part
  \<open>[fl, fh)\<close> of \<open>ft\<close> makes \<open>ec_decode\<close> return a value in that part, and removing the part
  with \<open>ec_dec_update\<close> leaves the decoder in the encoder's state.
\<close>

theorem frequency_roundtrip:
  assumes "list_all (\<lambda>(k, v). sym_valid k v) xs" and "length buf = sz" and "sz < 2 ^ 27"
    and "fl < fh" and "fh \<le> ft" and "uint ft \<le> 2 ^ 23"
    and "(enc_stream xs (ec_enc_init buf sz) \<bind> ec_encode fl fh ft) = Some e" and "ec_tell e \<le> 8 * int sz"
  shows "\<exists>f d1 d. (ec_dec_init (ec_buf (ec_enc_done e)) sz \<bind> dec_stream (map fst xs)
      \<bind> (\<lambda>(ys, d). ec_decode ft d)) = Some (f, d1) \<and> fl \<le> f \<and> f < fh
    \<and> ec_dec_update fl fh ft d1 = Some d \<and> same_state e d"
proof -
  let ?F = "\<lambda>f d. ec_dec_update fl fh ft d \<bind> (\<lambda>d. Some (fl \<le> f \<and> f < fh, d))"
  let ?E = "\<lambda>e. enc_stream xs e \<bind> ec_encode fl fh ft"
  let ?D = "\<lambda>d. dec_stream (map fst xs) d \<bind> (\<lambda>(ys, d). ec_decode ft d \<bind> (\<lambda>(f, d). ?F f d))"
  have c: "codes ?E ?D True"
    by (rule codes_bind [OF codes_stream [OF assms(1)]]) (rule codes_encode [OF assms(4-6)], simp)
  from codes_run [OF c assms(2)] obtain e0 where e0: "?E (ec_enc_init buf sz) = Some e0" "enc_inv e0"
    "ec_storage e0 = sz" "within e0 \<Longrightarrow> ec_error e0 = 0" by metis
  have e: "e0 = e" using e0(1) assms(7) by simp
  have "within e" by (rule tell_within) (use e0 assms(3,8) e in simp_all)
  from codes_finish [OF c assms(2) e0(1) e0(2,3) e0(4), unfolded e, OF this assms(3,8)]
  obtain d where "(ec_dec_init (ec_buf (ec_enc_done e)) sz \<bind> ?D) = Some (True, d)" "same_state e d" by auto
  then show ?thesis by (auto simp: bind_eq_Some_conv split: prod.splits)
qed

theorem frequency_roundtrip_witness:
  "\<exists>e f d1. (enc_stream example_stream (ec_enc_init (replicate 9 0) 9) \<bind> ec_encode 3 5 9) = Some e
     \<and> (ec_dec_init (ec_buf (ec_enc_done e)) 9 \<bind> dec_stream (map fst example_stream)
      \<bind> (\<lambda>(ys, d). ec_decode 9 d)) = Some (f, d1) \<and> 3 \<le> f \<and> f < 5"
proof -
  let ?r = "enc_stream example_stream (ec_enc_init (replicate 9 0) 9) \<bind> ec_encode 3 5 9"
  have "?r \<noteq> None" and t: "ec_tell (the ?r) \<le> 8 * int 9" by code_simp+
  then have r: "?r = Some (the ?r)" by simp
  from frequency_roundtrip [OF example_valid _ _ _ _ _ r t] show ?thesis using r by force
qed

section \<open>Arbitrary input\<close>

text \<open>
  C2. The decoder is total: on every buffer, whatever its bytes, and for every sequence of
  kinds of symbols with sound parameters, no division by zero, no endless loop and no read
  outside the buffer or a table occurs, and every value lies in the range of its kind.
\<close>

theorem decoder_total:
  assumes "list_all kind_ok ks" and "length buf = sz"
  shows "\<exists>xs d. (ec_dec_init buf sz \<bind> dec_stream ks) = Some (xs, d) \<and> map fst xs = ks
    \<and> list_all (\<lambda>(k, v). value_ok k v) xs \<and> ec_offs d \<le> sz \<and> ec_end_offs d \<le> sz"
proof -
  obtain d0 where d0: "ec_dec_init buf sz = Some d0" "dec_inv d0" "ec_storage d0 = sz"
    using dec_init_storage [OF assms(2)] by blast
  from reads_stream [OF assms(1)] d0(2) obtain xs d where d: "dec_stream ks d0 = Some (xs, d)"
    "map fst xs = ks \<and> list_all (\<lambda>(k, v). value_ok k v) xs" "dec_inv d" "ec_storage d = ec_storage d0"
    unfolding reads_def by metis
  have "ec_offs d \<le> sz \<and> ec_end_offs d \<le> sz"
    using d(3,4) d0(3) by (simp add: dec_inv_def dec_mid_def dec_shape_def)
  then show ?thesis using d(1,2) d0(1) by simp
qed

theorem decoder_total_witness:
  "\<exists>xs d. (ec_dec_init [255, 0, 17] 3 \<bind> dec_stream (map fst example_stream)) = Some (xs, d)
     \<and> map fst xs = map fst example_stream"
proof -
  have "list_all kind_ok (map fst example_stream)"
    by (simp add: example_stream_def icdf_closed_def)
  from decoder_total [OF this, of "[255, 0, 17]" 3] show ?thesis by auto
qed

section \<open>Counting bits\<close>

text \<open>
  C5. The table driven \<open>ec_tell_frac\<close> returns what the reference loop of the same file
  (compiled out) returns, for every context whose range has at least 16 bits, which every
  normalized context has.
\<close>

theorem tell_frac_reference:
  assumes "2 ^ 15 \<le> uint (ec_rng c)"
  shows "ec_tell_frac c = ec_tell_frac_ref c"
  by (rule tell_frac_eq_ref [OF assms])

theorem tell_frac_reference_witness:
  "ec_tell_frac (ec_enc_init [] 0) = ec_tell_frac_ref (ec_enc_init [] 0)"
  by (rule tell_frac_reference) (simp add: ec_enc_init_def ec_const_values)

text \<open>
  C7. The branch-free binary search of \<open>ec_ilog\<close> computes the number of significant bits:
  it is 0 for 0, and otherwise the \<open>l\<close> with \<open>2 ^ (l - 1) <= v < 2 ^ l\<close>.
\<close>

theorem ilog_significant_bits:
  "(v = 0 \<longrightarrow> ec_ilog v = 0) \<and>
   (v \<noteq> 0 \<longrightarrow> 0 < ec_ilog v \<and> 2 ^ nat (ec_ilog v - 1) \<le> uint v \<and> uint v < 2 ^ nat (ec_ilog v))"
proof -
  have "ec_ilog 0 = 0" by (simp add: ec_ilog_def)
  then show ?thesis using ec_ilog_correct [of v] by (auto simp: is_ilog_def word_gt_0)
qed

theorem ilog_significant_bits_witness: "ec_ilog 1000 = 10"
proof -
  have "ec_ilog 1000 = 10 \<and> (2 :: int) ^ 9 \<le> uint (1000 :: u32)"
    using ilog_significant_bits [of 1000] by code_simp
  then show ?thesis ..
qed

end
