(* ===== verification/Opus_Packet.thy ===== *)
theory Opus_Packet
  imports Prelude
begin

text \<open>
  The packet layer of opus.c and of opus_decoder.c: the table of contents byte, frame
  lengths, and the parser of a packet into frames and padding.

  \<open>data\<close> is the memory the pointer argument points to, read through \<open>byte_at\<close>: a read
  outside it is \<open>None\<close>, so that a result \<open>Some\<close> also says that nothing outside was read.
  Pointers into the packet are offsets from its start. A call ends in \<open>Inl\<close> and the
  error code of the C function, or in \<open>Inr\<close> and its results.
\<close>

section \<open>Error codes and reads\<close>

definition OPUS_OK :: int where "OPUS_OK = 0"
definition OPUS_BAD_ARG :: int where "OPUS_BAD_ARG = -1"
definition OPUS_BUFFER_TOO_SMALL :: int where "OPUS_BUFFER_TOO_SMALL = -2"
definition OPUS_INTERNAL_ERROR :: int where "OPUS_INTERNAL_ERROR = -3"
definition OPUS_INVALID_PACKET :: int where "OPUS_INVALID_PACKET = -4"

lemmas opus_errors = OPUS_OK_def OPUS_BAD_ARG_def OPUS_BUFFER_TOO_SMALL_def
  OPUS_INTERNAL_ERROR_def OPUS_INVALID_PACKET_def

definition byte_at :: "byte list \<Rightarrow> nat \<Rightarrow> int option" where
  "byte_at data i = (if i < length data then Some (uint (data ! i)) else None)"

lemma byte_at_bounds: "byte_at data i = Some b \<Longrightarrow> 0 \<le> b \<and> b < 256"
  using uint_lt8 [of "data ! i"] by (auto simp: byte_at_def split: if_splits)

lemma byte_at_Some: "i < length data \<Longrightarrow> byte_at data i = Some (uint (data ! i))"
  by (simp add: byte_at_def)

lemma bind_sum_Inr:
  "x \<bind> (\<lambda>r. case r of Inl e \<Rightarrow> Some (Inl e) | Inr v \<Rightarrow> f v) = Some (Inr w)
   \<longleftrightarrow> (\<exists>v. x = Some (Inr v) \<and> f v = Some (Inr w))"
  by (cases x) (auto split: sum.splits)

section \<open>The table of contents byte\<close>

text \<open>These functions read \<open>data[0]\<close> only; \<open>toc\<close> is that byte. Sampling rates are positive.\<close>

definition MODE_SILK_ONLY :: int where "MODE_SILK_ONLY = 1000"
definition MODE_HYBRID :: int where "MODE_HYBRID = 1001"
definition MODE_CELT_ONLY :: int where "MODE_CELT_ONLY = 1002"
definition OPUS_BANDWIDTH_NARROWBAND :: int where "OPUS_BANDWIDTH_NARROWBAND = 1101"
definition OPUS_BANDWIDTH_MEDIUMBAND :: int where "OPUS_BANDWIDTH_MEDIUMBAND = 1102"
definition OPUS_BANDWIDTH_SUPERWIDEBAND :: int where "OPUS_BANDWIDTH_SUPERWIDEBAND = 1104"
definition OPUS_BANDWIDTH_FULLBAND :: int where "OPUS_BANDWIDTH_FULLBAND = 1105"

definition opus_packet_get_mode :: "int \<Rightarrow> int" where
  "opus_packet_get_mode toc =
    (if toc AND 0x80 \<noteq> 0 then MODE_CELT_ONLY
     else if toc AND 0x60 = 0x60 then MODE_HYBRID
     else MODE_SILK_ONLY)"

definition opus_packet_get_bandwidth :: "int \<Rightarrow> int" where
  "opus_packet_get_bandwidth toc =
    (if toc AND 0x80 \<noteq> 0 then
       let bandwidth = OPUS_BANDWIDTH_MEDIUMBAND + (drop_bit 5 toc AND 0x3)
       in if bandwidth = OPUS_BANDWIDTH_MEDIUMBAND then OPUS_BANDWIDTH_NARROWBAND else bandwidth
     else if toc AND 0x60 = 0x60 then
       (if toc AND 0x10 \<noteq> 0 then OPUS_BANDWIDTH_FULLBAND else OPUS_BANDWIDTH_SUPERWIDEBAND)
     else OPUS_BANDWIDTH_NARROWBAND + (drop_bit 5 toc AND 0x3))"

definition opus_packet_get_nb_channels :: "int \<Rightarrow> int" where
  "opus_packet_get_nb_channels toc = (if toc AND 0x4 \<noteq> 0 then 2 else 1)"

definition opus_packet_get_samples_per_frame :: "int \<Rightarrow> int \<Rightarrow> int" where
  "opus_packet_get_samples_per_frame toc Fs =
    (if toc AND 0x80 \<noteq> 0 then
       let audiosize = drop_bit 3 toc AND 0x3 in push_bit (nat audiosize) Fs div 400
     else if toc AND 0x60 = 0x60 then
       (if toc AND 0x08 \<noteq> 0 then Fs div 50 else Fs div 100)
     else
       let audiosize = drop_bit 3 toc AND 0x3
       in if audiosize = 3 then Fs * 60 div 1000 else push_bit (nat audiosize) Fs div 100)"

definition opus_packet_get_nb_frames :: "byte list \<Rightarrow> int \<Rightarrow> int option" where
  "opus_packet_get_nb_frames packet len =
    (if len < 1 then Some OPUS_BAD_ARG
     else do {
       b0 \<leftarrow> byte_at packet 0;
       let count = b0 AND 0x3;
       if count = 0 then Some 1
       else if count \<noteq> 3 then Some 2
       else if len < 2 then Some OPUS_INVALID_PACKET
       else do { b1 \<leftarrow> byte_at packet 1; Some (b1 AND 0x3F) }
     })"

definition opus_packet_get_nb_samples :: "byte list \<Rightarrow> int \<Rightarrow> int \<Rightarrow> int option" where
  "opus_packet_get_nb_samples packet len Fs = do {
     count \<leftarrow> opus_packet_get_nb_frames packet len;
     if count < 0 then Some count
     else do {
       toc \<leftarrow> byte_at packet 0;
       let samples = count * opus_packet_get_samples_per_frame toc Fs;
       if samples * 25 > Fs * 3 then Some OPUS_INVALID_PACKET else Some samples
     }
   }"

section \<open>Frame lengths\<close>

text \<open>The bytes that \<open>encode_size\<close> writes; its return value is their number.\<close>

definition encode_size :: "int \<Rightarrow> byte list" where
  "encode_size sz =
    (if sz < 252 then [of_int sz]
     else let d0 = of_int (252 + (sz AND 0x3)) in [d0, of_int (drop_bit 2 (sz - uint d0))])"

text \<open>\<open>parse_size\<close> at offset \<open>p\<close>: its return value and the value stored in \<open>*sz\<close>.\<close>

definition parse_size :: "byte list \<Rightarrow> nat \<Rightarrow> int \<Rightarrow> (int \<times> int) option" where
  "parse_size data p len =
    (if len < 1 then Some (-1, -1)
     else do {
       b0 \<leftarrow> byte_at data p;
       if b0 < 252 then Some (1, b0)
       else if len < 2 then Some (-1, -1)
       else do { b1 \<leftarrow> byte_at data (p + 1); Some (2, s16 (4 * b1 + b0)) }
     })"

section \<open>The packet parser\<close>

record opus_frames =
  fr_toc :: int
  fr_count :: nat
  fr_size :: "int list"
  fr_frames :: "nat list"
  fr_payload_offset :: nat
  fr_packet_offset :: int
  fr_padding :: nat
  fr_padding_len :: int

text \<open>
  The padding length: a \<open>do ... while (p == 255)\<close> loop over the offset, the bytes left and
  the padding found. It ends because every byte read shortens \<open>len\<close>.
\<close>

function parse_padding :: "byte list \<Rightarrow> nat \<Rightarrow> int \<Rightarrow> int \<Rightarrow> (int + nat \<times> int \<times> int) option" where
  "parse_padding data p len pad =
    (if len \<le> 0 then Some (Inl OPUS_INVALID_PACKET)
     else do {
       b \<leftarrow> byte_at data p;
       let tmp = (if b = 255 then 254 else b);
       if b = 255 then parse_padding data (p + 1) (len - 1 - tmp) (pad + tmp)
       else Some (Inr (p + 1, len - 1 - tmp, pad + tmp))
     })"
  by pat_completeness auto
termination
  by (relation "measure (\<lambda>(data, p, len, pad). nat len)") auto

declare parse_padding.simps [simp del]

text \<open>The loop over the explicit frame lengths of a VBR packet.\<close>

fun parse_vbr :: "byte list \<Rightarrow> nat \<Rightarrow> nat \<Rightarrow> int \<Rightarrow> int \<Rightarrow> (int + int list \<times> nat \<times> int \<times> int) option" where
  "parse_vbr data 0 p len last_size = Some (Inr ([], p, len, last_size))"
| "parse_vbr data (Suc n) p len last_size = do {
     (bytes, sz) \<leftarrow> parse_size data p len;
     let len = len - bytes;
     if sz < 0 \<or> sz > len then Some (Inl OPUS_INVALID_PACKET)
     else do {
       r \<leftarrow> parse_vbr data n (p + nat bytes) len (last_size - (bytes + sz));
       case r of Inl e \<Rightarrow> Some (Inl e)
       | Inr (sizes, p, len, last_size) \<Rightarrow> Some (Inr (sz # sizes, p, len, last_size))
     }
   }"

text \<open>
  What the \<open>switch\<close> on the frame count code leaves: the number of frames, the constant
  bit rate flag, the sizes set so far, the offset, the bytes left, \<open>last_size\<close> and the
  padding. The sizes are those of all frames but the last.
\<close>

type_synonym parse_state = "nat \<times> bool \<times> int list \<times> nat \<times> int \<times> int \<times> int"

text \<open>Code 3 after the count byte and the padding length: the sizes of the frames.\<close>

definition parse_sizes3 :: "byte list \<Rightarrow> bool \<Rightarrow> int \<Rightarrow> bool \<Rightarrow> int \<Rightarrow> nat \<times> int \<times> int \<Rightarrow> (int + parse_state) option" where
  "parse_sizes3 data self_delimited count cbr last_size0 q =
    (let (p, len, pad) = q in
     if len < 0 then Some (Inl OPUS_INVALID_PACKET)
     else if \<not> cbr then do {
       r \<leftarrow> parse_vbr data (nat (count - 1)) p len len;
       case r of Inl e \<Rightarrow> Some (Inl e)
       | Inr v \<Rightarrow> let (sizes, p, len, last_size) = v in
           if last_size < 0 then Some (Inl OPUS_INVALID_PACKET)
           else Some (Inr (nat count, cbr, sizes, p, len, last_size, pad))
     }
     else if \<not> self_delimited then
       let last_size = len div count in
         if last_size * count \<noteq> len then Some (Inl OPUS_INVALID_PACKET)
         else Some (Inr (nat count, cbr, replicate (nat (count - 1)) (s16 last_size), p, len, last_size, pad))
     else Some (Inr (nat count, cbr, [], p, len, last_size0, pad)))"

definition parse_code3 :: "byte list \<Rightarrow> bool \<Rightarrow> int \<Rightarrow> nat \<Rightarrow> int \<Rightarrow> (int + parse_state) option" where
  "parse_code3 data self_delimited framesize p len =
    (if len < 1 then Some (Inl OPUS_INVALID_PACKET)
     else do {
       ch \<leftarrow> byte_at data p;
       let count = ch AND 0x3F;
       if count \<le> 0 \<or> framesize * count > 5760 then Some (Inl OPUS_INVALID_PACKET)
       else do {
         r \<leftarrow> (if ch AND 0x40 \<noteq> 0 then parse_padding data (p + 1) (len - 1) 0
               else Some (Inr (p + 1, len - 1, 0)));
         case r of Inl e \<Rightarrow> Some (Inl e)
         | Inr q \<Rightarrow> parse_sizes3 data self_delimited count (ch AND 0x80 = 0) len q
       }
     })"

text \<open>The four codes. In the last branch the C code keeps \<open>last_size\<close> of before the switch.\<close>

definition parse_code :: "byte list \<Rightarrow> bool \<Rightarrow> int \<Rightarrow> int \<Rightarrow> nat \<Rightarrow> int \<Rightarrow> (int + parse_state) option" where
  "parse_code data self_delimited framesize toc p len =
    (let last_size = len in
     if toc AND 0x3 = 0 then Some (Inr (1, False, [], p, len, last_size, 0))
     else if toc AND 0x3 = 1 then
       (if \<not> self_delimited then
          if len AND 0x1 \<noteq> 0 then Some (Inl OPUS_INVALID_PACKET)
          else let last_size = len div 2 in Some (Inr (2, True, [s16 last_size], p, len, last_size, 0))
        else Some (Inr (2, True, [], p, len, last_size, 0)))
     else if toc AND 0x3 = 2 then do {
       (bytes, sz) \<leftarrow> parse_size data p len;
       let len = len - bytes;
       if sz < 0 \<or> sz > len then Some (Inl OPUS_INVALID_PACKET)
       else Some (Inr (2, False, [sz], p + nat bytes, len, len - sz, 0))
     }
     else parse_code3 data self_delimited framesize p len)"

definition parse_last :: "byte list \<Rightarrow> bool \<Rightarrow> parse_state \<Rightarrow> (int + int list \<times> nat) option" where
  "parse_last data self_delimited st =
    (let (count, cbr, sizes, p, len, last_size, pad) = st in
     if self_delimited then do {
       (bytes, sz) \<leftarrow> parse_size data p len;
       let len = len - bytes;
       if sz < 0 \<or> sz > len then Some (Inl OPUS_INVALID_PACKET)
       else if cbr then
         if sz * int count > len then Some (Inl OPUS_INVALID_PACKET)
         else Some (Inr (replicate (count - 1) sz @ [sz], p + nat bytes))
       else if bytes + sz > last_size then Some (Inl OPUS_INVALID_PACKET)
       else Some (Inr (sizes @ [sz], p + nat bytes))
     }
     else if last_size > 1275 then Some (Inl OPUS_INVALID_PACKET)
     else Some (Inr (sizes @ [s16 last_size], p)))"

text \<open>The offsets of the frames, and the end of the last one.\<close>

fun frame_offsets :: "nat \<Rightarrow> int list \<Rightarrow> nat list \<times> nat" where
  "frame_offsets p [] = ([], p)"
| "frame_offsets p (s # ss) = apfst (Cons p) (frame_offsets (p + nat s) ss)"

definition opus_packet_parse_impl :: "byte list \<Rightarrow> int \<Rightarrow> bool \<Rightarrow> (int + opus_frames) option" where
  "opus_packet_parse_impl data len self_delimited =
    (if len < 0 then Some (Inl OPUS_BAD_ARG)
     else if len = 0 then Some (Inl OPUS_INVALID_PACKET)
     else do {
       toc \<leftarrow> byte_at data 0;
       let framesize = opus_packet_get_samples_per_frame toc 48000;
       r \<leftarrow> parse_code data self_delimited framesize toc 1 (len - 1);
       case r of Inl e \<Rightarrow> Some (Inl e)
       | Inr st \<Rightarrow> do {
           r \<leftarrow> parse_last data self_delimited st;
           case r of Inl e \<Rightarrow> Some (Inl e)
           | Inr (sizes, p) \<Rightarrow>
               let (count, cbr, _, _, _, _, pad) = st; (frames, q) = frame_offsets p sizes
               in Some (Inr \<lparr>fr_toc = toc, fr_count = count, fr_size = sizes, fr_frames = frames,
                    fr_payload_offset = p, fr_packet_offset = pad + int q, fr_padding = q, fr_padding_len = pad\<rparr>)
         }
     })"

definition opus_packet_parse :: "byte list \<Rightarrow> int \<Rightarrow> (int + opus_frames) option" where
  "opus_packet_parse data len = opus_packet_parse_impl data len False"

text \<open>
  Whether the packet holds LBRR frames. The first byte of the first frame is read without
  a look at the size of that frame.
\<close>

definition opus_packet_has_lbrr :: "byte list \<Rightarrow> int \<Rightarrow> int option" where
  "opus_packet_has_lbrr packet len = do {
     toc \<leftarrow> byte_at packet 0;
     if opus_packet_get_mode toc = MODE_CELT_ONLY then Some 0
     else do {
       let packet_frame_size = opus_packet_get_samples_per_frame toc 48000;
       let nb_frames = (if packet_frame_size > 960 then packet_frame_size div 960 else 1);
       let packet_stream_channels = opus_packet_get_nb_channels toc;
       ret \<leftarrow> opus_packet_parse packet len;
       case ret of Inl e \<Rightarrow> Some e
       | Inr f \<Rightarrow> do {
           b \<leftarrow> byte_at packet (fr_frames f ! 0);
           let lbrr = drop_bit (nat (7 - nb_frames)) b AND 0x1;
           Some (if packet_stream_channels = 2
                 then of_bool (lbrr \<noteq> 0 \<or> drop_bit (nat (6 - 2 * nb_frames)) b AND 0x1 \<noteq> 0)
                 else lbrr)
         }
     }
   }"

section \<open>What the parser guarantees\<close>

text \<open>A step that reads nothing outside, and ends in an invalid packet or in a good value.\<close>

definition parses :: "(int + 'a) option \<Rightarrow> ('a \<Rightarrow> bool) \<Rightarrow> bool" where
  "parses x Q \<longleftrightarrow> (\<exists>r. x = Some r \<and> (case r of Inl e \<Rightarrow> e = OPUS_INVALID_PACKET | Inr v \<Rightarrow> Q v))"

lemma parses_simps [simp]:
  "parses (Some (Inl e)) Q \<longleftrightarrow> e = OPUS_INVALID_PACKET" "parses (Some (Inr v)) Q \<longleftrightarrow> Q v"
  by (simp_all add: parses_def)

lemma parses_bind:
  assumes "parses x Q" and "\<And>v. Q v \<Longrightarrow> parses (f v) R"
  shows "parses (x \<bind> (\<lambda>r. case r of Inl e \<Rightarrow> Some (Inl e) | Inr v \<Rightarrow> f v)) R"
proof -
  obtain r where r: "x = Some r" "case r of Inl e \<Rightarrow> e = OPUS_INVALID_PACKET | Inr v \<Rightarrow> Q v"
    using assms(1) by (auto simp: parses_def)
  show ?thesis using r assms(2) by (cases r) simp_all
qed

lemma parses_weaken: "parses x Q \<Longrightarrow> (\<And>v. Q v \<Longrightarrow> R v) \<Longrightarrow> parses x R"
  by (auto simp: parses_def split: sum.splits)

lemma parse_size_ok:
  assumes "int p + len \<le> int (length data)"
  shows "\<exists>bytes sz. parse_size data p len = Some (bytes, sz) \<and> (sz < 0 \<or>
    0 \<le> sz \<and> sz \<le> 1275 \<and> 1 \<le> bytes \<and> bytes \<le> len)"
proof (cases "len < 1")
  case True
  then show ?thesis by (simp add: parse_size_def)
next
  case False
  then have b0: "byte_at data p = Some (uint (data ! p))" using assms by (intro byte_at_Some) simp
  show ?thesis
  proof (cases "uint (data ! p) < 252 \<or> len < 2")
    case True
    then show ?thesis using False by (auto simp: parse_size_def b0)
  next
    case F: False
    then have b1: "byte_at data (p + 1) = Some (uint (data ! (p + 1)))"
      using assms by (intro byte_at_Some) simp
    have sz: "0 \<le> 4 * uint (data ! (p + 1)) + uint (data ! p)"
      "4 * uint (data ! (p + 1)) + uint (data ! p) \<le> 1275"
      using uint_lt8 [of "data ! p"] uint_lt8 [of "data ! (p + 1)"] by simp_all
    have "s16 (4 * uint (data ! (p + 1)) + uint (data ! p))
        = 4 * uint (data ! (p + 1)) + uint (data ! p)" using sz by (intro s16_id) linarith+
    then show ?thesis using sz False F b1 by (simp add: parse_size_def b0)
  qed
qed

lemma parse_padding_ok:
  "int p + len + pad = len0 \<Longrightarrow> len0 \<le> int (length data) \<Longrightarrow> 0 \<le> pad \<Longrightarrow>
   parses (parse_padding data p len pad)
     (\<lambda>(p', len', pad'). int p' + len' + pad' = len0 \<and> p < p' \<and> pad \<le> pad')"
proof (induction data p len pad rule: parse_padding.induct)
  case (1 data p len pad)
  show ?case
  proof (cases "len \<le> 0")
    case True
    then show ?thesis by (simp add: parse_padding.simps [of data p len])
  next
    case False
    then have b: "byte_at data p = Some (uint (data ! p))" using 1 by (intro byte_at_Some) simp
    show ?thesis
    proof (cases "uint (data ! p) = 255")
      case True
      have "parses (parse_padding data (p + 1) (len - 1 - 254) (pad + 254))
          (\<lambda>(p', len', pad'). int p' + len' + pad' = len0 \<and> p + 1 < p' \<and> pad + 254 \<le> pad')"
        using 1(1) [OF False b refl] 1(2-) True by simp
      then show ?thesis
        using False b True by (auto simp: parse_padding.simps [of data p len] intro: parses_weaken)
    next
      case F: False
      then show ?thesis using False b 1(2-) by (simp add: parse_padding.simps [of data p len] Let_def)
    qed
  qed
qed

lemma parse_vbr_ok:
  "int p + len + pad = len0 \<Longrightarrow> len0 \<le> int (length data) \<Longrightarrow> 0 \<le> pad \<Longrightarrow> 0 \<le> len \<Longrightarrow>
   parses (parse_vbr data n p len lst)
     (\<lambda>(sizes, p', len', last'). int p' + len' + pad = len0 \<and> 0 \<le> len' \<and> p \<le> p' \<and> length sizes = n
        \<and> list_all (\<lambda>s. 0 \<le> s \<and> s \<le> 1275) sizes \<and> last' - len' = lst - len - sum_list sizes)"
proof (induction n arbitrary: p len lst)
  case (Suc n)
  obtain bytes sz where ps: "parse_size data p len = Some (bytes, sz)"
    "sz < 0 \<or> 0 \<le> sz \<and> sz \<le> 1275 \<and> 1 \<le> bytes \<and> bytes \<le> len"
    using parse_size_ok [of p len data] Suc.prems by auto
  show ?case
  proof (cases "sz < 0 \<or> sz > len - bytes")
    case True
    then show ?thesis by (simp add: ps)
  next
    case False
    then have "int (p + nat bytes) + (len - bytes) + pad = len0" "0 \<le> len - bytes"
      using ps Suc.prems by auto
    note IH = Suc.IH [OF this(1) Suc.prems(2,3) this(2), of "lst - (bytes + sz)"]
    have "parses (parse_vbr data n (p + nat bytes) (len - bytes) (lst - (bytes + sz)) \<bind>
        (\<lambda>r. case r of Inl e \<Rightarrow> Some (Inl e)
          | Inr v \<Rightarrow> (\<lambda>(sizes, p, len, l). Some (Inr (sz # sizes, p, len, l))) v))
      (\<lambda>(sizes, p', len', last'). int p' + len' + pad = len0 \<and> 0 \<le> len' \<and> p \<le> p' \<and> length sizes = Suc n
        \<and> list_all (\<lambda>s. 0 \<le> s \<and> s \<le> 1275) sizes \<and> last' - len' = lst - len - sum_list sizes)"
      by (rule parses_bind [OF IH]) (use ps False in auto)
    then show ?thesis using False by (simp add: ps split_def cong: sum.case_cong)
  qed
qed (auto simp: parses_def)

text \<open>The invariant of the state that the \<open>switch\<close> leaves.\<close>

definition state_ok :: "int \<Rightarrow> bool \<Rightarrow> int \<Rightarrow> parse_state \<Rightarrow> bool" where
  "state_ok len0 self_delimited framesize st \<longleftrightarrow>
    (let (count, cbr, sizes, p, len, lst, pad) = st in
       int p + len + pad = len0 \<and> 0 \<le> len \<and> 0 \<le> pad \<and> 0 < count \<and> 0 < p
       \<and> framesize * int count \<le> 5760
       \<and> (if cbr then \<not> self_delimited \<longrightarrow> lst * int count = len \<and> sizes = replicate (count - 1) (s16 lst)
          else 0 \<le> lst \<and> length sizes = count - 1 \<and> list_all (\<lambda>s. 0 \<le> s \<and> s \<le> 1275) sizes
            \<and> sum_list sizes + lst = len))"

lemma and_63: "0 \<le> c \<Longrightarrow> c AND 63 = c mod (64 :: int)"
  using take_bit_eq_mask [of 6 c] by (simp add: take_bit_eq_mod mask_eq_exp_minus_1)

lemma parse_sizes3_ok:
  assumes q: "case q of (p, len, pad) \<Rightarrow> int p + len + pad = len0 \<and> 0 < p \<and> 0 \<le> pad"
    and l: "len0 \<le> int (length data)" and c: "0 < count" "framesize * count \<le> 5760"
  shows "parses (parse_sizes3 data sd count cbr last0 q) (state_ok len0 sd framesize)"
proof -
  obtain p len pad where q': "q = (p, len, pad)" by (cases q)
  have n: "nat (count - 1) = nat count - 1" "int (nat count) = count" "0 < nat count"
    using c by (simp_all add: nat_diff_distrib)
  show ?thesis
  proof (cases "len < 0 \<or> cbr")
    case True
    then show ?thesis using q c n by (auto simp: parse_sizes3_def state_ok_def q' Let_def)
  next
    case False
    have "parses (parse_vbr data (nat (count - 1)) p len len)
      (\<lambda>(sizes, q, len1, last'). int q + len1 + pad = len0 \<and> 0 \<le> len1 \<and> p \<le> q \<and> length sizes = nat (count - 1)
        \<and> list_all (\<lambda>s. 0 \<le> s \<and> s \<le> 1275) sizes \<and> last' - len1 = len - len - sum_list sizes)"
      using q l False by (intro parse_vbr_ok) (simp_all add: q')
    then have "parses (parse_vbr data (nat (count - 1)) p len len \<bind>
        (\<lambda>r. case r of Inl e \<Rightarrow> Some (Inl e)
          | Inr v \<Rightarrow> (\<lambda>(sizes, p, len, last_size).
              if last_size < 0 then Some (Inl OPUS_INVALID_PACKET)
              else Some (Inr (nat count, False, sizes, p, len, last_size, pad))) v)) (state_ok len0 sd framesize)"
      by (rule parses_bind) (use q c n False in \<open>auto simp: q' state_ok_def Let_def split: prod.splits\<close>)
    moreover have "cbr = False" using False by simp
    ultimately show ?thesis using False by (simp add: parse_sizes3_def q' Let_def)
  qed
qed

lemma parse_code3_ok:
  assumes l: "int p + len = len0" "len0 \<le> int (length data)" and p: "0 < p"
  shows "parses (parse_code3 data sd framesize p len) (state_ok len0 sd framesize)"
proof (cases "len < 1")
  case True
  then show ?thesis by (simp add: parse_code3_def)
next
  case False
  define ch where "ch = uint (data ! p)"
  have ch: "byte_at data p = Some ch" using l False unfolding ch_def by (intro byte_at_Some) simp
  define count where "count = ch AND 0x3F"
  show ?thesis
  proof (cases "count \<le> 0 \<or> framesize * count > 5760")
    case True
    then show ?thesis using False by (simp add: parse_code3_def ch flip: count_def)
  next
    case F: False
    have pad: "parses (if ch AND 0x40 \<noteq> 0 then parse_padding data (p + 1) (len - 1) 0 else Some (Inr (p + 1, len - 1, 0)))
      (\<lambda>(p', len', pad'). int p' + len' + pad' = len0 \<and> 0 < p' \<and> 0 \<le> pad')"
    proof (cases "ch AND 0x40 \<noteq> 0")
      case True
      then show ?thesis using parse_padding_ok [of "p + 1" "len - 1" 0 len0 data] l
        by (auto intro: parses_weaken)
    next
      case False
      then show ?thesis using l by simp
    qed
    show ?thesis
      unfolding parse_code3_def if_not_P [OF False] ch bind.bind_lunit Let_def count_def [symmetric] if_not_P [OF F]
      by (rule parses_bind [OF pad]) (rule parse_sizes3_ok, use l F in auto)
  qed
qed

lemma parse_code_ok:
  assumes l: "int p + len = len0" "len0 \<le> int (length data)" "0 < p" "0 \<le> len" and f: "framesize \<le> 2880"
  shows "parses (parse_code data sd framesize toc p len) (state_ok len0 sd framesize)"
proof -
  obtain bytes sz where ps: "parse_size data p len = Some (bytes, sz)"
    "sz < 0 \<or> 0 \<le> sz \<and> sz \<le> 1275 \<and> 1 \<le> bytes \<and> bytes \<le> len"
    using parse_size_ok [of p len data] l by auto
  have odd: "len AND 1 = len mod 2" by (simp add: and_one_eq)
  have c3: "parses (parse_code3 data sd framesize p len) (state_ok len0 sd framesize)"
    by (rule parse_code3_ok [OF l(1-3)])
  consider "toc AND 3 = 0" | "toc AND 3 = 1" | "toc AND 3 = 2" | "toc AND 3 \<noteq> 0 \<and> toc AND 3 \<noteq> 1 \<and> toc AND 3 \<noteq> 2"
    by blast
  then show ?thesis
  proof cases
    case 1
    then show ?thesis using l f by (simp add: parse_code_def state_ok_def)
  next
    case 2
    have "len mod 2 = 0 \<Longrightarrow> len div 2 * 2 = len" using div_mult_mod_eq [of len 2] by simp
    then show ?thesis using 2 l f by (auto simp: parse_code_def state_ok_def Let_def odd)
  next
    case 3
    then show ?thesis using l f ps(2) by (auto simp: parse_code_def state_ok_def Let_def ps(1))
  next
    case 4
    then show ?thesis using c3 by (simp add: parse_code_def)
  qed
qed

text \<open>The result of a whole packet of \<open>len\<close> bytes.\<close>

definition frames_ok :: "int \<Rightarrow> bool \<Rightarrow> opus_frames \<Rightarrow> bool" where
  "frames_ok len self_delimited f \<longleftrightarrow>
     0 < fr_count f \<and> length (fr_size f) = fr_count f
     \<and> int (fr_count f) * opus_packet_get_samples_per_frame (fr_toc f) 48000 \<le> 5760
     \<and> list_all (\<lambda>s. 0 \<le> s \<and> s \<le> 1275) (fr_size f)
     \<and> (fr_frames f, fr_padding f) = frame_offsets (fr_payload_offset f) (fr_size f)
     \<and> 0 < fr_payload_offset f \<and> 0 \<le> fr_padding_len f
     \<and> fr_packet_offset f = int (fr_padding f) + fr_padding_len f
     \<and> (if self_delimited then fr_packet_offset f \<le> len else fr_packet_offset f = len)"

lemma frame_offsets_end:
  "list_all (\<lambda>s. 0 \<le> s) sizes \<Longrightarrow> int (snd (frame_offsets p sizes)) = int p + sum_list sizes"
  by (induction sizes arbitrary: p) simp_all

lemma length_frame_offsets: "length (fst (frame_offsets p sizes)) = length sizes"
  by (induction sizes arbitrary: p) simp_all

lemma s16_small: "0 \<le> x \<Longrightarrow> x \<le> 1275 \<Longrightarrow> s16 x = x"
  by (intro s16_id) simp_all

text \<open>The last frame: all sizes are known, and they fill the rest of the packet.\<close>

lemma parse_last_ok:
  assumes st: "state_ok len0 sd framesize st" and l: "len0 \<le> int (length data)"
  shows "parses (parse_last data sd st) (\<lambda>(sizes, q). case st of (count, _, _, p, _, _, pad) \<Rightarrow>
      p \<le> q \<and> length sizes = count \<and> list_all (\<lambda>s. 0 \<le> s \<and> s \<le> 1275) sizes
      \<and> (if sd then int q + sum_list sizes + pad \<le> len0 else int q + sum_list sizes + pad = len0))"
proof -
  obtain count cbr sizes p len lst pad where st': "st = (count, cbr, sizes, p, len, lst, pad)"
    by (cases st)
  have ok: "int p + len + pad = len0" "0 \<le> len" "0 \<le> pad" "0 < count"
    using st by (simp_all add: state_ok_def st')
  have rep: "replicate (count - 1) x @ [x] = replicate count x" for x :: int
    using ok(4) by (cases count) (simp_all add: replicate_append_same)
  obtain bytes sz where ps: "parse_size data p len = Some (bytes, sz)"
    "sz < 0 \<or> 0 \<le> sz \<and> sz \<le> 1275 \<and> 1 \<le> bytes \<and> bytes \<le> len"
    using parse_size_ok [of p len data] ok l by auto
  show ?thesis
  proof (cases sd)
    case True
    show ?thesis
    proof (cases "sz < 0 \<or> sz > len - bytes \<or> cbr")
      case c: True
      then show ?thesis using True ps(2) ok
        by (auto simp: parse_last_def st' ps(1) rep sum_list_replicate list_all_iff Let_def algebra_simps)
    next
      case c: False
      then show ?thesis using True ps(2) ok st
        by (auto simp: parse_last_def st' ps(1) state_ok_def Let_def)
    qed
  next
    case False
    show ?thesis
    proof (cases "lst > 1275")
      case True
      then show ?thesis using False by (simp add: parse_last_def st')
    next
      case small: False
      show ?thesis
      proof (cases cbr)
        case True
        then have c: "lst * int count = len" "sizes = replicate (count - 1) (s16 lst)"
          using st False by (simp_all add: state_ok_def st')
        then have "0 \<le> lst" using ok by (metis linorder_not_le mult_neg_pos of_nat_0_less_iff)
        then show ?thesis
          using False small ok c by (simp add: parse_last_def st' s16_small rep sum_list_replicate list_all_iff algebra_simps)
      next
        case vbr: False
        then have c: "0 \<le> lst" "length sizes = count - 1" "list_all (\<lambda>s. 0 \<le> s \<and> s \<le> 1275) sizes" "sum_list sizes + lst = len"
          using st by (simp_all add: state_ok_def st')
        then show ?thesis using False small ok vbr by (simp add: parse_last_def st' s16_small)
      qed
    qed
  qed
qed

lemma samples_per_frame_table:
  "list_all (\<lambda>t. opus_packet_get_samples_per_frame (int t) 48000 \<in> {120, 240, 480, 960, 1920, 2880})
     [0..<256]"
  by code_simp

lemma samples_per_frame:
  assumes "0 \<le> toc" and "toc < 256"
  shows "opus_packet_get_samples_per_frame toc 48000 \<in> {120, 240, 480, 960, 1920, 2880}"
proof -
  have "nat toc \<in> set [0..<256]" using assms by simp
  then have "opus_packet_get_samples_per_frame (int (nat toc)) 48000 \<in> {120, 240, 480, 960, 1920, 2880}"
    using samples_per_frame_table unfolding list_all_iff by blast
  then show ?thesis using assms by simp
qed

lemma parse_impl_ok:
  assumes l: "0 < len" "len \<le> int (length data)"
  shows "parses (opus_packet_parse_impl data len sd)
    (\<lambda>f. frames_ok len sd f \<and> byte_at data 0 = Some (fr_toc f))"
proof -
  define toc where "toc = uint (data ! 0)"
  have "0 < length data" using l by linarith
  then have b0: "byte_at data 0 = Some toc" unfolding toc_def by (rule byte_at_Some)
  define framesize where "framesize = opus_packet_get_samples_per_frame toc 48000"
  have "framesize \<in> {120, 240, 480, 960, 1920, 2880}"
    unfolding framesize_def using byte_at_bounds [OF b0] by (intro samples_per_frame) simp_all
  then have f: "framesize \<le> 2880" by auto
  have c: "parses (parse_code data sd framesize toc 1 (len - 1)) (state_ok len sd framesize)"
    using l f by (intro parse_code_ok) simp_all
  show ?thesis
    unfolding opus_packet_parse_impl_def b0 bind.bind_lunit Let_def framesize_def [symmetric]
  proof (subst if_not_P, use l in simp, subst if_not_P, use l in simp, rule parses_bind [OF c])
    fix st assume st: "state_ok len sd framesize st"
    obtain count cbr sizes0 p0 len0 lst pad where st': "st = (count, cbr, sizes0, p0, len0, lst, pad)"
      by (cases st)
    have ok: "0 < count" "0 < p0" "0 \<le> pad" "framesize * int count \<le> 5760"
      using st by (simp_all add: state_ok_def st')
    show "parses (parse_last data sd st \<bind> (\<lambda>r. case r of Inl e \<Rightarrow> Some (Inl e)
        | Inr (sizes, p) \<Rightarrow> (case st of (count, cbr, sizes0, p0, len, lst, pad) \<Rightarrow>
            case frame_offsets p sizes of (frames, q) \<Rightarrow> Some (Inr \<lparr>fr_toc = toc, fr_count = count,
              fr_size = sizes, fr_frames = frames, fr_payload_offset = p, fr_packet_offset = pad + int q,
              fr_padding = q, fr_padding_len = pad\<rparr>))))
      (\<lambda>f. frames_ok len sd f \<and> Some toc = Some (fr_toc f))"
    proof (rule parses_bind [OF parse_last_ok [OF st l(2)]])
      fix v assume v: "case v of (sizes, q) \<Rightarrow> case st of (count, _, _, p, _, _, pad) \<Rightarrow>
        p \<le> q \<and> length sizes = count \<and> list_all (\<lambda>s. 0 \<le> s \<and> s \<le> 1275) sizes
        \<and> (if sd then int q + sum_list sizes + pad \<le> len else int q + sum_list sizes + pad = len)"
      obtain sizes p where v': "v = (sizes, p)" by (cases v)
      obtain frames q where fo: "frame_offsets p sizes = (frames, q)" by (metis surj_pair)
      have "list_all (\<lambda>s. 0 \<le> s) sizes" using v by (auto simp: v' st' list_all_iff)
      then have "int q = int p + sum_list sizes" using frame_offsets_end [of sizes p] fo by simp
      then show "parses (case v of (sizes, p) \<Rightarrow> (case st of (count, cbr, sizes0, p0, len, lst, pad) \<Rightarrow>
            case frame_offsets p sizes of (frames, q) \<Rightarrow> Some (Inr \<lparr>fr_toc = toc, fr_count = count,
              fr_size = sizes, fr_frames = frames, fr_payload_offset = p, fr_packet_offset = pad + int q,
              fr_padding = q, fr_padding_len = pad\<rparr>)))
        (\<lambda>f. frames_ok len sd f \<and> Some toc = Some (fr_toc f))"
        using v ok by (auto simp: v' st' fo frames_ok_def mult.commute framesize_def)
    qed
  qed
qed

end
