(* ===== verification/Packet_Counts.thy ===== *)
theory Packet_Counts
  imports Opus_Packet
begin

text \<open>
  How the small routines of the packet layer fit the parser: the frame lengths that
  \<open>encode_size\<close> writes are read back, the frame and sample counts read off the header are
  those of a parsed packet, and the LBRR flags are found where the parser says.
\<close>

section \<open>Frame lengths\<close>

lemma and_3: "(c :: int) AND 3 = c mod 4"
  using take_bit_eq_mask [of 2 c] by (simp add: take_bit_eq_mod mask_eq_exp_minus_1)

lemma encode_size_long:
  assumes "252 \<le> sz" and "sz \<le> 1275"
  obtains b0 b1 where "encode_size sz = [b0, b1]" and "252 \<le> uint b0" and "4 * uint b1 + uint b0 = sz"
proof -
  have d0: "uint (of_int (252 + sz mod 4) :: byte) = 252 + sz mod 4"
    by (rule uint_byte_of_int) (use pos_mod_bound [of 4 sz] in auto)
  have m: "(sz - (252 + sz mod 4)) mod 4 = 0" by presburger
  have b: "0 \<le> (sz - (252 + sz mod 4)) div 4" "(sz - (252 + sz mod 4)) div 4 < 256"
    using assms by presburger+
  have d1: "uint (of_int ((sz - (252 + sz mod 4)) div 4) :: byte) = (sz - (252 + sz mod 4)) div 4"
    using b by (rule uint_byte_of_int)
  show ?thesis
  proof (rule that)
    show "encode_size sz = [of_int (252 + sz mod 4), of_int ((sz - (252 + sz mod 4)) div 4)]"
      using assms(1) unfolding encode_size_def Let_def and_3 d0 drop_bit_eq_div by simp
    show "252 \<le> uint (of_int (252 + sz mod 4) :: byte)" unfolding d0 by simp
    show "4 * uint (of_int ((sz - (252 + sz mod 4)) div 4) :: byte) + uint (of_int (252 + sz mod 4) :: byte) = sz"
      unfolding d0 d1 using m by presburger
  qed
qed

lemma length_encode_size: "length (encode_size sz) = (if sz < 252 then 1 else 2)"
  by (simp add: encode_size_def Let_def)

lemma byte_at_append: "byte_at (pre @ xs) (length pre + i) = byte_at xs i"
  by (simp add: byte_at_def)

lemma parse_encode_size:
  assumes sz: "0 \<le> sz" "sz \<le> 1275" and len: "int (length (encode_size sz)) \<le> len"
  shows "parse_size (pre @ encode_size sz @ post) (length pre) len = Some (int (length (encode_size sz)), sz)"
proof (cases "sz < 252")
  case True
  then have e: "encode_size sz = [of_int sz]" by (simp add: encode_size_def)
  have "uint (of_int sz :: byte) = sz" using sz True by (intro uint_byte_of_int) simp_all
  then show ?thesis using True len byte_at_append [of pre "of_int sz # post" 0]
    by (simp add: parse_size_def e byte_at_def)
next
  case False
  then obtain b0 b1 where e: "encode_size sz = [b0, b1]" "252 \<le> uint b0" "4 * uint b1 + uint b0 = sz"
    using encode_size_long [of sz] sz by (metis linorder_not_less)
  have "byte_at (pre @ [b0, b1] @ post) (length pre) = Some (uint b0)"
    "byte_at (pre @ [b0, b1] @ post) (length pre + 1) = Some (uint b1)"
    using byte_at_append [of pre "[b0, b1] @ post" 0] byte_at_append [of pre "[b0, b1] @ post" 1]
    by (simp_all add: byte_at_def)
  then show ?thesis using e len s16_small [of sz] sz by (simp add: parse_size_def)
qed

section \<open>Frame and sample counts\<close>

text \<open>The count that the first bytes state.\<close>

definition header_count :: "byte list \<Rightarrow> int \<Rightarrow> int option" where
  "header_count data toc =
    (if toc AND 3 = 0 then Some 1 else if toc AND 3 = 1 \<or> toc AND 3 = 2 then Some 2
     else map_option (\<lambda>b. b AND 0x3F) (byte_at data 1))"

lemma parse_sizes3_count:
  "parse_sizes3 data sd count cbr last0 q = Some (Inr st) \<Longrightarrow> fst st = nat count"
  by (auto simp: parse_sizes3_def Let_def split_def bind_sum_Inr split: if_split_asm)

lemma parse_code3_count:
  assumes "parse_code3 data sd framesize p len = Some (Inr st)"
  shows "1 \<le> len \<and> map_option (\<lambda>b. b AND 0x3F) (byte_at data p) = Some (int (fst st))"
proof -
  obtain ch where ch: "byte_at data p = Some ch" and l: "\<not> len < 1" and c: "\<not> ch AND 0x3F \<le> 0"
    using assms by (auto simp: parse_code3_def bind_eq_Some_conv Let_def split: if_split_asm)
  have "\<exists>q. parse_sizes3 data sd (ch AND 0x3F) (ch AND 0x80 = 0) len q = Some (Inr st)"
    using assms ch l c by (auto simp: parse_code3_def Let_def bind_sum_Inr split: if_split_asm)
  then show ?thesis using parse_sizes3_count ch c l by fastforce
qed

lemma parse_code_count:
  assumes "parse_code data sd framesize toc 1 len = Some (Inr st)"
  shows "header_count data toc = Some (int (fst st)) \<and> (toc AND 3 = 3 \<longrightarrow> 1 \<le> len)"
proof -
  have m: "toc AND 3 \<in> {0, 1, 2, 3}"
    using pos_mod_bound [of 4 toc] pos_mod_sign [of 4 toc] unfolding and_3 by auto
  consider "toc AND 3 = 0" | "toc AND 3 = 1" | "toc AND 3 = 2" | "toc AND 3 = 3" using m by auto
  then show ?thesis
  proof cases
    case 4
    then show ?thesis using parse_code3_count [of data sd framesize 1 len st] assms
      by (simp add: parse_code_def header_count_def)
  qed (use assms in \<open>auto simp: parse_code_def header_count_def Let_def bind_eq_Some_conv split: if_split_asm\<close>)
qed

lemma parse_impl_count:
  assumes "opus_packet_parse_impl data len sd = Some (Inr f)"
  shows "0 < len \<and> byte_at data 0 = Some (fr_toc f) \<and> header_count data (fr_toc f) = Some (int (fr_count f))
    \<and> (fr_toc f AND 3 = 3 \<longrightarrow> 2 \<le> len)"
proof -
  obtain toc where t: "byte_at data 0 = Some toc" and l: "0 < len"
    using assms by (auto simp: opus_packet_parse_impl_def bind_eq_Some_conv Let_def split: if_split_asm)
  obtain st where "parse_code data sd (opus_packet_get_samples_per_frame toc 48000) toc 1 (len - 1) = Some (Inr st)"
    and "fr_toc f = toc" "fr_count f = fst st"
    using assms t l
    by (auto simp: opus_packet_parse_impl_def bind_sum_Inr Let_def split_def split: if_split_asm)
  then show ?thesis using parse_code_count [of data sd _ toc "len - 1" st] t l by fastforce
qed

lemma nb_frames_header:
  assumes "byte_at data 0 = Some toc" "header_count data toc = Some c" "0 < len" "toc AND 3 = 3 \<longrightarrow> 2 \<le> len"
  shows "opus_packet_get_nb_frames data len = Some c"
proof -
  have "toc AND 3 \<in> {0, 1, 2, 3}"
    using pos_mod_bound [of 4 toc] pos_mod_sign [of 4 toc] unfolding and_3 by auto
  then show ?thesis using assms
    by (auto simp: opus_packet_get_nb_frames_def header_count_def Let_def split: if_split_asm)
qed

text \<open>The frame duration at the sampling rates of the API, in terms of the one at 48 kHz.\<close>

lemma samples_scaled:
  assumes "k \<in> {1, 2, 3, 4, 6}"
  shows "opus_packet_get_samples_per_frame toc (48000 div k) * k = opus_packet_get_samples_per_frame toc 48000"
proof -
  have m: "drop_bit 3 toc AND 3 \<in> {0, 1, 2, 3}"
    using pos_mod_bound [of 4 "drop_bit 3 toc"] pos_mod_sign [of 4 "drop_bit 3 toc"] unfolding and_3 by auto
  have silk: "(if a = 3 then 48000 div k * 60 div 1000 * k else push_bit (nat a) (48000 div k) div 100 * k)
      = (if a = 3 then 48000 * 60 div 1000 else push_bit (nat a) 48000 div 100)"
    and celt: "push_bit (nat a) (48000 div k) div 400 * k = push_bit (nat a) 48000 div 400"
    if "a \<in> {0, 1, 2, 3}" for a
    using that assms by (auto simp: push_bit_eq_mult)
  have hybrid: "48000 div k div 50 * k = 48000 div 50" "48000 div k div 100 * k = 48000 div 100"
    using assms by auto
  show ?thesis
    unfolding opus_packet_get_samples_per_frame_def Let_def
    by (simp only: if_distrib [of "\<lambda>x. x * k"] silk [OF m] celt [OF m] hybrid)
qed

lemma nb_samples_parsed:
  assumes l: "0 < len" "len \<le> int (length data)"
    and f: "opus_packet_parse_impl data len sd = Some (Inr f)"
    and Fs: "Fs \<in> {48000, 24000, 16000, 12000, 8000}"
  shows "opus_packet_get_nb_samples data len Fs
    = Some (int (fr_count f) * opus_packet_get_samples_per_frame (fr_toc f) Fs)"
proof -
  have c: "byte_at data 0 = Some (fr_toc f)" "opus_packet_get_nb_frames data len = Some (int (fr_count f))"
    using parse_impl_count [OF f] nb_frames_header by auto
  have ok: "int (fr_count f) * opus_packet_get_samples_per_frame (fr_toc f) 48000 \<le> 5760"
    using parse_impl_ok [OF l, of sd] f by (simp add: frames_ok_def)
  have "\<exists>k \<in> {1, 2, 3, 4, 6}. Fs = 48000 div k" using Fs by fastforce
  then obtain k where k: "k \<in> {1, 2, 3, 4, 6}" "Fs = 48000 div k" by blast
  have "opus_packet_get_samples_per_frame (fr_toc f) Fs * k
      = opus_packet_get_samples_per_frame (fr_toc f) 48000"
    unfolding k(2) by (rule samples_scaled [OF k(1)])
  then have "int (fr_count f) * opus_packet_get_samples_per_frame (fr_toc f) Fs * k \<le> 5760"
    using ok by (simp only: mult.assoc)
  moreover have "k \<noteq> 0 \<and> 0 < k \<and> Fs * k = 48000" using k by auto
  moreover have "x * 25 \<le> Fs * 3" if "x * k \<le> 5760" "0 < k" "Fs * k = 48000" for x
  proof -
    have "x * 25 * k = 25 * (x * k)" "Fs * 3 * k = 3 * (Fs * k)" by simp_all
    then have "x * 25 * k \<le> Fs * 3 * k" using that by linarith
    then show ?thesis using that(2) by simp
  qed
  ultimately have "\<not> int (fr_count f) * opus_packet_get_samples_per_frame (fr_toc f) Fs * 25 > Fs * 3"
    by (simp only: not_less)
  then show ?thesis by (simp add: opus_packet_get_nb_samples_def c Let_def)
qed

section \<open>LBRR flags\<close>

lemma first_frame:
  assumes "frames_ok len sd f"
  obtains s ss where "fr_size f = s # ss" and "fr_frames f ! 0 = fr_payload_offset f"
    and "int (fr_padding f) = int (fr_payload_offset f) + s + sum_list ss" and "0 \<le> sum_list ss"
proof -
  obtain s ss where ss: "fr_size f = s # ss"
    using assms by (cases "fr_size f") (auto simp: frames_ok_def)
  have nn: "list_all (\<lambda>s. 0 \<le> s) (s # ss)"
    using assms by (auto simp: frames_ok_def ss list_all_iff)
  have fo: "fr_frames f = fst (frame_offsets (fr_payload_offset f) (s # ss))"
    "fr_padding f = snd (frame_offsets (fr_payload_offset f) (s # ss))"
    using assms unfolding frames_ok_def ss by (metis fst_conv, metis snd_conv)
  show ?thesis
  proof (rule that [OF ss])
    show "fr_frames f ! 0 = fr_payload_offset f" unfolding fo(1) by simp
    show "int (fr_padding f) = int (fr_payload_offset f) + s + sum_list ss"
      unfolding fo(2) frame_offsets_end [OF nn] by simp
    show "0 \<le> sum_list ss" using nn by (intro sum_list_nonneg) (simp add: list_all_iff)
  qed
qed

lemma has_lbrr_reads:
  assumes l: "0 < len" "len \<le> int (length data)"
    and f: "opus_packet_parse data len = Some (Inr f)" and s: "0 < fr_size f ! 0"
  shows "\<exists>v \<in> {0, 1}. opus_packet_has_lbrr data len = Some v"
proof -
  have ok: "frames_ok len False f" "byte_at data 0 = Some (fr_toc f)"
    using parse_impl_ok [OF l, of False] f by (simp_all add: opus_packet_parse_def)
  have bit: "(x AND 1) \<in> {0, 1}" for x :: int by (auto simp: and_one_eq)
  obtain s0 ss where fr: "fr_size f = s0 # ss" "fr_frames f ! 0 = fr_payload_offset f"
    "int (fr_padding f) = int (fr_payload_offset f) + s0 + sum_list ss" "0 \<le> sum_list ss"
    using first_frame [OF ok(1)] by blast
  have "int (fr_padding f) \<le> len" using ok(1) by (simp add: frames_ok_def)
  then have "fr_payload_offset f < length data" using fr s l by simp
  then have b: "byte_at data (fr_frames f ! 0) = Some (uint (data ! fr_payload_offset f))"
    unfolding fr(2) by (rule byte_at_Some)
  have lbrr: "\<exists>v \<in> {0, 1}. Some (if c then of_bool B else x AND 1) = Some (v :: int)" for c B and x :: int
    using bit [of x] by (cases c; cases B) simp_all
  show ?thesis
    unfolding opus_packet_has_lbrr_def ok(2) f b bind.bind_lunit Let_def sum.case
    by (cases "opus_packet_get_mode (fr_toc f) = MODE_CELT_ONLY") (simp, simp only: if_False lbrr)
qed

end
