(* ===== verification/Extensions.thy ===== *)
theory Extensions
  imports Opus_Packet
begin

text \<open>
  The extensions that Opus packets carry in their padding (extensions.c): the walk over a
  padding area, counting, parsing and generating extensions. Pointers are offsets into a
  byte list; lengths, which the code asserts not to be negative, are \<open>nat\<close>.
\<close>

section \<open>Definitions\<close>

record opus_extension_data =
  ext_id :: int
  ext_frame :: int
  ext_data :: nat
  ext_len :: int

text \<open>
  The lacing bytes of a long extension, a \<open>do ... while\<close> loop that stops with an error when
  the data end: the offset and the bytes left after them, the sum and the header size.
\<close>

function skip_lacing :: "byte list \<Rightarrow> nat \<Rightarrow> nat \<Rightarrow> int \<Rightarrow> nat \<Rightarrow> (nat \<times> nat \<times> int \<times> nat) option option" where
  "skip_lacing data p len bytes hdr =
    (if len - 1 = 0 then Some None
     else do {
       b \<leftarrow> byte_at data (p + 1);
       if b = 255 then skip_lacing data (p + 1) (len - 1) (bytes + b) (hdr + 1)
       else Some (Some (p + 2, len - 2, bytes + b, hdr + 1))
     })"
  by pat_completeness auto
termination
  by (relation "measure (\<lambda>(data, p, len, bytes, hdr). len)") auto

declare skip_lacing.simps [simp del]

text \<open>
  \<open>skip_extension\<close>: the bytes left (\<open>None\<close> for -1), the new offset and \<open>*header_size\<close>, which
  is not set when \<open>len\<close> is 0 (no caller does that).
\<close>

definition skip_extension :: "byte list \<Rightarrow> nat \<Rightarrow> nat \<Rightarrow> (nat \<times> nat \<times> nat) option option" where
  "skip_extension data p len =
    (if len = 0 then Some (Some (0, p, 0))
     else do {
       b \<leftarrow> byte_at data p;
       let id = drop_bit 1 b;
       let L = nat (b AND 1);
       if id = 0 \<and> L = 1 then Some (Some (len - 1, p + 1, 1))
       else if id > 0 \<and> id < 32 then
         (if len < 1 + L then Some None else Some (Some (len - (1 + L), p + 1 + L, 1)))
       else if L = 0 then Some (Some (0, p + len, 1))
       else do {
         r \<leftarrow> skip_lacing data p len 0 1;
         case r of None \<Rightarrow> Some None
         | Some (p, len, bytes, hdr) \<Rightarrow>
             if bytes \<le> int len then Some (Some (len - nat bytes, p + nat bytes, hdr)) else Some None
       }
     })"

lemma skip_lacing_len:
  "skip_lacing data p len bytes hdr = Some (Some (p', len', bytes', hdr')) \<Longrightarrow> 0 \<le> bytes \<Longrightarrow>
   p < p' \<and> len' < len \<and> p' + len' = p + len \<and> 0 \<le> bytes' \<and> int p' + int hdr = int p + int hdr' + 1"
proof (induction data p len bytes hdr rule: skip_lacing.induct)
  case (1 data p len bytes hdr)
  then obtain b where b: "byte_at data (p + 1) = Some b" and l: "len - 1 \<noteq> 0"
    by (auto simp: skip_lacing.simps [of data p len] bind_eq_Some_conv split: if_splits)
  note bb = byte_at_bounds [OF b]
  show ?case
  proof (cases "b = 255")
    case True
    then have "skip_lacing data (p + 1) (len - 1) (bytes + b) (hdr + 1) = Some (Some (p', len', bytes', hdr'))"
      using 1(2) b l by (simp add: skip_lacing.simps [of data p len])
    from 1(1) [OF l b True this] show ?thesis using bb 1(3) l by auto
  next
    case False
    then show ?thesis using 1(2,3) b bb l by (auto simp: skip_lacing.simps [of data p len])
  qed
qed

lemma skip_extension_cases:
  assumes b: "byte_at data p = Some b" and l: "0 < len"
  shows "drop_bit 1 b = 0 \<Longrightarrow> b AND 1 \<noteq> 0 \<Longrightarrow> skip_extension data p len = Some (Some (len - 1, p + 1, 1))"
    and "0 < drop_bit 1 b \<Longrightarrow> drop_bit 1 b < 32 \<Longrightarrow> skip_extension data p len =
      (if len < 1 + nat (b AND 1) then Some None
       else Some (Some (len - (1 + nat (b AND 1)), p + 1 + nat (b AND 1), 1)))"
    and "drop_bit 1 b = 0 \<or> 32 \<le> drop_bit 1 b \<Longrightarrow> b AND 1 = 0 \<Longrightarrow>
      skip_extension data p len = Some (Some (0, p + len, 1))"
    and "32 \<le> drop_bit 1 b \<Longrightarrow> b AND 1 \<noteq> 0 \<Longrightarrow> skip_extension data p len =
      skip_lacing data p len 0 1 \<bind> (\<lambda>r. case r of None \<Rightarrow> Some None
         | Some (p, len, bytes, hdr) \<Rightarrow>
             if bytes \<le> int len then Some (Some (len - nat bytes, p + nat bytes, hdr)) else Some None)"
  using assms by (auto simp: skip_extension_def Let_def and_one_eq)

lemma byte_id: "byte_at data p = Some b \<Longrightarrow> 0 \<le> drop_bit 1 b \<and> drop_bit 1 b < 128 \<and> (b AND 1 = 0 \<or> b AND 1 = 1)"
  using byte_at_bounds [of data p b] by (auto simp: drop_bit_eq_div and_one_eq)

lemma skip_extension_len:
  assumes "skip_extension data p len = Some (Some (len', p', hs))" and "0 < len"
  shows "len' < len \<and> p' + len' = p + len \<and> p < p' \<and> 0 < hs \<and> p + hs \<le> p'"
proof -
  obtain b where b: "byte_at data p = Some b"
    using assms by (auto simp: skip_extension_def bind_eq_Some_conv split: if_splits)
  note c = skip_extension_cases [OF b assms(2)]
  consider "drop_bit 1 b = 0" "b AND 1 \<noteq> 0" | "0 < drop_bit 1 b" "drop_bit 1 b < 32"
    | "drop_bit 1 b = 0 \<or> 32 \<le> drop_bit 1 b" "b AND 1 = 0" | "32 \<le> drop_bit 1 b" "b AND 1 \<noteq> 0"
    using byte_id [OF b] by linarith
  then show ?thesis
  proof cases
    case 1
    then show ?thesis using assms c(1) by auto
  next
    case 2
    then show ?thesis using assms c(2) byte_id [OF b] by (auto split: if_splits)
  next
    case 3
    then show ?thesis using assms c(3) by auto
  next
    case 4
    have eq: "skip_lacing data p len 0 1 \<bind> (\<lambda>r. case r of None \<Rightarrow> Some None
         | Some (p, len, bytes, hdr) \<Rightarrow>
             if bytes \<le> int len then Some (Some (len - nat bytes, p + nat bytes, hdr)) else Some None)
       = Some (Some (len', p', hs))"
      using c(4) [OF 4] assms(1) by simp
    then obtain q n bytes hdr where r: "skip_lacing data p len 0 1 = Some (Some (q, n, bytes, hdr))"
      by (auto simp: bind_eq_Some_conv split: option.splits)
    have "bytes \<le> int n" "len' = n - nat bytes" "p' = q + nat bytes" "hs = hdr"
      using eq [unfolded r] by (simp_all split: if_split_asm)
    then show ?thesis using skip_lacing_len [OF r] by auto
  qed
qed

function ext_count_loop :: "byte list \<Rightarrow> nat \<Rightarrow> nat \<Rightarrow> int \<Rightarrow> int option" where
  "ext_count_loop data p len count =
    (if len = 0 then Some count
     else do {
       b \<leftarrow> byte_at data p;
       let id = drop_bit 1 b;
       r \<leftarrow> skip_extension data p len;
       case r of None \<Rightarrow> Some OPUS_INVALID_PACKET
       | Some (len', p', _) \<Rightarrow> ext_count_loop data p' len' (if id > 1 then count + 1 else count)
     })"
  by pat_completeness auto
termination
  by (relation "measure (\<lambda>(data, p, len, count). len)") (auto dest: skip_extension_len)

declare ext_count_loop.simps [simp del]

definition opus_packet_extensions_count :: "byte list \<Rightarrow> nat \<Rightarrow> int option" where
  "opus_packet_extensions_count data len = ext_count_loop data 0 len 0"

text \<open>
  The parse loop returns the status and the extensions stored. \<open>cap\<close> is the room left in
  the array.
\<close>

function ext_parse_loop ::
  "byte list \<Rightarrow> nat \<Rightarrow> nat \<Rightarrow> int \<Rightarrow> nat \<Rightarrow> (int \<times> opus_extension_data list) option" where
  "ext_parse_loop data p len curr_frame cap =
    (if len = 0 then Some (OPUS_OK, [])
     else do {
       b \<leftarrow> byte_at data p;
       let id = drop_bit 1 b;
       curr_frame \<leftarrow>
         (if id = 1 then
            if b AND 1 = 0 then Some (curr_frame + 1)
            else if len \<ge> 2 then do { b1 \<leftarrow> byte_at data (p + 1); Some (curr_frame + b1) }
            else Some curr_frame
          else Some curr_frame);
       if id = 1 \<and> curr_frame \<ge> 48 then Some (OPUS_INVALID_PACKET, [])
       else do {
         r \<leftarrow> skip_extension data p len;
         case r of None \<Rightarrow> Some (OPUS_INVALID_PACKET, [])
         | Some (len', p', header_size) \<Rightarrow>
             if id > 1 then
               if cap = 0 then Some (OPUS_BUFFER_TOO_SMALL, [])
               else do {
                 (ret, exts) \<leftarrow> ext_parse_loop data p' len' curr_frame (cap - 1);
                 Some (ret, \<lparr>ext_id = id, ext_frame = curr_frame, ext_data = p + header_size,
                             ext_len = int p' - int p - int header_size\<rparr> # exts)
               }
             else ext_parse_loop data p' len' curr_frame cap
       }
     })"
  by pat_completeness auto
termination
  by (relation "measure (\<lambda>(data, p, len, curr_frame, cap). len)") (auto dest: skip_extension_len)

declare ext_parse_loop.simps [simp del]

definition opus_packet_extensions_parse ::
  "byte list \<Rightarrow> nat \<Rightarrow> nat \<Rightarrow> (int \<times> opus_extension_data list) option" where
  "opus_packet_extensions_parse data len nb_extensions = ext_parse_loop data 0 len 0 nb_extensions"

text \<open>
  Generation. \<open>mem\<close> is the memory the extension data are read from; when the target
  pointer is NULL nothing is read or written and only the length counts, which \<open>fetch\<close>
  models with zero bytes. The state is the bytes written so far, \<open>curr_frame\<close> and
  \<open>written\<close>.
\<close>

definition fetch :: "bool \<Rightarrow> byte list \<Rightarrow> nat \<Rightarrow> nat \<Rightarrow> byte list option" where
  "fetch null mem a n =
    (if null then Some (replicate n 0)
     else if a + n \<le> length mem then Some (take n (drop a mem)) else None)"

definition gen_separator :: "int \<Rightarrow> int \<Rightarrow> byte list \<Rightarrow> int \<Rightarrow> int + byte list" where
  "gen_separator len frame out curr_frame =
    (if frame \<noteq> curr_frame then
       let diff = frame - curr_frame in
       if len - int (length out) < 2 then Inl OPUS_BUFFER_TOO_SMALL
       else if diff = 1 then Inr (out @ [0x02]) else Inr (out @ [0x03, of_int diff])
     else Inr out)"

definition gen_ext ::
  "bool \<Rightarrow> byte list \<Rightarrow> int \<Rightarrow> bool \<Rightarrow> opus_extension_data \<Rightarrow> byte list \<Rightarrow> (int + byte list) option" where
  "gen_ext null mem len is_last e out =
    (let pos = int (length out) in
     if ext_id e < 32 then
       if ext_len e < 0 \<or> ext_len e > 1 then Some (Inl OPUS_BAD_ARG)
       else if len - pos < ext_len e + 1 then Some (Inl OPUS_BUFFER_TOO_SMALL)
       else do {
         d \<leftarrow> fetch null mem (ext_data e) (nat (ext_len e));
         Some (Inr (out @ [of_int (push_bit 1 (ext_id e) + ext_len e)] @ d))
       }
     else if ext_len e < 0 then Some (Inl OPUS_BAD_ARG)
     else
       let length_bytes = (if is_last then 0 else 1 + ext_len e div 255) in
       if len - pos < 1 + length_bytes + ext_len e then Some (Inl OPUS_BUFFER_TOO_SMALL)
       else do {
         d \<leftarrow> fetch null mem (ext_data e) (nat (ext_len e));
         Some (Inr (out @ [of_int (push_bit 1 (ext_id e) + of_bool (\<not> is_last))]
           @ (if is_last then [] else replicate (nat (ext_len e div 255)) 255 @ [of_int (ext_len e mod 255)])
           @ d))
       })"

text \<open>The body of the loop over the extensions of one frame, and the loops.\<close>

fun gen_loop ::
  "bool \<Rightarrow> byte list \<Rightarrow> int \<Rightarrow> nat \<Rightarrow> opus_extension_data list \<Rightarrow> byte list \<Rightarrow> int \<Rightarrow> nat \<Rightarrow>
   (int + byte list) option" where
  "gen_loop null mem len nb [] out curr_frame written = Some (Inr out)"
| "gen_loop null mem len nb (e # es) out curr_frame written =
    (case gen_separator len (ext_frame e) out curr_frame of
       Inl r \<Rightarrow> Some (Inl r)
     | Inr out \<Rightarrow> do {
         r \<leftarrow> gen_ext null mem len (written + 1 = nb) e out;
         case r of Inl r \<Rightarrow> Some (Inl r)
         | Inr out \<Rightarrow> gen_loop null mem len nb es out (ext_frame e) (written + 1)
       })"

definition ext_order :: "opus_extension_data list \<Rightarrow> int \<Rightarrow> opus_extension_data list" where
  "ext_order exts max_frame =
    concat (map (\<lambda>frame. filter (\<lambda>e. ext_frame e = frame) exts) [0..max_frame])"

definition opus_packet_extensions_generate ::
  "bool \<Rightarrow> byte list \<Rightarrow> int \<Rightarrow> opus_extension_data list \<Rightarrow> bool \<Rightarrow> (int + byte list) option" where
  "opus_packet_extensions_generate null mem len exts pad =
    (let max_frame = foldl max 0 (map ext_frame exts) in
     if list_ex (\<lambda>e. ext_id e < 2 \<or> ext_id e > 127) exts then Some (Inl OPUS_BAD_ARG)
     else if max_frame \<ge> 48 then Some (Inl OPUS_BAD_ARG)
     else do {
       r \<leftarrow> gen_loop null mem len (length exts) (ext_order exts max_frame) [] 0 0;
       case r of Inl e \<Rightarrow> Some (Inl e)
       | Inr out \<Rightarrow>
           if pad \<and> int (length out) < len
           then Some (Inr (replicate (nat len - length out) 0x01 @ out))
           else Some (Inr out)
     })"

section \<open>The walk stays inside the padding\<close>

lemma skip_lacing_reads:
  "p + len \<le> length data \<Longrightarrow> 0 < len \<Longrightarrow> skip_lacing data p len bytes hdr \<noteq> None"
proof (induction data p len bytes hdr rule: skip_lacing.induct)
  case (1 data p len bytes hdr)
  show ?case
  proof (cases "len - 1 = 0")
    case True
    then show ?thesis by (simp add: skip_lacing.simps [of data p len])
  next
    case False
    then have b: "byte_at data (p + 1) = Some (uint (data ! (p + 1)))"
      using 1(2) by (intro byte_at_Some) simp
    show ?thesis
      using 1(1) [OF False b] 1(2) False b by (simp add: skip_lacing.simps [of data p len])
  qed
qed

lemma skip_extension_reads:
  assumes "p + len \<le> length data" and "0 < len"
  shows "skip_extension data p len \<noteq> None"
proof -
  have b: "byte_at data p = Some (uint (data ! p))" using assms by (intro byte_at_Some) simp
  obtain r where "skip_lacing data p len 0 1 = Some r"
    using skip_lacing_reads [OF assms, of 0 1] by auto
  then show ?thesis using b assms
    by (auto simp: skip_extension_def Let_def split: option.splits)
qed

lemma skip_extension_read:
  assumes "p + len \<le> length data" and "0 < len"
  obtains b r where "byte_at data p = Some b" and "skip_extension data p len = Some r"
    and "\<And>len' p' hs. r = Some (len', p', hs) \<Longrightarrow> p' + len' \<le> length data \<and> len' < len"
proof -
  have b: "byte_at data p = Some (uint (data ! p))" using assms by (intro byte_at_Some) simp
  obtain r where r: "skip_extension data p len = Some r"
    using skip_extension_reads [OF assms] by auto
  show ?thesis
  proof (rule that [OF b r])
    fix len' p' hs assume "r = Some (len', p', hs)"
    then show "p' + len' \<le> length data \<and> len' < len"
      using skip_extension_len [of data p len len' p' hs] r assms by simp
  qed
qed

lemma count_step:
  assumes "byte_at data p = Some b" and "0 < len" and "skip_extension data p len = Some r"
  shows "ext_count_loop data p len n = (case r of None \<Rightarrow> Some OPUS_INVALID_PACKET
    | Some (len', p', hs) \<Rightarrow> ext_count_loop data p' len' (if drop_bit 1 b > 1 then n + 1 else n))"
  using assms by (simp add: ext_count_loop.simps [of data p len] Let_def)

lemma ext_count_total:
  "p + len \<le> length data \<Longrightarrow> \<exists>m. ext_count_loop data p len count = Some m"
proof (induction len arbitrary: p count rule: less_induct)
  case (less len)
  show ?case
  proof (cases "len = 0")
    case True
    then show ?thesis by (simp add: ext_count_loop.simps [of data p 0])
  next
    case False
    then have l0: "0 < len" by simp
    obtain b r where r: "byte_at data p = Some b" "skip_extension data p len = Some r"
      and n: "\<And>len' p' hs. r = Some (len', p', hs) \<Longrightarrow> p' + len' \<le> length data \<and> len' < len"
      using skip_extension_read [OF less.prems l0] by blast
    show ?thesis
      unfolding count_step [OF r(1) l0 r(2)] using n less.IH by (auto split: option.split)
  qed
qed

text \<open>What is stored: identifiers, frame numbers and data ranges inside the padding.\<close>

definition ext_inside :: "nat \<Rightarrow> nat \<Rightarrow> opus_extension_data \<Rightarrow> bool" where
  "ext_inside lo hi e \<longleftrightarrow> 2 \<le> ext_id e \<and> ext_id e < 128 \<and> 0 \<le> ext_frame e \<and> ext_frame e < 48
     \<and> lo < ext_data e \<and> 0 \<le> ext_len e \<and> int (ext_data e) + ext_len e \<le> int hi"

lemma ext_inside_mono: "ext_inside lo hi e \<Longrightarrow> lo' \<le> lo \<Longrightarrow> ext_inside lo' hi e"
  by (simp add: ext_inside_def)

text \<open>One round of the parse loop.\<close>

definition next_frame :: "byte list \<Rightarrow> nat \<Rightarrow> nat \<Rightarrow> int \<Rightarrow> int option" where
  "next_frame data p len curr_frame = do {
     b \<leftarrow> byte_at data p;
     if drop_bit 1 b = 1 then
       if b AND 1 = 0 then Some (curr_frame + 1)
       else if len \<ge> 2 then do { b1 \<leftarrow> byte_at data (p + 1); Some (curr_frame + b1) }
       else Some curr_frame
     else Some curr_frame
   }"

lemma ext_parse_step:
  assumes "byte_at data p = Some b" and "0 < len" and "next_frame data p len cf = Some cf'"
  shows "ext_parse_loop data p len cf cap =
    (if drop_bit 1 b = 1 \<and> cf' \<ge> 48 then Some (OPUS_INVALID_PACKET, [])
     else skip_extension data p len \<bind> (\<lambda>r. case r of None \<Rightarrow> Some (OPUS_INVALID_PACKET, [])
       | Some (len', p', hs) \<Rightarrow>
           if drop_bit 1 b > 1 then
             if cap = 0 then Some (OPUS_BUFFER_TOO_SMALL, [])
             else ext_parse_loop data p' len' cf' (cap - 1) \<bind> (\<lambda>(ret, exts). Some (ret,
               \<lparr>ext_id = drop_bit 1 b, ext_frame = cf', ext_data = p + hs,
                ext_len = int p' - int p - int hs\<rparr> # exts))
           else ext_parse_loop data p' len' cf' cap))"
  using assms by (simp add: ext_parse_loop.simps [of data p len] next_frame_def Let_def del: One_nat_def)

lemma next_frame_ok:
  assumes "p + len \<le> length data" and "0 < len" and "0 \<le> cf"
  shows "\<exists>cf'. next_frame data p len cf = Some cf' \<and> 0 \<le> cf'
    \<and> (drop_bit 1 (uint (data ! p)) \<noteq> 1 \<longrightarrow> cf' = cf)"
proof -
  have b: "byte_at data p = Some (uint (data ! p))" using assms by (intro byte_at_Some) simp
  have "len \<ge> 2 \<Longrightarrow> byte_at data (p + 1) = Some (uint (data ! (p + 1)))"
    using assms by (intro byte_at_Some) simp
  then show ?thesis using assms(3) by (auto simp: next_frame_def b)
qed

lemma ext_parse_total:
  "p + len \<le> length data \<Longrightarrow> 0 \<le> cf \<Longrightarrow> cf < 48 \<Longrightarrow>
   \<exists>ret exts. ext_parse_loop data p len cf cap = Some (ret, exts) \<and> length exts \<le> cap
     \<and> list_all (ext_inside p (p + len)) exts
     \<and> (ret = OPUS_OK \<or> ret = OPUS_INVALID_PACKET \<or> ret = OPUS_BUFFER_TOO_SMALL)"
proof (induction len arbitrary: p cf cap rule: less_induct)
  case (less len)
  show ?case
  proof (cases "len = 0")
    case True
    then show ?thesis by (simp add: ext_parse_loop.simps [of data p 0])
  next
    case False
    define b where "b = uint (data ! p)"
    have b: "byte_at data p = Some b" using less.prems False unfolding b_def by (intro byte_at_Some) simp
    obtain cf' where cf': "next_frame data p len cf = Some cf'" "0 \<le> cf'" "drop_bit 1 b \<noteq> 1 \<Longrightarrow> cf' = cf"
      using next_frame_ok [of p len data cf] less.prems False by (auto simp: b_def)
    have l0: "0 < len" using False by simp
    note st = ext_parse_step [OF b l0 cf'(1), of cap]
    obtain r where r: "skip_extension data p len = Some r"
      using skip_extension_reads [OF less.prems(1) l0] by auto
    show ?thesis
    proof (cases "r = None \<or> drop_bit 1 b = 1 \<and> cf' \<ge> 48")
      case True
      then show ?thesis using r by (auto simp: st)
    next
      case ok: False
      then obtain len' p' hs where q: "r = Some (len', p', hs)" by (metis prod_cases3 not_None_eq)
      note sl = skip_extension_len [OF r [unfolded q] l0]
      have c: "cf' < 48" using ok cf'(3) less.prems by fastforce
      have pl: "p' + len' \<le> length data" using sl less.prems by simp
      note IH = less.IH [OF _ pl cf'(2) c]
      show ?thesis
      proof (cases "drop_bit 1 b > 1")
        case True
        have "\<exists>ret exts. ext_parse_loop data p' len' cf' (cap - 1) = Some (ret, exts) \<and> length exts \<le> cap - 1
           \<and> list_all (ext_inside p' (p' + len')) exts
           \<and> (ret = OPUS_OK \<or> ret = OPUS_INVALID_PACKET \<or> ret = OPUS_BUFFER_TOO_SMALL)"
          by (rule IH) (use sl in simp)
        then obtain ret exts where rec: "ext_parse_loop data p' len' cf' (cap - 1) = Some (ret, exts)"
          "length exts \<le> cap - 1" "list_all (ext_inside p' (p' + len')) exts"
          "ret = OPUS_OK \<or> ret = OPUS_INVALID_PACKET \<or> ret = OPUS_BUFFER_TOO_SMALL" by blast
        have new: "ext_inside p (p + len) \<lparr>ext_id = drop_bit 1 b, ext_frame = cf', ext_data = p + hs,
            ext_len = int p' - int p - int hs\<rparr>"
          using True byte_id [OF b] cf' c sl by (auto simp: ext_inside_def)
        have "list_all (ext_inside p (p + len)) exts"
          using rec(3) sl by (auto simp: list_all_iff ext_inside_def)
        then show ?thesis using r q ok True rec new by (auto simp: st)
      next
        case F: False
        have "\<exists>ret exts. ext_parse_loop data p' len' cf' cap = Some (ret, exts) \<and> length exts \<le> cap
           \<and> list_all (ext_inside p' (p' + len')) exts
           \<and> (ret = OPUS_OK \<or> ret = OPUS_INVALID_PACKET \<or> ret = OPUS_BUFFER_TOO_SMALL)"
          by (rule IH) (use sl in simp)
        then obtain ret exts where rec: "ext_parse_loop data p' len' cf' cap = Some (ret, exts)"
          "length exts \<le> cap" "list_all (ext_inside p' (p' + len')) exts"
          "ret = OPUS_OK \<or> ret = OPUS_INVALID_PACKET \<or> ret = OPUS_BUFFER_TOO_SMALL" by blast
        have "list_all (ext_inside p (p + len)) exts"
          using rec(3) sl by (auto simp: list_all_iff ext_inside_def)
        then show ?thesis using r q ok F rec by (auto simp: st)
      qed
    qed
  qed
qed

text \<open>The number that the count promises is enough room for the parser.\<close>

lemma count_parse:
  "ext_count_loop data p len n = Some m \<Longrightarrow> 0 \<le> m \<Longrightarrow> 0 \<le> cf \<Longrightarrow> cf < 48 \<Longrightarrow> p + len \<le> length data \<Longrightarrow> n + int cap \<ge> m \<Longrightarrow>
   \<exists>ret exts. ext_parse_loop data p len cf cap = Some (ret, exts) \<and> ret \<noteq> OPUS_BUFFER_TOO_SMALL
     \<and> (ret = OPUS_OK \<longrightarrow> int (length exts) = m - n) \<and> n \<le> m"
proof (induction len arbitrary: p cf cap n rule: less_induct)
  case (less len)
  show ?case
  proof (cases "len = 0")
    case True
    then show ?thesis using less.prems(1)
      by (simp add: ext_parse_loop.simps [of data p 0] ext_count_loop.simps [of data p 0] opus_errors)
  next
    case False
    then have l0: "0 < len" by simp
    define b where "b = uint (data ! p)"
    have b: "byte_at data p = Some b" using less.prems False unfolding b_def by (intro byte_at_Some) simp
    obtain cf' where cf': "next_frame data p len cf = Some cf'" "0 \<le> cf'" "drop_bit 1 b \<noteq> 1 \<Longrightarrow> cf' = cf"
      using next_frame_ok [of p len data cf] less.prems False by (auto simp: b_def)
    note st = ext_parse_step [OF b l0 cf'(1), of cap]
    obtain r where r: "skip_extension data p len = Some r"
      using skip_extension_reads [OF less.prems(5) l0] by auto
    have "r \<noteq> None"
      using less.prems(1,2) count_step [OF b l0 r, of n] by (cases r) (simp_all add: opus_errors)
    then obtain len' p' hs where q: "r = Some (len', p', hs)" by (metis prod_cases3 not_None_eq)
    note sl = skip_extension_len [OF r [unfolded q] l0]
    let ?n = "if drop_bit 1 b > 1 then n + 1 else n"
    have rec: "ext_count_loop data p' len' ?n = Some m"
      using less.prems(1) count_step [OF b l0 r [unfolded q]] by (simp del: One_nat_def)
    have pl: "p' + len' \<le> length data" "len' < len" using sl less.prems by simp_all
    have le: "?n \<le> m"
    proof -
      have "\<exists>ret exts. ext_parse_loop data p' len' 0 (nat (m - ?n)) = Some (ret, exts) \<and> ret \<noteq> OPUS_BUFFER_TOO_SMALL
        \<and> (ret = OPUS_OK \<longrightarrow> int (length exts) = m - ?n) \<and> ?n \<le> m"
        by (rule less.IH [OF pl(2) rec less.prems(2) _ _ pl(1)]) simp_all
      then show ?thesis by blast
    qed
    show ?thesis
    proof (cases "drop_bit 1 b = 1 \<and> cf' \<ge> 48")
      case True
      then show ?thesis using le by (simp add: st opus_errors split: if_splits)
    next
      case ok: False
      have c: "cf' < 48" using ok cf'(3) less.prems by fastforce
      show ?thesis
      proof (cases "drop_bit 1 b > 1")
        case True
        then have cap: "cap \<noteq> 0" "n + 1 + int (cap - 1) \<ge> m" using le less.prems(6) by auto
        have "\<exists>ret exts. ext_parse_loop data p' len' cf' (cap - 1) = Some (ret, exts) \<and> ret \<noteq> OPUS_BUFFER_TOO_SMALL
          \<and> (ret = OPUS_OK \<longrightarrow> int (length exts) = m - ?n) \<and> ?n \<le> m"
          using True cap by (intro less.IH [OF pl(2) rec less.prems(2) cf'(2) c pl(1)]) simp
        then show ?thesis using True ok r q cap by (auto simp: st)
      next
        case F: False
        have "\<exists>ret exts. ext_parse_loop data p' len' cf' cap = Some (ret, exts) \<and> ret \<noteq> OPUS_BUFFER_TOO_SMALL
          \<and> (ret = OPUS_OK \<longrightarrow> int (length exts) = m - ?n) \<and> ?n \<le> m"
          using F less.prems by (intro less.IH [OF pl(2) rec less.prems(2) cf'(2) c pl(1)]) simp
        then show ?thesis using F ok r q by (auto simp: st)
      qed
    qed
  qed
qed

end
