(* ===== verification/Extensions_Roundtrip.thy ===== *)
theory Extensions_Roundtrip
  imports Extensions "HOL-Library.Multiset"
begin

text \<open>
  What \<open>opus_packet_extensions_generate\<close> writes is what \<open>opus_packet_extensions_parse\<close> reads:
  the same extensions, grouped by frame, with the same contents. The proof follows the
  generator: every separator and every extension appends some bytes, and the parser
  started on those bytes consumes exactly them.
\<close>

section \<open>Reading back what was appended\<close>

lemma byte_at_mid [simp]: "byte_at (pre @ b # xs) (length pre) = Some (uint b)"
  by (simp add: byte_at_def nth_append)

lemma byte_at_mid1 [simp]: "byte_at (pre @ b # c # xs) (Suc (length pre)) = Some (uint c)"
  by (simp add: byte_at_def nth_append)

lemma skip_lacing_replicate:
  assumes "0 \<le> m" and "m < 255"
  shows "skip_lacing (pre @ h # replicate k 255 @ of_int m # rest) (length pre)
      (Suc (Suc (k + length rest))) bytes hdr
    = Some (Some (length pre + k + 2, length rest, bytes + 255 * int k + m, hdr + k + 1))"
proof (induction k arbitrary: pre h bytes hdr)
  case 0
  then show ?case using assms
    by (simp add: skip_lacing.simps [of _ _ "Suc (Suc (length rest))"] uint_byte_of_int)
next
  case (Suc k)
  let ?d = "pre @ h # replicate (Suc k) 255 @ of_int m # rest"
  have d: "?d = (pre @ [h]) @ 255 # replicate k 255 @ of_int m # rest" by simp
  have "skip_lacing ?d (length pre) (Suc (Suc (Suc k + length rest))) bytes hdr
      = skip_lacing ?d (Suc (length pre)) (Suc (Suc (k + length rest))) (bytes + 255) (hdr + 1)"
    by (subst skip_lacing.simps) simp
  also have "\<dots> = Some (Some (length (pre @ [h]) + k + 2, length rest,
      (bytes + 255) + 255 * int k + m, (hdr + 1) + k + 1))"
    using Suc.IH [of "pre @ [h]" 255 "bytes + 255" "hdr + 1"] unfolding d by simp
  finally show ?case by simp
qed

text \<open>A parsed extension that carries the contents of a given one.\<close>

definition carries :: "byte list \<Rightarrow> byte list \<Rightarrow> opus_extension_data \<Rightarrow> opus_extension_data \<Rightarrow> bool" where
  "carries mem data e r \<longleftrightarrow>
     ext_id r = ext_id e \<and> ext_frame r = ext_frame e \<and> ext_len r = ext_len e
     \<and> take (nat (ext_len e)) (drop (ext_data r) data) = take (nat (ext_len e)) (drop (ext_data e) mem)"

lemma id_byte:
  fixes i l :: int
  assumes "0 \<le> i" and "i < 128" and "l = 0 \<or> l = 1"
  shows "uint (of_int (push_bit 1 i + l) :: byte) = 2 * i + l"
    and "drop_bit 1 (2 * i + l) = i" and "(2 * i + l) AND 1 = l"
proof -
  have "push_bit 1 i + l = 2 * i + l" by (simp add: push_bit_eq_mult)
  then show "uint (of_int (push_bit 1 i + l) :: byte) = 2 * i + l"
    using assms by (simp only:) (rule uint_byte_of_int, auto)
  show "drop_bit 1 (2 * i + l) = i" "(2 * i + l) AND 1 = l"
    using assms by (auto simp: drop_bit_eq_div and_one_eq)
qed

section \<open>One separator, one extension\<close>

lemma separator_parsed:
  assumes g: "gen_separator len f out cf = Inr out'" and "0 \<le> cf" "cf \<le> f" "f < 48"
  obtains w where "out' = out @ w"
    and "\<And>pre s cap. ext_parse_loop (pre @ w @ s) (length pre) (length w + length s) cf cap
        = ext_parse_loop (pre @ w @ s) (length (pre @ w)) (length s) f cap"
proof -
  consider "f = cf" "out' = out" | "f = cf + 1" "out' = out @ [2]"
    | "cf + 1 < f" "out' = out @ [3, of_int (f - cf)]"
    using g assms by (force simp: gen_separator_def Let_def split: if_splits)
  then show ?thesis
  proof cases
    case 1
    then show ?thesis by (intro that [of "[]"]) simp_all
  next
    case 2
    show ?thesis
    proof (rule that [OF 2(2)])
      fix pre s :: "byte list" and cap :: nat
      have n: "next_frame (pre @ [2] @ s) (length pre) (length [2 :: byte] + length s) cf = Some f"
        using 2 by (simp add: next_frame_def)
      have k: "skip_extension (pre @ [2] @ s) (length pre) (length [2 :: byte] + length s)
          = Some (Some (length s, Suc (length pre), 1))"
        by (simp add: skip_extension_def Let_def)
      have b: "byte_at (pre @ [2] @ s) (length pre) = Some 2" by simp
      show "ext_parse_loop (pre @ [2] @ s) (length pre) (length [2 :: byte] + length s) cf cap
        = ext_parse_loop (pre @ [2] @ s) (length (pre @ [2])) (length s) f cap"
        using ext_parse_step [OF b _ n, of cap] k assms by simp
    qed
  next
    case 3
    show ?thesis
    proof (rule that [OF 3(2)])
      fix pre s :: "byte list" and cap :: nat
      let ?d = "pre @ [3, of_int (f - cf)] @ s"
      have l: "length [3, of_int (f - cf) :: byte] + length s = Suc (Suc (length s))" by simp
      have "uint (of_int (f - cf) :: byte) = f - cf" using 3 assms by (intro uint_byte_of_int) simp_all
      then have n: "next_frame ?d (length pre) (Suc (Suc (length s))) cf = Some f"
        by (simp add: next_frame_def del: of_int_diff)
      have k: "skip_extension ?d (length pre) (Suc (Suc (length s)))
          = Some (Some (length s, Suc (Suc (length pre)), 1))"
        by (simp add: skip_extension_def Let_def)
      have b: "byte_at ?d (length pre) = Some 3" by simp
      show "ext_parse_loop ?d (length pre) (length [3, of_int (f - cf) :: byte] + length s) cf cap
        = ext_parse_loop ?d (length (pre @ [3, of_int (f - cf)])) (length s) f cap"
        unfolding l ext_parse_step [OF b zero_less_Suc n] k using assms by simp
    qed
  qed
qed

text \<open>The header of an extension: how the parser sees it.\<close>

lemma parse_one:
  assumes b: "byte_at data p = Some b" and l: "0 < len" and i: "drop_bit 1 b = i" "1 < i"
    and k: "skip_extension data p len = Some (Some (len', p', hs))" and cap: "0 < cap"
  shows "ext_parse_loop data p len cf cap = ext_parse_loop data p' len' cf (cap - 1) \<bind>
    (\<lambda>(ret, exts). Some (ret, \<lparr>ext_id = i, ext_frame = cf, ext_data = p + hs,
       ext_len = int p' - int p - int hs\<rparr> # exts))"
proof -
  have n: "next_frame data p len cf = Some cf" using b i by (simp add: next_frame_def)
  show ?thesis using i k cap by (simp add: ext_parse_step [OF b l n])
qed

lemma extension_parsed:
  assumes g: "gen_ext False mem len is_last e out = Some (Inr out')"
    and i: "2 \<le> ext_id e" "ext_id e < 128"
  obtains w r where "out' = out @ w" and "w \<noteq> []"
    and "\<And>pre s cap. is_last \<longrightarrow> s = [] \<Longrightarrow> 0 < cap \<Longrightarrow>
        ext_parse_loop (pre @ w @ s) (length pre) (length w + length s) (ext_frame e) cap
        = ext_parse_loop (pre @ w @ s) (length (pre @ w)) (length s) (ext_frame e) (cap - 1) \<bind>
          (\<lambda>(ret, exts). Some (ret, r (length pre) # exts))
        \<and> carries mem (pre @ w @ s) e (r (length pre))"
proof -
  define n where "n = nat (ext_len e)"
  define d where "d = take n (drop (ext_data e) mem)"
  have bounds: "0 \<le> ext_len e" "ext_data e + n \<le> length mem"
    using g by (auto simp: gen_ext_def Let_def fetch_def n_def split: if_splits)
  then have dl: "length d = n" "int n = ext_len e" by (simp_all add: d_def n_def)
  have f: "fetch False mem (ext_data e) (nat (ext_len e)) = Some d"
    using bounds by (simp add: fetch_def d_def n_def)
  define L where "L = (if ext_id e < 32 then ext_len e else of_bool (\<not> is_last))"
  define lac where "lac = (if ext_id e < 32 \<or> is_last then []
    else replicate (n div 255) 255 @ [of_int (ext_len e mod 255) :: byte])"
  define h where "h = (of_int (push_bit 1 (ext_id e) + L) :: byte)"
  define w where "w = h # lac @ d"
  have L: "L = 0 \<or> L = 1" and short: "ext_id e < 32 \<Longrightarrow> L = ext_len e"
    using g by (auto simp: gen_ext_def Let_def L_def split: if_splits)
  have nd: "nat (ext_len e div 255) = n div 255" by (simp add: n_def nat_div_distrib' bounds)
  have out': "out' = out @ w"
    using g unfolding gen_ext_def f Let_def nd
    by (auto simp: w_def lac_def h_def L_def split: if_splits)
  note hb = id_byte [of "ext_id e" L, folded h_def]
  have hb': "uint h = 2 * ext_id e + L" "drop_bit 1 (uint h) = ext_id e" "uint h AND 1 = L"
    using hb i L by simp_all
  show ?thesis
  proof (rule that [OF out', of "\<lambda>q. \<lparr>ext_id = ext_id e, ext_frame = ext_frame e,
      ext_data = q + Suc (length lac), ext_len = ext_len e\<rparr>"])
    show "w \<noteq> []" by (simp add: w_def)
    fix pre s :: "byte list" and cap :: nat assume s: "is_last \<longrightarrow> s = []" and cap: "0 < cap"
    let ?d = "pre @ w @ s" and ?l = "length w + length s"
    have b: "byte_at ?d (length pre) = Some (uint h)" by (simp add: w_def)
    have lw: "length w = Suc (length lac + n)" by (simp add: w_def dl)
    note c = skip_extension_cases [OF b, of ?l]
    have k: "skip_extension ?d (length pre) ?l = Some (Some (length s, length (pre @ w), Suc (length lac)))"
    proof (cases "ext_id e < 32")
      case True
      then have "nat L = n" "lac = []" using short by (simp_all add: n_def lac_def)
      then show ?thesis using c(2) True i hb' L lw by simp
    next
      case long: False
      show ?thesis
      proof (cases is_last)
        case True
        then have "L = 0" "lac = []" "s = []" using long s by (simp_all add: L_def lac_def)
        then show ?thesis using c(3) long hb' lw by simp
      next
        case False
        then have "L = 1" and lac: "lac = replicate (n div 255) 255 @ [of_int (ext_len e mod 255)]"
          using long by (simp_all add: L_def lac_def)
        have d: "?d = pre @ h # replicate (n div 255) 255 @ of_int (ext_len e mod 255) # (d @ s)"
          "?l = Suc (Suc (n div 255 + length (d @ s)))"
          by (simp_all add: w_def lac dl)
        have "skip_lacing ?d (length pre) ?l 0 1 = Some (Some (length pre + n div 255 + 2, length (d @ s),
            0 + 255 * int (n div 255) + ext_len e mod 255, 1 + n div 255 + 1))"
          unfolding d by (rule skip_lacing_replicate) simp_all
        moreover have "0 + 255 * int (n div 255) + ext_len e mod 255 = int n"
          by (simp add: dl(2) [symmetric] zdiv_int flip: zmod_int)
        moreover have "nat (ext_len e) = n" by (simp add: n_def)
        ultimately show ?thesis using c(4) long hb' \<open>L = 1\<close> lac by (simp add: dl w_def)
      qed
    qed
    have new: "int (length (pre @ w)) - int (length pre) - int (Suc (length lac)) = ext_len e"
      by (simp add: lw dl)
    have "drop (length pre + Suc (length lac)) ?d = d @ s" by (simp add: w_def)
    then have "take (nat (ext_len e)) (drop (length pre + Suc (length lac)) ?d) = d"
      by (simp add: dl flip: n_def)
    then have "carries mem ?d e \<lparr>ext_id = ext_id e, ext_frame = ext_frame e,
      ext_data = length pre + Suc (length lac), ext_len = ext_len e\<rparr>"
      by (simp add: carries_def d_def n_def)
    then show "ext_parse_loop ?d (length pre) ?l (ext_frame e) cap
        = ext_parse_loop ?d (length (pre @ w)) (length s) (ext_frame e) (cap - 1) \<bind>
          (\<lambda>(ret, exts). Some (ret, \<lparr>ext_id = ext_id e, ext_frame = ext_frame e,
            ext_data = length pre + Suc (length lac), ext_len = ext_len e\<rparr> # exts))
        \<and> carries mem ?d e \<lparr>ext_id = ext_id e, ext_frame = ext_frame e,
            ext_data = length pre + Suc (length lac), ext_len = ext_len e\<rparr>"
      using parse_one [OF b _ hb'(2) _ k cap, of "ext_frame e"] i lw unfolding new by simp
  qed
qed

section \<open>The whole list\<close>

lemma gen_loop_parsed:
  assumes "gen_loop False mem len nb es out cf written = Some (Inr out')"
    and "list_all (\<lambda>e. 2 \<le> ext_id e \<and> ext_id e < 128 \<and> ext_frame e < 48) es"
    and "sorted (cf # map ext_frame es)" and "0 \<le> cf" and "written + length es \<le> nb"
  shows "\<exists>w. out' = out @ w \<and> (\<forall>pre cap. length es \<le> cap \<longrightarrow>
      (\<exists>rs. ext_parse_loop (pre @ w) (length pre) (length w) cf cap = Some (OPUS_OK, rs)
        \<and> list_all2 (carries mem (pre @ w)) es rs))"
  using assms
proof (induction es arbitrary: out cf written)
  case Nil
  then show ?case by (auto simp: ext_parse_loop.simps [of _ _ 0])
next
  case (Cons e es)
  obtain out1 where s: "gen_separator len (ext_frame e) out cf = Inr out1"
    using Cons.prems(1) by (auto split: sum.splits)
  obtain out2 where g: "gen_ext False mem len (written + 1 = nb) e out1 = Some (Inr out2)"
    and rest: "gen_loop False mem len nb es out2 (ext_frame e) (written + 1) = Some (Inr out')"
    using Cons.prems(1) s by (auto simp: bind_sum_Inr simp del: bind_eq_Some_conv)
  have e: "2 \<le> ext_id e" "ext_id e < 128" "ext_frame e < 48" "cf \<le> ext_frame e"
    using Cons.prems(2,3) by simp_all
  obtain w1 where w1: "out1 = out @ w1"
    and p1: "\<And>pre s cap. ext_parse_loop (pre @ w1 @ s) (length pre) (length w1 + length s) cf cap
        = ext_parse_loop (pre @ w1 @ s) (length (pre @ w1)) (length s) (ext_frame e) cap"
    using separator_parsed [OF s Cons.prems(4) e(4,3)] by blast
  obtain w2 r where w2: "out2 = out1 @ w2" "w2 \<noteq> []"
    and p2: "\<And>pre s cap. written + 1 = nb \<longrightarrow> s = [] \<Longrightarrow> 0 < cap \<Longrightarrow>
        ext_parse_loop (pre @ w2 @ s) (length pre) (length w2 + length s) (ext_frame e) cap
        = ext_parse_loop (pre @ w2 @ s) (length (pre @ w2)) (length s) (ext_frame e) (cap - 1) \<bind>
          (\<lambda>(ret, exts). Some (ret, r (length pre) # exts))
        \<and> carries mem (pre @ w2 @ s) e (r (length pre))"
    using extension_parsed [OF g e(1,2)] by blast
  obtain w3 where w3: "out' = out2 @ w3"
    and p3: "\<And>pre cap. length es \<le> cap \<Longrightarrow>
      \<exists>rs. ext_parse_loop (pre @ w3) (length pre) (length w3) (ext_frame e) cap = Some (OPUS_OK, rs)
        \<and> list_all2 (carries mem (pre @ w3)) es rs"
    using Cons.IH [OF rest] Cons.prems e by auto
  have last: "written + 1 = nb \<longrightarrow> w3 = []"
    using Cons.prems(5) rest w3 by auto
  show ?case
  proof (intro exI [of _ "w1 @ w2 @ w3"] conjI allI impI)
    show "out' = out @ w1 @ w2 @ w3" by (simp add: w1 w2 w3)
    fix pre and cap :: nat assume cap: "length (e # es) \<le> cap"
    then have c: "0 < cap" "length es \<le> cap - 1" by auto
    obtain rs where rs: "ext_parse_loop ((pre @ w1 @ w2) @ w3) (length (pre @ w1 @ w2)) (length w3)
        (ext_frame e) (cap - 1) = Some (OPUS_OK, rs)" "list_all2 (carries mem ((pre @ w1 @ w2) @ w3)) es rs"
      using p3 [OF c(2), of "pre @ w1 @ w2"] by blast
    show "\<exists>rs. ext_parse_loop (pre @ w1 @ w2 @ w3) (length pre) (length (w1 @ w2 @ w3)) cf cap = Some (OPUS_OK, rs)
        \<and> list_all2 (carries mem (pre @ w1 @ w2 @ w3)) (e # es) rs"
      using p1 [of pre "w2 @ w3" cap] p2 [OF last c(1), of "pre @ w1"] rs by auto
  qed
qed

lemma sorted_ext_order: "sorted (map ext_frame (ext_order exts m))"
proof -
  have "sorted (map ext_frame (concat (map (\<lambda>frame. filter (\<lambda>e. ext_frame e = frame) exts) fs)))"
    if "sorted fs" for fs
    using that
  proof (induction fs)
    case (Cons f fs)
    have "map ext_frame (filter (\<lambda>e. ext_frame e = f) exts) = replicate (length (filter (\<lambda>e. ext_frame e = f) exts)) f"
      by (rule replicate_eqI) auto
    then show ?case using Cons by (auto simp: sorted_append)
  qed simp
  from this [of "[0..m]"] show ?thesis by (simp add: ext_order_def)
qed

lemma ext_order_frames: "e \<in> set (ext_order exts m) \<Longrightarrow> 0 \<le> ext_frame e \<and> ext_frame e \<le> m \<and> e \<in> set exts"
  by (auto simp: ext_order_def)

text \<open>When every frame number is in range the order is a permutation.\<close>

lemma filter_frames:
  "distinct fs \<Longrightarrow>
   mset (concat (map (\<lambda>frame. filter (\<lambda>e. ext_frame e = frame) exts) fs)) = {#e \<in># mset exts. ext_frame e \<in> set fs#}"
proof (induction fs)
  case (Cons f fs)
  have "{#e \<in># mset exts. ext_frame e = f \<or> ext_frame e \<in> set fs#}
      = {#e \<in># mset exts. ext_frame e = f#} + {#e \<in># mset exts. ext_frame e \<in> set fs#}"
    using Cons.prems by (induction exts) auto
  then show ?case using Cons by simp
qed simp

lemma mset_ext_order:
  "mset (ext_order exts m) = {#e \<in># mset exts. 0 \<le> ext_frame e \<and> ext_frame e \<le> m#}"
  using filter_frames [of "[0..m]" exts] by (simp add: ext_order_def)

lemma foldl_max: "foldl max (a :: int) xs \<ge> a \<and> (\<forall>x \<in> set xs. x \<le> foldl max a xs)"
proof (induction xs arbitrary: a)
  case (Cons x xs)
  from Cons.IH [of "max a x"] show ?case by auto
qed simp

lemma mset_ext_order_all:
  assumes "\<forall>e \<in> set exts. 0 \<le> ext_frame e"
  shows "mset (ext_order exts (foldl max 0 (map ext_frame exts))) = mset exts"
proof -
  have "\<forall>e \<in> set exts. ext_frame e \<le> foldl max 0 (map ext_frame exts)"
    using foldl_max [of 0 "map ext_frame exts"] by auto
  then show ?thesis using assms by (simp add: mset_ext_order filter_mset_eq_conv)
qed

text \<open>The bytes of padding in front are skipped.\<close>

lemma padding_skipped:
  "ext_parse_loop (pre @ replicate k 1 @ w) (length pre) (k + length w) cf cap
   = ext_parse_loop (pre @ replicate k 1 @ w) (length pre + k) (length w) cf cap"
proof (induction k arbitrary: pre)
  case (Suc k)
  let ?d = "pre @ replicate (Suc k) 1 @ w"
  have b: "byte_at ?d (length pre) = Some 1" by simp
  have n: "next_frame ?d (length pre) (Suc k + length w) cf = Some cf"
    by (simp add: next_frame_def)
  have s: "skip_extension ?d (length pre) (Suc k + length w) = Some (Some (k + length w, length pre + 1, 1))"
    using skip_extension_cases(1) [OF b, of "Suc k + length w"] by simp
  show ?case
    using ext_parse_step [OF b _ n, of cap] Suc.IH [of "pre @ [1]"] s by simp
qed simp

lemma generate_parse:
  assumes g: "opus_packet_extensions_generate False mem len exts pad = Some (Inr out)"
  shows "\<exists>rs. opus_packet_extensions_parse out (length out) (length exts) = Some (OPUS_OK, rs)
    \<and> list_all2 (carries mem out) (ext_order exts (foldl max 0 (map ext_frame exts))) rs"
proof -
  define m where "m = foldl max 0 (map ext_frame exts)"
  have ids: "\<forall>e \<in> set exts. 2 \<le> ext_id e \<and> ext_id e < 128" and m48: "m < 48"
    using g by (auto simp: opus_packet_extensions_generate_def Let_def list_ex_iff m_def [symmetric] split: if_splits)
  obtain w where gl: "gen_loop False mem len (length exts) (ext_order exts m) [] 0 0 = Some (Inr w)"
    and out: "\<exists>k. out = replicate k 1 @ w"
    using g by (auto simp: opus_packet_extensions_generate_def Let_def m_def [symmetric] bind_sum_Inr
      split: if_split_asm intro: exI [of _ 0])
  obtain k where k: "out = replicate k 1 @ w" using out by blast
  have le: "length (ext_order exts m) \<le> length exts"
  proof -
    have "size (mset (ext_order exts m)) \<le> size (mset exts)"
      unfolding mset_ext_order by (rule size_mset_mono) simp
    then show ?thesis by simp
  qed
  have "\<exists>w'. w = [] @ w' \<and> (\<forall>pre cap. length (ext_order exts m) \<le> cap \<longrightarrow>
      (\<exists>rs. ext_parse_loop (pre @ w') (length pre) (length w') 0 cap = Some (OPUS_OK, rs)
        \<and> list_all2 (carries mem (pre @ w')) (ext_order exts m) rs))"
  proof (rule gen_loop_parsed [OF gl])
    show "list_all (\<lambda>e. 2 \<le> ext_id e \<and> ext_id e < 128 \<and> ext_frame e < 48) (ext_order exts m)"
      using ids m48 ext_order_frames [of _ exts m] by (fastforce simp: list_all_iff)
    show "sorted (0 # map ext_frame (ext_order exts m))"
      using sorted_ext_order [of exts m] ext_order_frames [of _ exts m] by auto
  qed (use le in simp_all)
  then obtain rs where "ext_parse_loop out k (length w) 0 (length exts) = Some (OPUS_OK, rs)"
    "list_all2 (carries mem out) (ext_order exts m) rs"
    using le unfolding k by (metis append_Nil length_replicate)
  then show ?thesis
    using padding_skipped [of "[]" k w 0 "length exts"]
    by (simp add: opus_packet_extensions_parse_def k m_def)
qed

end
