(* ===== verification/Packet_Properties.thy ===== *)
theory Packet_Properties
  imports Packet_Counts Extensions_Roundtrip
begin

text \<open>The properties of the packet layer and of the packet extensions.\<close>

section \<open>Packets\<close>

text \<open>
  C8. Parsing the first \<open>len\<close> bytes of any data, plain or self-delimited, reads only those
  bytes and ends. It is rejected as a bad argument exactly when \<open>len\<close> is negative, otherwise
  as an invalid packet, or accepted: then there are as many sizes as frames and at least
  one, every size is between 0 and 1275, the packet lasts at most 120 ms, the frames follow
  one another from the payload offset, and frames and padding fill the packet (a
  self-delimited packet may end earlier).
\<close>

theorem packet_parse_safe:
  assumes "len \<le> int (length data)"
  shows "\<exists>r. opus_packet_parse_impl data len sd = Some r \<and>
    (case r of Inl e \<Rightarrow> e = (if len < 0 then OPUS_BAD_ARG else OPUS_INVALID_PACKET)
     | Inr f \<Rightarrow> 0 < len \<and> frames_ok len sd f)"
proof (cases "0 < len")
  case True
  then show ?thesis using parse_impl_ok [OF True assms, of sd]
    by (auto simp: parses_def split: sum.splits)
qed (simp add: opus_packet_parse_impl_def)

theorem packet_parse_safe_witness:
  "4 \<le> int (length [0x0B, 0x81, 0x01, 0x02 :: byte])
   \<and> (\<exists>r. opus_packet_parse_impl [0x0B, 0x81, 0x01, 0x02] 4 False = Some r \<and>
       (case r of Inl e \<Rightarrow> e = OPUS_INVALID_PACKET | Inr f \<Rightarrow> frames_ok 4 False f))"
  using packet_parse_safe [of 4 "[0x0B, 0x81, 0x01, 0x02]" False] by (auto split: sum.splits)

text \<open>
  C9. For a packet that the parser accepts, \<open>opus_packet_get_nb_frames\<close> returns the number
  of frames found and \<open>opus_packet_get_nb_samples\<close>, at each of the five sampling rates of
  the API, that number times the samples per frame, without running into its own 120 ms
  limit.
\<close>

theorem packet_counts_agree:
  assumes "len \<le> int (length data)" and "opus_packet_parse_impl data len sd = Some (Inr f)"
    and "Fs \<in> {48000, 24000, 16000, 12000, 8000}"
  shows "opus_packet_get_nb_frames data len = Some (int (fr_count f)) \<and>
    opus_packet_get_nb_samples data len Fs
      = Some (int (fr_count f) * opus_packet_get_samples_per_frame (fr_toc f) Fs)"
  using parse_impl_count [OF assms(2)] nb_frames_header nb_samples_parsed assms by auto

theorem packet_counts_agree_witness:
  "opus_packet_get_nb_frames [0x09, 0x11, 0x12] 3 = Some 2
   \<and> opus_packet_get_nb_samples [0x09, 0x11, 0x12] 3 8000 = Some 320"
proof -
  obtain f where f: "opus_packet_parse_impl [0x09, 0x11, 0x12] 3 False = Some (Inr f)"
    "fr_count f = 2" "fr_toc f = 9"
    by (simp add: opus_packet_parse_impl_def parse_code_def parse_last_def byte_at_def Let_def
      s16_def opus_packet_get_samples_per_frame_def)
  have "opus_packet_get_samples_per_frame 9 8000 = 160" by code_simp
  then show ?thesis using packet_counts_agree [OF _ f(1), of 8000] f(2,3) by simp
qed

text \<open>
  C10. Every frame length from 0 to 1275 that \<open>encode_size\<close> writes into a packet is read
  back by \<open>parse_size\<close>, which consumes exactly the bytes written.
\<close>

theorem frame_size_roundtrip:
  assumes "0 \<le> sz" and "sz \<le> 1275" and "int (length (encode_size sz)) \<le> len"
  shows "parse_size (pre @ encode_size sz @ post) (length pre) len = Some (int (length (encode_size sz)), sz)"
  by (rule parse_encode_size [OF assms])

theorem frame_size_roundtrip_witness:
  "encode_size 1275 = [255, 255] \<and> parse_size ([7] @ encode_size 1275 @ [9]) 1 3 = Some (2, 1275)"
proof -
  have "encode_size 1275 = [255, 255]" by code_simp
  then show ?thesis using frame_size_roundtrip [of 1275 3 "[7]" "[9]"] by simp
qed



text \<open>A packet of one byte holds one empty frame: its first byte is past the end.\<close>

lemma has_lbrr_reads_past_end:
  "(\<exists>f. opus_packet_parse [0x08] 1 = Some (Inr f) \<and> fr_size f = [0]) \<and> opus_packet_has_lbrr [0x08] 1 = None"
  by (simp add: opus_packet_has_lbrr_def opus_packet_parse_def opus_packet_parse_impl_def parse_code_def
      parse_last_def byte_at_def Let_def s16_def opus_packet_get_samples_per_frame_def
      opus_packet_get_mode_def MODE_CELT_ONLY_def MODE_SILK_ONLY_def)

section \<open>Extensions\<close>

text \<open>
  C12. Parsing any padding area of \<open>len\<close> bytes ends and reads only those bytes. It stores at
  most as many extensions as there is room, each with an identifier of 2 to 127, a frame
  below 48 and its data inside the area, and returns one of three codes.
\<close>

theorem extensions_parse_safe:
  assumes "len \<le> length data"
  shows "\<exists>ret exts. opus_packet_extensions_parse data len cap = Some (ret, exts) \<and> length exts \<le> cap
    \<and> list_all (ext_inside 0 len) exts \<and> ret \<in> {OPUS_OK, OPUS_INVALID_PACKET, OPUS_BUFFER_TOO_SMALL}"
  using ext_parse_total [of 0 len data 0 cap] assms
  by (auto simp: opus_packet_extensions_parse_def)

theorem extensions_parse_safe_witness:
  "\<exists>ret exts. opus_packet_extensions_parse [0x41, 0xFF] 2 1 = Some (ret, exts) \<and> length exts \<le> 1"
  using extensions_parse_safe [of 2 "[0x41, 0xFF]" 1] by auto

text \<open>
  C13. Room for as many extensions as \<open>opus_packet_extensions_count\<close> counts is enough: the
  parser does not report a small buffer, and when it succeeds it stores exactly that many.
\<close>

theorem extensions_count_enough:
  assumes "len \<le> length data" and "opus_packet_extensions_count data len = Some m" and "0 \<le> m"
  shows "\<exists>ret exts. opus_packet_extensions_parse data len (nat m) = Some (ret, exts)
    \<and> ret \<noteq> OPUS_BUFFER_TOO_SMALL \<and> (ret = OPUS_OK \<longrightarrow> int (length exts) = m)"
proof -
  have "\<exists>ret exts. ext_parse_loop data 0 len 0 (nat m) = Some (ret, exts)
      \<and> ret \<noteq> OPUS_BUFFER_TOO_SMALL \<and> (ret = OPUS_OK \<longrightarrow> int (length exts) = m - 0) \<and> 0 \<le> m"
    using assms by (intro count_parse) (simp_all add: opus_packet_extensions_count_def)
  then show ?thesis by (simp add: opus_packet_extensions_parse_def) blast
qed

theorem extensions_count_enough_witness:
  "\<exists>ret exts. opus_packet_extensions_parse [0x07, 0xAA, 0x40, 0x01] 4 2 = Some (ret, exts)
    \<and> ret \<noteq> OPUS_BUFFER_TOO_SMALL \<and> (ret = OPUS_OK \<longrightarrow> int (length exts) = 2)"
proof -
  have "opus_packet_extensions_count [0x07, 0xAA, 0x40, 0x01] 4 = Some 2" by code_simp
  then show ?thesis using extensions_count_enough [of 4 "[0x07, 0xAA, 0x40, 0x01]" 2] by simp
qed

text \<open>
  C14. What \<open>opus_packet_extensions_generate\<close> writes, with or without padding, is parsed
  back without an error: the extensions given, grouped by frame, each with its identifier,
  frame, length and contents. With frame numbers that are not negative nothing is lost.
\<close>

theorem extensions_roundtrip:
  assumes "opus_packet_extensions_generate False mem len exts pad = Some (Inr out)"
    and "\<forall>e \<in> set exts. 0 \<le> ext_frame e"
  shows "\<exists>es rs. mset es = mset exts \<and> sorted (map ext_frame es)
    \<and> opus_packet_extensions_parse out (length out) (length exts) = Some (OPUS_OK, rs)
    \<and> list_all2 (carries mem out) es rs"
  using generate_parse [OF assms(1)] mset_ext_order_all [OF assms(2)] sorted_ext_order by blast

theorem extensions_roundtrip_witness:
  "\<exists>out es rs. opus_packet_extensions_generate False [7, 8, 9] 20
      [\<lparr>ext_id = 33, ext_frame = 2, ext_data = 0, ext_len = 2\<rparr>,
       \<lparr>ext_id = 4, ext_frame = 0, ext_data = 2, ext_len = 1\<rparr>] True = Some (Inr out)
    \<and> opus_packet_extensions_parse out (length out) 2 = Some (OPUS_OK, rs)
    \<and> list_all2 (carries [7, 8, 9] out) es rs \<and> length es = 2"
proof -
  let ?exts = "[\<lparr>ext_id = 33, ext_frame = 2, ext_data = 0, ext_len = 2\<rparr>,
       \<lparr>ext_id = 4, ext_frame = 0, ext_data = 2, ext_len = 1\<rparr>]"
  have "opus_packet_extensions_generate False [7, 8, 9] 20 ?exts True \<noteq> None"
    "(case the (opus_packet_extensions_generate False [7, 8, 9] 20 ?exts True) of Inl _ \<Rightarrow> False | Inr _ \<Rightarrow> True)"
    by code_simp+
  then obtain out where g: "opus_packet_extensions_generate False [7, 8, 9] 20 ?exts True = Some (Inr out)"
    by (auto split: sum.splits)
  obtain es rs where "mset es = mset ?exts" "opus_packet_extensions_parse out (length out) 2 = Some (OPUS_OK, rs)"
    "list_all2 (carries [7, 8, 9] out) es rs"
    using extensions_roundtrip [OF g] by (auto simp: numeral_2_eq_2)
  then show ?thesis using g mset_eq_length [of es ?exts] by auto
qed

end
