(* ===== verification/Repacketizer.thy ===== *)
theory Repacketizer
  imports Extensions
begin

text \<open>
  The repacketizer (repacketizer.c): the state that collects frames of packets, the
  function that writes a packet of them, and padding and unpadding of packets.

  Memory is one list of bytes; pointers are indices into it, so that frames may lie in the
  buffer the packet is written to, as they do when a packet is unpadded in place. A write or
  a read outside it is \<open>None\<close>. A function that writes returns its C result and the memory, also
  when it fails after some writes. The arrays of 48 entries are lists of which the first
  \<open>nb_frames\<close> entries count.
\<close>

section \<open>Memory\<close>

definition mem_write :: "byte list \<Rightarrow> nat \<Rightarrow> byte list \<Rightarrow> byte list option" where
  "mem_write mem a bs =
    (if a + length bs \<le> length mem then Some (take a mem @ bs @ drop (a + length bs) mem) else None)"

text \<open>\<open>OPUS_MOVE\<close>: the source is read before the target is written.\<close>

definition opus_move :: "byte list \<Rightarrow> nat \<Rightarrow> nat \<Rightarrow> nat \<Rightarrow> byte list option" where
  "opus_move mem dst src n =
    (if src + n \<le> length mem then mem_write mem dst (take n (drop src mem)) else None)"

section \<open>The state\<close>

record OpusRepacketizer =
  rp_toc :: int
  rp_nb_frames :: nat
  rp_frames :: "nat list"
  rp_len :: "int list"
  rp_framesize :: int
  rp_paddings :: "nat list"
  rp_padding_len :: "int list"

definition opus_repacketizer_init :: "OpusRepacketizer \<Rightarrow> OpusRepacketizer" where
  "opus_repacketizer_init rp = rp\<lparr>rp_nb_frames := 0\<rparr>"

definition opus_repacketizer_get_nb_frames :: "OpusRepacketizer \<Rightarrow> nat" where
  "opus_repacketizer_get_nb_frames rp = rp_nb_frames rp"

text \<open>Storing what a parsed packet at address \<open>data\<close> gave; a NULL padding pointer has length 0.\<close>

definition rp_store :: "nat \<Rightarrow> opus_frames \<Rightarrow> int \<Rightarrow> OpusRepacketizer \<Rightarrow> OpusRepacketizer" where
  "rp_store data f curr_nb_frames rp =
    (let n = rp_nb_frames rp; c = nat curr_nb_frames in
     rp\<lparr>rp_nb_frames := n + c,
        rp_frames := take n (rp_frames rp) @ map ((+) data) (fr_frames f),
        rp_len := take n (rp_len rp) @ fr_size f,
        rp_paddings := take n (rp_paddings rp) @ (data + fr_padding f) # replicate (c - 1) 0,
        rp_padding_len := take n (rp_padding_len rp) @ fr_padding_len f # replicate (c - 1) 0\<rparr>)"

definition opus_repacketizer_cat_impl ::
  "byte list \<Rightarrow> OpusRepacketizer \<Rightarrow> nat \<Rightarrow> int \<Rightarrow> bool \<Rightarrow> (int \<times> OpusRepacketizer) option" where
  "opus_repacketizer_cat_impl mem rp data len self_delimited =
    (if len < 1 then Some (OPUS_INVALID_PACKET, rp)
     else do {
       b \<leftarrow> byte_at mem data;
       if rp_nb_frames rp \<noteq> 0 \<and> rp_toc rp AND 0xFC \<noteq> b AND 0xFC then Some (OPUS_INVALID_PACKET, rp)
       else do {
         let rp = (if rp_nb_frames rp = 0
                   then rp\<lparr>rp_toc := b, rp_framesize := opus_packet_get_samples_per_frame b 8000\<rparr> else rp);
         curr_nb_frames \<leftarrow> opus_packet_get_nb_frames (drop data mem) len;
         if curr_nb_frames < 1 then Some (OPUS_INVALID_PACKET, rp)
         else if (curr_nb_frames + int (rp_nb_frames rp)) * rp_framesize rp > 960
         then Some (OPUS_INVALID_PACKET, rp)
         else do {
           ret \<leftarrow> opus_packet_parse_impl (drop data mem) len self_delimited;
           case ret of Inl e \<Rightarrow> Some (e, rp)
           | Inr f \<Rightarrow> Some (OPUS_OK, rp_store data f curr_nb_frames rp)
         }
       }
     })"

definition opus_repacketizer_cat ::
  "byte list \<Rightarrow> OpusRepacketizer \<Rightarrow> nat \<Rightarrow> int \<Rightarrow> (int \<times> OpusRepacketizer) option" where
  "opus_repacketizer_cat mem rp data len = opus_repacketizer_cat_impl mem rp data len False"

section \<open>Writing a packet\<close>

text \<open>The extensions in the padding of the frames, with their frame numbers in the new packet.\<close>

fun count_extensions :: "byte list \<Rightarrow> (nat \<times> int) list \<Rightarrow> int option" where
  "count_extensions mem [] = Some 0"
| "count_extensions mem ((p, l) # ps) = do {
     n \<leftarrow> opus_packet_extensions_count (drop p mem) (nat l);
     m \<leftarrow> count_extensions mem ps;
     Some ((if n > 0 then n else 0) + m)
   }"

fun parse_extensions ::
  "byte list \<Rightarrow> (nat \<times> int) list \<Rightarrow> int \<Rightarrow> int \<Rightarrow> opus_extension_data list \<Rightarrow> (int + opus_extension_data list) option" where
  "parse_extensions mem [] i total_exts exts = Some (Inr exts)"
| "parse_extensions mem ((p, l) # ps) i total_exts exts = do {
     r \<leftarrow> opus_packet_extensions_parse (drop p mem) (nat l) (nat (total_exts - int (length exts)));
     let (ret, new) = r;
     if ret < 0 then Some (Inl OPUS_INTERNAL_ERROR)
     else parse_extensions mem ps (i + 1) total_exts
       (exts @ map (\<lambda>e. e\<lparr>ext_data := p + ext_data e, ext_frame := ext_frame e + i\<rparr>) new)
   }"

text \<open>Codes 0, 1 and 2: the size and the first bytes; nothing for more than two frames.\<close>

definition out_short :: "int \<Rightarrow> int list \<Rightarrow> int \<Rightarrow> int \<Rightarrow> int + int \<times> byte list" where
  "out_short toc len tot_size maxlen =
    (if length len = 1 then
       let tot_size = tot_size + len ! 0 + 1 in
       if tot_size > maxlen then Inl OPUS_BUFFER_TOO_SMALL
       else Inr (tot_size, [of_int (toc AND 0xFC)])
     else if length len = 2 then
       if len ! 1 = len ! 0 then
         let tot_size = tot_size + 2 * len ! 0 + 1 in
         if tot_size > maxlen then Inl OPUS_BUFFER_TOO_SMALL
         else Inr (tot_size, [of_int (toc AND 0xFC OR 0x1)])
       else
         let tot_size = tot_size + len ! 0 + len ! 1 + 2 + of_bool (len ! 0 \<ge> 252) in
         if tot_size > maxlen then Inl OPUS_BUFFER_TOO_SMALL
         else Inr (tot_size, of_int (toc AND 0xFC OR 0x2) # encode_size (len ! 0))
     else Inr (tot_size, []))"

definition is_vbr :: "int list \<Rightarrow> bool" where
  "is_vbr len = list_ex (\<lambda>l. l \<noteq> len ! 0) (tl len)"

definition code3_size :: "int list \<Rightarrow> int" where
  "code3_size len =
    (if is_vbr len then 2 + sum_list (map (\<lambda>l. 1 + of_bool (l \<ge> 252) + l) (butlast len)) + last len
     else int (length len) * len ! 0 + 2)"

text \<open>
  Code 3. The result is the memory, \<open>ptr\<close>, \<open>tot_size\<close>, \<open>ext_len\<close>, \<open>ext_begin\<close>, \<open>ones_begin\<close>
  and \<open>ones_end\<close>, or the error and the memory.
\<close>

type_synonym out_state = "byte list \<times> nat \<times> int \<times> int \<times> int \<times> int \<times> int"

definition out_padding ::
  "byte list \<Rightarrow> nat \<Rightarrow> int \<Rightarrow> int \<Rightarrow> int \<Rightarrow> int \<Rightarrow> ((int \<times> byte list) + out_state) option" where
  "out_padding mem data maxlen tot_size ext_size pad_amount =
    (if pad_amount = 0 then Some (Inr (mem, data + 2, tot_size, ext_size, 0, 0, 0))
     else do {
       b \<leftarrow> byte_at mem (data + 1);
       mem \<leftarrow> mem_write mem (data + 1) [of_int (b OR 0x40)];
       let nb_255s = (pad_amount - 1) div 255;
       if tot_size + ext_size + nb_255s + 1 > maxlen then Some (Inl (OPUS_BUFFER_TOO_SMALL, mem))
       else do {
         mem \<leftarrow> mem_write mem (data + 2) (replicate (nat nb_255s) 255 @ [of_int (pad_amount - 255 * nb_255s - 1)]);
         Some (Inr (mem, data + 2 + nat nb_255s + 1, tot_size + pad_amount, ext_size,
           tot_size + pad_amount - ext_size, tot_size + nb_255s + 1, tot_size + pad_amount - ext_size))
       }
     })"

definition out_code3 ::
  "byte list \<Rightarrow> nat \<Rightarrow> int \<Rightarrow> int \<Rightarrow> int list \<Rightarrow> int \<Rightarrow> bool \<Rightarrow> opus_extension_data list
   \<Rightarrow> ((int \<times> byte list) + out_state) option" where
  "out_code3 mem data maxlen toc len tot_size pad exts = do {
     let tot_size = tot_size + code3_size len;
     if tot_size > maxlen then Some (Inl (OPUS_BUFFER_TOO_SMALL, mem))
     else do {
       mem \<leftarrow> mem_write mem data [of_int (toc AND 0xFC OR 0x3),
         of_int (if is_vbr len then int (length len) OR 0x80 else int (length len))];
       ext_r \<leftarrow> (if exts \<noteq> [] then opus_packet_extensions_generate True mem (maxlen - tot_size) exts False
                else Some (Inr []));
       case ext_r of Inl e \<Rightarrow> Some (Inl (e, mem))
       | Inr out \<Rightarrow> do {
           let ext_size = int (length out);
           let pad_amount = (if exts \<noteq> [] \<and> \<not> pad then ext_size + ext_size div 254 + 1
                             else if pad then maxlen - tot_size else 0);
           r \<leftarrow> out_padding mem data maxlen tot_size ext_size pad_amount;
           case r of Inl e \<Rightarrow> Some (Inl e)
           | Inr (mem, ptr, rest) \<Rightarrow>
               if is_vbr len then do {
                 let sizes = concat (map encode_size (butlast len));
                 mem \<leftarrow> mem_write mem ptr sizes;
                 Some (Inr (mem, ptr + length sizes, rest))
               } else Some (Inr (mem, ptr, rest))
         }
     }
   }"

fun move_frames :: "byte list \<Rightarrow> nat \<Rightarrow> (nat \<times> int) list \<Rightarrow> (byte list \<times> nat) option" where
  "move_frames mem ptr [] = Some (mem, ptr)"
| "move_frames mem ptr ((frame, l) # fs) = do {
     mem \<leftarrow> opus_move mem ptr frame (nat l);
     move_frames mem (ptr + nat l) fs
   }"

text \<open>From the length of the last frame to the end.\<close>

definition out_finish ::
  "nat \<Rightarrow> int \<Rightarrow> bool \<Rightarrow> bool \<Rightarrow> (nat \<times> int) list \<Rightarrow> opus_extension_data list \<Rightarrow> out_state \<Rightarrow> (int \<times> byte list) option" where
  "out_finish data maxlen self_delimited pad frames exts st = do {
     let (mem, ptr, tot_size, ext_size, ext_begin, ones_begin, ones_end) = st;
     let sd = (if self_delimited then encode_size (snd (last frames)) else []);
     mem \<leftarrow> mem_write mem ptr sd;
     (mem, ptr) \<leftarrow> move_frames mem (ptr + length sd) frames;
     mem \<leftarrow> (if ext_size > 0 then do {
                r \<leftarrow> opus_packet_extensions_generate False mem ext_size exts False;
                case r of Inl e \<Rightarrow> Some mem
                | Inr out \<Rightarrow> mem_write mem (data + nat ext_begin) out
              } else Some mem);
     mem \<leftarrow> mem_write mem (data + nat ones_begin) (replicate (nat (ones_end - ones_begin)) 0x01);
     mem \<leftarrow> (if pad \<and> exts = [] then mem_write mem ptr (replicate (data + nat maxlen - ptr) 0) else Some mem);
     Some (tot_size, mem)
   }"

definition rp_slice :: "int \<Rightarrow> int \<Rightarrow> 'a list \<Rightarrow> 'a list" where
  "rp_slice first stop xs = take (nat (stop - first)) (drop (nat first) xs)"

definition opus_repacketizer_out_range_impl ::
  "byte list \<Rightarrow> OpusRepacketizer \<Rightarrow> int \<Rightarrow> int \<Rightarrow> nat \<Rightarrow> int \<Rightarrow> bool \<Rightarrow> bool \<Rightarrow> opus_extension_data list
   \<Rightarrow> (int \<times> byte list) option" where
  "opus_repacketizer_out_range_impl mem rp first stop data maxlen self_delimited pad extensions =
    (if first < 0 \<or> first \<ge> stop \<or> stop > int (rp_nb_frames rp) then Some (OPUS_BAD_ARG, mem)
     else do {
       let len = rp_slice first stop (rp_len rp);
       let frames = rp_slice first stop (zip (rp_frames rp) (rp_len rp));
       let paddings = rp_slice first stop (zip (rp_paddings rp) (rp_padding_len rp));
       let tot0 = (if self_delimited then 1 + of_bool (last len \<ge> 252) else 0);
       n \<leftarrow> count_extensions mem paddings;
       r \<leftarrow> parse_extensions mem paddings 0 (int (length extensions) + n) extensions;
       case r of Inl e \<Rightarrow> Some (e, mem)
       | Inr exts \<Rightarrow>
           (case out_short (rp_toc rp) len tot0 maxlen of
              Inl e \<Rightarrow> Some (e, mem)
            | Inr (tot_size, hdr) \<Rightarrow> do {
                mem \<leftarrow> mem_write mem data hdr;
                if length len > 2 \<or> pad \<and> tot_size < maxlen \<or> exts \<noteq> [] then do {
                  r \<leftarrow> out_code3 mem data maxlen (rp_toc rp) len tot0 pad exts;
                  case r of Inl e \<Rightarrow> Some e
                  | Inr st \<Rightarrow> out_finish data maxlen self_delimited pad frames exts st
                }
                else out_finish data maxlen self_delimited pad frames exts
                       (mem, data + length hdr, tot_size, 0, 0, 0, 0)
              })
     })"

definition opus_repacketizer_out_range ::
  "byte list \<Rightarrow> OpusRepacketizer \<Rightarrow> int \<Rightarrow> int \<Rightarrow> nat \<Rightarrow> int \<Rightarrow> (int \<times> byte list) option" where
  "opus_repacketizer_out_range mem rp first stop data maxlen =
     opus_repacketizer_out_range_impl mem rp first stop data maxlen False False []"

definition opus_repacketizer_out ::
  "byte list \<Rightarrow> OpusRepacketizer \<Rightarrow> nat \<Rightarrow> int \<Rightarrow> (int \<times> byte list) option" where
  "opus_repacketizer_out mem rp data maxlen =
     opus_repacketizer_out_range_impl mem rp 0 (int (rp_nb_frames rp)) data maxlen False False []"

section \<open>Padding and unpadding\<close>

text \<open>A fresh repacketizer: its arrays are not initialised, which the empty lists stand for.\<close>

definition rp_new :: OpusRepacketizer where
  "rp_new = opus_repacketizer_init \<lparr>rp_toc = 0, rp_nb_frames = 0, rp_frames = [], rp_len = [], rp_framesize = 0,
     rp_paddings = [], rp_padding_len = []\<rparr>"

text \<open>The copy on the stack is appended to the memory for the time of the call.\<close>

definition opus_packet_pad_impl ::
  "byte list \<Rightarrow> nat \<Rightarrow> int \<Rightarrow> int \<Rightarrow> bool \<Rightarrow> opus_extension_data list \<Rightarrow> (int \<times> byte list) option" where
  "opus_packet_pad_impl mem data len new_len pad extensions =
    (if len < 1 then Some (OPUS_BAD_ARG, mem)
     else if len = new_len then Some (OPUS_OK, mem)
     else if len > new_len then Some (OPUS_BAD_ARG, mem)
     else if data + nat len > length mem then None
     else do {
       let copy = length mem;
       let mem1 = mem @ take (nat len) (drop data mem);
       (ret, rp) \<leftarrow> opus_repacketizer_cat mem1 rp_new copy len;
       if ret \<noteq> OPUS_OK then Some (ret, mem)
       else do {
         (ret, mem2) \<leftarrow> opus_repacketizer_out_range_impl mem1 rp 0 (int (rp_nb_frames rp)) data new_len False pad extensions;
         Some (ret, take copy mem2)
       }
     })"

definition opus_packet_pad :: "byte list \<Rightarrow> nat \<Rightarrow> int \<Rightarrow> int \<Rightarrow> (int \<times> byte list) option" where
  "opus_packet_pad mem data len new_len = do {
     (ret, mem) \<leftarrow> opus_packet_pad_impl mem data len new_len True [];
     Some (if ret > 0 then OPUS_OK else ret, mem)
   }"

definition discard_padding :: "OpusRepacketizer \<Rightarrow> OpusRepacketizer" where
  "discard_padding rp = rp\<lparr>rp_padding_len := replicate (rp_nb_frames rp) 0, rp_paddings := replicate (rp_nb_frames rp) 0\<rparr>"

definition opus_packet_unpad :: "byte list \<Rightarrow> nat \<Rightarrow> int \<Rightarrow> (int \<times> byte list) option" where
  "opus_packet_unpad mem data len =
    (if len < 1 then Some (OPUS_BAD_ARG, mem)
     else do {
       (ret, rp) \<leftarrow> opus_repacketizer_cat mem rp_new data len;
       if ret < 0 then Some (ret, mem)
       else opus_repacketizer_out_range_impl mem (discard_padding rp) 0 (int (rp_nb_frames rp)) data len False False []
     })"

text \<open>The walk to the last stream of a multistream packet.\<close>

fun seek_streams :: "byte list \<Rightarrow> nat \<Rightarrow> nat \<Rightarrow> int \<Rightarrow> (int + nat \<times> int) option" where
  "seek_streams mem 0 data len = Some (Inr (data, len))"
| "seek_streams mem (Suc n) data len =
    (if len \<le> 0 then Some (Inl OPUS_INVALID_PACKET)
     else do {
       r \<leftarrow> opus_packet_parse_impl (drop data mem) len True;
       case r of Inl e \<Rightarrow> Some (Inl e)
       | Inr f \<Rightarrow> seek_streams mem n (data + nat (fr_packet_offset f)) (len - fr_packet_offset f)
     })"

definition opus_multistream_packet_pad :: "byte list \<Rightarrow> nat \<Rightarrow> int \<Rightarrow> int \<Rightarrow> int \<Rightarrow> (int \<times> byte list) option" where
  "opus_multistream_packet_pad mem data len new_len nb_streams =
    (if len < 1 then Some (OPUS_BAD_ARG, mem)
     else if len = new_len then Some (OPUS_OK, mem)
     else if len > new_len then Some (OPUS_BAD_ARG, mem)
     else do {
       let amount = new_len - len;
       r \<leftarrow> seek_streams mem (nat (nb_streams - 1)) data len;
       case r of Inl e \<Rightarrow> Some (e, mem)
       | Inr (data, len) \<Rightarrow> opus_packet_pad mem data len (len + amount)
     })"

text \<open>The loop of the multistream unpadding; \<open>n\<close> streams are left.\<close>

fun unpad_streams :: "byte list \<Rightarrow> nat \<Rightarrow> nat \<Rightarrow> int \<Rightarrow> nat \<Rightarrow> int \<Rightarrow> (int \<times> byte list) option" where
  "unpad_streams mem 0 data len dst dst_len = Some (dst_len, mem)"
| "unpad_streams mem (Suc n) data len dst dst_len =
    (let self_delimited = (n \<noteq> 0) in
     if len \<le> 0 then Some (OPUS_INVALID_PACKET, mem)
     else do {
       r \<leftarrow> opus_packet_parse_impl (drop data mem) len self_delimited;
       case r of Inl e \<Rightarrow> Some (e, mem)
       | Inr f \<Rightarrow> do {
           (ret, rp) \<leftarrow> opus_repacketizer_cat_impl mem rp_new data (fr_packet_offset f) self_delimited;
           if ret < 0 then Some (ret, mem)
           else do {
             (ret, mem) \<leftarrow> opus_repacketizer_out_range_impl mem (discard_padding rp) 0 (int (rp_nb_frames rp))
               dst len self_delimited False [];
             if ret < 0 then Some (ret, mem)
             else unpad_streams mem n (data + nat (fr_packet_offset f)) (len - fr_packet_offset f)
               (dst + nat ret) (dst_len + ret)
           }
         }
     })"

definition opus_multistream_packet_unpad :: "byte list \<Rightarrow> nat \<Rightarrow> int \<Rightarrow> int \<Rightarrow> (int \<times> byte list) option" where
  "opus_multistream_packet_unpad mem data len nb_streams =
    (if len < 1 then Some (OPUS_BAD_ARG, mem)
     else unpad_streams mem (nat nb_streams) data len data 0)"

end
