(* ===== verification/Packet_Build.thy ===== *)
theory Packet_Build
  imports Packet_Counts
begin

text \<open>
  The packet format as a specification: the header that describes given frame lengths and a
  given amount of padding, in the short form for one or two frames and in the form of code 3.
  The parser reads every such header as those lengths.
\<close>

section \<open>The format\<close>

definition toc_code :: "int \<Rightarrow> int \<Rightarrow> int" where
  "toc_code toc k = toc AND 0xFC OR k"

definition vbr_lens :: "int list \<Rightarrow> bool" where
  "vbr_lens lens \<longleftrightarrow> (\<exists>l \<in> set lens. l \<noteq> hd lens)"

definition size_bytes :: "int list \<Rightarrow> byte list" where
  "size_bytes ls = concat (map encode_size ls)"

definition short_header :: "int \<Rightarrow> int list \<Rightarrow> byte list" where
  "short_header toc lens =
    (case lens of
       [l] \<Rightarrow> [of_int (toc_code toc 0)]
     | [l, m] \<Rightarrow> if m = l then [of_int (toc_code toc 1)] else of_int (toc_code toc 2) # encode_size l
     | _ \<Rightarrow> [])"

definition pad_bytes :: "int \<Rightarrow> byte list" where
  "pad_bytes pad = (if pad = 0 then []
     else replicate (nat ((pad - 1) div 255)) 255 @ [of_int (pad - 1 - 255 * ((pad - 1) div 255))])"

definition count_byte :: "int list \<Rightarrow> int \<Rightarrow> int" where
  "count_byte lens pad =
    int (length lens) + (if pad = 0 then 0 else 0x40) + (if vbr_lens lens then 0x80 else 0)"

definition code3_header :: "int \<Rightarrow> int list \<Rightarrow> int \<Rightarrow> byte list" where
  "code3_header toc lens pad = of_int (toc_code toc 3) # of_int (count_byte lens pad)
     # pad_bytes pad @ (if vbr_lens lens then size_bytes (butlast lens) else [])"

definition sd_bytes :: "bool \<Rightarrow> int list \<Rightarrow> byte list" where
  "sd_bytes sd lens = (if sd then encode_size (last lens) else [])"

text \<open>What the parser has to report, with \<open>p\<close> the payload offset.\<close>

definition parsed :: "int \<Rightarrow> int list \<Rightarrow> nat \<Rightarrow> int \<Rightarrow> opus_frames" where
  "parsed toc lens p pad =
    (let (frames, q) = frame_offsets p lens in
     \<lparr>fr_toc = toc, fr_count = length lens, fr_size = lens, fr_frames = frames, fr_payload_offset = p,
      fr_packet_offset = pad + int q, fr_padding = q, fr_padding_len = pad\<rparr>)"

text \<open>The length of a packet whose padding holds \<open>padlen\<close> bytes after its count bytes.\<close>

definition packet_len :: "bool \<Rightarrow> byte list \<Rightarrow> int list \<Rightarrow> int \<Rightarrow> int \<Rightarrow> bool" where
  "packet_len sd hdr lens padlen len \<longleftrightarrow>
    (if sd then int (length hdr) + sum_list lens + padlen \<le> len else len = int (length hdr) + sum_list lens + padlen)"

definition lens_ok :: "int list \<Rightarrow> bool" where
  "lens_ok lens \<longleftrightarrow> lens \<noteq> [] \<and> list_all (\<lambda>s. 0 \<le> s \<and> s \<le> 1275) lens"

section \<open>The first byte\<close>

lemma toc_code_bits:
  assumes "k \<in> {0, 1, 2, 3}"
  shows "toc_code toc k AND 3 = k" and "toc_code toc k AND 0x80 = toc AND 0x80"
    "toc_code toc k AND 0x60 = toc AND 0x60" "toc_code toc k AND 0x08 = toc AND 0x08"
    "drop_bit 3 (toc_code toc k) AND 3 = drop_bit 3 toc AND 3" "toc_code toc k AND 0xFC = toc AND 0xFC"
    "toc_code toc k AND 4 = toc AND 4"
  using assms by (auto simp: toc_code_def bit.conj_disj_distrib2 and.assoc)

lemma samples_toc_code:
  "k \<in> {0, 1, 2, 3} \<Longrightarrow> opus_packet_get_samples_per_frame (toc_code toc k) Fs = opus_packet_get_samples_per_frame toc Fs"
  by (simp only: opus_packet_get_samples_per_frame_def toc_code_bits)

lemma toc_code_range:
  assumes "k \<in> {0, 1, 2, 3}" and "0 \<le> toc" and "toc < 256"
  shows "0 \<le> toc_code toc k \<and> toc_code toc k < 256"
proof -
  have "toc AND 0xFC \<le> 0xFC" by (rule AND_upper2) simp
  then have "toc AND 0xFC < 2 ^ 8" by simp
  then have "toc_code toc k < 2 ^ 8"
    unfolding toc_code_def using assms by (intro OR_upper) auto
  then show ?thesis using assms by (auto simp: toc_code_def)
qed

lemma uint_toc_code:
  "k \<in> {0, 1, 2, 3} \<Longrightarrow> 0 \<le> toc \<Longrightarrow> toc < 256 \<Longrightarrow> uint (of_int (toc_code toc k) :: byte) = toc_code toc k"
  using toc_code_range [of k toc] by (intro uint_byte_of_int) simp_all

section \<open>Reading the lengths\<close>

lemma length_size_bytes:
  "list_all (\<lambda>s. 0 \<le> s) ls \<Longrightarrow> int (length (size_bytes ls)) = sum_list (map (\<lambda>l. 1 + of_bool (l \<ge> 252)) ls)"
  by (induction ls) (auto simp: size_bytes_def length_encode_size)

lemma parse_vbr_size_bytes:
  assumes "list_all (\<lambda>s. 0 \<le> s \<and> s \<le> 1275) ls" and "int (length (size_bytes ls)) + sum_list ls \<le> len"
  shows "parse_vbr (pre @ size_bytes ls @ post) (length ls) (length pre) len lst
    = Some (Inr (ls, length pre + length (size_bytes ls), len - int (length (size_bytes ls)),
        lst - int (length (size_bytes ls)) - sum_list ls))"
  using assms
proof (induction ls arbitrary: pre len lst)
  case Nil
  then show ?case by (simp add: size_bytes_def)
next
  case (Cons l ls)
  have nn: "0 \<le> sum_list ls" using Cons.prems(1) by (intro sum_list_nonneg) (auto simp: list_all_iff)
  have b: "size_bytes (l # ls) = encode_size l @ size_bytes ls" by (simp add: size_bytes_def)
  have ps: "parse_size (pre @ encode_size l @ size_bytes ls @ post) (length pre) len
      = Some (int (length (encode_size l)), l)"
    using Cons.prems nn by (intro parse_encode_size) (simp_all add: b)
  have IH: "parse_vbr ((pre @ encode_size l) @ size_bytes ls @ post) (length ls) (length (pre @ encode_size l))
      (len - int (length (encode_size l))) (lst - (int (length (encode_size l)) + l))
    = Some (Inr (ls, length (pre @ encode_size l) + length (size_bytes ls),
        len - int (length (encode_size l)) - int (length (size_bytes ls)),
        lst - (int (length (encode_size l)) + l) - int (length (size_bytes ls)) - sum_list ls))"
    using Cons.prems by (intro Cons.IH) (simp_all add: b)
  have "\<not> (l < 0 \<or> l > len - int (length (encode_size l)))" using Cons.prems nn by (simp add: b)
  then show ?case using IH ps by (simp add: b)
qed

lemma byte_at_Cons: "byte_at (x # xs) (Suc i) = byte_at xs i"
  by (simp add: byte_at_def)

lemma parse_padding_replicate:
  assumes "0 \<le> r" and "r < 255" and "255 * int k + 1 + r \<le> len"
  shows "parse_padding (pre @ replicate k 255 @ of_int r # post) (length pre) len pad
    = Some (Inr (length pre + k + 1, len - (255 * int k + 1 + r), pad + 254 * int k + r))"
  using assms(3)
proof (induction k arbitrary: pre len pad)
  case 0
  have "byte_at (pre @ of_int r # post) (length pre) = Some r"
    using byte_at_append [of pre "of_int r # post" 0] assms(1,2) by (simp add: byte_at_def uint_byte_of_int)
  then show ?case using 0 assms(1,2) by (simp add: parse_padding.simps [of _ "length pre"])
next
  case (Suc k)
  have b: "byte_at (pre @ replicate (Suc k) 255 @ of_int r # post) (length pre) = Some 255"
    using byte_at_append [of pre "replicate (Suc k) 255 @ of_int r # post" 0] by (simp add: byte_at_def)
  have "parse_padding ((pre @ [255]) @ replicate k 255 @ of_int r # post) (length (pre @ [255])) (len - 1 - 254) (pad + 254)
    = Some (Inr (length (pre @ [255]) + k + 1, (len - 1 - 254) - (255 * int k + 1 + r), (pad + 254) + 254 * int k + r))"
    using Suc.prems assms(1,2) by (intro Suc.IH) simp
  moreover have "\<not> len \<le> 0" using Suc.prems assms(1) by simp
  ultimately show ?case using b by (simp add: parse_padding.simps [of _ "length pre"])
qed

lemma parse_pad_bytes:
  assumes "0 < pad" and "pad \<le> len"
  shows "parse_padding (pre @ pad_bytes pad @ post) (length pre) len 0
    = Some (Inr (length pre + length (pad_bytes pad), len - pad, pad - int (length (pad_bytes pad))))"
proof -
  define k where "k = nat ((pad - 1) div 255)"
  define r where "r = pad - 1 - 255 * ((pad - 1) div 255)"
  have r: "0 \<le> r" "r < 255" unfolding r_def by presburger+
  have k: "int k = (pad - 1) div 255" unfolding k_def using assms by simp
  then have e: "255 * int k + 1 + r = pad" by (simp add: r_def)
  have b: "pad_bytes pad = replicate k 255 @ [of_int r]" using assms by (simp add: pad_bytes_def k_def r_def)
  show ?thesis
    using parse_padding_replicate [OF r, of k len pre post 0] assms(2) e by (simp add: b)
qed

section \<open>Reading the headers\<close>

lemma parse_impl_steps:
  assumes "0 < len" and "byte_at data 0 = Some toc"
    and "parse_code data sd (opus_packet_get_samples_per_frame toc 48000) toc 1 (len - 1)
      = Some (Inr (length lens, cbr, sizes, p0, len0, lst, padlen))"
    and "parse_last data sd (length lens, cbr, sizes, p0, len0, lst, padlen) = Some (Inr (lens, p))"
  shows "opus_packet_parse_impl data len sd = Some (Inr (parsed toc lens p padlen))"
  using assms by (simp add: opus_packet_parse_impl_def parsed_def Let_def split_def)

text \<open>The explicit length of the last frame.\<close>

lemma parse_last_sd:
  assumes "lens_ok lens" and "data = pre @ encode_size (last lens) @ post" and "length pre = p0"
    and "int (length (encode_size (last lens))) + sum_list lens \<le> len0"
    and "if cbr then \<forall>l \<in> set lens. l = hd lens
      else sizes = butlast lens \<and> int (length (encode_size (last lens))) + last lens \<le> lst"
  shows "parse_last data True (length lens, cbr, sizes, p0, len0, lst, padlen)
    = Some (Inr (lens, p0 + length (encode_size (last lens))))"
proof -
  have ne: "lens \<noteq> []" and nn: "list_all (\<lambda>s. 0 \<le> s \<and> s \<le> 1275) lens" using assms(1) by (simp_all add: lens_ok_def)
  have l: "0 \<le> last lens" "last lens \<le> 1275" using ne nn by (simp_all add: list_all_iff)
  have sum: "sum_list lens = sum_list (butlast lens) + last lens"
    using ne by (metis append_butlast_last_id sum_list.append sum_list.Cons sum_list.Nil add.right_neutral)
  have nnb: "0 \<le> sum_list (butlast lens)"
    using nn by (intro sum_list_nonneg) (auto simp: list_all_iff dest: in_set_butlastD)
  have ps: "parse_size data p0 len0 = Some (int (length (encode_size (last lens))), last lens)"
    unfolding assms(2) assms(3) [symmetric] using l assms(4) nn nnb sum by (intro parse_encode_size) simp_all
  have c: "\<not> (last lens < 0 \<or> last lens > len0 - int (length (encode_size (last lens))))"
    using l assms(4) sum nnb by simp
  show ?thesis
  proof (cases cbr)
    case True
    then have all: "lens = replicate (length lens) (last lens)"
      using assms(5) ne by (metis last_in_set replicate_eqI)
    then have "sum_list lens = int (length lens) * last lens" by (metis sum_list_replicate)
    moreover have "replicate (length lens - 1) (last lens) @ [last lens] = lens"
    proof -
      obtain n where "length lens = Suc n" using ne by (cases lens) simp_all
      then show ?thesis using all by (simp add: replicate_append_same)
    qed
    ultimately show ?thesis
      using True c assms(4) by (simp add: parse_last_def ps mult.commute)
  next
    case False
    then have "sizes @ [last lens] = lens" using assms(5) ne by simp
    then show ?thesis using False c assms(5) by (simp add: parse_last_def ps)
  qed
qed

lemma parse_last_plain:
  assumes "lens_ok lens" and "sizes = butlast lens" and "lst = last lens"
  shows "parse_last data False (length lens, cbr, sizes, p0, len0, lst, padlen) = Some (Inr (lens, p0))"
proof -
  have "0 \<le> last lens" "last lens \<le> 1275" using assms(1) by (simp_all add: list_all_iff lens_ok_def)
  then show ?thesis using assms by (simp add: parse_last_def s16_small lens_ok_def)
qed

lemma packet_len_ge:
  "packet_len sd hdr lens padlen len \<Longrightarrow> int (length hdr) + sum_list lens + padlen \<le> len"
  by (simp add: packet_len_def split: if_splits)

lemma byte_toc:
  "k \<in> {0, 1, 2, 3} \<Longrightarrow> 0 \<le> toc \<Longrightarrow> toc < 256 \<Longrightarrow> byte_at (of_int (toc_code toc k) # xs) 0 = Some (toc_code toc k)"
  by (simp add: byte_at_def uint_toc_code)

lemma parse_one_frame:
  assumes ok: "lens_ok lens" "lens = [l]" and toc: "0 \<le> toc" "toc < 256"
    and h: "h = of_int (toc_code toc 0) # sd_bytes sd lens" and len: "packet_len sd h lens 0 len"
  shows "opus_packet_parse_impl (h @ rest) len sd = Some (Inr (parsed (toc_code toc 0) lens (length h) 0))"
proof (rule parse_impl_steps)
  note lg = packet_len_ge [OF len]
  have sum0: "0 \<le> sum_list lens" using ok by (simp add: lens_ok_def)
  show "0 < len" using lg sum0 h by simp
  show "byte_at (h @ rest) 0 = Some (toc_code toc 0)" using toc by (simp add: h byte_toc)
  show "parse_code (h @ rest) sd (opus_packet_get_samples_per_frame (toc_code toc 0) 48000) (toc_code toc 0) 1 (len - 1)
    = Some (Inr (length lens, False, [], 1, len - 1, len - 1, 0))"
    by (simp add: parse_code_def toc_code_bits(1) ok)
  show "parse_last (h @ rest) sd (length lens, False, [], 1, len - 1, len - 1, 0) = Some (Inr (lens, length h))"
  proof (cases sd)
    case True
    have "parse_last (h @ rest) True (length lens, False, [], 1, len - 1, len - 1, 0)
      = Some (Inr (lens, 1 + length (encode_size (last lens))))"
      using ok lg True by (intro parse_last_sd [where pre = "[of_int (toc_code toc 0)]" and post = rest])
        (simp_all add: h sd_bytes_def)
    then show ?thesis using True by (simp add: h sd_bytes_def)
  next
    case False
    then have "parse_last (h @ rest) False (length lens, False, [], 1, len - 1, len - 1, 0) = Some (Inr (lens, 1))"
      using ok len by (intro parse_last_plain) (simp_all add: packet_len_def h sd_bytes_def)
    then show ?thesis using False by (simp add: h sd_bytes_def)
  qed
qed

lemma parse_two_equal:
  assumes ok: "lens_ok lens" "lens = [l, l]" and toc: "0 \<le> toc" "toc < 256"
    and h: "h = of_int (toc_code toc 1) # sd_bytes sd lens" and len: "packet_len sd h lens 0 len"
  shows "opus_packet_parse_impl (h @ rest) len sd = Some (Inr (parsed (toc_code toc 1) lens (length h) 0))"
proof -
  note lg = packet_len_ge [OF len]
  have l0: "0 \<le> l" "l \<le> 1275" using ok by (simp_all add: lens_ok_def)
  have pos: "0 < len" using lg l0 h ok by simp
  have b: "byte_at (h @ rest) 0 = Some (toc_code toc 1)" using toc by (simp add: h byte_toc)
  show ?thesis
  proof (cases sd)
    case True
    have "parse_last (h @ rest) True (length lens, True, [], 1, len - 1, len - 1, 0)
      = Some (Inr (lens, 1 + length (encode_size (last lens))))"
      using ok lg True by (intro parse_last_sd [where pre = "[of_int (toc_code toc 1)]" and post = rest])
        (simp_all add: h sd_bytes_def)
    then have pl: "parse_last (h @ rest) sd (length lens, True, [], 1, len - 1, len - 1, 0) = Some (Inr (lens, length h))"
      using True by (simp add: h sd_bytes_def)
    have "parse_code (h @ rest) sd (opus_packet_get_samples_per_frame (toc_code toc 1) 48000) (toc_code toc 1) 1 (len - 1)
        = Some (Inr (length lens, True, [], 1, len - 1, len - 1, 0))"
      using True by (simp add: parse_code_def toc_code_bits(1) ok numeral_2_eq_2)
    then show ?thesis by (rule parse_impl_steps [OF pos b _ pl])
  next
    case False
    have lenv: "len - 1 = 2 * l" using len False by (simp add: packet_len_def h sd_bytes_def ok)
    have "parse_code (h @ rest) sd (opus_packet_get_samples_per_frame (toc_code toc 1) 48000) (toc_code toc 1) 1 (len - 1)
        = Some (Inr (length lens, True, [l], 1, len - 1, l, 0))"
      unfolding lenv using False l0 by (simp add: parse_code_def toc_code_bits(1) ok s16_small and_one_eq numeral_2_eq_2)
    moreover have "parse_last (h @ rest) False (length lens, True, [l], 1, len - 1, l, 0) = Some (Inr (lens, 1))"
      by (rule parse_last_plain [OF ok(1)]) (simp_all add: ok(2))
    then have "parse_last (h @ rest) sd (length lens, True, [l], 1, len - 1, l, 0) = Some (Inr (lens, length h))"
      using False by (simp add: h sd_bytes_def)
    ultimately show ?thesis by (rule parse_impl_steps [OF pos b])
  qed
qed

lemma parse_two_frames:
  assumes ok: "lens_ok lens" "lens = [l, m]" and toc: "0 \<le> toc" "toc < 256"
    and h: "h = of_int (toc_code toc 2) # encode_size l @ sd_bytes sd lens" and len: "packet_len sd h lens 0 len"
  shows "opus_packet_parse_impl (h @ rest) len sd = Some (Inr (parsed (toc_code toc 2) lens (length h) 0))"
proof (rule parse_impl_steps)
  note lg = packet_len_ge [OF len]
  have l0: "0 \<le> l" "l \<le> 1275" "0 \<le> m" using ok by (simp_all add: lens_ok_def)
  have ps: "parse_size ([of_int (toc_code toc 2)] @ encode_size l @ sd_bytes sd lens @ rest) (length [of_int (toc_code toc 2) :: byte]) (len - 1)
     = Some (int (length (encode_size l)), l)"
    using lg l0 by (intro parse_encode_size) (simp_all add: h ok)
  let ?len = "len - 1 - int (length (encode_size l))" and ?p = "1 + length (encode_size l)"
  show "0 < len" using lg l0 h ok by simp
  show "byte_at (h @ rest) 0 = Some (toc_code toc 2)" using toc by (simp add: h byte_toc)
  show "parse_code (h @ rest) sd (opus_packet_get_samples_per_frame (toc_code toc 2) 48000) (toc_code toc 2) 1 (len - 1)
      = Some (Inr (length lens, False, [l], ?p, ?len, ?len - l, 0))"
    using ps l0 lg by (simp add: parse_code_def toc_code_bits(1) Let_def h ok)
  show "parse_last (h @ rest) sd (length lens, False, [l], ?p, ?len, ?len - l, 0) = Some (Inr (lens, length h))"
  proof (cases sd)
    case True
    have "parse_last (h @ rest) True (length lens, False, [l], ?p, ?len, ?len - l, 0)
      = Some (Inr (lens, ?p + length (encode_size (last lens))))"
      using ok lg True
      by (intro parse_last_sd [where pre = "of_int (toc_code toc 2) # encode_size l" and post = rest])
        (simp_all add: h sd_bytes_def)
    then show ?thesis using True by (simp add: h sd_bytes_def)
  next
    case False
    then have "parse_last (h @ rest) False (length lens, False, [l], ?p, ?len, ?len - l, 0) = Some (Inr (lens, ?p))"
      using ok len by (intro parse_last_plain) (simp_all add: packet_len_def h sd_bytes_def)
    then show ?thesis using False by (simp add: h sd_bytes_def)
  qed
qed

lemma parse_short:
  assumes ok: "lens_ok lens" "length lens \<le> 2" and toc: "0 \<le> toc" "toc < 256"
    and h: "h = short_header toc lens @ sd_bytes sd lens" and len: "packet_len sd h lens 0 len"
  shows "\<exists>k \<in> {0, 1, 2, 3}. opus_packet_parse_impl (h @ rest) len sd = Some (Inr (parsed (toc_code toc k) lens (length h) 0))"
proof -
  consider l where "lens = [l]" | l where "lens = [l, l]" | l m where "lens = [l, m]" "m \<noteq> l"
    using ok by (cases lens; cases "tl lens"; cases "tl (tl lens)") (auto simp: lens_ok_def)
  then show ?thesis
    using parse_one_frame [OF ok(1) _ toc _ len] parse_two_equal [OF ok(1) _ toc _ len]
      parse_two_frames [OF ok(1) _ toc _ len]
    by cases (force simp: h short_header_def)+
qed

section \<open>Code 3\<close>

lemma and_bit6: "x AND 0x40 \<noteq> 0 \<longleftrightarrow> odd (x div 64)" for x :: int
  using and_exp_eq_0_iff_not_bit [of x 6] by (simp add: bit_iff_odd)

lemma and_bit7: "x AND 0x80 = 0 \<longleftrightarrow> even (x div 128)" for x :: int
  using and_exp_eq_0_iff_not_bit [of x 7] by (simp add: bit_iff_odd)

lemma count_byte_bits:
  assumes "0 < length lens" and "length lens \<le> 48"
  shows "count_byte lens pad AND 0x3F = int (length lens)"
    and "count_byte lens pad AND 0x40 \<noteq> 0 \<longleftrightarrow> pad \<noteq> 0"
    and "count_byte lens pad AND 0x80 = 0 \<longleftrightarrow> \<not> vbr_lens lens"
    and "uint (of_int (count_byte lens pad) :: byte) = count_byte lens pad"
proof -
  have n: "0 < int (length lens)" "int (length lens) \<le> 48" using assms by simp_all
  define n where "n = int (length lens)"
  have b: "count_byte lens pad \<in> {n, n + 64, n + 128, n + 192}" by (simp add: count_byte_def n_def)
  have r: "0 < n" "n \<le> 48" using n by (simp_all add: n_def)
  have m: "(n + 64 * c) mod 64 = n" "(n + 64 * c) div 64 = c" "(n + 128 * c) div 128 = c"
    "(n + 64 + 128 * c) div 128 = c" for c using r by simp_all
  have "count_byte lens pad mod 64 = n"
    using b m(1) [of 0] m(1) [of 1] m(1) [of 2] m(1) [of 3] by auto
  then show "count_byte lens pad AND 0x3F = int (length lens)"
    using b r by (subst and_63) (auto simp: n_def)
  show "count_byte lens pad AND 0x40 \<noteq> 0 \<longleftrightarrow> pad \<noteq> 0"
    using m(2) [of 0] m(2) [of 1] m(2) [of 2] m(2) [of 3] unfolding and_bit6 count_byte_def n_def [symmetric]
    by (simp add: add.assoc)
  show "count_byte lens pad AND 0x80 = 0 \<longleftrightarrow> \<not> vbr_lens lens"
    using m(3,4) [of 0] m(3,4) [of 1] unfolding and_bit7 count_byte_def n_def [symmetric]
    by (simp add: add.assoc)
  show "uint (of_int (count_byte lens pad) :: byte) = count_byte lens pad"
    using b r by (intro uint_byte_of_int) auto
qed

lemma sum_lens:
  assumes "lens_ok lens"
  shows "sum_list lens = sum_list (butlast lens) + last lens" and "0 \<le> sum_list (butlast lens)"
    and "0 \<le> last lens" and "0 \<le> sum_list lens"
    and "list_all (\<lambda>s. 0 \<le> s \<and> s \<le> 1275) (butlast lens)"
proof -
  have ne: "lens \<noteq> []" and nn: "list_all (\<lambda>s. 0 \<le> s \<and> s \<le> 1275) lens" using assms by (simp_all add: lens_ok_def)
  show s: "sum_list lens = sum_list (butlast lens) + last lens"
    using ne by (metis append_butlast_last_id sum_list.append sum_list.Cons sum_list.Nil add.right_neutral)
  show l: "0 \<le> last lens" using ne nn by (simp add: list_all_iff)
  show b: "list_all (\<lambda>s. 0 \<le> s \<and> s \<le> 1275) (butlast lens)"
    using nn by (auto simp: list_all_iff dest: in_set_butlastD)
  then show "0 \<le> sum_list (butlast lens)" by (intro sum_list_nonneg) (simp add: list_all_iff)
  then show "0 \<le> sum_list lens" using s l by simp
qed

lemma replicate_lens:
  assumes "lens_ok lens" and "\<not> vbr_lens lens"
  shows "lens = replicate (length lens) (last lens)" and "sum_list lens = int (length lens) * last lens"
    and "butlast lens = replicate (length lens - 1) (last lens)"
proof -
  have ne: "lens \<noteq> []" using assms(1) by (simp add: lens_ok_def)
  then have "last lens = hd lens" using assms(2) unfolding vbr_lens_def by (metis last_in_set)
  then show all: "lens = replicate (length lens) (last lens)"
    using assms(2) unfolding vbr_lens_def by (intro replicate_eqI) auto
  then show "sum_list lens = int (length lens) * last lens" by (metis sum_list_replicate)
  obtain n where "length lens = Suc n" using ne by (cases lens) simp_all
  then have "lens = replicate n (last lens) @ [last lens]" using all by (simp add: replicate_append_same)
  then show "butlast lens = replicate (length lens - 1) (last lens)"
    by (metis butlast_snoc length_butlast length_replicate)
qed

text \<open>After the count byte and the padding length.\<close>

lemma parse_sizes3_built:
  assumes ok: "lens_ok lens" and p: "length pre = p"
    and sz: "sizes = (if vbr_lens lens then size_bytes (butlast lens) else [])"
    and len: "if sd then int (length sizes) + sum_list lens \<le> len else len = int (length sizes) + sum_list lens"
  shows "\<exists>ss lst. parse_sizes3 (pre @ sizes @ post) sd (int (length lens)) (\<not> vbr_lens lens) len0 (p, len, padlen)
      = Some (Inr (length lens, \<not> vbr_lens lens, ss, p + length sizes, len - int (length sizes), lst, padlen))
    \<and> (vbr_lens lens \<longrightarrow> ss = butlast lens \<and> lst = len - int (length sizes) - sum_list (butlast lens))
    \<and> (\<not> vbr_lens lens \<longrightarrow> \<not> sd \<longrightarrow> ss = butlast lens \<and> lst = last lens)"
proof -
  note sl = sum_lens [OF ok]
  have n: "0 < length lens" using ok by (simp add: lens_ok_def)
  have l0: "0 \<le> len" using len sl(4) by (simp split: if_splits)
  have c: "nat (int (length lens) - 1) = length (butlast lens)" using n by simp
  show ?thesis
  proof (cases "vbr_lens lens")
    case True
    have "parse_vbr (pre @ sizes @ post) (length (butlast lens)) p len len
      = Some (Inr (butlast lens, p + length sizes, len - int (length sizes),
          len - int (length sizes) - sum_list (butlast lens)))"
      using sl len True parse_vbr_size_bytes [of "butlast lens" len pre post len] unfolding p [symmetric] sz
      by (simp split: if_splits)
    moreover have "\<not> len - int (length sizes) - sum_list (butlast lens) < 0"
      using len sl by (simp split: if_splits)
    ultimately show ?thesis using True l0 c by (simp add: parse_sizes3_def)
  next
    case False
    then have s: "sizes = []" using sz by simp
    show ?thesis
    proof (cases sd)
      case True
      then show ?thesis using False l0 s by (simp add: parse_sizes3_def)
    next
      case nsd: False
      then have lv: "len = int (length lens) * last lens"
        using len s replicate_lens(2) [OF ok False] by simp
      have "len div int (length lens) = last lens" using lv n by simp
      moreover have "s16 (last lens) = last lens" using ok n by (intro s16_small) (auto simp: lens_ok_def list_all_iff)
      ultimately show ?thesis
        using False nsd l0 s lv replicate_lens(3) [OF ok False] c by (simp add: parse_sizes3_def mult.commute Let_def)
    qed
  qed
qed

lemma parse_code3_built:
  assumes ok: "lens_ok lens" "length lens \<le> 48" and fs: "fs * int (length lens) \<le> 5760"
    and toc: "0 \<le> toc" "toc < 256" and pad: "0 \<le> pad"
    and h: "h = code3_header toc lens pad @ sd_bytes sd lens"
    and len: "packet_len sd h lens (pad - int (length (pad_bytes pad))) len"
  shows "\<exists>ss p lst. parse_code (h @ rest) sd fs (toc_code toc 3) 1 (len - 1)
      = Some (Inr (length lens, \<not> vbr_lens lens, ss, p, int (length (sd_bytes sd lens)) + (len - int (length h)) - (pad - int (length (pad_bytes pad))), lst, pad - int (length (pad_bytes pad))))
    \<and> h = take p h @ sd_bytes sd lens \<and> p = length h - length (sd_bytes sd lens)
    \<and> (vbr_lens lens \<longrightarrow> ss = butlast lens \<and>
         lst = int (length (sd_bytes sd lens)) + (len - int (length h)) - (pad - int (length (pad_bytes pad))) - sum_list (butlast lens))
    \<and> (\<not> vbr_lens lens \<longrightarrow> \<not> sd \<longrightarrow> ss = butlast lens \<and> lst = last lens)"
proof -
  define sizes where "sizes = (if vbr_lens lens then size_bytes (butlast lens) else [])"
  define cb where "cb = count_byte lens pad"
  define pb where "pb = pad_bytes pad"
  have n: "0 < length lens" using ok by (simp add: lens_ok_def)
  note bits = count_byte_bits [OF n ok(2), of pad, folded cb_def]
  have hh: "h = [of_int (toc_code toc 3), of_int cb] @ pb @ sizes @ sd_bytes sd lens"
    by (simp add: h code3_header_def cb_def pb_def sizes_def)
  note lg = packet_len_ge [OF len, folded pb_def]
  have pb0: "int (length pb) \<le> pad" 
    unfolding pb_def pad_bytes_def using pad by auto
  have l1: "\<not> len - 1 < 1" using lg hh sum_lens(4) [OF ok(1)] pb0 by simp
  have b1: "byte_at (h @ rest) 1 = Some cb" by (simp add: hh byte_at_def bits)
  let ?d = "h @ rest"
  define len2 where "len2 = len - 2 - pad"
  have padding: "(if cb AND 0x40 \<noteq> 0 then parse_padding ?d (1 + 1) (len - 1 - 1) 0
      else Some (Inr (1 + 1, len - 1 - 1, 0)))
    = Some (Inr (2 + length pb, len2, pad - int (length pb)))"
  proof (cases "pad = 0")
    case True
    then show ?thesis using bits by (simp add: len2_def pb_def pad_bytes_def numeral_2_eq_2)
  next
    case False
    have "parse_padding ([of_int (toc_code toc 3), of_int cb] @ pad_bytes pad @ sizes @ sd_bytes sd lens @ rest)
        (length [of_int (toc_code toc 3) :: byte, of_int cb]) (len - 2) 0
      = Some (Inr (length [of_int (toc_code toc 3) :: byte, of_int cb] + length (pad_bytes pad), (len - 2) - pad,
          pad - int (length (pad_bytes pad))))"
      using False pad lg hh sum_lens(4) [OF ok(1)] by (intro parse_pad_bytes) (simp_all add: pb_def)
    then show ?thesis using False bits by (simp add: len2_def hh pb_def numeral_2_eq_2)
  qed
  have "\<exists>ss lst. parse_sizes3 (([of_int (toc_code toc 3), of_int cb] @ pb) @ sizes @ sd_bytes sd lens @ rest) sd (int (length lens)) (\<not> vbr_lens lens) (len - 1) (2 + length pb, len2, pad - int (length pb))
      = Some (Inr (length lens, \<not> vbr_lens lens, ss, 2 + length pb + length sizes, len2 - int (length sizes), lst, pad - int (length pb)))
    \<and> (vbr_lens lens \<longrightarrow> ss = butlast lens \<and> lst = len2 - int (length sizes) - sum_list (butlast lens))
    \<and> (\<not> vbr_lens lens \<longrightarrow> \<not> sd \<longrightarrow> ss = butlast lens \<and> lst = last lens)"
    using len by (intro parse_sizes3_built [OF ok(1)])
      (simp_all add: sizes_def [symmetric] packet_len_def pb_def [symmetric] hh len2_def sd_bytes_def split: if_splits)
  then obtain ss lst where s3: "parse_sizes3 ?d sd (int (length lens)) (\<not> vbr_lens lens) (len - 1) (2 + length pb, len2, pad - int (length pb))
      = Some (Inr (length lens, \<not> vbr_lens lens, ss, 2 + length pb + length sizes, len2 - int (length sizes), lst, pad - int (length pb)))"
    "vbr_lens lens \<longrightarrow> ss = butlast lens \<and> lst = len2 - int (length sizes) - sum_list (butlast lens)"
    "\<not> vbr_lens lens \<longrightarrow> \<not> sd \<longrightarrow> ss = butlast lens \<and> lst = last lens" by (auto simp: hh)
  have e: "len2 - int (length sizes) = int (length (sd_bytes sd lens)) + (len - int (length h)) - (pad - int (length pb))"
    by (simp add: hh len2_def)
  have "parse_code ?d sd fs (toc_code toc 3) 1 (len - 1) = parse_code3 ?d sd fs 1 (len - 1)"
    by (simp add: parse_code_def toc_code_bits(1))
  also have "\<dots> = parse_sizes3 ?d sd (int (length lens)) (\<not> vbr_lens lens) (len - 1) (2 + length pb, len2, pad - int (length pb))"
    unfolding parse_code3_def if_not_P [OF l1] b1 bind.bind_lunit Let_def padding sum.case
    using n fs by (simp add: bits)
  finally show ?thesis
    using s3 unfolding pb_def [symmetric] e
    by (intro exI [of _ ss] exI [of _ "2 + length pb + length sizes"] exI [of _ lst]) (simp add: hh)
qed

lemma parse_code3_header:
  assumes ok: "lens_ok lens" "length lens \<le> 48"
    and fs: "opus_packet_get_samples_per_frame toc 48000 * int (length lens) \<le> 5760"
    and toc: "0 \<le> toc" "toc < 256" and pad: "0 \<le> pad"
    and h: "h = code3_header toc lens pad @ sd_bytes sd lens"
    and len: "packet_len sd h lens (pad - int (length (pad_bytes pad))) len"
  shows "opus_packet_parse_impl (h @ rest) len sd
    = Some (Inr (parsed (toc_code toc 3) lens (length h) (pad - int (length (pad_bytes pad)))))"
proof -
  have fs': "opus_packet_get_samples_per_frame (toc_code toc 3) 48000 * int (length lens) \<le> 5760"
    using fs by (simp add: samples_toc_code)
  let ?padlen = "pad - int (length (pad_bytes pad))"
  let ?len0 = "int (length (sd_bytes sd lens)) + (len - int (length h)) - ?padlen"
  obtain ss p lst where c: "parse_code (h @ rest) sd (opus_packet_get_samples_per_frame (toc_code toc 3) 48000) (toc_code toc 3) 1 (len - 1)
      = Some (Inr (length lens, \<not> vbr_lens lens, ss, p, ?len0, lst, ?padlen))"
    and p: "h = take p h @ sd_bytes sd lens" "p = length h - length (sd_bytes sd lens)"
    and v: "vbr_lens lens \<longrightarrow> ss = butlast lens \<and> lst = ?len0 - sum_list (butlast lens)"
    and nv: "\<not> vbr_lens lens \<longrightarrow> \<not> sd \<longrightarrow> ss = butlast lens \<and> lst = last lens"
    using parse_code3_built [OF ok fs' toc pad h len] by blast
  note sl = sum_lens [OF ok(1)]
  note lg = packet_len_ge [OF len]
  have pb0: "int (length (pad_bytes pad)) \<le> pad" 
    unfolding pad_bytes_def using pad by auto
  have "1 \<le> int (length h)" by (simp add: h code3_header_def)
  then have pos: "0 < len" using lg sl pb0 by simp
  have b: "byte_at (h @ rest) 0 = Some (toc_code toc 3)"
    using byte_toc [OF _ toc, of 3] by (simp add: h code3_header_def)
  have "parse_last (h @ rest) sd (length lens, \<not> vbr_lens lens, ss, p, ?len0, lst, ?padlen) = Some (Inr (lens, length h))"
  proof (cases sd)
    case True
    have lp: "length (take p h) = p" using p(2) by simp
    have "parse_last (h @ rest) True (length lens, \<not> vbr_lens lens, ss, p, ?len0, lst, ?padlen)
        = Some (Inr (lens, p + length (encode_size (last lens))))"
      using True v lg sl p lp by (intro parse_last_sd [OF ok(1), where pre = "take p h" and post = rest])
        (auto simp: sd_bytes_def vbr_lens_def)
    moreover have "p + length (encode_size (last lens)) = length h"
      using p True by (metis length_append lp sd_bytes_def)
    ultimately show ?thesis using True by simp
  next
    case False
    then have sd0: "sd_bytes sd lens = []" by (simp add: sd_bytes_def)
    have "lst = last lens \<and> ss = butlast lens"
      using v nv False len sl sd0 by (auto simp: packet_len_def)
    then show ?thesis using parse_last_plain [OF ok(1)] False p(2) sd0 by simp
  qed
  then show ?thesis by (rule parse_impl_steps [OF pos b c])
qed

end
