(* ===== verification/Repacketizer_Correct.thy ===== *)
theory Repacketizer_Correct
  imports Repacketizer Packet_Build
begin

text \<open>
  What \<open>opus_repacketizer_out_range_impl\<close> writes when there are no extensions: the header of
  the packet format for the lengths of the frames, the frames, and zeros as padding. The
  frames may lie in the target buffer as long as no write touches a frame that is still to
  be moved.
\<close>

section \<open>Memory\<close>

definition seg :: "byte list \<Rightarrow> nat \<Rightarrow> nat \<Rightarrow> byte list" where
  "seg mem a n = take n (drop a mem)"

definition put :: "byte list \<Rightarrow> nat \<Rightarrow> byte list \<Rightarrow> byte list" where
  "put mem a bs = take a mem @ bs @ drop (a + length bs) mem"

lemma mem_write_put: "a + length bs \<le> length mem \<Longrightarrow> mem_write mem a bs = Some (put mem a bs)"
  by (simp add: mem_write_def put_def)

lemma length_put [simp]: "a + length bs \<le> length mem \<Longrightarrow> length (put mem a bs) = length mem"
  by (simp add: put_def)

lemma put_nil [simp]: "put mem a [] = mem"
  by (simp add: put_def)

lemma put_put:
  assumes "a \<le> length mem" and "length X \<le> length Y" and "b = a + length W"
  shows "put (put mem a (W @ X)) b Y = put mem a (W @ Y)"
proof -
  have "drop (length Y) (X @ drop (a + length W + length X) mem) = drop (a + length W + length Y) mem"
    using assms by (simp add: drop_drop add.commute add.left_commute)
  then show ?thesis using assms by (simp add: put_def add.assoc [symmetric])
qed

lemma put_append: "a \<le> length mem \<Longrightarrow> b = a + length W \<Longrightarrow> put (put mem a W) b Y = put mem a (W @ Y)"
  using put_put [of a mem "[]" Y b W] by simp

lemma seg_put:
  assumes "a + length bs \<le> length mem" and "a + length bs \<le> b \<or> b + n \<le> a"
  shows "seg (put mem a bs) b n = seg mem b n"
proof (rule nth_equalityI)
  show "length (seg (put mem a bs) b n) = length (seg mem b n)" using assms by (simp add: seg_def)
  fix i assume "i < length (seg (put mem a bs) b n)"
  then have i: "i < n" "b + i < length mem" using assms(1) by (simp_all add: seg_def less_diff_conv add.commute)
  then have "put mem a bs ! (b + i) = mem ! (b + i)"
    using assms by (auto simp: put_def nth_append min_def)
  then show "seg (put mem a bs) b n ! i = seg mem b n ! i" using i assms(1) by (simp add: seg_def)
qed

lemma seg_put_same: "a + length bs \<le> length mem \<Longrightarrow> seg (put mem a bs) a (length bs) = bs"
  by (simp add: seg_def put_def)

lemma length_seg [simp]: "a + n \<le> length mem \<Longrightarrow> length (seg mem a n) = n"
  by (simp add: seg_def)

section \<open>Moving the frames\<close>

text \<open>\<open>(b, k)\<close> is a block of \<open>k\<close> bytes at address \<open>b\<close>.\<close>

definition apart :: "nat \<Rightarrow> nat \<Rightarrow> nat \<times> int \<Rightarrow> bool" where
  "apart a n f \<longleftrightarrow> a + n \<le> fst f \<or> fst f + nat (snd f) \<le> a"

fun moves_ok :: "nat \<Rightarrow> (nat \<times> int) list \<Rightarrow> bool" where
  "moves_ok p [] = True"
| "moves_ok p ((a, l) # fs) = (list_all (apart p (nat l)) fs \<and> moves_ok (p + nat l) fs)"

definition contents :: "byte list \<Rightarrow> (nat \<times> int) list \<Rightarrow> byte list" where
  "contents mem fs = concat (map (\<lambda>(a, l). seg mem a (nat l)) fs)"

definition inside :: "byte list \<Rightarrow> (nat \<times> int) list \<Rightarrow> bool" where
  "inside mem fs \<longleftrightarrow> list_all (\<lambda>(a, l). 0 \<le> l \<and> a + nat l \<le> length mem) fs"

lemma length_contents: "inside mem fs \<Longrightarrow> int (length (contents mem fs)) = sum_list (map snd fs)"
  by (induction fs) (auto simp: contents_def inside_def)

lemma contents_cong:
  "list_all (\<lambda>(a, l). seg mem' a (nat l) = seg mem a (nat l)) fs \<Longrightarrow> contents mem' fs = contents mem fs"
  by (induction fs) (auto simp: contents_def)

lemma contents_put:
  "list_all (apart a (length bs)) fs \<Longrightarrow> a + length bs \<le> length mem \<Longrightarrow> contents (put mem a bs) fs = contents mem fs"
  by (rule contents_cong) (auto simp: list_all_iff apart_def intro!: seg_put)

lemma move_frames_put:
  assumes "moves_ok p fs" and "inside mem fs" and "p + length (contents mem fs) \<le> length mem"
  shows "move_frames mem p fs = Some (put mem p (contents mem fs), p + length (contents mem fs))"
  using assms
proof (induction fs arbitrary: mem p)
  case Nil
  then show ?case by (simp add: contents_def)
next
  case (Cons f fs)
  obtain a l where f: "f = (a, l)" by (cases f)
  define c where "c = seg mem a (nat l)"
  have in0: "a + nat l \<le> length mem" "0 \<le> l" "inside mem fs" using Cons.prems(2) by (simp_all add: inside_def f)
  then have lc: "length c = nat l" by (simp add: c_def)
  have c: "contents mem (f # fs) = c @ contents mem fs" by (simp add: contents_def f c_def)
  have le: "p + length c \<le> length mem" using Cons.prems(3) c by simp
  let ?m = "put mem p c"
  have w: "opus_move mem p a (nat l) = Some ?m"
    using in0 le by (simp add: opus_move_def mem_write_put flip: c_def seg_def)
  have cs: "contents ?m fs = contents mem fs"
    using Cons.prems(1) le lc by (intro contents_put) (simp_all add: f)
  have "move_frames ?m (p + nat l) fs = Some (put ?m (p + nat l) (contents mem fs), p + nat l + length (contents mem fs))"
    unfolding cs [symmetric]
    using Cons.prems in0 le lc cs c by (intro Cons.IH) (simp_all add: f inside_def)
  moreover have "put ?m (p + nat l) (contents mem fs) = put mem p (c @ contents mem fs)"
    using le lc by (intro put_append) simp_all
  ultimately show ?case using w lc by (simp add: f c [unfolded f])
qed

section \<open>The header\<close>

lemma is_vbr:
  assumes "lens \<noteq> []"
  shows "is_vbr lens = vbr_lens lens"
proof -
  obtain l ls where "lens = l # ls" using assms by (cases lens) simp_all
  then show ?thesis by (simp add: is_vbr_def vbr_lens_def list_ex_iff)
qed

lemma length_sd_bytes: "int (length (sd_bytes sd lens)) = (if sd then 1 + of_bool (last lens \<ge> 252) else 0)"
  by (simp add: sd_bytes_def length_encode_size)

lemma out_short_header:
  assumes "lens_ok lens" and "length lens \<le> 2"
  shows "out_short toc lens t maxlen =
    (if t + int (length (short_header toc lens)) + sum_list lens > maxlen then Inl OPUS_BUFFER_TOO_SMALL
     else Inr (t + int (length (short_header toc lens)) + sum_list lens, short_header toc lens))"
proof -
  consider l where "lens = [l]" | l m where "lens = [l, m]"
    using assms by (cases lens; cases "tl lens"; cases "tl (tl lens)") (auto simp: lens_ok_def)
  then show ?thesis
    by cases (simp_all add: out_short_def short_header_def toc_code_def Let_def length_encode_size algebra_simps)
qed

lemma code3_size_header:
  assumes "lens_ok lens"
  shows "code3_size lens = 2 + int (length (if vbr_lens lens then size_bytes (butlast lens) else [])) + sum_list lens"
proof -
  have ne: "lens \<noteq> []" using assms by (simp add: lens_ok_def)
  have "list_all (\<lambda>s. 0 \<le> s) (butlast lens)" using sum_lens(5) [OF assms] by (auto simp: list_all_iff)
  moreover have "sum_list (map (\<lambda>l. 1 + of_bool (252 \<le> l) + l) xs)
      = sum_list (map (\<lambda>l. 1 + of_bool (252 \<le> l)) xs) + sum_list xs" for xs :: "int list"
    by (induction xs) simp_all
  moreover have "\<not> vbr_lens lens \<Longrightarrow> lens ! 0 = last lens"
    using ne unfolding vbr_lens_def by (metis hd_conv_nth last_in_set)
  ultimately show ?thesis
    using length_size_bytes [of "butlast lens"] sum_lens(1) [OF assms] replicate_lens(2) [OF assms]
    by (simp add: code3_size_def is_vbr [OF ne])
qed

lemma length_pad_bytes: "0 < pad \<Longrightarrow> int (length (pad_bytes pad)) = (pad - 1) div 255 + 1"
  by (simp add: pad_bytes_def)

lemma or_disjoint:
  fixes x :: int
  assumes "0 \<le> x" "x < 64"
  shows "x OR 0x80 = x + 0x80" "x OR 0x40 = x + 0x40" "(x + 0x80) OR 0x40 = x + 0xC0"
proof -
  have s: "x AND 0x80 = 0" "x AND 0x40 = 0"
    using assms by (simp add: and_bit7, use and_bit6 [of x] assms in simp)
  have "x AND (0x80 OR 0x40) = 0" unfolding bit.conj_disj_distrib s by simp
  then have s3: "x AND 0xC0 = 0" by simp
  show a: "x OR 0x80 = x + 0x80" "x OR 0x40 = x + 0x40"
    using plus_and_or [of x "0x80"] plus_and_or [of x "0x40"] s by linarith+
  have "(x OR 0x80) OR 0x40 = x OR 0xC0" unfolding or.assoc by simp
  also have "\<dots> = x + 0xC0" using plus_and_or [of x "0xC0"] s3 by linarith
  finally show "(x + 0x80) OR 0x40 = x + 0xC0" unfolding a .
qed

section \<open>Without extensions\<close>

lemma no_extensions:
  assumes "list_all (\<lambda>(p, l). l = 0) ps"
  shows "count_extensions mem ps = Some 0" and "parse_extensions mem ps i n exts = Some (Inr exts)"
proof -
  have "opus_packet_extensions_count d 0 = Some 0" "opus_packet_extensions_parse d 0 c = Some (OPUS_OK, [])" for d c
    by (simp_all add: opus_packet_extensions_count_def opus_packet_extensions_parse_def
      ext_count_loop.simps [of d 0 0] ext_parse_loop.simps [of d 0 0])
  then show "count_extensions mem ps = Some 0" "parse_extensions mem ps i n exts = Some (Inr exts)"
    using assms by (induction ps arbitrary: i) (auto simp: opus_errors)
qed

text \<open>The count byte and the padding length, as they are written one after the other.\<close>

lemma count_byte_first:
  assumes "0 < length lens" and "length lens \<le> 48"
  shows "(if vbr_lens lens then int (length lens) OR 0x80 else int (length lens)) = count_byte lens 0"
    and "0 < pad \<Longrightarrow> count_byte lens 0 OR 0x40 = count_byte lens pad"
  using or_disjoint [of "int (length lens)"] assms by (simp_all add: count_byte_def)

lemma out_padding_plain:
  assumes n: "0 < length lens" "length lens \<le> 48"
    and m: "mem = put mem0 dst [of_int (toc_code toc 3), of_int (count_byte lens 0)]"
    and pa: "0 \<le> pa" and T: "2 \<le> T" "T + pa \<le> maxlen" and le: "dst + nat maxlen \<le> length mem0"
  shows "\<exists>eb ob oe. out_padding mem dst maxlen T 0 pa
      = Some (Inr (put mem0 dst ([of_int (toc_code toc 3), of_int (count_byte lens pa)] @ pad_bytes pa),
          dst + 2 + length (pad_bytes pa), T + pa, 0, eb, ob, oe))
    \<and> (if pa = 0 then ob = 0 \<and> oe = 0 else ob = T + int (length (pad_bytes pa)) \<and> oe = T + pa)"
proof (cases "pa = 0")
  case True
  then show ?thesis by (simp add: out_padding_def m pad_bytes_def)
next
  case False
  define k where "k = (pa - 1) div 255"
  have pos: "0 < pa" using False pa by simp
  have k: "0 \<le> k" "k + 1 \<le> pa" using pos by (simp_all add: k_def)
  have pb: "pad_bytes pa = replicate (nat k) 255 @ [of_int (pa - 255 * k - 1)]"
    using False by (simp add: pad_bytes_def k_def algebra_simps)
  have lpb: "int (length (pad_bytes pa)) = k + 1" using k by (simp add: pb)
  have nat2: "dst + 2 \<le> length mem0" "dst + 2 + length (pad_bytes pa) \<le> length mem0"
    using T le lpb k by linarith+
  have cb: "uint (of_int (count_byte lens 0) :: byte) = count_byte lens 0"
    by (rule count_byte_bits(4) [OF n])
  have b: "byte_at mem (dst + 1) = Some (count_byte lens 0)"
    using nat2 by (simp add: m put_def byte_at_def nth_append cb)
  have w1: "mem_write mem (dst + 1) [of_int (count_byte lens 0 OR 0x40)]
      = Some (put mem0 dst [of_int (toc_code toc 3), of_int (count_byte lens pa)])"
  proof -
    have "put mem (dst + 1) [of_int (count_byte lens pa)]
        = put mem0 dst ([of_int (toc_code toc 3)] @ [of_int (count_byte lens pa)])"
      using nat2 put_put [of dst mem0 "[of_int (count_byte lens 0)]" "[of_int (count_byte lens pa)]" "dst + 1"
        "[of_int (toc_code toc 3)]"] by (simp add: m)
    then show ?thesis using nat2 count_byte_first(2) [OF n pos] by (simp add: mem_write_put m)
  qed
  have w2: "mem_write (put mem0 dst [of_int (toc_code toc 3), of_int (count_byte lens pa)]) (dst + 2) (pad_bytes pa)
      = Some (put mem0 dst ([of_int (toc_code toc 3), of_int (count_byte lens pa)] @ pad_bytes pa))"
    using nat2 by (subst mem_write_put) (simp_all add: put_append)
  have fit: "\<not> T + 0 + k + 1 > maxlen" using k T by simp
  show ?thesis
    using False fit w2 k lpb unfolding out_padding_def b bind.bind_lunit w1 k_def [symmetric] Let_def pb [symmetric]
    by simp
qed

lemma out_code3_plain:
  assumes ok: "lens_ok lens" "length lens \<le> 48"
    and T: "T = t + code3_size lens" "0 \<le> t" "T \<le> maxlen" and le: "dst + nat maxlen \<le> length mem"
    and pa: "pa = (if pad then maxlen - T else 0)" and h: "h = code3_header toc lens pa"
  shows "\<exists>eb ob oe. out_code3 mem dst maxlen toc lens t pad []
      = Some (Inr (put mem dst h, dst + length h, T + pa, 0, eb, ob, oe))
    \<and> (if pa = 0 then ob = 0 \<and> oe = 0 else ob = T + int (length (pad_bytes pa)) \<and> oe = T + pa)
    \<and> t + int (length h) + sum_list lens + (pa - int (length (pad_bytes pa))) = T + pa"
proof -
  define sizes where "sizes = (if vbr_lens lens then size_bytes (butlast lens) else [])"
  have n: "0 < length lens" and ne: "lens \<noteq> []" using ok by (simp_all add: lens_ok_def)
  have c3: "code3_size lens = 2 + int (length sizes) + sum_list lens"
    using code3_size_header [OF ok(1)] by (simp add: sizes_def)
  have T2: "2 \<le> T" "0 \<le> pa" "T + pa \<le> maxlen" "\<not> T > maxlen"
    using T c3 sum_lens(4) [OF ok(1)] pa by auto
  let ?two = "[of_int (toc_code toc 3), of_int (count_byte lens 0)]"
  have w0: "mem_write mem dst ?two = Some (put mem dst ?two)"
    using T2 le by (intro mem_write_put) simp
  have hh: "h = ([of_int (toc_code toc 3), of_int (count_byte lens pa)] @ pad_bytes pa) @ sizes"
    by (simp add: h code3_header_def sizes_def)
  obtain eb ob oe where p: "out_padding (put mem dst ?two) dst maxlen T 0 pa
      = Some (Inr (put mem dst ([of_int (toc_code toc 3), of_int (count_byte lens pa)] @ pad_bytes pa),
          dst + 2 + length (pad_bytes pa), T + pa, 0, eb, ob, oe))"
    and o: "if pa = 0 then ob = 0 \<and> oe = 0 else ob = T + int (length (pad_bytes pa)) \<and> oe = T + pa"
    using out_padding_plain [OF n ok(2) refl T2(2,1,3) le] by blast
  have pb0: "int (length (pad_bytes pa)) \<le> pa" using T2(2) by (auto simp: pad_bytes_def)
  have fits: "dst + length h \<le> length mem"
    using pb0 le T c3 T2 sum_lens(4) [OF ok(1)] by (simp add: hh)
  have w3: "mem_write (put mem dst ([of_int (toc_code toc 3), of_int (count_byte lens pa)] @ pad_bytes pa))
      (dst + 2 + length (pad_bytes pa)) sizes = Some (put mem dst h)"
    using fits unfolding hh by (subst mem_write_put) (simp_all add: put_append)
  have "out_code3 mem dst maxlen toc lens t pad [] = Some (Inr (put mem dst h, dst + length h, T + pa, 0, eb, ob, oe))"
    unfolding out_code3_def T(1) [symmetric] Let_def if_not_P [OF T2(4)]
    using w0 p w3 pa count_byte_first(1) [OF n ok(2)]
    by (auto simp: is_vbr [OF ne] toc_code_def [symmetric] sizes_def size_bytes_def hh split: if_splits)
  then show ?thesis using o by (intro exI [of _ eb] exI [of _ ob] exI [of _ oe]) (simp add: hh T c3)
qed

text \<open>The last part: the explicit length, the frames and the zeros.\<close>

lemma out_finish_plain:
  assumes m: "mem = put mem0 dst h0" and p: "ptr = dst + length h0"
    and h: "h = h0 @ sd_bytes sd (map snd fs)" and ne: "fs \<noteq> []" "inside mem0 fs"
    and tot: "int (length h) + sum_list (map snd fs) + z = tot" "0 \<le> z" "tot \<le> maxlen" "pad \<Longrightarrow> tot = maxlen"
    and ones: "if z = 0 then ob = oe \<and> 0 \<le> ob \<and> ob \<le> maxlen else ob = tot - z \<and> oe = tot" "\<not> pad \<Longrightarrow> z = 0"
    and le: "dst + nat maxlen \<le> length mem0"
    and safe: "list_all (apart dst (length h)) fs" "moves_ok (dst + length h) fs"
  shows "out_finish dst maxlen sd pad fs [] (mem, ptr, tot, 0, eb, ob, oe)
    = Some (tot, put mem0 dst (h @ contents mem0 fs @ replicate (nat z) 0))"
proof -
  define c where "c = contents mem0 fs"
  have lc: "int (length c) = sum_list (map snd fs)" using length_contents [OF ne(2)] by (simp add: c_def)
  have sz: "dst + length h + length c + nat z \<le> length mem0" "0 \<le> tot" using tot le lc by linarith+
  let ?sd = "sd_bytes sd (map snd fs)"
  have w1: "mem_write mem ptr ?sd = Some (put mem0 dst h)"
    using sz unfolding m p h by (subst mem_write_put) (simp_all add: put_append)
  have cc: "contents (put mem0 dst h) fs = c" using safe(1) sz by (simp add: contents_put c_def)
  have ins: "inside (put mem0 dst h) fs" using ne(2) sz by (simp add: inside_def)
  have "move_frames (put mem0 dst h) (dst + length h) fs
    = Some (put (put mem0 dst h) (dst + length h) c, dst + length h + length c)"
    using move_frames_put [OF safe(2) ins] sz unfolding cc by simp
  then have mv: "move_frames (put mem0 dst h) (ptr + length ?sd) fs
      = Some (put mem0 dst (h @ c), dst + length h + length c)"
    using sz by (simp add: put_append p h add.assoc)
  define q where "q = dst + length h + length c"
  have q: "z \<noteq> 0 \<Longrightarrow> dst + nat ob = q" "z \<noteq> 0 \<Longrightarrow> nat (oe - ob) = nat z" "z = 0 \<Longrightarrow> nat (oe - ob) = 0"
    using ones tot lc unfolding q_def by auto
  have w2: "mem_write (put mem0 dst (h @ c)) (dst + nat ob) (replicate (nat (oe - ob)) 1)
      = Some (put mem0 dst ((h @ c) @ replicate (nat z) 1))"
  proof (cases "z = 0")
    case True
    have "dst + nat ob \<le> length mem0" using True ones le by auto
    then show ?thesis using True q sz by (simp add: mem_write_put)
  next
    case False
    then show ?thesis using q sz by (subst mem_write_put) (simp_all add: put_append q_def)
  qed
  have w3: "pad \<Longrightarrow> mem_write (put mem0 dst ((h @ c) @ replicate (nat z) 1)) q (replicate (dst + nat maxlen - q) 0)
      = Some (put mem0 dst ((h @ c) @ replicate (nat z) 0))"
  proof -
    assume pad
    then have "dst + nat maxlen - q = nat z" using tot lc unfolding q_def by auto
    moreover have "put (put mem0 dst ((h @ c) @ replicate (nat z) 1)) q (replicate (nat z) 0)
        = put mem0 dst ((h @ c) @ replicate (nat z) 0)"
      using sz by (intro put_put) (simp_all add: q_def)
    ultimately show ?thesis using sz by (subst mem_write_put) (simp_all add: q_def)
  qed
  have last: "last (map snd fs) = snd (last fs)" using ne(1) by (simp add: last_map)
  have sd: "(if sd then encode_size (snd (last fs)) else []) = ?sd" by (simp add: sd_bytes_def last)
  show ?thesis
    unfolding out_finish_def Let_def prod.case sd w1 bind.bind_lunit mv
    using w2 w3 ones(2) sz by (auto simp: c_def q_def [unfolded c_def, symmetric])
qed

text \<open>The header that is chosen and the number of padding bytes after it.\<close>

definition short_size :: "int \<Rightarrow> int list \<Rightarrow> bool \<Rightarrow> int" where
  "short_size toc lens sd = int (length (short_header toc lens @ sd_bytes sd lens)) + sum_list lens"

definition uses_code3 :: "int \<Rightarrow> int list \<Rightarrow> bool \<Rightarrow> bool \<Rightarrow> int \<Rightarrow> bool" where
  "uses_code3 toc lens sd pad maxlen \<longleftrightarrow> length lens > 2 \<or> pad \<and> short_size toc lens sd < maxlen"

definition code3_total :: "int list \<Rightarrow> bool \<Rightarrow> int" where
  "code3_total lens sd = int (length (sd_bytes sd lens)) + code3_size lens"

definition pad_amount :: "int list \<Rightarrow> bool \<Rightarrow> bool \<Rightarrow> int \<Rightarrow> int" where
  "pad_amount lens sd pad maxlen = (if pad then maxlen - code3_total lens sd else 0)"

definition out_header :: "int \<Rightarrow> int list \<Rightarrow> bool \<Rightarrow> bool \<Rightarrow> int \<Rightarrow> byte list" where
  "out_header toc lens sd pad maxlen =
    (if uses_code3 toc lens sd pad maxlen then code3_header toc lens (pad_amount lens sd pad maxlen)
     else short_header toc lens) @ sd_bytes sd lens"

definition out_zeros :: "int \<Rightarrow> int list \<Rightarrow> bool \<Rightarrow> bool \<Rightarrow> int \<Rightarrow> int" where
  "out_zeros toc lens sd pad maxlen =
    (if uses_code3 toc lens sd pad maxlen
     then pad_amount lens sd pad maxlen - int (length (pad_bytes (pad_amount lens sd pad maxlen))) else 0)"

definition out_fits :: "int \<Rightarrow> int list \<Rightarrow> bool \<Rightarrow> bool \<Rightarrow> int \<Rightarrow> bool" where
  "out_fits toc lens sd pad maxlen \<longleftrightarrow>
    (if uses_code3 toc lens sd pad maxlen then code3_total lens sd else short_size toc lens sd) \<le> maxlen"

lemma out_zeros_nonneg:
  assumes "out_fits toc lens sd pad maxlen"
  shows "0 \<le> out_zeros toc lens sd pad maxlen"
  using assms by (auto simp: out_zeros_def out_fits_def pad_amount_def pad_bytes_def)

lemma short_le_code3:
  assumes "lens_ok lens" and "length lens \<le> 2"
  shows "int (length (short_header toc lens)) + sum_list lens \<le> code3_size lens"
    and "length (short_header toc lens) \<le> length (code3_header toc lens pa)"
proof -
  consider l where "lens = [l]" | l m where "lens = [l, m]"
    using assms by (cases lens; cases "tl lens"; cases "tl (tl lens)") (auto simp: lens_ok_def)
  then show "int (length (short_header toc lens)) + sum_list lens \<le> code3_size lens"
    "length (short_header toc lens) \<le> length (code3_header toc lens pa)"
    unfolding code3_size_header [OF assms(1)]
    by (cases; simp add: short_header_def vbr_lens_def size_bytes_def code3_header_def)+
qed

lemma out_plain:
  assumes ok: "lens_ok (map snd fs)" "length fs \<le> 48"
    and rp: "0 \<le> first" "first < stop" "stop \<le> int (rp_nb_frames rp)"
      "rp_slice first stop (rp_len rp) = map snd fs"
      "rp_slice first stop (zip (rp_frames rp) (rp_len rp)) = fs"
      "list_all (\<lambda>(p, l). l = 0) (rp_slice first stop (zip (rp_paddings rp) (rp_padding_len rp)))"
    and fits: "out_fits (rp_toc rp) (map snd fs) sd pad maxlen" and le: "dst + nat maxlen \<le> length mem"
    and h: "h = out_header (rp_toc rp) (map snd fs) sd pad maxlen"
    and z: "z = out_zeros (rp_toc rp) (map snd fs) sd pad maxlen"
    and ins: "inside mem fs" and safe: "list_all (apart dst (length h)) fs" "moves_ok (dst + length h) fs"
  shows "opus_repacketizer_out_range_impl mem rp first stop dst maxlen sd pad []
    = Some (int (length h) + sum_list (map snd fs) + z,
        put mem dst (h @ contents mem fs @ replicate (nat z) 0))
    \<and> (pad \<longrightarrow> int (length h) + sum_list (map snd fs) + z = maxlen)"
proof -
  define lens where "lens = map snd fs"
  define toc where "toc = rp_toc rp"
  define t where "t = int (length (sd_bytes sd lens))"
  have ne: "lens \<noteq> []" "fs \<noteq> []" using ok(1) by (auto simp: lens_ok_def lens_def)
  have tt: "(if sd then 1 + of_bool (last lens \<ge> 252) else 0) = t" by (simp add: t_def length_sd_bytes)
  note defs = uses_code3_def out_header_def out_zeros_def out_fits_def short_size_def code3_total_def
  have bg: "\<not> (first < 0 \<or> first \<ge> stop \<or> stop > int (rp_nb_frames rp))" using rp by simp
  have ok': "lens_ok lens" "length lens \<le> 48" using ok by (simp_all add: lens_def)
  note ext = no_extensions [OF rp(6)]
  have S0: "length lens > 2 \<Longrightarrow> short_header toc lens = []"
    by (auto simp: short_header_def split: list.splits)
  show ?thesis
  proof (cases "uses_code3 toc lens sd pad maxlen")
    case c3: True
    let ?T = "t + code3_size lens" and ?s = "short_header toc lens"
    define pa where "pa = (if pad then maxlen - ?T else 0)"
    have pa': "pad_amount lens sd pad maxlen = pa" by (simp add: pa_def pad_amount_def code3_total_def t_def)
    have T: "?T \<le> maxlen" "0 \<le> t" using fits c3 by (simp_all add: out_fits_def toc_def lens_def code3_total_def t_def)
    define h0 where "h0 = code3_header toc lens pa"
    have hh: "h = h0 @ sd_bytes sd lens" using c3 by (simp add: h out_header_def pa' h0_def toc_def lens_def [symmetric])
    have zz: "z = pa - int (length (pad_bytes pa))" using c3 by (simp add: z out_zeros_def pa' toc_def lens_def [symmetric])
    have short: "out_short toc lens t maxlen = Inr (t + int (length ?s) + (if length lens \<le> 2 then sum_list lens else 0), ?s)
      \<and> length ?s \<le> length h0"
    proof (cases "length lens \<le> 2")
      case True
      have "\<not> t + int (length ?s) + sum_list lens > maxlen"
        using short_le_code3(1) [OF ok'(1) True, of toc] T by linarith
      then show ?thesis using out_short_header [OF ok'(1) True] short_le_code3(2) [OF ok'(1) True] True
        by (simp add: h0_def)
    next
      case False
      then show ?thesis using S0 ok' by (auto simp: out_short_def)
    qed
    have cond: "length lens > 2 \<or> pad \<and> t + int (length ?s) + (if length lens \<le> 2 then sum_list lens else 0) < maxlen"
      using c3 by (auto simp: uses_code3_def short_size_def t_def)
    have le2: "dst + nat maxlen \<le> length (put mem dst ?s)" and ws: "mem_write mem dst ?s = Some (put mem dst ?s)"
      and fits0: "dst + length ?s \<le> length mem"
    proof -
      have "int (length ?s) \<le> maxlen"
        using short_le_code3(1) [OF ok'(1), of toc] S0 T sum_lens(4) [OF ok'(1)] code3_size_header [OF ok'(1)]
        by (cases "length lens \<le> 2") auto
      then show f: "dst + length ?s \<le> length mem" using le by linarith
      then show "dst + nat maxlen \<le> length (put mem dst ?s)" "mem_write mem dst ?s = Some (put mem dst ?s)"
        using le by (simp_all add: mem_write_put)
    qed
    obtain eb ob oe where c: "out_code3 (put mem dst ?s) dst maxlen toc lens t pad []
        = Some (Inr (put (put mem dst ?s) dst h0, dst + length h0, ?T + pa, 0, eb, ob, oe))"
      and o: "if pa = 0 then ob = 0 \<and> oe = 0 else ob = ?T + int (length (pad_bytes pa)) \<and> oe = ?T + pa"
      and tot: "t + int (length h0) + sum_list lens + (pa - int (length (pad_bytes pa))) = ?T + pa"
      using out_code3_plain [OF ok' refl T(2,1) le2 pa_def h0_def] by blast
    have pp: "put (put mem dst ?s) dst h0 = put mem dst h0"
      using put_put [of dst mem ?s h0 dst "[]"] short fits0 by simp
    have pa0: "0 \<le> pa" "?T + pa \<le> maxlen" "int (length (pad_bytes pa)) \<le> pa" "pad \<Longrightarrow> ?T + pa = maxlen"
      using T by (auto simp: pa_def pad_bytes_def)
    have fin: "out_finish dst maxlen sd pad fs [] (put mem dst h0, dst + length h0, ?T + pa, 0, eb, ob, oe)
      = Some (?T + pa, put mem dst (h @ contents mem fs @ replicate (nat z) 0))"
    proof (rule out_finish_plain [OF refl refl _ ne(2) ins _ _ _ _ _ _ le safe])
      show "h = h0 @ sd_bytes sd (map snd fs)" by (simp add: hh lens_def)
      show "int (length h) + sum_list (map snd fs) + z = ?T + pa"
        using tot by (simp add: hh zz t_def lens_def)
      have T0: "0 \<le> ?T" using code3_size_header [OF ok'(1)] sum_lens(4) [OF ok'(1)] T by simp
      show "if z = 0 then ob = oe \<and> 0 \<le> ob \<and> ob \<le> maxlen else ob = ?T + pa - z \<and> oe = ?T + pa"
        using o pa0 zz T0 by (cases "pa = 0") auto
      show "\<not> pad \<Longrightarrow> z = 0" by (simp add: zz pa_def pad_bytes_def)
    qed (use pa0 zz in simp_all)
    have val: "int (length h) + sum_list lens + z = ?T + pa" using tot by (simp add: hh zz t_def)
    show ?thesis
      unfolding opus_repacketizer_out_range_impl_def if_not_P [OF bg] Let_def rp(4,5) ext bind.bind_lunit
        sum.case lens_def [symmetric] toc_def [symmetric] tt val
      using short ws cond c fin pp pa0(4) by simp
  next
    case F: False
    let ?s = "short_header toc lens"
    have l2: "length lens \<le> 2" using F by (simp add: uses_code3_def)
    have hh: "h = ?s @ sd_bytes sd lens" and zz: "z = 0"
      using F by (simp_all add: h z out_header_def out_zeros_def toc_def lens_def)
    have S: "t + int (length ?s) + sum_list lens \<le> maxlen"
      using fits F by (simp add: out_fits_def short_size_def toc_def lens_def t_def)
    have short: "out_short toc lens t maxlen = Inr (t + int (length ?s) + sum_list lens, ?s)"
      using out_short_header [OF ok'(1) l2] S by simp
    have padS: "pad \<Longrightarrow> t + int (length ?s) + sum_list lens = maxlen"
      using F S by (auto simp: uses_code3_def short_size_def t_def)
    have cond: "\<not> (length lens > 2 \<or> pad \<and> t + int (length ?s) + sum_list lens < maxlen)"
      using F padS by (auto simp: uses_code3_def)
    have ws: "mem_write mem dst ?s = Some (put mem dst ?s)"
      using S le sum_lens(4) [OF ok'(1)] by (intro mem_write_put) (simp add: t_def)
    have fin: "out_finish dst maxlen sd pad fs [] (put mem dst ?s, dst + length ?s, t + int (length ?s) + sum_list lens, 0, 0, 0, 0)
      = Some (t + int (length ?s) + sum_list lens, put mem dst (h @ contents mem fs @ replicate (nat z) 0))"
    proof (rule out_finish_plain [OF refl refl _ ne(2) ins _ _ S padS _ _ le safe])
      show "h = ?s @ sd_bytes sd (map snd fs)" by (simp add: hh lens_def)
      show "int (length h) + sum_list (map snd fs) + z = t + int (length ?s) + sum_list lens"
        by (simp add: hh zz t_def lens_def)
      show "if z = 0 then (0 :: int) = 0 \<and> 0 \<le> (0 :: int) \<and> 0 \<le> maxlen else 0 = t + int (length ?s) + sum_list lens - z \<and> 0 = t + int (length ?s) + sum_list lens"
        using S sum_lens(4) [OF ok'(1)] by (simp add: zz t_def)
    qed (simp_all add: zz)
    have val: "int (length h) + sum_list lens + z = t + int (length ?s) + sum_list lens" by (simp add: hh zz t_def)
    show ?thesis
      unfolding opus_repacketizer_out_range_impl_def if_not_P [OF bg] Let_def rp(4,5) ext bind.bind_lunit
        sum.case lens_def [symmetric] toc_def [symmetric] tt short prod.case ws if_not_P [OF cond] val
      using fin padS cond by auto
  qed
qed

end
