(* ===== verification/Repacketizer_Use.thy ===== *)
theory Repacketizer_Use
  imports Repacketizer_Correct
begin

text \<open>
  The repacketizer from outside: the invariant of its state, what \<open>cat\<close> adds, the packet
  that \<open>out\<close> writes and how it parses, and padding and unpadding of whole packets.
\<close>

section \<open>Frames of a packet and of the state\<close>

definition packet_frames :: "nat \<Rightarrow> opus_frames \<Rightarrow> (nat \<times> int) list" where
  "packet_frames data f = zip (map ((+) data) (fr_frames f)) (fr_size f)"

definition frame_list :: "byte list \<Rightarrow> (nat \<times> int) list \<Rightarrow> byte list list" where
  "frame_list mem fs = map (\<lambda>(a, l). seg mem a (nat l)) fs"

lemma contents_frame_list: "contents mem fs = concat (frame_list mem fs)"
  by (simp add: contents_def frame_list_def)

text \<open>Consecutive blocks, as the parser finds them.\<close>

definition blocks :: "nat \<Rightarrow> nat \<Rightarrow> int list \<Rightarrow> (nat \<times> int) list" where
  "blocks data p lens = zip (map ((+) data) (fst (frame_offsets p lens))) lens"

lemma blocks_simps [simp]:
  "blocks data p [] = []" "blocks data p (l # ls) = (data + p, l) # blocks data (p + nat l) ls"
  by (simp_all add: blocks_def)

lemma packet_frames_blocks:
  "frames_ok len sd f \<Longrightarrow> packet_frames data f = blocks data (fr_payload_offset f) (fr_size f)"
  unfolding frames_ok_def packet_frames_def blocks_def by (metis fst_conv)

lemma packet_frames_parsed: "packet_frames data (parsed toc lens p pad) = blocks data p lens"
  by (simp add: packet_frames_def blocks_def parsed_def split_def Let_def)

lemma snd_blocks [simp]: "map snd (blocks data p lens) = lens"
  by (simp add: blocks_def length_frame_offsets)

lemma length_blocks [simp]: "length (blocks data p lens) = length lens"
  by (simp add: blocks_def length_frame_offsets)

lemma blocks_above: "list_all (\<lambda>(a, l). data + p \<le> a) (blocks data p lens)"
proof (induction lens arbitrary: p)
  case (Cons l ls)
  from Cons.IH [of "p + nat l"] show ?case by (auto simp: list_all_iff)
qed simp

lemma blocks_inside:
  "list_all (\<lambda>s. 0 \<le> s) lens \<Longrightarrow> data + p + nat (sum_list lens) \<le> length mem \<Longrightarrow> inside mem (blocks data p lens)"
proof (induction lens arbitrary: p)
  case (Cons l ls)
  have "0 \<le> sum_list ls" using Cons.prems(1) by (intro sum_list_nonneg) (simp add: list_all_iff)
  then show ?case using Cons.prems Cons.IH [of "p + nat l"] by (simp add: inside_def nat_add_distrib)
qed (simp add: inside_def)

lemma blocks_moves: "q \<le> data + p \<Longrightarrow> moves_ok q (blocks data p lens)"
proof (induction lens arbitrary: p q)
  case (Cons l ls)
  have "list_all (apart q (nat l)) (blocks data (p + nat l) ls)"
    using blocks_above [of data "p + nat l" ls] Cons.prems by (auto simp: list_all_iff apart_def)
  then show ?case using Cons.prems Cons.IH [of "q + nat l" "p + nat l"] by simp
qed simp

lemma blocks_apart: "a + n \<le> data + p \<Longrightarrow> list_all (apart a n) (blocks data p lens)"
  using blocks_above [of data p lens] by (auto simp: list_all_iff apart_def)

lemma blocks_contents:
  assumes "map (\<lambda>c. int (length c)) cs = lens" and "seg mem (data + p) (length (concat cs)) = concat cs"
  shows "frame_list mem (blocks data p lens) = cs"
  using assms
proof (induction cs arbitrary: p lens)
  case (Cons c cs)
  obtain ls where l: "lens = int (length c) # ls" "map (\<lambda>c. int (length c)) cs = ls" using Cons.prems(1) by auto
  have "take (length c) (seg mem (data + p) (length (concat (c # cs)))) = c"
    "drop (length c) (seg mem (data + p) (length (concat (c # cs)))) = concat cs"
    unfolding Cons.prems(2) by simp_all
  then have "seg mem (data + p) (length c) = c" "seg mem (data + (p + length c)) (length (concat cs)) = concat cs"
    by (simp_all add: seg_def min_def drop_take add.commute add.left_commute)
  then show ?case using Cons.IH [OF l(2)] l by (simp add: frame_list_def)
qed (simp add: frame_list_def)

section \<open>The invariant\<close>

definition rp_fs :: "OpusRepacketizer \<Rightarrow> (nat \<times> int) list" where
  "rp_fs rp = take (rp_nb_frames rp) (zip (rp_frames rp) (rp_len rp))"

definition rp_ok :: "byte list \<Rightarrow> OpusRepacketizer \<Rightarrow> bool" where
  "rp_ok mem rp \<longleftrightarrow>
     rp_nb_frames rp \<le> length (rp_frames rp) \<and> rp_nb_frames rp \<le> length (rp_len rp)
     \<and> rp_nb_frames rp \<le> length (rp_paddings rp) \<and> rp_nb_frames rp \<le> length (rp_padding_len rp)
     \<and> (rp_nb_frames rp \<noteq> 0 \<longrightarrow> 0 \<le> rp_toc rp \<and> rp_toc rp < 256
         \<and> rp_framesize rp = opus_packet_get_samples_per_frame (rp_toc rp) 8000
         \<and> int (rp_nb_frames rp) * rp_framesize rp \<le> 960)
     \<and> list_all (\<lambda>(a, l). 0 \<le> l \<and> l \<le> 1275 \<and> a + nat l \<le> length mem) (rp_fs rp)
     \<and> list_all (\<lambda>(p, l). 0 \<le> l \<and> (l = 0 \<or> p + nat l \<le> length mem))
         (take (rp_nb_frames rp) (zip (rp_paddings rp) (rp_padding_len rp)))"

lemma rp_ok_new: "rp_ok mem rp_new"
  by (simp add: rp_ok_def rp_new_def opus_repacketizer_init_def rp_fs_def)

lemma rp_ok_init: "rp_ok mem rp \<Longrightarrow> rp_ok mem (opus_repacketizer_init rp)"
  by (simp add: rp_ok_def opus_repacketizer_init_def rp_fs_def)

lemma samples_8000: "0 \<le> toc \<Longrightarrow> toc < 256 \<Longrightarrow> opus_packet_get_samples_per_frame toc 8000 \<ge> 20
    \<and> opus_packet_get_samples_per_frame toc 8000 * 6 = opus_packet_get_samples_per_frame toc 48000"
  using samples_scaled [of 6 toc] samples_per_frame [of toc] by auto

lemma rp_ok_frames:
  assumes "rp_ok mem rp"
  shows "length (rp_fs rp) = rp_nb_frames rp" "rp_nb_frames rp \<le> 48" "inside mem (rp_fs rp)"
proof -
  show "length (rp_fs rp) = rp_nb_frames rp" "inside mem (rp_fs rp)"
    using assms by (auto simp: rp_ok_def rp_fs_def inside_def list_all_iff)
  show "rp_nb_frames rp \<le> 48"
  proof (cases "rp_nb_frames rp = 0")
    case False
    then have "20 \<le> rp_framesize rp" "int (rp_nb_frames rp) * rp_framesize rp \<le> 960"
      using assms samples_8000 by (auto simp: rp_ok_def)
    then have "int (rp_nb_frames rp) * 20 \<le> 960" by (meson mult_left_mono of_nat_0_le_iff order_trans)
    then show ?thesis by simp
  qed simp
qed

section \<open>Adding a packet\<close>

lemma byte_at_drop: "byte_at (drop data mem) 0 = byte_at mem data" if "data \<le> length mem"
  using that by (simp add: byte_at_def)

lemma cat_steps:
  assumes len: "1 \<le> len" "int data + len \<le> int (length mem)"
  shows "\<exists>b. byte_at mem data = Some b \<and> 0 \<le> b \<and> b < 256 \<and> byte_at (drop data mem) 0 = Some b
    \<and> len \<le> int (length (drop data mem))"
proof -
  have b: "byte_at mem data = Some (uint (mem ! data))" using len by (intro byte_at_Some) simp
  then show ?thesis using byte_at_bounds [OF b] byte_at_drop [of data mem] len by auto
qed

definition mark_toc :: "int \<Rightarrow> OpusRepacketizer \<Rightarrow> OpusRepacketizer" where
  "mark_toc b rp = (if rp_nb_frames rp = 0
     then rp\<lparr>rp_toc := b, rp_framesize := opus_packet_get_samples_per_frame b 8000\<rparr> else rp)"

lemma mark_toc_simps [simp]:
  "rp_nb_frames (mark_toc b rp) = rp_nb_frames rp" "rp_frames (mark_toc b rp) = rp_frames rp"
  "rp_len (mark_toc b rp) = rp_len rp" "rp_paddings (mark_toc b rp) = rp_paddings rp"
  "rp_padding_len (mark_toc b rp) = rp_padding_len rp" "rp_fs (mark_toc b rp) = rp_fs rp"
  by (simp_all add: mark_toc_def rp_fs_def)

lemma rp_ok_mark: "rp_ok mem rp \<Longrightarrow> rp_ok mem (mark_toc b rp)"
  by (cases "rp_nb_frames rp = 0") (simp add: rp_ok_def, simp add: mark_toc_def)

lemma zip_take_append:
  "n \<le> length xs \<Longrightarrow> n \<le> length ys \<Longrightarrow> zip (take n xs @ us) (take n ys @ vs) = take n (zip xs ys) @ zip us vs"
  by (simp add: zip_append1 take_zip)

lemma rp_store_ok:
  assumes ok: "rp_ok mem rp" and f: "frames_ok len sd f" and l: "int data + len \<le> int (length mem)"
    and toc: "0 \<le> rp_toc rp" "rp_toc rp < 256" "rp_framesize rp = opus_packet_get_samples_per_frame (rp_toc rp) 8000"
    and n: "(int (fr_count f) + int (rp_nb_frames rp)) * rp_framesize rp \<le> 960"
  shows "rp_ok mem (rp_store data f (int (fr_count f)) rp)"
    and "rp_fs (rp_store data f (int (fr_count f)) rp) = rp_fs rp @ packet_frames data f"
proof -
  define c where "c = fr_count f"
  have c: "0 < c" "length (fr_size f) = c" using f by (simp_all add: frames_ok_def c_def)
  have lf: "length (fr_frames f) = c"
    using f c unfolding frames_ok_def by (metis fst_conv length_frame_offsets)
  have sizes: "list_all (\<lambda>s. 0 \<le> s \<and> s \<le> 1275) (fr_size f)" using f by (simp add: frames_ok_def)
  then have nn: "list_all (\<lambda>s. 0 \<le> s) (fr_size f)" by (auto simp: list_all_iff)
  then have sum0: "0 \<le> sum_list (fr_size f)" by (intro sum_list_nonneg) (simp add: list_all_iff)
  have q: "int (fr_padding f) = int (fr_payload_offset f) + sum_list (fr_size f)"
    using f frame_offsets_end [OF nn] unfolding frames_ok_def by (metis snd_conv)
  have po: "int (fr_padding f) + fr_padding_len f \<le> len" "0 \<le> fr_padding_len f"
    using f by (auto simp: frames_ok_def split: if_splits)
  have ins: "inside mem (packet_frames data f)"
    unfolding packet_frames_blocks [OF f] using q po l sum0 by (intro blocks_inside nn) linarith
  define rp' where "rp' = rp_store data f (int (fr_count f)) rp"
  have nb: "rp_nb_frames rp \<le> length (rp_frames rp)" "rp_nb_frames rp \<le> length (rp_len rp)"
    "rp_nb_frames rp \<le> length (rp_paddings rp)" "rp_nb_frames rp \<le> length (rp_padding_len rp)"
    using ok by (simp_all add: rp_ok_def)
  have s: "rp_nb_frames rp' = rp_nb_frames rp + c" "rp_toc rp' = rp_toc rp" "rp_framesize rp' = rp_framesize rp"
    "rp_frames rp' = take (rp_nb_frames rp) (rp_frames rp) @ map ((+) data) (fr_frames f)"
    "rp_len rp' = take (rp_nb_frames rp) (rp_len rp) @ fr_size f"
    "rp_paddings rp' = take (rp_nb_frames rp) (rp_paddings rp) @ (data + fr_padding f) # replicate (c - 1) 0"
    "rp_padding_len rp' = take (rp_nb_frames rp) (rp_padding_len rp) @ fr_padding_len f # replicate (c - 1) 0"
    by (simp_all add: rp'_def rp_store_def c_def Let_def)
  show fs: "rp_fs (rp_store data f (int (fr_count f)) rp) = rp_fs rp @ packet_frames data f"
    unfolding rp'_def [symmetric] rp_fs_def s zip_take_append [OF nb(1,2)]
    using nb c lf by (simp add: packet_frames_def)
  have "list_all (\<lambda>(a, l). 0 \<le> l \<and> l \<le> 1275 \<and> a + nat l \<le> length mem) (packet_frames data f)"
    using ins sizes unfolding inside_def packet_frames_def by (auto simp: list_all_iff dest: set_zip_rightD)
  then have A: "list_all (\<lambda>(a, l). 0 \<le> l \<and> l \<le> 1275 \<and> a + nat l \<le> length mem) (rp_fs rp')"
    using ok unfolding rp'_def fs by (simp add: rp_ok_def)
  have P: "zip (rp_paddings rp') (rp_padding_len rp')
      = take (rp_nb_frames rp) (zip (rp_paddings rp) (rp_padding_len rp)) @ (data + fr_padding f, fr_padding_len f) # replicate (c - 1) (0, 0)"
    unfolding s zip_take_append [OF nb(3,4)] by (simp add: zip_replicate)
  have "data + fr_padding f + nat (fr_padding_len f) \<le> length mem" using po l by linarith
  then have B: "list_all (\<lambda>(p, l). 0 \<le> l \<and> (l = 0 \<or> p + nat l \<le> length mem)) (zip (rp_paddings rp') (rp_padding_len rp'))"
    unfolding P using ok po by (auto simp: rp_ok_def list_all_iff)
  show "rp_ok mem (rp_store data f (int (fr_count f)) rp)"
    unfolding rp'_def [symmetric] rp_ok_def
    using nb c lf toc n A B s by (auto simp: c_def algebra_simps list_all_iff dest: in_set_takeD)
qed

lemma cat_ok:
  assumes ok: "rp_ok mem rp" and l: "1 \<le> len" "int data + len \<le> int (length mem)"
  shows "\<exists>ret rp'. opus_repacketizer_cat_impl mem rp data len sd = Some (ret, rp') \<and> rp_ok mem rp'
    \<and> (if ret = OPUS_OK then \<exists>f. opus_packet_parse_impl (drop data mem) len sd = Some (Inr f)
           \<and> rp_fs rp' = rp_fs rp @ packet_frames data f
       else ret = OPUS_INVALID_PACKET \<and> rp_fs rp' = rp_fs rp)"
proof -
  obtain b where b: "byte_at mem data = Some b" "0 \<le> b" "b < 256" "byte_at (drop data mem) 0 = Some b"
    "len \<le> int (length (drop data mem))" using cat_steps [OF l] by blast
  have l0: "0 < len" "\<not> len < 1" using l by simp_all
  obtain r where r: "opus_packet_parse_impl (drop data mem) len sd = Some r"
    "case r of Inl e \<Rightarrow> e = OPUS_INVALID_PACKET | Inr f \<Rightarrow> frames_ok len sd f \<and> byte_at (drop data mem) 0 = Some (fr_toc f)"
    using parse_impl_ok [OF l0(1) b(5), of sd] by (auto simp: parses_def)
  define rpm where "rpm = mark_toc b rp"
  have okm: "rp_ok mem rpm" "rp_fs rpm = rp_fs rp" "rp_nb_frames rpm = rp_nb_frames rp"
    using rp_ok_mark [OF ok] by (simp_all add: rpm_def)
  have "1 < len \<Longrightarrow> byte_at (drop data mem) 1 \<noteq> None" using b(5) by (simp add: byte_at_def)
  then have "opus_packet_get_nb_frames (drop data mem) len \<noteq> None"
    using l0 b(4) by (auto simp: opus_packet_get_nb_frames_def Let_def)
  then obtain cnt where cnt: "opus_packet_get_nb_frames (drop data mem) len = Some cnt" by blast
  note def = opus_repacketizer_cat_impl_def [of mem rp data len sd, unfolded if_not_P [OF l0(2)] b(1) bind.bind_lunit
    mark_toc_def [symmetric] rpm_def [symmetric] Let_def cnt]
  consider (toc) "rp_nb_frames rp \<noteq> 0 \<and> rp_toc rp AND 0xFC \<noteq> b AND 0xFC"
    | (few) "\<not> (rp_nb_frames rp \<noteq> 0 \<and> rp_toc rp AND 0xFC \<noteq> b AND 0xFC)" "cnt < 1 \<or> (cnt + int (rp_nb_frames rpm)) * rp_framesize rpm > 960"
    | (go) "\<not> (rp_nb_frames rp \<noteq> 0 \<and> rp_toc rp AND 0xFC \<noteq> b AND 0xFC)" "\<not> cnt < 1" "\<not> (cnt + int (rp_nb_frames rpm)) * rp_framesize rpm > 960"
    by blast
  then show ?thesis
  proof cases
    case toc
    then show ?thesis using ok by (simp add: def opus_errors)
  next
    case few
    then show ?thesis using okm by (auto simp: def opus_errors)
  next
    case go
    show ?thesis
    proof (cases r)
      case (Inl e)
      then show ?thesis using go r okm by (auto simp: def opus_errors)
    next
      case (Inr f)
      have c: "cnt = int (fr_count f)"
        using nb_frames_header [of "drop data mem"] parse_impl_count [of "drop data mem" len sd f] r(1) Inr cnt by auto
      have toc: "0 \<le> rp_toc rpm" "rp_toc rpm < 256" "rp_framesize rpm = opus_packet_get_samples_per_frame (rp_toc rpm) 8000"
        using ok b by (auto simp: rpm_def mark_toc_def rp_ok_def)
      have "rp_ok mem (rp_store data f cnt rpm)" "rp_fs (rp_store data f cnt rpm) = rp_fs rp @ packet_frames data f"
        using rp_store_ok [OF okm(1) _ l(2) toc, of sd f] r(2) Inr go(3) okm(2) unfolding c by simp_all
      then show ?thesis using go r(1) Inr by (auto simp: def)
    qed
  qed
qed

section \<open>Writing a packet\<close>

lemma drop_put: "a \<le> length mem \<Longrightarrow> drop a (put mem a bs) = bs @ drop (a + length bs) mem"
  by (simp add: put_def)

lemma samples_limit:
  assumes "0 \<le> toc" "toc < 256" "int n * opus_packet_get_samples_per_frame toc 8000 \<le> 960"
  shows "opus_packet_get_samples_per_frame toc 48000 * int n \<le> 5760"
proof -
  have "opus_packet_get_samples_per_frame toc 48000 * int n = 6 * (int n * opus_packet_get_samples_per_frame toc 8000)"
    using samples_8000 [OF assms(1,2)] by (metis mult.assoc mult.commute)
  then show ?thesis using assms(3) by linarith
qed

text \<open>A header that was written is parsed back.\<close>

lemma parse_out_header:
  assumes ok: "lens_ok lens" "length lens \<le> 48"
    and fs: "opus_packet_get_samples_per_frame toc 48000 * int (length lens) \<le> 5760"
    and toc: "0 \<le> toc" "toc < 256" and fits: "out_fits toc lens sd pad maxlen"
    and h: "h = out_header toc lens sd pad maxlen" and z: "z = out_zeros toc lens sd pad maxlen"
  shows "\<exists>k \<in> {0, 1, 2, 3}. \<forall>len rest. packet_len sd h lens z len \<longrightarrow>
    opus_packet_parse_impl (h @ rest) len sd = Some (Inr (parsed (toc_code toc k) lens (length h) z))"
proof (cases "uses_code3 toc lens sd pad maxlen")
  case True
  have pa: "0 \<le> pad_amount lens sd pad maxlen" using fits True by (simp add: out_fits_def pad_amount_def)
  have "opus_packet_parse_impl (h @ rest) len sd = Some (Inr (parsed (toc_code toc 3) lens (length h) z))"
    if "packet_len sd h lens z len" for len rest
    using True that unfolding z out_zeros_def if_P [OF True]
    by (intro parse_code3_header [OF ok fs toc pa]) (simp_all add: h out_header_def)
  then show ?thesis by blast
next
  case False
  then have l2: "length lens \<le> 2" by (simp add: uses_code3_def)
  have v: "z = 0" "h = short_header toc lens @ sd_bytes sd lens" using False by (simp_all add: z h out_header_def out_zeros_def)
  consider l where "lens = [l]" | l where "lens = [l, l]" | l m where "lens = [l, m]" "m \<noteq> l"
    using ok l2 by (cases lens; cases "tl lens"; cases "tl (tl lens)") (auto simp: lens_ok_def)
  then show ?thesis
    using parse_one_frame [OF ok(1) _ toc] parse_two_equal [OF ok(1) _ toc] parse_two_frames [OF ok(1) _ toc]
    by cases (force simp: v short_header_def)+
qed

text \<open>
  A packet of exactly the bytes \<open>bs\<close> with the given frames: whatever follows in the memory,
  the parser finds these frames and stops at the end of \<open>bs\<close>; a self-delimited packet is
  found so in every larger area too.
\<close>

definition is_packet :: "byte list \<Rightarrow> bool \<Rightarrow> int \<Rightarrow> byte list list \<Rightarrow> bool" where
  "is_packet bs sd toc frames \<longleftrightarrow>
    (\<exists>f. (\<forall>len rest. (if sd then int (length bs) \<le> len else len = int (length bs))
           \<longrightarrow> opus_packet_parse_impl (bs @ rest) len sd = Some (Inr f))
       \<and> fr_toc f AND 0xFC = toc AND 0xFC \<and> frame_list bs (packet_frames 0 f) = frames
       \<and> fr_packet_offset f = int (length bs))"

text \<open>Nothing changed outside the block of \<open>n\<close> bytes at \<open>a\<close>.\<close>

definition only_changes :: "byte list \<Rightarrow> byte list \<Rightarrow> nat \<Rightarrow> nat \<Rightarrow> bool" where
  "only_changes mem mem' a n \<longleftrightarrow> length mem' = length mem \<and> take a mem' = take a mem \<and> drop (a + n) mem' = drop (a + n) mem"

lemma only_changes_put:
  "a + length bs \<le> length mem \<Longrightarrow> length bs \<le> n \<Longrightarrow> only_changes mem (put mem a bs) a n"
  by (simp add: only_changes_def put_def drop_drop add.commute)

lemma frame_lengths:
  "inside mem fs \<Longrightarrow> map (\<lambda>c. int (length c)) (frame_list mem fs) = map snd fs"
  by (induction fs) (auto simp: frame_list_def inside_def)

lemma written_packet:
  assumes ok: "lens_ok (map snd fs)" "length fs \<le> 48" "inside mem fs"
    and fs: "opus_packet_get_samples_per_frame toc 48000 * int (length fs) \<le> 5760"
    and toc: "0 \<le> toc" "toc < 256" and fits: "out_fits toc (map snd fs) sd pad maxlen"
    and h: "h = out_header toc (map snd fs) sd pad maxlen" and z: "z = out_zeros toc (map snd fs) sd pad maxlen"
    and bs: "bs = h @ contents mem fs @ replicate (nat z) 0"
  shows "is_packet bs sd toc (frame_list mem fs)" and "int (length bs) = int (length h) + sum_list (map snd fs) + z"
    and "bs \<noteq> []"
proof -
  define lens where "lens = map snd fs"
  have z0: "0 \<le> z" unfolding z by (rule out_zeros_nonneg [OF fits])
  have lc: "int (length (contents mem fs)) = sum_list lens" unfolding lens_def by (rule length_contents [OF ok(3)])
  then show lb: "int (length bs) = int (length h) + sum_list (map snd fs) + z" using z0 by (simp add: bs lens_def)
  obtain k where k: "k \<in> {0, 1, 2, 3}" and p: "\<forall>len rest. packet_len sd h lens z len \<longrightarrow>
      opus_packet_parse_impl (h @ rest) len sd = Some (Inr (parsed (toc_code toc k) lens (length h) z))"
    using parse_out_header [OF ok(1) _ _ toc fits h z] ok(2) fs by (auto simp: lens_def)
  define f where "f = parsed (toc_code toc k) lens (length h) z"
  have parse: "opus_packet_parse_impl (bs @ rest) len sd = Some (Inr f)"
    if "if sd then int (length bs) \<le> len else len = int (length bs)" for len rest
  proof -
    have "packet_len sd h lens z len" using that lb by (auto simp: packet_len_def lens_def split: if_splits)
    then show ?thesis using p by (simp add: bs f_def)
  qed
  have "seg bs (0 + length h) (length (concat (frame_list mem fs))) = concat (frame_list mem fs)"
    by (simp add: bs seg_def contents_frame_list)
  then have "frame_list bs (blocks 0 (length h) lens) = frame_list mem fs"
    unfolding lens_def by (rule blocks_contents [OF frame_lengths [OF ok(3)]])
  then have fl: "frame_list bs (packet_frames 0 f) = frame_list mem fs" unfolding f_def packet_frames_parsed .
  have "list_all (\<lambda>s. 0 \<le> s) lens" using ok(1) by (auto simp: lens_ok_def list_all_iff lens_def)
  then have po: "fr_packet_offset f = int (length bs)"
    using frame_offsets_end [of lens "length h"] lb by (simp add: f_def parsed_def split_def Let_def lens_def)
  have tt: "fr_toc f AND 0xFC = toc AND 0xFC"
    using toc_code_bits(6) [OF k] by (simp add: f_def parsed_def split_def Let_def)
  show "is_packet bs sd toc (frame_list mem fs)"
    unfolding is_packet_def by (intro exI [of _ f] conjI allI impI tt fl po) (rule parse)
  have "h \<noteq> []"
    using ok(1) by (auto simp: h out_header_def code3_header_def short_header_def uses_code3_def lens_ok_def split: list.splits if_splits)
  then show "bs \<noteq> []" by (simp add: bs)
qed

text \<open>Frames relative to the start of the packet.\<close>

lemma frame_list_drop: "frame_list mem (packet_frames d f) = frame_list (drop d mem) (packet_frames 0 f)"
proof -
  have "frame_list mem (zip (map ((+) d) os) ls) = frame_list (drop d mem) (zip (map ((+) 0) os) ls)" for os ls
  proof (induction os arbitrary: ls)
    case (Cons o1 os)
    then show ?case by (cases ls) (simp_all add: frame_list_def seg_def drop_drop add.commute)
  qed (simp add: frame_list_def)
  then show ?thesis by (simp add: packet_frames_def)
qed

lemma frame_list_take:
  assumes "list_all (\<lambda>(a, l). 0 \<le> l \<and> a + nat l \<le> n) fs"
  shows "frame_list (take n xs) fs = frame_list xs fs"
  using assms by (induction fs) (auto simp: frame_list_def seg_def drop_take min_def)

end
