(* ===== verification/Packet_Prefix.thy ===== *)
theory Packet_Prefix
  imports Opus_Packet
begin

text \<open>
  A self-delimited packet is parsed the same way when the bytes after it are cut off: the
  parser of a stream inside a multistream packet and the parser of that packet alone agree.
  Each lemma says that a step that succeeds with \<open>len\<close> bytes left succeeds with \<open>k\<close> fewer
  when enough are left at its end.
\<close>

lemma parse_size_prefix:
  assumes "parse_size data p len = Some (bytes, sz)" and "0 \<le> sz" and "bytes \<le> len - k" and "0 \<le> k"
  shows "parse_size data p (len - k) = Some (bytes, sz)"
proof (cases "len < 1")
  case True
  then show ?thesis using assms by (simp add: parse_size_def)
next
  case False
  then obtain b0 where b0: "byte_at data p = Some b0" using assms by (auto simp: parse_size_def bind_eq_Some_conv)
  show ?thesis
  proof (cases "b0 < 252")
    case True
    then show ?thesis using assms False b0 by (simp add: parse_size_def)
  next
    case c: False
    have l2: "\<not> len < 2" using assms c False b0 by (auto simp: parse_size_def)
    then obtain b1 where b1: "byte_at data (Suc p) = Some b1" using assms c False b0 by (auto simp: parse_size_def bind_eq_Some_conv)
    then have "bytes = 2" "s16 (4 * b1 + b0) = sz" using assms c l2 False b0 by (simp_all add: parse_size_def)
    then show ?thesis using assms c b0 b1 by (simp add: parse_size_def)
  qed
qed

lemma parse_padding_prefix:
  assumes "parse_padding data p len pad = Some (Inr (p', len', pad'))" and "k \<le> len'" and "0 \<le> k"
  shows "parse_padding data p (len - k) pad = Some (Inr (p', len' - k, pad')) \<and> len' < len"
  using assms(1,2)
proof (induction data p len pad rule: parse_padding.induct)
  case (1 data p len pad)
  have l: "\<not> len \<le> 0" using 1(2) by (auto simp: parse_padding.simps [of data p len])
  then obtain b where b: "byte_at data p = Some b"
    using 1(2) by (auto simp: parse_padding.simps [of data p len] bind_eq_Some_conv)
  note bb = byte_at_bounds [OF b]
  show ?case
  proof (cases "b = 255")
    case True
    then have "parse_padding data (p + 1) (len - 1 - 254) (pad + 254) = Some (Inr (p', len', pad'))"
      using 1(2) b l by (simp add: parse_padding.simps [of data p len])
    then have IH: "parse_padding data (p + 1) (len - 1 - 254 - k) (pad + 254) = Some (Inr (p', len' - k, pad'))"
      "len' < len - 1 - 254" using 1(1) [OF l b refl] 1(3) True by simp_all
    have e: "len - k - 1 - 254 = len - 1 - 254 - k" by simp
    have "\<not> len - k \<le> 0" using IH(2) 1(3) by simp
    then show ?thesis using IH True b by (simp add: parse_padding.simps [of data p "len - k"] e)
  next
    case F: False
    then have v: "p' = p + 1" "len' = len - 1 - b" "pad' = pad + b"
      using 1(2) b l by (simp_all add: parse_padding.simps [of data p len] Let_def)
    have e: "len - k - 1 - b = len' - k" using v by simp
    have "\<not> len - k \<le> 0" using v 1(3) bb by simp
    then show ?thesis using F v b bb by (simp add: parse_padding.simps [of data p "len - k"] Let_def)
  qed
qed

lemma parse_vbr_prefix:
  assumes "parse_vbr data n p len lst = Some (Inr (sizes, p', len', lst'))" and "0 \<le> k"
    and "k + sum_list sizes \<le> len'"
  shows "parse_vbr data n p (len - k) (lst - k) = Some (Inr (sizes, p', len' - k, lst' - k))
    \<and> len' \<le> len \<and> list_all (\<lambda>s. 0 \<le> s) sizes"
  using assms(1,3)
proof (induction n arbitrary: p len lst sizes)
  case (Suc n)
  obtain bytes sz where ps: "parse_size data p len = Some (bytes, sz)" "\<not> (sz < 0 \<or> sz > len - bytes)"
    using Suc.prems by (auto simp: bind_eq_Some_conv Let_def split: if_split_asm)
  obtain sizes1 where s: "parse_vbr data n (p + nat bytes) (len - bytes) (lst - (bytes + sz)) = Some (Inr (sizes1, p', len', lst'))"
    "sizes = sz # sizes1"
    using Suc.prems ps by (auto simp: bind_sum_Inr)
  have b0: "0 \<le> bytes" using ps by (auto simp: parse_size_def bind_eq_Some_conv split: if_splits)
  have IH: "parse_vbr data n (p + nat bytes) (len - bytes - k) (lst - (bytes + sz) - k) = Some (Inr (sizes1, p', len' - k, lst' - k))"
    "len' \<le> len - bytes" "list_all (\<lambda>s. 0 \<le> s) sizes1"
    using Suc.IH [OF s(1)] Suc.prems(2) ps(2) s(2) by auto
  have nn: "0 \<le> sum_list sizes1" using IH(3) by (intro sum_list_nonneg) (simp add: list_all_iff)
  have ps': "parse_size data p (len - k) = Some (bytes, sz)"
    using ps IH(2) Suc.prems(2) nn s(2) assms(2) by (intro parse_size_prefix) auto
  have e: "len - k - bytes = len - bytes - k" "lst - k - (bytes + sz) = lst - (bytes + sz) - k" by simp_all
  have c: "\<not> (sz < 0 \<or> sz > len - bytes - k)" using ps(2) IH(2) Suc.prems(2) nn s(2) by auto
  have "parse_vbr data (Suc n) p (len - k) (lst - k) = Some (Inr (sizes, p', len' - k, lst' - k))"
    using IH(1) c by (simp add: ps' e s(2))
  then show ?case using IH ps(2) b0 s(2) by auto
qed (auto simp: assms)

lemma parse_sizes3_prefix:
  assumes "parse_sizes3 data True count cbr last0 (p, len, pad) = Some (Inr (c, cbr', sizes, p', len', lst, pad'))"
    and "0 \<le> k" and "\<not> cbr \<Longrightarrow> k + sum_list sizes \<le> len'" and "\<not> cbr \<Longrightarrow> k \<le> lst" and "k \<le> len'"
  shows "parse_sizes3 data True count cbr (last0 - k) (p, len - k, pad) = Some (Inr (c, cbr', sizes, p', len' - k, lst - k, pad'))
    \<and> len' \<le> len"
proof (cases cbr)
  case True
  then show ?thesis using assms by (auto simp: parse_sizes3_def split: if_split_asm)
next
  case False
  then have l: "\<not> len < 0" using assms(1) by (auto simp: parse_sizes3_def)
  have v: "parse_vbr data (nat (count - 1)) p len len = Some (Inr (sizes, p', len', lst))"
    and o: "c = nat count" "cbr' = cbr" "pad' = pad"
    using assms(1) False l by (auto simp: parse_sizes3_def bind_sum_Inr split_def split: if_split_asm)
  note pv = parse_vbr_prefix [OF v assms(2) assms(3) [OF False]]
  have "0 \<le> sum_list sizes" using pv by (intro sum_list_nonneg) (simp add: list_all_iff)
  then have "\<not> len - k < 0" using pv assms(3) [OF False] by linarith
  then show ?thesis using pv False assms(4) o by (simp add: parse_sizes3_def)
qed

lemma parse_code_prefix:
  assumes "parse_code data True fs toc p len = Some (Inr (c, cbr, sizes, p', len', lst, pad))"
    and "0 \<le> k" and "\<not> cbr \<Longrightarrow> k + sum_list sizes \<le> len'" and "k \<le> len'" and "\<not> cbr \<Longrightarrow> k \<le> lst"
  shows "parse_code data True fs toc p (len - k) = Some (Inr (c, cbr, sizes, p', len' - k, lst - k, pad))"
proof -
  consider "toc AND 3 = 0" | "toc AND 3 = 1" | "toc AND 3 = 2"
    | "toc AND 3 \<noteq> 0 \<and> toc AND 3 \<noteq> 1 \<and> toc AND 3 \<noteq> 2" by blast
  then show ?thesis
  proof cases
    case 3
    obtain bytes sz where ps: "parse_size data p len = Some (bytes, sz)" "\<not> (sz < 0 \<or> sz > len - bytes)"
      using assms(1) 3 by (auto simp: parse_code_def bind_eq_Some_conv Let_def split: if_split_asm)
    have v: "sizes = [sz]" "len' = len - bytes" using assms(1) 3 ps by (auto simp: parse_code_def Let_def)
    have "parse_size data p (len - k) = Some (bytes, sz)"
      using ps v assms by (intro parse_size_prefix) auto
    then show ?thesis using assms 3 ps v by (auto simp: parse_code_def Let_def)
  next
    case 4
    have c3: "parse_code3 data True fs p len = Some (Inr (c, cbr, sizes, p', len', lst, pad))"
      using assms(1) 4 by (simp add: parse_code_def)
    obtain ch where ch: "byte_at data p = Some ch" and l: "\<not> len < 1"
      and ct: "\<not> (ch AND 0x3F \<le> 0 \<or> fs * (ch AND 0x3F) > 5760)"
      using c3 by (auto simp: parse_code3_def bind_eq_Some_conv Let_def split: if_split_asm)
    obtain p1 len1 pad1 where q: "(if ch AND 0x40 \<noteq> 0 then parse_padding data (p + 1) (len - 1) 0 else Some (Inr (p + 1, len - 1, 0)))
        = Some (Inr (p1, len1, pad1))"
      and s: "parse_sizes3 data True (ch AND 0x3F) (ch AND 0x80 = 0) len (p1, len1, pad1) = Some (Inr (c, cbr, sizes, p', len', lst, pad))"
      using c3 unfolding parse_code3_def if_not_P [OF l] ch bind.bind_lunit Let_def if_not_P [OF ct] bind_sum_Inr by auto
    have cbr: "cbr = (ch AND 0x80 = 0)" using s by (auto simp: parse_sizes3_def Let_def bind_sum_Inr split_def split: if_split_asm)
    have s': "parse_sizes3 data True (ch AND 0x3F) (ch AND 0x80 = 0) (len - k) (p1, len1 - k, pad1)
        = Some (Inr (c, cbr, sizes, p', len' - k, lst - k, pad))" "len' \<le> len1"
      using parse_sizes3_prefix [OF s assms(2)] assms(3,4,5) cbr by auto
    have q': "(if ch AND 0x40 \<noteq> 0 then parse_padding data (p + 1) (len - k - 1) 0 else Some (Inr (p + 1, len - k - 1, 0)))
        = Some (Inr (p1, len1 - k, pad1))" and l1: "len1 < len"
    proof -
      have e: "len - 1 - k = len - k - 1" by simp
      show "(if ch AND 0x40 \<noteq> 0 then parse_padding data (p + 1) (len - k - 1) 0 else Some (Inr (p + 1, len - k - 1, 0)))
        = Some (Inr (p1, len1 - k, pad1))" "len1 < len"
        using q parse_padding_prefix [of data "p + 1" "len - 1" 0 p1 len1 pad1 k] assms(2,4) s'(2) unfolding e
        by (auto split: if_split_asm)
    qed
    have l': "\<not> len - k < 1" using l1 s'(2) assms(4) by simp
    have "parse_code3 data True fs p (len - k) = Some (Inr (c, cbr, sizes, p', len' - k, lst - k, pad))"
      unfolding parse_code3_def if_not_P [OF l'] ch bind.bind_lunit Let_def if_not_P [OF ct] q' sum.case by (rule s'(1))
    then show ?thesis using 4 by (simp add: parse_code_def)
  qed (use assms in \<open>auto simp: parse_code_def Let_def split: if_split_asm\<close>)
qed

text \<open>The packet alone.\<close>

lemma parse_last_prefix:
  assumes l: "parse_last data True (count, cbr, sizes0, p, len, lst, pad) = Some (Inr (sizes, q))" and k: "0 \<le> k"
    and c: "0 < count" "\<not> cbr \<Longrightarrow> list_all (\<lambda>s. 0 \<le> s) sizes0" "\<not> cbr \<Longrightarrow> sum_list sizes0 + lst = len"
    and e: "k + (int q - int p) + sum_list sizes \<le> len"
  shows "parse_last data True (count, cbr, sizes0, p, len - k, lst - k, pad) = Some (Inr (sizes, q))
    \<and> (\<not> cbr \<longrightarrow> k \<le> lst \<and> k + sum_list sizes0 \<le> len) \<and> k \<le> len"
proof -
  obtain bytes sz where ps: "parse_size data p len = Some (bytes, sz)"
    using l by (auto simp: parse_last_def bind_eq_Some_conv)
  have sz: "\<not> (sz < 0 \<or> sz > len - bytes)" using l ps by (auto simp: parse_last_def Let_def)
  have b0: "0 \<le> bytes" using ps sz by (auto simp: parse_size_def bind_eq_Some_conv split: if_splits)
  have n0: "\<not> cbr \<Longrightarrow> 0 \<le> sum_list sizes0" using c(2) by (intro sum_list_nonneg) (simp add: list_all_iff)
  have rep: "replicate (count - Suc 0) x @ [x] = replicate count x" for x :: int
    using c(1) by (cases count) (simp_all add: replicate_append_same)
  have v: "q = p + nat bytes" "sizes = (if cbr then replicate count sz else sizes0 @ [sz])"
    using l ps sz by (auto simp: parse_last_def Let_def rep split: if_split_asm)
  have tot: "k + bytes + (if cbr then sz * int count else sum_list sizes0 + sz) \<le> len"
    using e v b0 by (auto simp: sum_list_replicate mult.commute)
  have one: "sz \<le> sz * int count" using sz c(1) by (cases count) (auto simp: algebra_simps)
  have le: "k + bytes + sz \<le> len" using tot n0 one by (auto split: if_splits)
  have ps': "parse_size data p (len - k) = Some (bytes, sz)"
    using ps sz le k by (intro parse_size_prefix) auto
  show ?thesis using l ps ps' sz le tot c(3) b0 n0 k v
    by (cases cbr) (auto simp: parse_last_def Let_def split: if_split_asm)
qed

lemma parse_prefix:
  assumes l: "0 < len" "len \<le> int (length data)"
    and f: "opus_packet_parse_impl data len True = Some (Inr f)"
  shows "opus_packet_parse_impl data (fr_packet_offset f) True = Some (Inr f)"
proof -
  define k where "k = len - fr_packet_offset f"
  obtain b where b: "byte_at data 0 = Some b" using l f by (auto simp: opus_packet_parse_impl_def bind_eq_Some_conv split: if_split_asm)
  have fo: "frames_ok len True f" using parse_impl_ok [OF l, of True] f by simp
  then have k: "0 \<le> k" by (simp add: frames_ok_def k_def)
  have nn: "list_all (\<lambda>s. 0 \<le> s) (fr_size f)" using fo by (auto simp: frames_ok_def list_all_iff)
  define fs where "fs = opus_packet_get_samples_per_frame b 48000"
  have neg: "\<not> len < 0" "len \<noteq> 0" using l by simp_all
  have "fs \<in> {120, 240, 480, 960, 1920, 2880}"
    unfolding fs_def using byte_at_bounds [OF b] by (intro samples_per_frame) simp_all
  then have "fs \<le> 2880" by auto
  then have sok: "parses (parse_code data True fs b 1 (len - 1)) (state_ok len True fs)"
    using l by (intro parse_code_ok) simp_all
  obtain st v where st: "parse_code data True fs b 1 (len - 1) = Some (Inr st)"
    and la: "parse_last data True st = Some (Inr v)"
    and fin: "(case v of (sizes, p) \<Rightarrow> let (count, cbr, _, _, _, _, pad) = st; (frames, q) = frame_offsets p sizes
               in Some (Inr \<lparr>fr_toc = b, fr_count = count, fr_size = sizes, fr_frames = frames,
                    fr_payload_offset = p, fr_packet_offset = pad + int q, fr_padding = q, fr_padding_len = pad\<rparr>)) = Some (Inr f :: int + opus_frames)"
    using f unfolding opus_packet_parse_impl_def if_not_P [OF neg(1)] if_not_P [OF neg(2)] b bind.bind_lunit Let_def
      fs_def [symmetric] bind_sum_Inr by (auto simp: Let_def)
  obtain sizes q where v: "v = (sizes, q)" by (cases v)
  obtain count cbr sizes0 p len1 lst pad where s: "st = (count, cbr, sizes0, p, len1, lst, pad)" by (cases st)
  have so: "state_ok len True fs st" using sok st by simp
  have fields: "fr_size f = sizes" "fr_payload_offset f = q" "fr_padding_len f = pad" "fr_packet_offset f = pad + int (fr_padding f)"
    using fin by (auto simp: s v split_def Let_def)
  have pad: "int (fr_padding f) = int q + sum_list sizes"
    using fo frame_offsets_end [OF nn, of q] unfolding frames_ok_def fields by (metis snd_conv)
  have e: "k + (int q - int p) + sum_list sizes \<le> len1"
    using so pad fields(4) by (simp add: state_ok_def s k_def)
  have c: "0 < count" "\<not> cbr \<Longrightarrow> sum_list sizes0 + lst = len1" using so by (auto simp: state_ok_def s split: if_splits)
  have c2: "\<not> cbr \<Longrightarrow> list_all (\<lambda>s. 0 \<le> s) sizes0" using so by (auto simp: state_ok_def s list_all_iff)
  have pl: "parse_last data True (count, cbr, sizes0, p, len1 - k, lst - k, pad) = Some (Inr (sizes, q))"
    "\<not> cbr \<Longrightarrow> k \<le> lst \<and> k + sum_list sizes0 \<le> len1" "k \<le> len1"
    using parse_last_prefix [OF la [unfolded s v] k c(1) c2 c(2) e] by auto
  have "parse_code data True fs b 1 (len - 1 - k) = Some (Inr (count, cbr, sizes0, p, len1 - k, lst - k, pad))"
    using pl(2,3) by (intro parse_code_prefix [OF st [unfolded s] k]) auto
  then have pc: "parse_code data True fs b 1 (fr_packet_offset f - 1) = Some (Inr (count, cbr, sizes0, p, len1 - k, lst - k, pad))"
    by (simp add: k_def algebra_simps)
  have pos: "\<not> fr_packet_offset f < 0" "fr_packet_offset f \<noteq> 0"
    using fo sum_list_nonneg [of "fr_size f"] nn by (auto simp: frames_ok_def fields pad list_all_iff)
  show ?thesis
    unfolding opus_packet_parse_impl_def if_not_P [OF pos(1)] if_not_P [OF pos(2)] b bind.bind_lunit Let_def
      fs_def [symmetric] pc sum.case pl(1)
    using fin by (simp add: s v Let_def split_def)
qed

end
