(* ===== verification/Repacketizer_Inplace.thy ===== *)
theory Repacketizer_Inplace
  imports Repacketizer_Use Packet_Prefix
begin

text \<open>
  Writing packets: with the frames outside the target buffer, and in place, where the header
  that is written is never longer than the header the frames were read with.
\<close>

section \<open>Frames outside the target\<close>

lemma out_length:
  assumes ok: "lens_ok lens" and fits: "out_fits toc lens sd pad maxlen"
  shows "int (length (out_header toc lens sd pad maxlen)) + sum_list lens + out_zeros toc lens sd pad maxlen
    = (if uses_code3 toc lens sd pad maxlen then code3_total lens sd + pad_amount lens sd pad maxlen
       else short_size toc lens sd)"
    and "int (length (out_header toc lens sd pad maxlen)) + sum_list lens + out_zeros toc lens sd pad maxlen \<le> maxlen"
proof -
  show a: "int (length (out_header toc lens sd pad maxlen)) + sum_list lens + out_zeros toc lens sd pad maxlen
    = (if uses_code3 toc lens sd pad maxlen then code3_total lens sd + pad_amount lens sd pad maxlen
       else short_size toc lens sd)"
    by (simp add: out_header_def out_zeros_def code3_total_def code3_size_header [OF ok] code3_header_def short_size_def)
  show "int (length (out_header toc lens sd pad maxlen)) + sum_list lens + out_zeros toc lens sd pad maxlen \<le> maxlen"
    using fits unfolding a by (auto simp: out_fits_def pad_amount_def)
qed

lemma apart_mono: "apart a n f \<Longrightarrow> a \<le> b \<Longrightarrow> b + k \<le> a + n \<Longrightarrow> apart b k f"
  by (auto simp: apart_def)

lemma moves_outside:
  "list_all (apart a n) fs \<Longrightarrow> a \<le> p \<Longrightarrow> list_all (\<lambda>(_, l). 0 \<le> l) fs \<Longrightarrow>
   int p + sum_list (map snd fs) \<le> int (a + n) \<Longrightarrow> moves_ok p fs"
proof (induction fs arbitrary: p)
  case (Cons f fs)
  obtain b l where f: "f = (b, l)" by (cases f)
  have s0: "0 \<le> sum_list (map snd fs)" using Cons.prems(3) by (intro sum_list_nonneg) (auto simp: list_all_iff)
  have "0 \<le> l" "int p + (l + sum_list (map snd fs)) \<le> int a + int n" using Cons.prems(3,4) by (simp_all add: f)
  then have "p + nat l \<le> a + n" using s0 by linarith
  then have "list_all (apart p (nat l)) fs"
    using Cons.prems(1,2) unfolding list_all_iff by (metis apart_mono list.set_intros(2))
  moreover have "moves_ok (p + nat l) fs" using Cons.prems by (intro Cons.IH) (auto simp: f)
  ultimately show ?case by (simp add: f)
qed simp

lemma rp_slice_fs:
  assumes "rp_ok mem rp" and "0 \<le> first" "first < stop" "stop \<le> int (rp_nb_frames rp)"
  shows "rp_slice first stop (rp_len rp) = map snd (rp_slice first stop (rp_fs rp))"
    and "rp_slice first stop (zip (rp_frames rp) (rp_len rp)) = rp_slice first stop (rp_fs rp)"
    and "length (rp_slice first stop (rp_fs rp)) = nat (stop - first)"
    and "set (rp_slice first stop (rp_fs rp)) \<subseteq> set (rp_fs rp)"
proof -
  define n where "n = rp_nb_frames rp"
  have n: "n \<le> length (rp_frames rp)" "n \<le> length (rp_len rp)" using assms(1) by (simp_all add: rp_ok_def n_def)
  have i: "nat first + nat (stop - first) \<le> n" using assms by (simp add: n_def)
  have s: "take (nat (stop - first)) (drop (nat first) xs) = take (nat (stop - first)) (drop (nat first) (take n xs))" for xs :: "'b list"
    using i by (simp add: take_drop min_def)
  have len: "take n (rp_len rp) = map snd (rp_fs rp)"
    using n by (simp add: rp_fs_def n_def [symmetric] take_map flip: map_snd_zip_take) (simp add: take_zip)
  show "rp_slice first stop (rp_len rp) = map snd (rp_slice first stop (rp_fs rp))"
    unfolding rp_slice_def by (subst s) (simp add: len take_map drop_map)
  show "rp_slice first stop (zip (rp_frames rp) (rp_len rp)) = rp_slice first stop (rp_fs rp)"
    unfolding rp_slice_def by (subst s) (simp add: rp_fs_def n_def)
  show "length (rp_slice first stop (rp_fs rp)) = nat (stop - first)"
    using rp_ok_frames(1) [OF assms(1)] i by (simp add: rp_slice_def n_def)
  show "set (rp_slice first stop (rp_fs rp)) \<subseteq> set (rp_fs rp)"
    unfolding rp_slice_def by (meson set_take_subset set_drop_subset order_trans)
qed

lemma lens_slice:
  assumes "rp_ok mem rp" and "set fs \<subseteq> set (rp_fs rp)" and "fs \<noteq> []"
  shows "lens_ok (map snd fs)" and "list_all (\<lambda>(_, l). 0 \<le> l) fs"
proof -
  have "\<forall>(a, l) \<in> set fs. 0 \<le> l \<and> l \<le> 1275"
    using assms(1,2) unfolding rp_ok_def list_all_iff by blast
  then show "lens_ok (map snd fs)" "list_all (\<lambda>(_, l). 0 \<le> l) fs"
    using assms(3) by (auto simp: lens_ok_def list_all_iff)
qed

text \<open>The packet written, when every write stays clear of the frames still to be read.\<close>

lemma out_range_safe:
  assumes ok: "rp_ok mem rp" and rg: "0 \<le> first" "first < stop" "stop \<le> int (rp_nb_frames rp)"
    and np: "list_all (\<lambda>(p, l). l = 0) (rp_slice first stop (zip (rp_paddings rp) (rp_padding_len rp)))"
    and fs: "fs = rp_slice first stop (rp_fs rp)"
    and fits: "out_fits (rp_toc rp) (map snd fs) sd pad maxlen" and le: "dst + nat maxlen \<le> length mem"
    and h: "h = out_header (rp_toc rp) (map snd fs) sd pad maxlen"
    and safe: "list_all (apart dst (length h)) fs" "moves_ok (dst + length h) fs"
  shows "\<exists>ret mem'. opus_repacketizer_out_range_impl mem rp first stop dst maxlen sd pad [] = Some (ret, mem')
    \<and> is_packet (seg mem' dst (nat ret)) sd (rp_toc rp) (frame_list mem fs) \<and> 0 < ret \<and> ret \<le> maxlen
    \<and> (pad \<longrightarrow> ret = maxlen) \<and> only_changes mem mem' dst (nat ret)
    \<and> ret = int (length h) + sum_list (map snd fs) + out_zeros (rp_toc rp) (map snd fs) sd pad maxlen"
proof -
  define z where "z = out_zeros (rp_toc rp) (map snd fs) sd pad maxlen"
  define ret where "ret = int (length h) + sum_list (map snd fs) + z"
  note sl = rp_slice_fs [OF ok rg, folded fs]
  have n48: "length fs \<le> 48" "length fs \<le> rp_nb_frames rp" using sl(3) rg rp_ok_frames(2) [OF ok] by linarith+
  have ins: "inside mem fs" using rp_ok_frames(3) [OF ok] sl(4) by (auto simp: inside_def list_all_iff)
  have "fs \<noteq> []" using sl(3) rg by auto
  then have lens: "lens_ok (map snd fs)" by (rule lens_slice(1) [OF ok sl(4)])
  have toc: "0 \<le> rp_toc rp" "rp_toc rp < 256"
    and fr: "int (rp_nb_frames rp) * opus_packet_get_samples_per_frame (rp_toc rp) 8000 \<le> 960"
    using ok rg by (auto simp: rp_ok_def)
  have "int (length fs) * opus_packet_get_samples_per_frame (rp_toc rp) 8000
      \<le> int (rp_nb_frames rp) * opus_packet_get_samples_per_frame (rp_toc rp) 8000"
    using n48(2) samples_8000 [OF toc] by (intro mult_right_mono) simp_all
  then have lim: "opus_packet_get_samples_per_frame (rp_toc rp) 48000 * int (length fs) \<le> 5760"
    using fr by (intro samples_limit [OF toc]) linarith
  have rl: "ret \<le> maxlen" using out_length(2) [OF lens fits] by (simp add: ret_def h z_def)
  then have ld: "dst + nat ret \<le> length mem" using le by linarith
  define bs where "bs = h @ contents mem fs @ replicate (nat z) 0"
  note wp = written_packet [OF lens n48(1) ins lim toc fits h z_def bs_def]
  have lb: "length bs = nat ret" using wp(2) by (simp add: ret_def)
  have rp: "0 < ret" using wp(3) lb by (cases bs) auto
  have "opus_repacketizer_out_range_impl mem rp first stop dst maxlen sd pad [] = Some (ret, put mem dst bs)
      \<and> (pad \<longrightarrow> ret = maxlen)"
    using out_plain [OF lens n48(1) rg sl(1,2) np fits le h z_def ins safe] by (simp add: ret_def bs_def)
  moreover have "seg (put mem dst bs) dst (nat ret) = bs" using seg_put_same [of dst bs mem] ld lb by simp
  moreover have "only_changes mem (put mem dst bs) dst (nat ret)" using ld lb by (intro only_changes_put) simp_all
  ultimately show ?thesis using wp(1) rl rp by (simp add: ret_def z_def)
qed

lemma out_range_ok:
  assumes ok: "rp_ok mem rp" and rg: "0 \<le> first" "first < stop" "stop \<le> int (rp_nb_frames rp)"
    and np: "list_all (\<lambda>(p, l). l = 0) (rp_slice first stop (zip (rp_paddings rp) (rp_padding_len rp)))"
    and fs: "fs = rp_slice first stop (rp_fs rp)"
    and fits: "out_fits (rp_toc rp) (map snd fs) sd pad maxlen" and le: "dst + nat maxlen \<le> length mem"
    and out: "list_all (apart dst (nat maxlen)) fs"
  shows "\<exists>ret mem'. opus_repacketizer_out_range_impl mem rp first stop dst maxlen sd pad [] = Some (ret, mem')
    \<and> is_packet (seg mem' dst (nat ret)) sd (rp_toc rp) (frame_list mem fs) \<and> 0 < ret \<and> ret \<le> maxlen
    \<and> (pad \<longrightarrow> ret = maxlen) \<and> only_changes mem mem' dst (nat ret)"
proof -
  define h where "h = out_header (rp_toc rp) (map snd fs) sd pad maxlen"
  note sl = rp_slice_fs [OF ok rg, folded fs]
  have ne: "fs \<noteq> []" using sl(3) rg by auto
  note lens = lens_slice(1) [OF ok sl(4) ne] and nn = lens_slice(2) [OF ok sl(4) ne]
  have tot: "int (length h) + sum_list (map snd fs) \<le> maxlen"
    using out_length(2) [OF lens fits] out_zeros_nonneg [OF fits] by (simp add: h_def)
  have s0: "0 \<le> sum_list (map snd fs)" by (rule sum_lens(4) [OF lens])
  have "dst + length h \<le> dst + nat maxlen" using tot s0 by linarith
  then have "list_all (apart dst (length h)) fs"
    using out unfolding list_all_iff by (metis apart_mono order_refl)
  moreover have "moves_ok (dst + length h) fs"
    using tot s0 by (intro moves_outside [OF out _ nn]) auto
  ultimately show ?thesis using out_range_safe [OF ok rg np fs fits le h_def] by blast
qed

section \<open>The header a packet was read with\<close>

lemma parse_size_length:
  assumes "parse_size data p len = Some (bytes, sz)" and "0 \<le> sz"
  shows "bytes = int (length (encode_size sz))"
proof -
  have "bytes = 1 \<and> sz < 252 \<or> bytes = 2 \<and> 252 \<le> sz"
  proof (cases "len < 1")
    case True
    then show ?thesis using assms by (simp add: parse_size_def)
  next
    case False
    then obtain b0 where b0: "byte_at data p = Some b0" using assms by (auto simp: parse_size_def bind_eq_Some_conv)
    show ?thesis
    proof (cases "b0 < 252 \<or> len < 2")
      case True
      then show ?thesis using assms False by (auto simp: parse_size_def b0 split: if_splits)
    next
      case c: False
      then obtain b1 where b1: "byte_at data (Suc p) = Some b1" using assms False by (auto simp: parse_size_def b0 bind_eq_Some_conv)
      have "s16 (4 * b1 + b0) = 4 * b1 + b0" using byte_at_bounds [OF b0] byte_at_bounds [OF b1] by (intro s16_id) simp_all
      then show ?thesis using assms False c byte_at_bounds [OF b1] by (simp add: parse_size_def b0 b1)
    qed
  qed
  then show ?thesis by (auto simp: length_encode_size)
qed

lemma parse_vbr_length:
  "parse_vbr data n p len lst = Some (Inr (sizes, p', len', lst')) \<Longrightarrow> p' = p + length (size_bytes sizes) \<and> length sizes = n"
proof (induction n arbitrary: p len lst sizes p' len' lst')
  case 0
  then show ?case by (simp add: size_bytes_def)
next
  case (Suc n)
  obtain bytes sz where ps: "parse_size data p len = Some (bytes, sz)" "\<not> (sz < 0 \<or> sz > len - bytes)"
    using Suc.prems by (auto simp: bind_eq_Some_conv Let_def split: if_split_asm)
  then have b: "bytes = int (length (encode_size sz))" by (intro parse_size_length) auto
  obtain sizes1 where s: "parse_vbr data n (p + nat bytes) (len - bytes) (lst - (bytes + sz)) = Some (Inr (sizes1, p', len', lst'))"
    "sizes = sz # sizes1"
    using Suc.prems ps by (auto simp: bind_sum_Inr)
  from Suc.IH [OF s(1)] show ?case by (simp add: s(2) b size_bytes_def)
qed

text \<open>How far the \<open>switch\<close> has read, at least.\<close>

definition header_read :: "parse_state \<Rightarrow> bool" where
  "header_read st \<longleftrightarrow> (let (count, cbr, sizes, p, _, _, _) = st in
     (if count \<le> 2 then 1 else 2) + (if cbr then 0 else length (size_bytes sizes)) \<le> p)"

lemma parse_padding_forward:
  "parse_padding data p len pad = Some (Inr (p', len', pad')) \<Longrightarrow> p < p'"
proof (induction data p len pad rule: parse_padding.induct)
  case (1 data p len pad)
  show ?case
  proof (cases "len \<le> 0")
    case True
    then show ?thesis using 1(2) by (simp add: parse_padding.simps [of data p len])
  next
    case False
    then obtain b where b: "byte_at data p = Some b"
      using 1(2) by (auto simp: parse_padding.simps [of data p len] bind_eq_Some_conv)
    show ?thesis
    proof (cases "b = 255")
      case True
      then have "parse_padding data (p + 1) (len - 1 - 254) (pad + 254) = Some (Inr (p', len', pad'))"
        using 1(2) b False by (simp add: parse_padding.simps [of data p len])
      then have "p + 1 < p'" using 1(1) [OF False b refl] True by simp
      then show ?thesis by simp
    next
      case F: False
      then show ?thesis using 1(2) b False by (simp add: parse_padding.simps [of data p len] Let_def)
    qed
  qed
qed

lemma parse_sizes3_header:
  assumes "parse_sizes3 data sd count cbr last0 (p, len, pad) = Some (Inr st)" and "2 \<le> p"
  shows "header_read st"
proof (cases "len < 0 \<or> cbr")
  case True
  then show ?thesis using assms by (auto simp: parse_sizes3_def header_read_def Let_def split: if_split_asm)
next
  case False
  then obtain sizes p1 len1 lst1 where v: "parse_vbr data (nat (count - 1)) p len len = Some (Inr (sizes, p1, len1, lst1))"
    and st: "st = (nat count, cbr, sizes, p1, len1, lst1, pad)"
    using assms(1) by (auto simp: parse_sizes3_def bind_sum_Inr split_def split: if_split_asm)
  show ?thesis using parse_vbr_length [OF v] assms(2) by (simp add: st header_read_def)
qed

lemma parse_code3_header_read:
  assumes "parse_code3 data sd fs p len = Some (Inr st)" and "1 \<le> p"
  shows "header_read st"
proof -
  obtain ch where ch: "byte_at data p = Some ch" and l: "\<not> len < 1"
    and c: "\<not> (ch AND 0x3F \<le> 0 \<or> fs * (ch AND 0x3F) > 5760)"
    using assms(1) by (auto simp: parse_code3_def bind_eq_Some_conv Let_def split: if_split_asm)
  obtain q where q: "(if ch AND 0x40 \<noteq> 0 then parse_padding data (p + 1) (len - 1) 0 else Some (Inr (p + 1, len - 1, 0))) = Some (Inr q)"
    and s: "parse_sizes3 data sd (ch AND 0x3F) (ch AND 0x80 = 0) len q = Some (Inr st)"
    using assms(1) unfolding parse_code3_def if_not_P [OF l] ch bind.bind_lunit Let_def if_not_P [OF c] bind_sum_Inr by blast
  obtain p1 len1 pad1 where q1: "q = (p1, len1, pad1)" by (cases q)
  have "2 \<le> p1"
    using q assms(2) parse_padding_forward [of data "p + 1" "len - 1" 0 p1 len1 pad1]
    by (cases "ch AND 0x40 = 0") (auto simp: q1)
  then show ?thesis using parse_sizes3_header s by (auto simp: q1)
qed

lemma parse_code_header_read:
  assumes "parse_code data sd fs toc 1 len = Some (Inr st)"
  shows "header_read st"
proof -
  consider "toc AND 3 = 0" | "toc AND 3 = 1" | "toc AND 3 = 2"
    | "toc AND 3 \<noteq> 0 \<and> toc AND 3 \<noteq> 1 \<and> toc AND 3 \<noteq> 2" by blast
  then show ?thesis
  proof cases
    case 3
    obtain bytes sz where ps: "parse_size data 1 len = Some (bytes, sz)" "\<not> (sz < 0 \<or> sz > len - bytes)"
      using assms 3 by (auto simp: parse_code_def bind_eq_Some_conv Let_def split: if_split_asm)
    then have "bytes = int (length (encode_size sz))" by (intro parse_size_length) auto
    then show ?thesis using assms 3 ps by (auto simp: parse_code_def header_read_def size_bytes_def Let_def)
  next
    case 4
    then show ?thesis using assms parse_code3_header_read [of data sd fs 1 len st] by (simp add: parse_code_def)
  qed (use assms in \<open>auto simp: parse_code_def header_read_def Let_def size_bytes_def split: if_split_asm\<close>)
qed

text \<open>The sizes that a constant bit rate leaves are all equal.\<close>

lemma parse_last_sizes:
  assumes l: "parse_last data sd st = Some (Inr (sizes, q))"
    and st: "st = (count, cbr, sizes0, p, len, lst, pad)" and ok: "state_ok len0 sd fs st"
  shows "q = p + length (sd_bytes sd sizes)"
    and "if cbr then \<not> vbr_lens sizes else sizes0 = butlast sizes" and "length sizes = count"
proof -
  have c: "0 < count" using ok by (simp add: state_ok_def st)
  have rep: "replicate (count - Suc 0) x @ [x] = replicate count x" for x :: int
    using c by (cases count) (simp_all add: replicate_append_same)
  have rv: "\<not> vbr_lens (replicate count x)" for x :: int by (auto simp: vbr_lens_def)
  have "q = p + length (sd_bytes sd sizes) \<and> (if cbr then \<not> vbr_lens sizes else sizes0 = butlast sizes) \<and> length sizes = count"
  proof (cases sd)
    case True
    obtain bytes sz where ps: "parse_size data p len = Some (bytes, sz)"
      using l True by (auto simp: parse_last_def st bind_eq_Some_conv)
    have sz: "\<not> (sz < 0 \<or> sz > len - bytes)" using l True ps by (auto simp: parse_last_def st Let_def)
    then have b: "bytes = int (length (encode_size sz))" using parse_size_length [OF ps] by simp
    show ?thesis using l True ps sz rv c ok
      by (cases cbr) (auto simp: parse_last_def st Let_def rep b sd_bytes_def state_ok_def split: if_split_asm)
  next
    case False
    then have s: "sizes = sizes0 @ [s16 lst]" "q = p"
      using l by (auto simp: parse_last_def st split: if_split_asm)
    show ?thesis
    proof (cases cbr)
      case True
      then have "sizes0 = replicate (count - 1) (s16 lst)" using ok False by (simp add: state_ok_def st)
      then show ?thesis using True False s rep rv by (simp add: sd_bytes_def)
    next
      case F: False
      then show ?thesis using False s ok c by (simp add: sd_bytes_def state_ok_def st)
    qed
  qed
  then show "q = p + length (sd_bytes sd sizes)" "if cbr then \<not> vbr_lens sizes else sizes0 = butlast sizes"
    "length sizes = count" by blast+
qed

text \<open>The shortest header for the frames of a packet is not longer than its own.\<close>

lemma shortest_header:
  assumes "lens_ok lens"
  shows "length (out_header toc lens sd False maxlen) =
    (if length lens \<le> 2 then 1 else 2) + (if vbr_lens lens then length (size_bytes (butlast lens)) else 0)
    + length (sd_bytes sd lens)"
proof (cases "length lens \<le> 2")
  case True
  then consider l where "lens = [l]" | l m where "lens = [l, m]"
    using assms by (cases lens; cases "tl lens"; cases "tl (tl lens)") (auto simp: lens_ok_def)
  then show ?thesis
    by cases (simp_all add: out_header_def uses_code3_def short_header_def vbr_lens_def size_bytes_def)
next
  case False
  then show ?thesis
    by (simp add: out_header_def uses_code3_def code3_header_def pad_amount_def pad_bytes_def)
qed

lemma parsed_header:
  assumes l: "0 < len" "len \<le> int (length data)"
    and f: "opus_packet_parse_impl data len sd = Some (Inr f)"
  shows "length (out_header toc (fr_size f) sd False maxlen) \<le> fr_payload_offset f"
proof -
  have fo: "frames_ok len sd f" using parse_impl_ok [OF l, of sd] f by simp
  then have lens: "lens_ok (fr_size f)" by (auto simp: frames_ok_def lens_ok_def)
  obtain b where b: "byte_at data 0 = Some b" using l f by (auto simp: opus_packet_parse_impl_def bind_eq_Some_conv split: if_split_asm)
  have neg: "\<not> len < 0" "len \<noteq> 0" using l by simp_all
  define fs where "fs = opus_packet_get_samples_per_frame b 48000"
  have "fs \<in> {120, 240, 480, 960, 1920, 2880}"
    unfolding fs_def using byte_at_bounds [OF b] by (intro samples_per_frame) simp_all
  then have "fs \<le> 2880" by auto
  then have ok: "parses (parse_code data sd fs b 1 (len - 1)) (state_ok len sd fs)"
    using l by (intro parse_code_ok) simp_all
  obtain st where st: "parse_code data sd fs b 1 (len - 1) = Some (Inr st)"
    and "\<exists>v. parse_last data sd st = Some (Inr v) \<and> fr_size f = fst v \<and> fr_payload_offset f = snd v"
    using f unfolding opus_packet_parse_impl_def if_not_P [OF neg(1)] if_not_P [OF neg(2)] b bind.bind_lunit Let_def
      fs_def [symmetric] bind_sum_Inr by (auto simp: split_def)
  then obtain sizes q where la: "parse_last data sd st = Some (Inr (sizes, q))" "fr_size f = sizes" "fr_payload_offset f = q"
    by auto
  obtain count cbr sizes0 p len1 lst pad where s: "st = (count, cbr, sizes0, p, len1, lst, pad)" by (cases st)
  have so: "state_ok len sd fs st" using ok st by simp
  note pl = parse_last_sizes [OF la(1) s so]
  have hr: "(if count \<le> 2 then 1 else 2) + (if cbr then 0 else length (size_bytes sizes0)) \<le> p"
    using parse_code_header_read [OF st] by (simp add: s header_read_def)
  show ?thesis
    unfolding la(2,3) shortest_header [OF lens [unfolded la(2)]] pl(1,3) using hr pl(2) by (auto split: if_splits)
qed

section \<open>Unpadding in place\<close>

text \<open>
  One packet, taken from address \<open>data\<close> and written without padding at \<open>dst\<close> at or before
  it. The packet becomes shorter or keeps its length, and its frames are the same.
\<close>

definition strip ::
  "byte list \<Rightarrow> nat \<Rightarrow> int \<Rightarrow> nat \<Rightarrow> int \<Rightarrow> bool \<Rightarrow> (int \<times> byte list) option" where
  "strip mem data len dst maxlen sd = do {
     (ret, rp) \<leftarrow> opus_repacketizer_cat_impl mem rp_new data len sd;
     if ret < 0 then Some (ret, mem)
     else opus_repacketizer_out_range_impl mem (discard_padding rp) 0 (int (rp_nb_frames rp)) dst maxlen sd False []
   }"

lemma discard_simps [simp]:
  "rp_nb_frames (discard_padding rp) = rp_nb_frames rp" "rp_toc (discard_padding rp) = rp_toc rp"
  "rp_fs (discard_padding rp) = rp_fs rp"
  by (simp_all add: discard_padding_def rp_fs_def)

lemma rp_ok_discard: "rp_ok mem rp \<Longrightarrow> rp_ok mem (discard_padding rp)"
  by (auto simp: rp_ok_def discard_padding_def list_all_iff zip_replicate rp_fs_def)

text \<open>Adding a packet that parses to a fresh state succeeds.\<close>

lemma cat_fresh:
  assumes l: "0 < len" "int data + len \<le> int (length mem)"
    and f: "opus_packet_parse_impl (drop data mem) len sd = Some (Inr f)"
  shows "\<exists>rp. opus_repacketizer_cat_impl mem rp_new data len sd = Some (OPUS_OK, rp) \<and> rp_ok mem rp
    \<and> rp_toc rp = fr_toc f \<and> rp_fs rp = packet_frames data f \<and> rp_nb_frames rp = fr_count f
    \<and> (rp_padding_len rp) = fr_padding_len f # replicate (fr_count f - 1) 0 \<and> frames_ok len sd f
    \<and> length (rp_paddings rp) = fr_count f"
proof -
  obtain b where b: "byte_at mem data = Some b" "0 \<le> b" "b < 256" "byte_at (drop data mem) 0 = Some b"
    "len \<le> int (length (drop data mem))" using cat_steps [of len data mem] l by auto
  have fo: "frames_ok len sd f" and t: "fr_toc f = b"
    using parse_impl_ok [OF l(1) b(5), of sd] f b(4) by simp_all
  have cnt: "opus_packet_get_nb_frames (drop data mem) len = Some (int (fr_count f))"
    using parse_impl_count [OF f] nb_frames_header by auto
  define rpm where "rpm = mark_toc b rp_new"
  have rpm: "rp_nb_frames rpm = 0" "rp_toc rpm = b" "rp_framesize rpm = opus_packet_get_samples_per_frame b 8000"
    "rp_padding_len rpm = []" "rp_paddings rpm = []" "rp_fs rpm = []" "rp_nb_frames rp_new = 0"
    by (simp_all add: rpm_def mark_toc_def rp_new_def opus_repacketizer_init_def rp_fs_def)
  have c: "0 < fr_count f" "int (fr_count f) * opus_packet_get_samples_per_frame b 48000 \<le> 5760"
    using fo by (simp_all add: frames_ok_def t)
  have "opus_packet_get_samples_per_frame b 48000 = opus_packet_get_samples_per_frame b 8000 * 6"
    using samples_8000 [OF b(2,3)] by simp
  then have lim: "(int (fr_count f) + int (rp_nb_frames rpm)) * rp_framesize rpm \<le> 960"
    using c(2) by (simp add: rpm)
  note st = rp_store_ok [OF rp_ok_mark [OF rp_ok_new, of mem b, folded rpm_def] fo l(2) _ _ _ lim]
  have ok: "rp_ok mem (rp_store data f (int (fr_count f)) rpm)"
    "rp_fs (rp_store data f (int (fr_count f)) rpm) = packet_frames data f"
    using st b(2,3) by (simp_all add: rpm)
  have "opus_repacketizer_cat_impl mem rp_new data len sd = Some (OPUS_OK, rp_store data f (int (fr_count f)) rpm)"
  proof -
    have rv: "rp_new\<lparr>rp_toc := b, rp_framesize := opus_packet_get_samples_per_frame b 8000\<rparr> = rpm"
      by (simp add: rpm_def mark_toc_def rpm(7))
    show ?thesis using l(1) b(1) cnt f c(1) lim [unfolded rpm(3)] rpm(1,3,7)
      by (simp add: opus_repacketizer_cat_impl_def Let_def rv)
  qed
  then show ?thesis using ok fo c(1) t by (simp add: rp_store_def Let_def rpm)
qed

lemma strip_ok:
  assumes l: "0 < len" "int data + len \<le> int (length mem)"
    and f: "opus_packet_parse_impl (drop data mem) len sd = Some (Inr f)"
    and d: "dst \<le> data" "fr_packet_offset f \<le> maxlen" "dst + nat maxlen \<le> length mem"
  shows "\<exists>ret mem'. strip mem data len dst maxlen sd = Some (ret, mem') \<and> 0 < ret \<and> ret \<le> fr_packet_offset f
    \<and> is_packet (seg mem' dst (nat ret)) sd (fr_toc f) (frame_list mem (packet_frames data f))
    \<and> only_changes mem mem' dst (nat ret)"
proof -
  obtain rp where cat: "opus_repacketizer_cat_impl mem rp_new data len sd = Some (OPUS_OK, rp)" "rp_ok mem rp"
    and rp: "rp_toc rp = fr_toc f" "rp_fs rp = packet_frames data f" "rp_nb_frames rp = fr_count f" "frames_ok len sd f"
    using cat_fresh [OF l f] by blast
  have c: "0 < fr_count f" "length (fr_size f) = fr_count f" using rp(4) by (simp_all add: frames_ok_def)
  have bl: "packet_frames data f = blocks data (fr_payload_offset f) (fr_size f)"
    by (rule packet_frames_blocks [OF rp(4)])
  have sl: "rp_slice 0 (int (rp_nb_frames rp)) (rp_fs rp) = packet_frames data f"
    using c by (simp add: rp_slice_def rp(2,3) bl)
  define h where "h = out_header (fr_toc f) (fr_size f) sd False maxlen"
  have ld: "len \<le> int (length (drop data mem))" using l by simp
  have lh: "length h \<le> fr_payload_offset f"
    unfolding h_def by (rule parsed_header [OF l(1) ld f])
  have nn: "list_all (\<lambda>s. 0 \<le> s) (fr_size f)" and lens: "lens_ok (fr_size f)"
    using rp(4) by (auto simp: frames_ok_def list_all_iff lens_ok_def)
  have po: "fr_packet_offset f = int (fr_payload_offset f) + sum_list (fr_size f) + fr_padding_len f" "0 \<le> fr_padding_len f"
    using rp(4) frame_offsets_end [OF nn, of "fr_payload_offset f"] unfolding frames_ok_def by (metis snd_conv add.commute add.left_commute)+
  have z: "out_zeros (fr_toc f) (fr_size f) sd False maxlen = 0"
    by (simp add: out_zeros_def pad_amount_def pad_bytes_def)
  have fits: "out_fits (fr_toc f) (fr_size f) sd False maxlen"
  proof -
    have "(if uses_code3 (fr_toc f) (fr_size f) sd False maxlen then code3_total (fr_size f) sd else short_size (fr_toc f) (fr_size f) sd)
        = int (length h) + sum_list (fr_size f)"
      by (simp add: h_def out_header_def code3_total_def code3_size_header [OF lens] code3_header_def short_size_def
          pad_amount_def pad_bytes_def)
    then show ?thesis using lh po d(2) by (simp add: out_fits_def)
  qed
  have safe: "list_all (apart dst (length h)) (packet_frames data f)" "moves_ok (dst + length h) (packet_frames data f)"
    unfolding bl using lh d(1) by (intro blocks_apart blocks_moves; simp)+
  have np: "list_all (\<lambda>(p, l). l = 0) (rp_slice 0 (int (rp_nb_frames rp)) (zip (rp_paddings (discard_padding rp)) (rp_padding_len (discard_padding rp))))"
    by (auto simp: discard_padding_def rp_slice_def zip_replicate list_all_iff dest: in_set_takeD)
  obtain ret mem' where o: "opus_repacketizer_out_range_impl mem (discard_padding rp) 0 (int (rp_nb_frames rp)) dst maxlen sd False [] = Some (ret, mem')"
    "is_packet (seg mem' dst (nat ret)) sd (fr_toc f) (frame_list mem (packet_frames data f))" "0 < ret"
    "only_changes mem mem' dst (nat ret)" "ret = int (length h) + sum_list (fr_size f)"
    using out_range_safe [OF rp_ok_discard [OF cat(2)], of 0 "int (rp_nb_frames rp)" "packet_frames data f" sd False maxlen dst h]
      np sl c fits d(3) h_def safe z by (auto simp: rp(1-3) bl)
  have "strip mem data len dst maxlen sd = Some (ret, mem')"
    using cat(1) o(1) by (simp add: strip_def opus_errors)
  moreover have "ret \<le> fr_packet_offset f" using o(5) lh po by simp
  ultimately show ?thesis using o by blast
qed

lemma opus_packet_unpad_strip: "1 \<le> len \<Longrightarrow> opus_packet_unpad mem data len = strip mem data len data len False"
  by (simp add: opus_packet_unpad_def strip_def opus_repacketizer_cat_def)

end
