(* ===== verification/Repacketizer_Properties.thy ===== *)
theory Repacketizer_Properties
  imports Repacketizer_Inplace
begin

text \<open>
  The properties of the repacketizer: its invariant, the packet it writes, and padding and
  unpadding of packets and of multistream packets.
\<close>

section \<open>When the packet does not fit\<close>

lemma code3_le_short:
  assumes "lens_ok lens" and "length lens \<le> 2"
  shows "code3_total lens sd \<le> short_size toc lens sd + 1"
proof -
  consider l where "lens = [l]" | l where "lens = [l, l]" | l m where "lens = [l, m]" "m \<noteq> l"
    using assms by (cases lens; cases "tl lens"; cases "tl (tl lens)") (auto simp: lens_ok_def)
  then show ?thesis
    unfolding code3_total_def code3_size_header [OF assms(1)]
    by cases (simp_all add: short_size_def short_header_def vbr_lens_def size_bytes_def)
qed

lemma out_range_small:
  assumes ok: "rp_ok mem rp" and rg: "0 \<le> first" "first < stop" "stop \<le> int (rp_nb_frames rp)"
    and np: "list_all (\<lambda>(p, l). l = 0) (rp_slice first stop (zip (rp_paddings rp) (rp_padding_len rp)))"
    and fs: "fs = rp_slice first stop (rp_fs rp)"
    and fits: "\<not> out_fits (rp_toc rp) (map snd fs) sd pad maxlen" and le: "dst \<le> length mem"
  shows "opus_repacketizer_out_range_impl mem rp first stop dst maxlen sd pad [] = Some (OPUS_BUFFER_TOO_SMALL, mem)"
proof -
  define lens where "lens = map snd fs"
  define toc where "toc = rp_toc rp"
  define t where "t = int (length (sd_bytes sd lens))"
  note sl = rp_slice_fs [OF ok rg, folded fs]
  have "fs \<noteq> []" using sl(3) rg by auto
  then have lens: "lens_ok lens" unfolding lens_def by (rule lens_slice(1) [OF ok sl(4)])
  have tt: "(if sd then 1 + of_bool (last lens \<ge> 252) else 0) = t" by (simp add: t_def length_sd_bytes)
  have bg: "\<not> (first < 0 \<or> first \<ge> stop \<or> stop > int (rp_nb_frames rp))" using rg by simp
  note ext = no_extensions [OF np]
  note unf = opus_repacketizer_out_range_impl_def if_not_P [OF bg] Let_def sl(1,2) ext bind.bind_lunit
        sum.case lens_def [symmetric] toc_def [symmetric] tt
  show ?thesis
  proof (cases "length lens \<le> 2")
    case True
    have "short_size toc lens sd > maxlen"
      using fits code3_le_short [OF lens True, of sd toc] True
      by (auto simp: out_fits_def uses_code3_def toc_def lens_def split: if_splits)
    then have "out_short toc lens t maxlen = Inl OPUS_BUFFER_TOO_SMALL"
      using out_short_header [OF lens True, of toc t maxlen] by (simp add: short_size_def t_def)
    then show ?thesis unfolding unf by simp
  next
    case False
    then have "t + code3_size lens > maxlen"
      using fits by (simp add: out_fits_def uses_code3_def lens_def code3_total_def t_def)
    moreover have "out_short toc lens t maxlen = Inr (t, [])" using False by (auto simp: out_short_def)
    moreover have "mem_write mem dst [] = Some mem" using le by (simp add: mem_write_put)
    ultimately show ?thesis unfolding unf using False by (simp add: out_code3_def)
  qed
qed

section \<open>State and output\<close>

text \<open>
  C15. Adding a packet to the repacketizer keeps its invariant: at most 48 frames and 120 ms,
  every frame of 0 to 1275 bytes inside the memory. It succeeds, and then exactly the frames
  of the parsed packet are appended, or it returns an invalid packet and no frame is added.
\<close>

theorem repacketizer_cat_invariant:
  assumes "rp_ok mem rp" and "1 \<le> len" and "int data + len \<le> int (length mem)"
  shows "\<exists>ret rp'. opus_repacketizer_cat mem rp data len = Some (ret, rp') \<and> rp_ok mem rp' \<and> rp_nb_frames rp' \<le> 48
    \<and> (if ret = OPUS_OK then \<exists>f. opus_packet_parse (drop data mem) len = Some (Inr f)
           \<and> rp_fs rp' = rp_fs rp @ packet_frames data f
       else ret = OPUS_INVALID_PACKET \<and> rp_fs rp' = rp_fs rp)"
  using cat_ok [OF assms, of False] rp_ok_frames(2) [of mem] unfolding opus_repacketizer_cat_def opus_packet_parse_def
  by blast

theorem repacketizer_cat_invariant_witness:
  "\<exists>ret rp'. opus_repacketizer_cat [0x09, 1, 2] rp_new 0 3 = Some (ret, rp') \<and> rp_ok [0x09, 1, 2] rp'"
  using repacketizer_cat_invariant [OF rp_ok_new, of 3 0 "[0x09, 1, 2]"] by auto


definition example_rp :: OpusRepacketizer where
  "example_rp = snd (the (opus_repacketizer_cat [0x09, 1, 2, 0, 0, 0, 0] rp_new 0 3))"


section \<open>Unpadding and padding\<close>

text \<open>
  C17. Unpadding a valid packet in place returns a length that is positive and not larger
  than before; the bytes of that length are a packet with the same table of contents and the
  same frames, and no byte after them changes.
\<close>

theorem packet_unpad_inplace:
  assumes "0 < len" and "int data + len \<le> int (length mem)"
    and "opus_packet_parse (drop data mem) len = Some (Inr f)"
  shows "\<exists>ret mem'. opus_packet_unpad mem data len = Some (ret, mem') \<and> 0 < ret \<and> ret \<le> len
    \<and> is_packet (seg mem' data (nat ret)) False (fr_toc f) (frame_list mem (packet_frames data f))
    \<and> only_changes mem mem' data (nat ret)"
proof -
  have ld: "len \<le> int (length (drop data mem))" using assms by simp
  have f: "opus_packet_parse_impl (drop data mem) len False = Some (Inr f)"
    using assms(3) by (simp add: opus_packet_parse_def)
  then have po: "fr_packet_offset f = len"
    using parse_impl_ok [OF assms(1) ld, of False] by (simp add: frames_ok_def)
  show ?thesis
    using strip_ok [OF assms(1,2) f, of data len] po assms(1,2) opus_packet_unpad_strip [of len mem data] by simp
qed

theorem packet_unpad_inplace_witness:
  "\<exists>ret mem'. opus_packet_unpad [0x0B, 0x41, 3, 7, 0, 0, 0] 0 7 = Some (ret, mem') \<and> 0 < ret \<and> ret \<le> 7
    \<and> is_packet (seg mem' 0 (nat ret)) False 11 [[7]]"
proof -
  let ?mem = "[0x0B, 0x41, 3, 7, 0, 0, 0] :: byte list"
  define f where "f = projr (the (opus_packet_parse (drop 0 ?mem) 7))"
  have "isl (the (opus_packet_parse (drop 0 ?mem) 7)) = False" "opus_packet_parse (drop 0 ?mem) 7 \<noteq> None" by code_simp+
  then have "opus_packet_parse (drop 0 ?mem) 7 = Some (Inr f)" by (auto simp: f_def)
  moreover have "fr_toc f = 11 \<and> frame_list ?mem (packet_frames 0 f) = [[7]]" unfolding f_def by code_simp
  ultimately show ?thesis using packet_unpad_inplace [of 7 0 ?mem f] by auto
qed

lemma padding_fits:
  assumes l: "0 < len" "len \<le> int (length data)" "len < new_len"
    and f: "opus_packet_parse_impl data len False = Some (Inr f)"
  shows "out_fits (fr_toc f) (fr_size f) False True new_len"
proof -
  have fo: "frames_ok len False f" using parse_impl_ok [OF l(1,2), of False] f by simp
  have nn: "list_all (\<lambda>s. 0 \<le> s) (fr_size f)" and lens: "lens_ok (fr_size f)"
    using fo by (auto simp: frames_ok_def list_all_iff lens_ok_def)
  have po: "len = int (fr_payload_offset f) + sum_list (fr_size f) + fr_padding_len f" "0 \<le> fr_padding_len f"
    using fo frame_offsets_end [OF nn, of "fr_payload_offset f"] unfolding frames_ok_def by (metis snd_conv add.commute add.left_commute)+
  have h: "int (length (out_header (fr_toc f) (fr_size f) False False len)) + sum_list (fr_size f) \<le> len"
    using parsed_header [OF l(1,2) f, of "fr_toc f" len] po by simp
  show ?thesis
  proof (cases "length (fr_size f) \<le> 2")
    case True
    then have "short_size (fr_toc f) (fr_size f) False \<le> len"
      using h by (simp add: out_header_def uses_code3_def short_size_def)
    then show ?thesis using code3_le_short [OF lens True, of False "fr_toc f"] l(3) by (simp add: out_fits_def)
  next
    case False
    then have "code3_total (fr_size f) False \<le> len"
      using h by (simp add: out_header_def uses_code3_def code3_total_def code3_size_header [OF lens]
          code3_header_def pad_amount_def pad_bytes_def)
    then show ?thesis using False l(3) by (simp add: out_fits_def uses_code3_def)
  qed
qed

lemma only_changes_take:
  assumes "only_changes (mem @ xs) mem2 a n" and "a + n \<le> length mem"
  shows "only_changes mem (take (length mem) mem2) a n"
proof -
  have "take a (take (length mem) mem2) = take a mem2" using assms(2) by (simp add: min_def)
  then show ?thesis using assms by (simp add: only_changes_def drop_take)
qed



section \<open>Multistream packets\<close>

text \<open>The frames of the streams of a multistream packet: all but the last self-delimited.\<close>

fun stream_frames :: "byte list \<Rightarrow> int \<Rightarrow> nat \<Rightarrow> byte list list list option" where
  "stream_frames bs len 0 = Some []"
| "stream_frames bs len (Suc n) =
    (case opus_packet_parse_impl bs len (n \<noteq> 0) of
       Some (Inr f) \<Rightarrow> map_option ((#) (frame_list bs (packet_frames 0 f)))
          (stream_frames (drop (nat (fr_packet_offset f)) bs) (len - fr_packet_offset f) n)
     | _ \<Rightarrow> None)"

lemma unpad_streams_step:
  "unpad_streams mem (Suc n) data len dst dst_len =
    (if len \<le> 0 then Some (OPUS_INVALID_PACKET, mem)
     else opus_packet_parse_impl (drop data mem) len (n \<noteq> 0) \<bind> (\<lambda>r. case r of Inl e \<Rightarrow> Some (e, mem)
       | Inr f \<Rightarrow> strip mem data (fr_packet_offset f) dst len (n \<noteq> 0) \<bind> (\<lambda>(ret, mem).
           if ret < 0 then Some (ret, mem)
           else unpad_streams mem n (data + nat (fr_packet_offset f)) (len - fr_packet_offset f) (dst + nat ret) (dst_len + ret))))"
  by (simp add: strip_def Let_def split_def if_distrib [of "\<lambda>x. Option.bind x f" for f] cong: if_cong sum.case_cong)

lemma is_packet_found:
  assumes p: "is_packet bs sd toc frames" and l: "if sd then int (length bs) \<le> len else len = int (length bs)"
    and ne: "bs \<noteq> []"
  shows "\<exists>f. opus_packet_parse_impl (bs @ rest) len sd = Some (Inr f) \<and> fr_packet_offset f = int (length bs)
    \<and> frame_list (bs @ rest) (packet_frames 0 f) = frames"
proof -
  obtain f where f: "\<And>len rest. (if sd then int (length bs) \<le> len else len = int (length bs))
        \<Longrightarrow> opus_packet_parse_impl (bs @ rest) len sd = Some (Inr f)"
    and fr: "frame_list bs (packet_frames 0 f) = frames" "fr_packet_offset f = int (length bs)"
    using p unfolding is_packet_def by blast
  have fo: "frames_ok (int (length bs)) sd f"
    using parse_impl_ok [of "int (length bs)" bs sd] f [of "int (length bs)" "[]"] ne by auto
  then have nn: "list_all (\<lambda>s. 0 \<le> s) (fr_size f)" by (auto simp: frames_ok_def list_all_iff)
  have "int (fr_payload_offset f) + sum_list (fr_size f) \<le> int (length bs)"
    using fo frame_offsets_end [OF nn, of "fr_payload_offset f"] fr(2) unfolding frames_ok_def by (metis snd_conv le_add_same_cancel1)
  then have "inside bs (packet_frames 0 f)"
    unfolding packet_frames_blocks [OF fo] using sum_list_nonneg [of "fr_size f"] nn
    by (intro blocks_inside nn) (auto simp: list_all_iff)
  then have "frame_list (take (length bs) (bs @ rest)) (packet_frames 0 f) = frame_list (bs @ rest) (packet_frames 0 f)"
    by (intro frame_list_take) (simp add: inside_def)
  then show ?thesis using f [OF l] fr by auto
qed

lemma parse_alone:
  assumes "0 < len" "len \<le> int (length data)" and "opus_packet_parse_impl data len sd = Some (Inr f)"
  shows "opus_packet_parse_impl data (fr_packet_offset f) sd = Some (Inr f)"
proof (cases sd)
  case True
  then show ?thesis using parse_prefix [OF assms(1,2)] assms(3) by simp
next
  case False
  then have "fr_packet_offset f = len" using parse_impl_ok [OF assms(1,2), of sd] assms(3) by (simp add: frames_ok_def)
  then show ?thesis using assms(3) by simp
qed

lemma unpad_streams_ok:
  assumes "stream_frames (drop data mem) len n = Some F" and "0 \<le> len" "int data + len \<le> int (length mem)" "dst \<le> data"
  shows "\<exists>ret mem'. unpad_streams mem n data len dst dst_len = Some (dst_len + ret, mem') \<and> 0 \<le> ret \<and> ret \<le> len
    \<and> stream_frames (drop dst mem') ret n = Some F \<and> only_changes mem mem' dst (nat ret) \<and> (n \<noteq> 0 \<longrightarrow> 0 < ret)"
  using assms
proof (induction n arbitrary: mem data len dst dst_len F)
  case 0
  then show ?case by (auto simp: only_changes_def)
next
  case (Suc n)
  define sd where "sd = (n \<noteq> 0)"
  obtain f F' where f: "opus_packet_parse_impl (drop data mem) len sd = Some (Inr f)"
    and F: "F = frame_list (drop data mem) (packet_frames 0 f) # F'"
    and rest: "stream_frames (drop (nat (fr_packet_offset f)) (drop data mem)) (len - fr_packet_offset f) n = Some F'"
    using Suc.prems(1) by (auto simp: sd_def split: option.splits sum.splits)
  define po where "po = fr_packet_offset f"
  have pos: "0 < len" using parse_impl_count [OF f] by simp
  have ld: "len \<le> int (length (drop data mem))" using Suc.prems by simp
  have fo: "frames_ok len sd f" using parse_impl_ok [OF pos ld, of sd] f by simp
  have nn: "list_all (\<lambda>s. 0 \<le> s) (fr_size f)" using fo by (auto simp: frames_ok_def list_all_iff)
  have "0 \<le> sum_list (fr_size f)" using nn by (intro sum_list_nonneg) (simp add: list_all_iff)
  moreover have "int (fr_padding f) = int (fr_payload_offset f) + sum_list (fr_size f)"
    using fo frame_offsets_end [OF nn, of "fr_payload_offset f"] unfolding frames_ok_def by (metis snd_conv)
  ultimately have po: "0 < po" "po \<le> len" "\<not> sd \<Longrightarrow> po = len"
    using fo by (auto simp: frames_ok_def po_def split: if_splits)
  have fp: "opus_packet_parse_impl (drop data mem) po sd = Some (Inr f)"
    unfolding po_def by (rule parse_alone [OF pos ld f])
  have dl: "dst + nat len \<le> length mem" using Suc.prems(2-4) by linarith
  obtain ret1 mem1 where s: "strip mem data po dst len sd = Some (ret1, mem1)" "0 < ret1" "ret1 \<le> po"
    and pk: "is_packet (seg mem1 dst (nat ret1)) sd (fr_toc f) (frame_list mem (packet_frames data f))"
    and oc: "only_changes mem mem1 dst (nat ret1)"
    using strip_ok [OF po(1) _ fp Suc.prems(4) _ dl] po(2) Suc.prems(3) by (auto simp: po_def)
  have len1: "length mem1 = length mem" using oc by (simp add: only_changes_def)
  have adv: "dst + nat ret1 \<le> data + nat po" using s Suc.prems(4) by linarith
  then have "drop (data + nat po) mem1 = drop (data + nat po) mem"
    using oc unfolding only_changes_def by (metis drop_drop le_add_diff_inverse2)
  then have st: "stream_frames (drop (data + nat po) mem1) (len - po) n = Some F'"
    using rest by (simp add: po_def drop_drop add.commute)
  obtain ret2 mem2 where u: "unpad_streams mem1 n (data + nat po) (len - po) (dst + nat ret1) (dst_len + ret1)
      = Some (dst_len + ret1 + ret2, mem2)" "0 \<le> ret2" "ret2 \<le> len - po"
    and st2: "stream_frames (drop (dst + nat ret1) mem2) ret2 n = Some F'" and oc2: "only_changes mem1 mem2 (dst + nat ret1) (nat ret2)"
    using Suc.IH [OF st _ _ adv, of "dst_len + ret1"] po s(2,3) Suc.prems(2,3) len1 by auto
  have len2: "length mem2 = length mem" using oc2 len1 by (simp add: only_changes_def)
  define bs where "bs = seg mem1 dst (nat ret1)"
  have lb: "length bs = nat ret1" using s po Suc.prems len1 by (simp add: bs_def)
  have tk: "take (dst + nat ret1) mem2 = take (dst + nat ret1) mem1" using oc2 by (simp add: only_changes_def)
  have "take (nat ret1) (drop dst mem2) = bs"
    using arg_cong [OF tk, of "drop dst"] by (simp add: bs_def seg_def drop_take)
  then have split: "drop dst mem2 = bs @ drop (dst + nat ret1) mem2"
    by (metis append_take_drop_id drop_drop add.commute)
  have lcond: "if sd then int (length bs) \<le> ret1 + ret2 else ret1 + ret2 = int (length bs)"
    using lb s(2) u(2,3) po(3) by auto
  have "bs \<noteq> []" using lb s(2) by auto
  then obtain f1 where f1: "opus_packet_parse_impl (drop dst mem2) (ret1 + ret2) sd = Some (Inr f1)"
    "fr_packet_offset f1 = int (length bs)"
    "frame_list (drop dst mem2) (packet_frames 0 f1) = frame_list mem (packet_frames data f)"
    using is_packet_found [OF pk [folded bs_def] lcond, of "drop (dst + nat ret1) mem2"] split by auto
  have res: "stream_frames (drop dst mem2) (ret1 + ret2) (Suc n) = Some F"
    unfolding stream_frames.simps sd_def [symmetric] using f1 st2 lb s(2) frame_list_drop [of mem data f]
    by (simp add: F drop_drop add.commute)
  have "unpad_streams mem (Suc n) data len dst dst_len = Some (dst_len + (ret1 + ret2), mem2)"
    unfolding unpad_streams_step sd_def [symmetric] using pos f s(1,2) u(1) by (simp add: po_def add.assoc)
  moreover have "only_changes mem mem2 dst (nat (ret1 + ret2))"
  proof -
    have "dst + nat (ret1 + ret2) = dst + nat ret1 + nat ret2" using s(2) u(2) by (simp add: nat_add_distrib)
    moreover have "take dst mem2 = take dst mem" using oc tk unfolding only_changes_def
      by (metis min.absorb1 le_add1 take_take)
    moreover have "drop (dst + nat ret1 + nat ret2) mem2 = drop (dst + nat ret1 + nat ret2) mem"
      using oc oc2 unfolding only_changes_def by (metis drop_drop add.commute)
    ultimately show ?thesis using len2 by (simp add: only_changes_def add.assoc)
  qed
  ultimately show ?case using res s(2,3) u(2,3) po(2)
    by (intro exI [of _ "ret1 + ret2"] exI [of _ mem2]) auto
qed

text \<open>
  C19. Unpadding a multistream packet in place, for a packet whose streams all parse, returns
  a positive length not larger than before: the bytes of that length hold the same streams
  with the same frames, and no byte after them changes.
\<close>

theorem multistream_unpad_inplace:
  assumes "0 < nb_streams" and "0 < len" and "int data + len \<le> int (length mem)"
    and "stream_frames (drop data mem) len (nat nb_streams) = Some frames"
  shows "\<exists>ret mem'. opus_multistream_packet_unpad mem data len nb_streams = Some (ret, mem') \<and> 0 < ret \<and> ret \<le> len
    \<and> stream_frames (drop data mem') ret (nat nb_streams) = Some frames \<and> only_changes mem mem' data (nat ret)"
  using unpad_streams_ok [OF assms(4) _ assms(3), of data 0] assms(1,2)
  by (auto simp: opus_multistream_packet_unpad_def)

theorem multistream_unpad_inplace_witness:
  "\<exists>ret mem'. opus_multistream_packet_unpad [0x08, 1, 55, 0x0B, 0x41, 2, 66, 0, 0] 0 9 2 = Some (ret, mem') \<and> 0 < ret \<and> ret \<le> 9
    \<and> stream_frames mem' ret 2 = Some [[[55]], [[66]]]"
proof -
  have "stream_frames (drop 0 [0x08, 1, 55, 0x0B, 0x41, 2, 66, 0, 0]) 9 (nat 2) = Some [[[55]], [[66]]]" by code_simp
  then show ?thesis using multistream_unpad_inplace [of 2 9 0 "[0x08, 1, 55, 0x0B, 0x41, 2, 66, 0, 0]"] by auto
qed

end
