(* ===== verification/Silk_Icdf.thy ===== *)
theory Silk_Icdf
  imports Range_Decoder_Safe Silk_Tables
begin

text \<open>
  What the SILK coding routines share: the integer macros of silk/macros.h and
  silk/SigProc_FIX.h that they use, checked reads from arrays, and the coding of a symbol
  with a table of bytes that is given by a pointer into a larger table.
\<close>

section \<open>Integer operations (silk/macros.h, silk/SigProc_FIX.h)\<close>

definition silk_RSHIFT :: "int \<Rightarrow> nat \<Rightarrow> int" where
  "silk_RSHIFT a shift = drop_bit shift a"

definition silk_LSHIFT :: "int \<Rightarrow> nat \<Rightarrow> int" where
  "silk_LSHIFT a shift = s32 (push_bit shift a)"

definition silk_SMULBB :: "int \<Rightarrow> int \<Rightarrow> int" where
  "silk_SMULBB a32 b32 = s16 a32 * s16 b32"

definition silk_SMULWB :: "int \<Rightarrow> int \<Rightarrow> int" where
  "silk_SMULWB a32 b32 = s32 (drop_bit 16 (a32 * s16 b32))"

definition silk_SMLABB :: "int \<Rightarrow> int \<Rightarrow> int \<Rightarrow> int" where
  "silk_SMLABB a32 b32 c32 = a32 + s16 b32 * s16 c32"

definition silk_SMLAWB :: "int \<Rightarrow> int \<Rightarrow> int \<Rightarrow> int" where
  "silk_SMLAWB a32 b32 c32 = s32 (a32 + drop_bit 16 (b32 * s16 c32))"

definition silk_RSHIFT_ROUND :: "int \<Rightarrow> nat \<Rightarrow> int" where
  "silk_RSHIFT_ROUND a shift =
    (if shift = 1 then drop_bit 1 a + (a AND 1) else drop_bit 1 (drop_bit (shift - 1) a + 1))"

definition silk_LIMIT :: "int \<Rightarrow> int \<Rightarrow> int \<Rightarrow> int" where
  "silk_LIMIT a limit1 limit2 =
    (if limit1 > limit2 then (if a > limit1 then limit1 else if a < limit2 then limit2 else a)
     else (if a > limit2 then limit2 else if a < limit1 then limit1 else a))"

lemma rshift_div: "silk_RSHIFT a n = a div 2 ^ n"
  by (simp add: silk_RSHIFT_def drop_bit_eq_div)

lemma lshift_mult: "- 2147483648 \<le> a * 2 ^ n \<Longrightarrow> a * 2 ^ n < 2147483648 \<Longrightarrow> silk_LSHIFT a n = a * 2 ^ n"
  by (simp add: silk_LSHIFT_def push_bit_eq_mult s32_id)

lemma rshift_round: "0 < n \<Longrightarrow> silk_RSHIFT_ROUND a n = (a + 2 ^ (n - 1)) div 2 ^ n"
proof -
  assume n: "0 < n"
  show ?thesis
  proof (cases "n = 1")
    case True
    have "(a :: int) AND 1 = a mod 2" by (simp add: and_one_eq)
    then show ?thesis using True by (simp add: silk_RSHIFT_ROUND_def drop_bit_eq_div) presburger
  next
    case False
    obtain m where m: "n = Suc m" using n by (cases n) auto
    have "(a + 2 ^ m) div 2 ^ m = a div 2 ^ m + 1" by (rule div_add_self2) simp
    then have "(a div 2 ^ m + 1) div 2 = (a + 2 ^ m) div 2 ^ m div 2" by simp
    also have "\<dots> = (a + 2 ^ m) div 2 ^ Suc m" by (simp add: div_mult2_eq' mult.commute flip: zdiv_zmult2_eq)
    finally show ?thesis using False m by (simp add: silk_RSHIFT_ROUND_def drop_bit_eq_div)
  qed
qed

lemma limit_bounds:
  assumes "lo \<le> hi"
  shows "silk_LIMIT a lo hi = max lo (min hi a)"
  using assms by (auto simp: silk_LIMIT_def min_def max_def)

section \<open>Array reads\<close>

text \<open>An element of an array; an index outside of it is \<open>None\<close>.\<close>

definition elem :: "'a list \<Rightarrow> int \<Rightarrow> 'a option" where
  "elem xs i = (if 0 \<le> i \<and> nat i < length xs then Some (xs ! nat i) else None)"

text \<open>The pointer \<open>&xs[i]\<close>: what is left of the array from there on.\<close>

definition from_elem :: "'a list \<Rightarrow> int \<Rightarrow> 'a list option" where
  "from_elem xs i = (if 0 \<le> i \<and> nat i \<le> length xs then Some (drop (nat i) xs) else None)"

lemma elem_Some: "elem xs i = Some x \<longleftrightarrow> 0 \<le> i \<and> nat i < length xs \<and> x = xs ! nat i"
  by (auto simp: elem_def)

lemma elem_nth [simp]: "0 \<le> i \<Longrightarrow> nat i < length xs \<Longrightarrow> elem xs i = Some (xs ! nat i)"
  by (simp add: elem_def)

lemma from_elem_drop [simp]: "0 \<le> i \<Longrightarrow> nat i \<le> length xs \<Longrightarrow> from_elem xs i = Some (drop (nat i) xs)"
  by (simp add: from_elem_def)

section \<open>Symbols of a byte table\<close>

text \<open>
  \<open>ec_enc_icdf\<close> and \<open>ec_dec_icdf\<close> with the signed index and the frequencies of eight bits
  that all callers in SILK use. An index before the table is \<open>None\<close>.
\<close>

definition enc_icdf :: "int \<Rightarrow> u32 list \<Rightarrow> ec_ctx \<Rightarrow> ec_ctx option" where
  "enc_icdf s icdf e = (if s < 0 then None else ec_enc_icdf (nat s) icdf 8 e)"

definition dec_icdf :: "u32 list \<Rightarrow> ec_ctx \<Rightarrow> (int \<times> ec_ctx) option" where
  "dec_icdf icdf d = do { (s, d) \<leftarrow> ec_dec_icdf icdf 8 d; Some (int s, d) }"

text \<open>
  The number of symbols of a table: its entries up to the first 0, if they decrease and
  start below 256. What follows them in memory is never read.
\<close>

fun icdf_symbols :: "u32 \<Rightarrow> u32 list \<Rightarrow> nat option" where
  "icdf_symbols p [] = None"
| "icdf_symbols p (x # xs) =
    (if x < p then if x = 0 then Some 1 else map_option Suc (icdf_symbols x xs) else None)"

definition icdf_size :: "u32 list \<Rightarrow> int \<Rightarrow> bool" where
  "icdf_size icdf n \<longleftrightarrow> icdf_symbols 256 icdf = Some (nat n)"

lemma icdf_symbols_prefix:
  "icdf_symbols p icdf = Some n \<Longrightarrow>
     n \<le> length icdf \<and> 0 < n \<and> last (take n icdf) = 0 \<and> sorted_wrt (>) (p # take n icdf)"
proof (induction p icdf arbitrary: n rule: icdf_symbols.induct)
  case (2 p x xs)
  show ?case
  proof (cases "x = 0")
    case True
    then show ?thesis using 2 by (auto split: if_splits)
  next
    case False
    then obtain m where m: "icdf_symbols x xs = Some m" "n = Suc m" "x < p"
      using 2 by (auto split: if_splits)
    from 2(1) [OF m(3) False m(1)]
    have ih: "m \<le> length xs" "0 < m" "last (take m xs) = 0" "sorted_wrt (>) (x # take m xs)" by auto
    then show ?thesis using m by (auto dest: less_trans)
  qed
qed simp

lemma enc_icdf_prefix: "s < n \<Longrightarrow> n \<le> length icdf \<Longrightarrow> ec_enc_icdf s icdf ftb e = ec_enc_icdf s (take n icdf) ftb e"
  by (cases "s = 0") (auto simp: ec_enc_icdf_def Let_def)

lemma icdf_search_prefix:
  "0 \<in> set xs \<Longrightarrow> icdf_search r d t n (xs @ ys) = icdf_search r d t n xs"
  by (induction xs arbitrary: t n) (auto simp: Let_def)

lemma dec_icdf_prefix:
  assumes "0 \<in> set (take n icdf)"
  shows "ec_dec_icdf icdf ftb d = ec_dec_icdf (take n icdf) ftb d"
  using icdf_search_prefix [OF assms, where ys = "drop n icdf"] by (simp add: ec_dec_icdf_def)

lemma icdf_size_facts:
  assumes "icdf_size icdf n"
  shows "nat n \<le> length icdf" and "0 < n" and "0 \<in> set (take (nat n) icdf)"
    and "0 \<le> s \<Longrightarrow> s < n \<Longrightarrow> icdf_valid (take (nat n) icdf) 8 (nat s)"
    and "icdf_closed (take (nat n) icdf) 8"
proof -
  from icdf_symbols_prefix assms
  have n: "nat n \<le> length icdf" "0 < nat n" and l: "last (take (nat n) icdf) = 0"
    and sw: "sorted_wrt (>) (256 # take (nat n) icdf)" unfolding icdf_size_def by blast+
  show "nat n \<le> length icdf" "0 < n" using n by simp_all
  have ne: "take (nat n) icdf \<noteq> []" using n by auto
  show "0 \<in> set (take (nat n) icdf)" using l last_in_set [OF ne] by simp
  have all: "list_all (\<lambda>x. x < push_bit 8 1) (take (nat n) icdf)" using sw by (simp add: list_all_iff)
  show "icdf_closed (take (nat n) icdf) 8" using ne l all by (simp add: icdf_closed_def)
  assume s: "0 \<le> s" "s < n"
  have le: "sorted_wrt (\<ge>) (take (nat n) icdf)"
    using sw by (auto intro: sorted_wrt_mono_rel [of _ "(>)"])
  have lt: "take (nat n) icdf ! nat s < icdf_prev (take (nat n) icdf) 8 (nat s)"
  proof (cases "nat s = 0")
    case True
    have "take (nat n) icdf ! 0 \<in> set (take (nat n) icdf)" using n by (intro nth_mem) simp
    then show ?thesis using True all by (simp only: icdf_prev_def list_all_iff simp_thms if_True)
  next
    case False
    have "nat s - 1 < nat s" "nat s < length (take (nat n) icdf)" using False s n by simp_all
    moreover have "sorted_wrt (>) (take (nat n) icdf)" using sw by simp
    ultimately have "take (nat n) icdf ! nat s < take (nat n) icdf ! (nat s - 1)"
      unfolding sorted_wrt_iff_nth_less by blast
    then show ?thesis using False by (simp only: icdf_prev_def if_False)
  qed
  show "icdf_valid (take (nat n) icdf) 8 (nat s)"
    unfolding icdf_valid_def using le all lt s n by (simp del: push_bit_of_1)
qed

lemma codes_enc_icdf:
  assumes "icdf_size icdf n" and "0 \<le> s" and "s < n"
  shows "codes (enc_icdf s icdf) (dec_icdf icdf) s"
proof -
  note f = icdf_size_facts [OF assms(1)]
  note c = codes_icdf [OF f(4) [OF assms(2,3)]]
  have E: "enc_icdf s icdf e = ec_enc_icdf (nat s) (take (nat n) icdf) 8 e" for e
    using assms f(1) enc_icdf_prefix [of "nat s" "nat n" icdf 8 e] by (simp add: enc_icdf_def)
  have D: "dec_icdf icdf d = ec_dec_icdf (take (nat n) icdf) 8 d \<bind> (\<lambda>(s, d). Some (int s, d))" for d
    by (simp add: dec_icdf_def dec_icdf_prefix [OF f(3)])
  have "codes (ec_enc_icdf (nat s) (take (nat n) icdf) 8) (dec_icdf icdf) s"
    by (rule codes_map [OF c D]) (use assms in simp)
  moreover have "enc_icdf s icdf = ec_enc_icdf (nat s) (take (nat n) icdf) 8" by (rule ext) (rule E)
  ultimately show ?thesis by simp
qed

lemma reads_dec_icdf:
  assumes "icdf_size icdf n"
  shows "reads (dec_icdf icdf) (\<lambda>s. 0 \<le> s \<and> s < n)"
proof -
  note f = icdf_size_facts [OF assms]
  have "dec_icdf icdf = (\<lambda>d. ec_dec_icdf (take (nat n) icdf) 8 d \<bind> (\<lambda>(s, d). Some (int s, d)))"
    by (rule ext) (simp add: dec_icdf_def dec_icdf_prefix [OF f(3)])
  then show ?thesis
    using reads_bind [OF reads_icdf [OF f(5)], of "\<lambda>s d. Some (int s, d)" "\<lambda>s. 0 \<le> s \<and> s < n"]
      f(1,2) by (simp add: reads_return)
qed

section \<open>Composing steps\<close>

text \<open>The last step of an encoder, and steps of the decoder that return two values.\<close>

lemma codes_then:
  assumes "codes E D x" and "D' x = (\<lambda>d. Some (y, d))"
  shows "codes E (\<lambda>d. D d \<bind> (\<lambda>(x, d). D' x d)) y"
  using codes_bind [OF assms(1), of Some D' y] assms(2) by (simp add: codes_return)

lemma codes_bind2:
  assumes "codes E D (a, b)" and "codes E' (D' a b) y"
  shows "codes (\<lambda>e. E e \<bind> E') (\<lambda>d. D d \<bind> (\<lambda>((a, b), d). D' a b d)) y"
  using codes_bind [OF assms(1), of E' "\<lambda>(a, b). D' a b" y] assms(2) by (simp add: split_def)

lemma codes_then2:
  assumes "codes E D (a, b)" and "D' a b = (\<lambda>d. Some (y, d))"
  shows "codes E (\<lambda>d. D d \<bind> (\<lambda>((a, b), d). D' a b d)) y"
  using codes_then [OF assms(1), of "\<lambda>(a, b). D' a b" y] assms(2) by (simp add: split_def)

lemma reads_bind2:
  assumes "reads D (\<lambda>(a, b). P a b)" and "\<And>a b. P a b \<Longrightarrow> reads (D' a b) Q"
  shows "reads (\<lambda>d. D d \<bind> (\<lambda>((a, b), d). D' a b d)) Q"
  using reads_bind [OF assms(1), of "\<lambda>(a, b). D' a b" Q] assms(2) by (simp add: split_def split_paired_all)

end
