(* ===== verification/Silk_Shell.thy ===== *)
theory Silk_Shell
  imports Silk_Icdf
begin

text \<open>
  The coding of one block of 16 pulse magnitudes (shell_coder.c) and of the signs of all
  blocks (code_signs.c). The shell coder splits the sum of a block into the sums of its
  halves, down to single pulses.
\<close>

section \<open>The shell coder (shell_coder.c)\<close>

definition combine_pulses :: "int list \<Rightarrow> nat \<Rightarrow> int list" where
  "combine_pulses inp len = map (\<lambda>k. inp ! (2 * k) + inp ! (2 * k + 1)) [0..<len]"

definition encode_split :: "int \<Rightarrow> int \<Rightarrow> u32 list \<Rightarrow> ec_ctx \<Rightarrow> ec_ctx option" where
  "encode_split p_child1 p shell_table e =
    (if p > 0 then do {
       off \<leftarrow> elem silk_shell_code_table_offsets p;
       tab \<leftarrow> from_elem shell_table off;
       enc_icdf p_child1 tab e
     } else Some e)"

text \<open>Both children, as they are stored in 16 bits.\<close>

definition decode_split :: "int \<Rightarrow> u32 list \<Rightarrow> ec_ctx \<Rightarrow> ((int \<times> int) \<times> ec_ctx) option" where
  "decode_split p shell_table d =
    (if p > 0 then do {
       off \<leftarrow> elem silk_shell_code_table_offsets p;
       tab \<leftarrow> from_elem shell_table off;
       (c, d) \<leftarrow> dec_icdf tab d;
       Some ((s16 c, s16 (p - s16 c)), d)
     } else Some ((0, 0), d))"

text \<open>\<open>pulses0\<close> has 16 elements.\<close>

definition silk_shell_encoder :: "int list \<Rightarrow> ec_ctx \<Rightarrow> ec_ctx option" where
  "silk_shell_encoder pulses0 e =
    (let pulses1 = combine_pulses pulses0 8;
         pulses2 = combine_pulses pulses1 4;
         pulses3 = combine_pulses pulses2 2;
         pulses4 = combine_pulses pulses3 1
     in do {
       e \<leftarrow> encode_split (pulses3 ! 0) (pulses4 ! 0) silk_shell_code_table3 e;
       e \<leftarrow> encode_split (pulses2 ! 0) (pulses3 ! 0) silk_shell_code_table2 e;
       e \<leftarrow> encode_split (pulses1 ! 0) (pulses2 ! 0) silk_shell_code_table1 e;
       e \<leftarrow> encode_split (pulses0 ! 0) (pulses1 ! 0) silk_shell_code_table0 e;
       e \<leftarrow> encode_split (pulses0 ! 2) (pulses1 ! 1) silk_shell_code_table0 e;
       e \<leftarrow> encode_split (pulses1 ! 2) (pulses2 ! 1) silk_shell_code_table1 e;
       e \<leftarrow> encode_split (pulses0 ! 4) (pulses1 ! 2) silk_shell_code_table0 e;
       e \<leftarrow> encode_split (pulses0 ! 6) (pulses1 ! 3) silk_shell_code_table0 e;
       e \<leftarrow> encode_split (pulses2 ! 2) (pulses3 ! 1) silk_shell_code_table2 e;
       e \<leftarrow> encode_split (pulses1 ! 4) (pulses2 ! 2) silk_shell_code_table1 e;
       e \<leftarrow> encode_split (pulses0 ! 8) (pulses1 ! 4) silk_shell_code_table0 e;
       e \<leftarrow> encode_split (pulses0 ! 10) (pulses1 ! 5) silk_shell_code_table0 e;
       e \<leftarrow> encode_split (pulses1 ! 6) (pulses2 ! 3) silk_shell_code_table1 e;
       e \<leftarrow> encode_split (pulses0 ! 12) (pulses1 ! 6) silk_shell_code_table0 e;
       encode_split (pulses0 ! 14) (pulses1 ! 7) silk_shell_code_table0 e
     })"

definition silk_shell_decoder :: "int \<Rightarrow> ec_ctx \<Rightarrow> (int list \<times> ec_ctx) option" where
  "silk_shell_decoder pulses4 d = do {
     ((p3_0, p3_1), d) \<leftarrow> decode_split pulses4 silk_shell_code_table3 d;
     ((p2_0, p2_1), d) \<leftarrow> decode_split p3_0 silk_shell_code_table2 d;
     ((p1_0, p1_1), d) \<leftarrow> decode_split p2_0 silk_shell_code_table1 d;
     ((p0_0, p0_1), d) \<leftarrow> decode_split p1_0 silk_shell_code_table0 d;
     ((p0_2, p0_3), d) \<leftarrow> decode_split p1_1 silk_shell_code_table0 d;
     ((p1_2, p1_3), d) \<leftarrow> decode_split p2_1 silk_shell_code_table1 d;
     ((p0_4, p0_5), d) \<leftarrow> decode_split p1_2 silk_shell_code_table0 d;
     ((p0_6, p0_7), d) \<leftarrow> decode_split p1_3 silk_shell_code_table0 d;
     ((p2_2, p2_3), d) \<leftarrow> decode_split p3_1 silk_shell_code_table2 d;
     ((p1_4, p1_5), d) \<leftarrow> decode_split p2_2 silk_shell_code_table1 d;
     ((p0_8, p0_9), d) \<leftarrow> decode_split p1_4 silk_shell_code_table0 d;
     ((p0_10, p0_11), d) \<leftarrow> decode_split p1_5 silk_shell_code_table0 d;
     ((p1_6, p1_7), d) \<leftarrow> decode_split p2_3 silk_shell_code_table1 d;
     ((p0_12, p0_13), d) \<leftarrow> decode_split p1_6 silk_shell_code_table0 d;
     ((p0_14, p0_15), d) \<leftarrow> decode_split p1_7 silk_shell_code_table0 d;
     Some ([p0_0, p0_1, p0_2, p0_3, p0_4, p0_5, p0_6, p0_7,
            p0_8, p0_9, p0_10, p0_11, p0_12, p0_13, p0_14, p0_15], d)
   }"

text \<open>The part of a shell table for a sum \<open>p\<close> has the symbols 0 to \<open>p\<close>.\<close>

definition shell_table_ok :: "u32 list \<Rightarrow> bool" where
  "shell_table_ok tab \<longleftrightarrow> length tab = 152 \<and> list_all (\<lambda>p. icdf_size
     (drop (nat (silk_shell_code_table_offsets ! p)) tab) (int p + 1)) [1..<17]"

lemma shell_offsets: "length silk_shell_code_table_offsets = 17"
    "list_all (\<lambda>x. 0 \<le> x \<and> nat x \<le> 152) silk_shell_code_table_offsets"
  by (simp_all add: silk_shell_code_table_offsets_def)

lemma shell_tables_ok [simp]:
  "shell_table_ok silk_shell_code_table0" "shell_table_ok silk_shell_code_table1"
  "shell_table_ok silk_shell_code_table2" "shell_table_ok silk_shell_code_table3"
  by code_simp+

lemma shell_part:
  assumes "shell_table_ok tab" and "0 < p" and "p \<le> 16"
  obtains off where "elem silk_shell_code_table_offsets p = Some off"
    and "from_elem tab off = Some (drop (nat off) tab)" and "icdf_size (drop (nat off) tab) (p + 1)"
proof -
  let ?off = "silk_shell_code_table_offsets ! nat p"
  have p: "nat p < 17" "nat p \<in> set [1..<17]" "int (nat p) = p" using assms by auto
  have "?off \<in> set silk_shell_code_table_offsets" using p shell_offsets by (intro nth_mem) simp
  then have o: "0 \<le> ?off" "nat ?off \<le> 152" using shell_offsets(2) by (auto simp: list_all_iff)
  have "icdf_size (drop (nat ?off) tab) (int (nat p) + 1)"
    using assms(1) p(2) unfolding shell_table_ok_def list_all_iff by blast
  then show thesis
    using that [of ?off] p assms o shell_offsets(1) by (simp add: shell_table_ok_def)
qed

lemma codes_split:
  assumes "shell_table_ok tab" and "0 \<le> a" and "0 \<le> b" and "a + b \<le> 16"
  shows "codes (encode_split a (a + b) tab) (decode_split (a + b) tab) (a, b)"
proof (cases "0 < a + b")
  case True
  with assms obtain off where off: "elem silk_shell_code_table_offsets (a + b) = Some off"
    "from_elem tab off = Some (drop (nat off) tab)" "icdf_size (drop (nat off) tab) (a + b + 1)"
    by (auto elim: shell_part [of tab "a + b"])
  have "codes (enc_icdf a (drop (nat off) tab)) (\<lambda>d. dec_icdf (drop (nat off) tab) d \<bind>
      (\<lambda>(c, d). Some ((s16 c, s16 (a + b - s16 c)), d))) (a, b)"
    by (rule codes_then [OF codes_enc_icdf [OF off(3)]]) (use assms in \<open>simp_all add: s16_id\<close>)
  moreover have "encode_split a (a + b) tab = enc_icdf a (drop (nat off) tab)"
    using True off by (intro ext) (simp add: encode_split_def)
  moreover have "decode_split (a + b) tab = (\<lambda>d. dec_icdf (drop (nat off) tab) d \<bind>
      (\<lambda>(c, d). Some ((s16 c, s16 (a + b - s16 c)), d)))"
    using True off by (intro ext) (simp add: decode_split_def)
  ultimately show ?thesis by simp
next
  case False
  then have "encode_split a (a + b) tab = Some" "decode_split (a + b) tab = (\<lambda>d. Some ((a, b), d))"
    using assms by (auto simp: fun_eq_iff encode_split_def decode_split_def)
  then show ?thesis by (simp add: codes_return)
qed

lemma reads_split:
  assumes "shell_table_ok tab" and "0 \<le> p" and "p \<le> 16"
  shows "reads (decode_split p tab) (\<lambda>(a, b). 0 \<le> a \<and> 0 \<le> b \<and> a + b = p)"
proof (cases "0 < p")
  case True
  with assms obtain off where off: "elem silk_shell_code_table_offsets p = Some off"
    "from_elem tab off = Some (drop (nat off) tab)" "icdf_size (drop (nat off) tab) (p + 1)"
    by (auto elim: shell_part [of tab p])
  have "decode_split p tab = (\<lambda>d. dec_icdf (drop (nat off) tab) d \<bind>
      (\<lambda>(c, d). Some ((s16 c, s16 (p - s16 c)), d)))"
    using True off by (intro ext) (simp add: decode_split_def)
  moreover have "reads \<dots> (\<lambda>(a, b). 0 \<le> a \<and> 0 \<le> b \<and> a + b = p)"
    by (rule reads_bind [OF reads_dec_icdf [OF off(3)]], rule reads_return)
      (use assms in \<open>auto simp: s16_id\<close>)
  ultimately show ?thesis by simp
next
  case False
  then have "decode_split p tab = (\<lambda>d. Some ((0, 0), d))" "p = 0"
    using assms by (auto simp: fun_eq_iff decode_split_def)
  then show ?thesis by (simp add: reads_return)
qed

text \<open>A block that the shell coder is made for, and what it reads back.\<close>

definition shell_block :: "int list \<Rightarrow> bool" where
  "shell_block ps \<longleftrightarrow> length ps = 16 \<and> list_all (\<lambda>p. 0 \<le> p) ps \<and> sum_list ps \<le> 16"

lemma length16:
  assumes "length ps = 16"
  shows "ps = [ps ! 0, ps ! 1, ps ! 2, ps ! 3, ps ! 4, ps ! 5, ps ! 6, ps ! 7,
    ps ! 8, ps ! 9, ps ! 10, ps ! 11, ps ! 12, ps ! 13, ps ! 14, ps ! 15]"
proof -
  have "[0..<16] = [0, 1, 2, 3, 4, 5, 6, 7, 8, 9, 10, 11, 12, 13, 14, 15::nat]"
    by (simp add: upt_rec)
  then show ?thesis using map_nth [of ps] unfolding assms by simp
qed

lemma codes_shell_16:
  assumes nn: "0 \<le> a" "0 \<le> b" "0 \<le> c" "0 \<le> d" "0 \<le> e" "0 \<le> f" "0 \<le> g" "0 \<le> h"
      "0 \<le> i" "0 \<le> j" "0 \<le> k" "0 \<le> l" "0 \<le> m" "0 \<le> n" "0 \<le> q" "0 \<le> p"
    and le: "a + b + (c + d) + (e + f + (g + h)) + (i + j + (k + l) + (m + n + (q + p))) \<le> 16"
  shows "codes (silk_shell_encoder [a, b, c, d, e, f, g, h, i, j, k, l, m, n, q, p])
    (silk_shell_decoder (a + b + (c + d) + (e + f + (g + h)) + (i + j + (k + l) + (m + n + (q + p)))))
    [a, b, c, d, e, f, g, h, i, j, k, l, m, n, q, p]"
proof -
  have up: "[0..<8] = [0, 1, 2, 3, 4, 5, 6, 7::nat]" "[0..<4] = [0, 1, 2, 3::nat]" "[0..<2] = [0, 1::nat]"
    by (simp_all add: upt_rec)
  show ?thesis
    unfolding silk_shell_encoder_def silk_shell_decoder_def combine_pulses_def up Let_def
    apply (simp del: add.assoc)
    by (rule codes_bind2 codes_then2 codes_split shell_tables_ok refl | use nn le in linarith)+
qed

lemma codes_shell:
  assumes "shell_block ps"
  shows "codes (silk_shell_encoder ps) (silk_shell_decoder (sum_list ps)) ps"
proof -
  have len: "length ps = 16" and nn: "\<And>k. k < 16 \<Longrightarrow> 0 \<le> ps ! k" and le: "sum_list ps \<le> 16"
    using assms by (auto simp: shell_block_def list_all_length)
  note ps = length16 [OF len]
  have sum: "sum_list ps = ps ! 0 + ps ! 1 + (ps ! 2 + ps ! 3) + (ps ! 4 + ps ! 5 + (ps ! 6 + ps ! 7))
      + (ps ! 8 + ps ! 9 + (ps ! 10 + ps ! 11) + (ps ! 12 + ps ! 13 + (ps ! 14 + ps ! 15)))"
    by (subst ps) simp
  have "codes (silk_shell_encoder [ps ! 0, ps ! 1, ps ! 2, ps ! 3, ps ! 4, ps ! 5, ps ! 6, ps ! 7,
      ps ! 8, ps ! 9, ps ! 10, ps ! 11, ps ! 12, ps ! 13, ps ! 14, ps ! 15])
    (silk_shell_decoder (sum_list ps)) [ps ! 0, ps ! 1, ps ! 2, ps ! 3, ps ! 4, ps ! 5, ps ! 6, ps ! 7,
      ps ! 8, ps ! 9, ps ! 10, ps ! 11, ps ! 12, ps ! 13, ps ! 14, ps ! 15]"
    using le unfolding sum by (intro codes_shell_16 nn) simp_all
  then show ?thesis by (simp only: ps [symmetric])
qed

text \<open>On any input the decoder splits the sum it is given.\<close>

lemma reads_shell:
  assumes "0 \<le> p" and "p \<le> 16"
  shows "reads (silk_shell_decoder p) (\<lambda>ps. shell_block ps \<and> sum_list ps = p)"
  unfolding silk_shell_decoder_def
  by (rule reads_bind2 reads_return reads_split shell_tables_ok |
      use assms in \<open>simp add: shell_block_def\<close>)+

section \<open>The signs (code_signs.c)\<close>

definition silk_enc_map :: "int \<Rightarrow> int" where
  "silk_enc_map a = silk_RSHIFT a 15 + 1"

definition silk_dec_map :: "int \<Rightarrow> int" where
  "silk_dec_map a = silk_LSHIFT a 1 - 1"

text \<open>The inner loop over the pulses of a block, with the table \<open>icdf\<close> of two entries.\<close>

fun encode_sign_loop :: "u32 list \<Rightarrow> int list \<Rightarrow> ec_ctx \<Rightarrow> ec_ctx option" where
  "encode_sign_loop icdf [] e = Some e"
| "encode_sign_loop icdf (q # qs) e =
    (if q \<noteq> 0 then enc_icdf (silk_enc_map q) icdf e \<bind> encode_sign_loop icdf qs
     else encode_sign_loop icdf qs e)"

fun decode_sign_loop :: "u32 list \<Rightarrow> int list \<Rightarrow> ec_ctx \<Rightarrow> (int list \<times> ec_ctx) option" where
  "decode_sign_loop icdf [] d = Some ([], d)"
| "decode_sign_loop icdf (q # qs) d =
    (if q > 0 then do {
       (s, d) \<leftarrow> dec_icdf icdf d;
       (qs, d) \<leftarrow> decode_sign_loop icdf qs d;
       Some (s16 (q * silk_dec_map s) # qs, d)
     } else do {
       (qs, d) \<leftarrow> decode_sign_loop icdf qs d;
       Some (q # qs, d)
     })"

text \<open>
  The outer loop: the sums of the blocks still to come and \<open>q_ptr\<close>, the pulses from the
  first of them on. A block that is not there is \<open>None\<close>.
\<close>

fun encode_sign_blocks :: "u32 list \<Rightarrow> int list \<Rightarrow> int list \<Rightarrow> ec_ctx \<Rightarrow> ec_ctx option" where
  "encode_sign_blocks icdf_ptr [] q_ptr e = Some e"
| "encode_sign_blocks icdf_ptr (p # sum_pulses) q_ptr e =
    (if p > 0 then do {
       icdf0 \<leftarrow> elem icdf_ptr (min (p AND 0x1F) 6);
       e \<leftarrow> (if 16 \<le> length q_ptr then encode_sign_loop [icdf0, 0] (take 16 q_ptr) e else None);
       encode_sign_blocks icdf_ptr sum_pulses (drop 16 q_ptr) e
     } else encode_sign_blocks icdf_ptr sum_pulses (drop 16 q_ptr) e)"

fun decode_sign_blocks :: "u32 list \<Rightarrow> int list \<Rightarrow> int list \<Rightarrow> ec_ctx \<Rightarrow> (int list \<times> ec_ctx) option" where
  "decode_sign_blocks icdf_ptr [] q_ptr d = Some (q_ptr, d)"
| "decode_sign_blocks icdf_ptr (p # sum_pulses) q_ptr d =
    (if p > 0 then do {
       icdf0 \<leftarrow> elem icdf_ptr (min (p AND 0x1F) 6);
       (qs, d) \<leftarrow> (if 16 \<le> length q_ptr then decode_sign_loop [icdf0, 0] (take 16 q_ptr) d else None);
       (rest, d) \<leftarrow> decode_sign_blocks icdf_ptr sum_pulses (drop 16 q_ptr) d;
       Some (qs @ rest, d)
     } else do {
       (rest, d) \<leftarrow> decode_sign_blocks icdf_ptr sum_pulses (drop 16 q_ptr) d;
       Some (take 16 q_ptr @ rest, d)
     })"

text \<open>The number of blocks that the sign coder visits, and its table.\<close>

definition sign_blocks :: "int \<Rightarrow> int list \<Rightarrow> int list option" where
  "sign_blocks len sum_pulses =
    (let n = nat (silk_RSHIFT (len + 16 div 2) 4)
     in if n \<le> length sum_pulses then Some (take n sum_pulses) else None)"

definition sign_table :: "int \<Rightarrow> int \<Rightarrow> u32 list option" where
  "sign_table signalType quantOffsetType =
    from_elem silk_sign_iCDF (silk_SMULBB 7 (quantOffsetType + silk_LSHIFT signalType 1))"

definition silk_encode_signs ::
  "int list \<Rightarrow> int \<Rightarrow> int \<Rightarrow> int \<Rightarrow> int list \<Rightarrow> ec_ctx \<Rightarrow> ec_ctx option" where
  "silk_encode_signs pulses len signalType quantOffsetType sum_pulses e = do {
     icdf_ptr \<leftarrow> sign_table signalType quantOffsetType;
     ps \<leftarrow> sign_blocks len sum_pulses;
     encode_sign_blocks icdf_ptr ps pulses e
   }"

definition silk_decode_signs ::
  "int list \<Rightarrow> int \<Rightarrow> int \<Rightarrow> int \<Rightarrow> int list \<Rightarrow> ec_ctx \<Rightarrow> (int list \<times> ec_ctx) option" where
  "silk_decode_signs pulses len signalType quantOffsetType sum_pulses d = do {
     icdf_ptr \<leftarrow> sign_table signalType quantOffsetType;
     ps \<leftarrow> sign_blocks len sum_pulses;
     decode_sign_blocks icdf_ptr ps pulses d
   }"

text \<open>A sign table with seven usable entries.\<close>

definition sign_table_ok :: "u32 list \<Rightarrow> bool" where
  "sign_table_ok tab \<longleftrightarrow> 7 \<le> length tab \<and> list_all (\<lambda>x. 0 < x \<and> x < 256) (take 7 tab)"

lemma sign_table_Some:
  assumes "signalType \<in> {0, 1, 2}" and "quantOffsetType \<in> {0, 1}"
  obtains tab where "sign_table signalType quantOffsetType = Some tab" and "sign_table_ok tab"
proof -
  have "list_all (\<lambda>s. list_all (\<lambda>q. sign_table_ok (drop (nat (7 * (q + 2 * s))) silk_sign_iCDF)
      \<and> nat (7 * (q + 2 * s)) \<le> length silk_sign_iCDF) [0, 1]) [0, 1, 2]"
    by code_simp
  then have ok: "sign_table_ok (drop (nat (7 * (q + 2 * s))) silk_sign_iCDF)"
    "nat (7 * (q + 2 * s)) \<le> length silk_sign_iCDF" if "s \<in> {0, 1, 2}" "q \<in> {0, 1}" for s q
    using that by auto
  have i: "silk_SMULBB 7 (quantOffsetType + silk_LSHIFT signalType 1) = 7 * (quantOffsetType + 2 * signalType)"
    using assms by (auto simp: silk_SMULBB_def lshift_mult s16_id)
  have "0 \<le> 7 * (quantOffsetType + 2 * signalType)" using assms by auto
  then show thesis
    using ok [OF assms]
    by (intro that [of "drop (nat (7 * (quantOffsetType + 2 * signalType))) silk_sign_iCDF"])
      (simp_all add: sign_table_def i [simplified])
qed

lemma sign_icdf:
  assumes "sign_table_ok tab"
  obtains x where "elem tab (min (p AND 31) 6) = Some x" and "icdf_size [x, 0] 2"
proof -
  have "0 \<le> p AND 31" by simp
  then have i: "0 \<le> min (p AND 31) 6" "nat (min (p AND 31) 6) < 7" by simp_all
  let ?x = "tab ! nat (min (p AND 31) 6)"
  have l: "7 \<le> length tab" using assms by (simp add: sign_table_ok_def)
  then have "?x = take 7 tab ! nat (min (p AND 31) 6)" using i by simp
  then have "?x \<in> set (take 7 tab)" using i l by (metis length_take min.absorb2 nth_mem)
  then have "0 < ?x" "?x < 256" using assms by (auto simp: sign_table_ok_def list_all_iff)
  then have "icdf_size [?x, 0] 2" by (simp add: icdf_size_def)
  moreover have "elem tab (min (p AND 31) 6) = Some ?x" using i l by (intro elem_nth) linarith+
  ultimately show thesis by (intro that)
qed

lemma sign_maps:
  assumes "- 128 \<le> q" and "q \<le> 127" and "q \<noteq> 0"
  shows "0 \<le> silk_enc_map q" "silk_enc_map q < 2"
    and "s16 (\<bar>q\<bar> * silk_dec_map (silk_enc_map q)) = q"
proof -
  have "q < 0 \<Longrightarrow> q div 32768 = - 1"
    using assms int_le_div [of 32768 "- 1" q] int_div_less [of 32768 q 0] by simp
  moreover have "0 < q \<Longrightarrow> q div 32768 = 0" using assms by (simp add: div_pos_pos_trivial)
  ultimately have m: "silk_enc_map q = (if q < 0 then 0 else 1)"
    using assms by (auto simp: silk_enc_map_def rshift_div)
  show "0 \<le> silk_enc_map q" "silk_enc_map q < 2" by (simp_all add: m)
  show "s16 (\<bar>q\<bar> * silk_dec_map (silk_enc_map q)) = q"
    using assms by (simp add: m silk_dec_map_def lshift_mult s16_id)
qed

lemma codes_sign_loop:
  assumes "icdf_size icdf 2"
  shows "list_all (\<lambda>q. - 128 \<le> q \<and> q \<le> 127) qs \<Longrightarrow>
    codes (encode_sign_loop icdf qs) (decode_sign_loop icdf (map abs qs)) qs"
proof (induction qs)
  case Nil
  then show ?case by (simp add: codes_return eta_contract_eq)
next
  case (Cons q qs)
  show ?case
  proof (cases "q = 0")
    case True
    then show ?thesis using Cons codes_then [of "encode_sign_loop icdf qs" _ qs "\<lambda>qs d. Some (0 # qs, d)"]
      by simp
  next
    case False
    note m = sign_maps [OF _ _ False]
    have "codes (\<lambda>e. enc_icdf (silk_enc_map q) icdf e \<bind> encode_sign_loop icdf qs)
      (\<lambda>d. dec_icdf icdf d \<bind> (\<lambda>(s, d). decode_sign_loop icdf (map abs qs) d \<bind>
         (\<lambda>(qs, d). Some (s16 (\<bar>q\<bar> * silk_dec_map s) # qs, d)))) (q # qs)"
      using Cons.prems m Cons.IH
      by (intro codes_bind [OF codes_enc_icdf [OF assms]] codes_then [where x = qs]) simp_all
    then show ?thesis using False by simp
  qed
qed

lemma reads_sign_loop:
  assumes "icdf_size icdf 2"
  shows "list_all (\<lambda>q. 0 \<le> q \<and> q < 32768) qs \<Longrightarrow>
    reads (decode_sign_loop icdf qs) (\<lambda>qs'. map abs qs' = qs)"
proof (induction qs)
  case Nil
  then show ?case by (simp add: reads_return)
next
  case (Cons q qs)
  show ?case
  proof (cases "0 < q")
    case False
    then have "reads (\<lambda>d. decode_sign_loop icdf qs d \<bind> (\<lambda>(qs, d). Some (q # qs, d)))
       (\<lambda>qs'. map abs qs' = q # qs)"
      using Cons by (intro reads_bind [OF Cons.IH] reads_return) simp_all
    then show ?thesis using False by simp
  next
    case True
    have s: "\<bar>s16 (q * silk_dec_map s)\<bar> = q" if "0 \<le> s" "s < 2" for s
    proof -
      have "s = 0 \<or> s = 1" using that by auto
      then show ?thesis using Cons.prems True by (auto simp: silk_dec_map_def lshift_mult s16_id)
    qed
    have "reads (\<lambda>d. dec_icdf icdf d \<bind> (\<lambda>(s, d). decode_sign_loop icdf qs d \<bind>
         (\<lambda>(qs, d). Some (s16 (q * silk_dec_map s) # qs, d)))) (\<lambda>qs'. map abs qs' = q # qs)"
      using Cons.prems s
      by (intro reads_bind [OF reads_dec_icdf [OF assms]] reads_bind [OF Cons.IH] reads_return) simp_all
    then show ?thesis using True by simp
  qed
qed

text \<open>
  All blocks. The decoder works on sums whose low five bits are those of the encoder and
  which are positive for the same blocks.
\<close>

definition sign_block :: "int \<Rightarrow> int list \<Rightarrow> bool" where
  "sign_block p b \<longleftrightarrow> length b = 16 \<and> list_all (\<lambda>q. - 128 \<le> q \<and> q \<le> 127) b
     \<and> (0 < p \<or> b = replicate 16 0)"

definition same_sums :: "int \<Rightarrow> int \<Rightarrow> bool" where
  "same_sums p p' \<longleftrightarrow> (0 < p' \<longleftrightarrow> 0 < p) \<and> p' AND 31 = p AND 31"

lemma codes_sign_blocks:
  assumes tab: "sign_table_ok tab"
  shows "list_all2 sign_block ps bs \<Longrightarrow> list_all2 same_sums ps ps' \<Longrightarrow>
    codes (encode_sign_blocks tab ps (concat bs @ r)) (decode_sign_blocks tab ps' (map abs (concat bs))) (concat bs)"
proof (induction ps bs arbitrary: ps' rule: list_all2_induct)
  case Nil
  then show ?case by (simp add: codes_return)
next
  case (Cons p ps b bs)
  then obtain p' ps'' where ps': "ps' = p' # ps''" "same_sums p p'" "list_all2 same_sums ps ps''"
    by (auto simp: list_all2_Cons1)
  note IH = Cons.IH [OF ps'(3)]
  have b: "length b = 16" "list_all (\<lambda>q. - 128 \<le> q \<and> q \<le> 127) b"
    using Cons.hyps(1) by (simp_all add: sign_block_def)
  show ?case
  proof (cases "0 < p")
    case False
    then have z: "map abs b = b" using Cons.hyps(1) by (simp add: sign_block_def)
    have "codes (encode_sign_blocks tab ps (concat bs @ r))
      (\<lambda>d. decode_sign_blocks tab ps'' (map abs (concat bs)) d \<bind> (\<lambda>(rest, d). Some (b @ rest, d)))
      (b @ concat bs)"
      by (rule codes_then [OF IH]) simp
    then show ?thesis using False ps' b z by (simp add: same_sums_def)
  next
    case True
    obtain x where x: "elem tab (min (p AND 31) 6) = Some x" "icdf_size [x, 0] 2"
      by (rule sign_icdf [OF tab])
    have "codes (\<lambda>e. encode_sign_loop [x, 0] b e \<bind> encode_sign_blocks tab ps (concat bs @ r))
      (\<lambda>d. decode_sign_loop [x, 0] (map abs b) d \<bind> (\<lambda>(qs, d).
         decode_sign_blocks tab ps'' (map abs (concat bs)) d \<bind> (\<lambda>(rest, d). Some (qs @ rest, d))))
      (b @ concat bs)"
      by (rule codes_bind [OF codes_sign_loop [OF x(2) b(2)]], rule codes_then [OF IH]) simp
    then show ?thesis using True ps' b x(1) by (simp add: same_sums_def)
  qed
qed

lemma reads_sign_blocks:
  assumes tab: "sign_table_ok tab"
  shows "list_all2 (\<lambda>p b. length b = 16 \<and> list_all (\<lambda>q. 0 \<le> q \<and> q < 32768) b) ps bs \<Longrightarrow>
    reads (decode_sign_blocks tab ps (concat bs)) (\<lambda>qs. map abs qs = concat bs)"
proof (induction ps bs rule: list_all2_induct)
  case Nil
  then show ?case by (simp add: reads_return)
next
  case (Cons p ps b bs)
  have b: "length b = 16" "list_all (\<lambda>q. 0 \<le> q \<and> q < 32768) b" "map abs b = b"
    using Cons.hyps(1) by (auto simp: list_all_iff intro: map_idI)
  show ?case
  proof (cases "0 < p")
    case False
    have "reads (\<lambda>d. decode_sign_blocks tab ps (concat bs) d \<bind> (\<lambda>(rest, d). Some (b @ rest, d)))
      (\<lambda>qs. map abs qs = b @ concat bs)"
      by (rule reads_bind [OF Cons.IH], rule reads_return) (simp add: b)
    then show ?thesis using False b by simp
  next
    case True
    obtain x where x: "elem tab (min (p AND 31) 6) = Some x" "icdf_size [x, 0] 2"
      by (rule sign_icdf [OF tab])
    have "reads (\<lambda>d. decode_sign_loop [x, 0] b d \<bind> (\<lambda>(qs, d).
         decode_sign_blocks tab ps (concat bs) d \<bind> (\<lambda>(rest, d). Some (qs @ rest, d))))
      (\<lambda>qs. map abs qs = b @ concat bs)"
      by (rule reads_bind [OF reads_sign_loop [OF x(2) b(2)]], rule reads_bind [OF Cons.IH],
          rule reads_return) simp
    then show ?thesis using True b x(1) by simp
  qed
qed

end
