(* ===== verification/Silk_Pulses.thy ===== *)
theory Silk_Pulses
  imports Silk_Shell
begin

text \<open>
  The coding of the quantized excitation of a SILK frame (encode_pulses.c and
  decode_pulses.c). A frame is cut into blocks of 16 pulses. A block whose sums are too
  large for the shell coder is halved until they fit; the bits shifted out follow in full.
  Every array access of the encoder and of the decoder outside its array is \<open>None\<close>.
\<close>

section \<open>The encoder (encode_pulses.c)\<close>

text \<open>
  \<open>combine_and_check\<close> writes the sums of pairs to \<open>comb\<close> until one of them is too large.
  The caller may pass \<open>comb\<close> as \<open>inp\<close> too: element \<open>k\<close> is written after the last read of
  an element up to \<open>k\<close>, so what is read are the elements before the call.
\<close>

fun combine_loop :: "int \<Rightarrow> int list \<Rightarrow> int list \<Rightarrow> nat \<Rightarrow> nat \<Rightarrow> int \<times> int list" where
  "combine_loop max_pulses inp comb k 0 = (0, comb)"
| "combine_loop max_pulses inp comb k (Suc n) =
    (let sm = inp ! (2 * k) + inp ! (2 * k + 1)
     in if sm > max_pulses then (1, comb)
        else combine_loop max_pulses inp (comb[k := sm]) (k + 1) n)"

definition combine_and_check :: "int list \<Rightarrow> int list \<Rightarrow> int \<Rightarrow> nat \<Rightarrow> int \<times> int list" where
  "combine_and_check comb inp max_pulses len = combine_loop max_pulses inp comb 0 len"

text \<open>
  The four calls for one block: their codes added up, \<open>pulses_comb\<close>, and the element of
  \<open>sum_pulses\<close> they write (which has no value before).
\<close>

definition combine_block :: "int list \<Rightarrow> int list \<Rightarrow> int \<times> int list \<times> int" where
  "combine_block comb abs_pulses =
    (let (s0, comb) = combine_and_check comb abs_pulses (silk_max_pulses_table ! 0) 8;
         (s1, comb) = combine_and_check comb comb (silk_max_pulses_table ! 1) 4;
         (s2, comb) = combine_and_check comb comb (silk_max_pulses_table ! 2) 2;
         (s3, sm) = combine_and_check [0] comb (silk_max_pulses_table ! 3) 1
     in (s0 + s1 + s2 + s3, comb, sm ! 0))"

text \<open>The \<open>while( 1 )\<close> loop that scales a block down, with the number of shifts so far.\<close>

partial_function (option) scale_block ::
  "int list \<Rightarrow> int list \<Rightarrow> int \<Rightarrow> (int list \<times> int list \<times> int \<times> int) option" where
  "scale_block comb abs_pulses nRshifts =
    (let (scale_down, comb, sm) = combine_block comb abs_pulses
     in if scale_down \<noteq> 0
        then scale_block comb (map (\<lambda>q. silk_RSHIFT q 1) abs_pulses) (nRshifts + 1)
        else Some (comb, abs_pulses, sm, nRshifts))"

declare scale_block.simps [code]

text \<open>All blocks: the scaled magnitudes, \<open>sum_pulses\<close> and \<open>nRshifts\<close>.\<close>

fun scale_blocks :: "nat \<Rightarrow> int list \<Rightarrow> int list \<Rightarrow> (int list \<times> int list \<times> int list) option" where
  "scale_blocks 0 comb abs_pulses = Some ([], [], [])"
| "scale_blocks (Suc n) comb abs_pulses = do {
     (comb, block, sm, shift) \<leftarrow> scale_block comb (take 16 abs_pulses) 0;
     (rest, sums, shifts) \<leftarrow> scale_blocks n comb (drop 16 abs_pulses);
     Some (block @ rest, sm # sums, shift # shifts)
   }"

text \<open>The rate level that leads to the fewest bits.\<close>

definition rate_level_bits :: "int \<Rightarrow> int list \<Rightarrow> int list \<Rightarrow> nat \<Rightarrow> int" where
  "rate_level_bits signalType sums shifts k =
    foldl (\<lambda>bits (sm, shift). bits + (if shift > 0 then silk_pulses_per_block_BITS_Q5 ! k ! 17
                                      else silk_pulses_per_block_BITS_Q5 ! k ! nat sm))
      (silk_rate_levels_BITS_Q5 ! nat (silk_RSHIFT signalType 1) ! k) (zip sums shifts)"

definition choose_rate_level :: "int \<Rightarrow> int list \<Rightarrow> int list \<Rightarrow> int" where
  "choose_rate_level signalType sums shifts =
    snd (foldl (\<lambda>(minSumBits, level) k.
            let bits = rate_level_bits signalType sums shifts k
            in if bits < minSumBits then (bits, int k) else (minSumBits, level))
         (2147483647, 0) [0..<9])"

text \<open>The sums, with the escape symbol 17 once for every shift.\<close>

fun encode_escapes :: "nat \<Rightarrow> ec_ctx \<Rightarrow> ec_ctx option" where
  "encode_escapes 0 e = Some e"
| "encode_escapes (Suc k) e = enc_icdf 17 (silk_pulses_per_block_iCDF ! 9) e \<bind> encode_escapes k"

fun encode_sums :: "u32 list \<Rightarrow> int list \<Rightarrow> int list \<Rightarrow> ec_ctx \<Rightarrow> ec_ctx option" where
  "encode_sums cdf_ptr (sm # sums) (shift # shifts) e =
    (if shift = 0 then enc_icdf sm cdf_ptr e \<bind> encode_sums cdf_ptr sums shifts
     else do {
       e \<leftarrow> enc_icdf 17 cdf_ptr e;
       e \<leftarrow> encode_escapes (nat (shift - 1)) e;
       e \<leftarrow> enc_icdf sm (silk_pulses_per_block_iCDF ! 9) e;
       encode_sums cdf_ptr sums shifts e
     })"
| "encode_sums cdf_ptr _ _ e = Some e"

fun encode_shells :: "int list \<Rightarrow> int list \<Rightarrow> ec_ctx \<Rightarrow> ec_ctx option" where
  "encode_shells [] abs_pulses e = Some e"
| "encode_shells (sm # sums) abs_pulses e =
    (if sm > 0 then silk_shell_encoder (take 16 abs_pulses) e \<bind> encode_shells sums (drop 16 abs_pulses)
     else encode_shells sums (drop 16 abs_pulses) e)"

text \<open>The bits of a magnitude from bit \<open>j\<close> down to bit 0.\<close>

fun encode_lsb_bits :: "int \<Rightarrow> nat \<Rightarrow> ec_ctx \<Rightarrow> ec_ctx option" where
  "encode_lsb_bits abs_q 0 e = enc_icdf (abs_q AND 1) silk_lsb_iCDF e"
| "encode_lsb_bits abs_q (Suc j) e =
    enc_icdf (silk_RSHIFT abs_q (Suc j) AND 1) silk_lsb_iCDF e \<bind> encode_lsb_bits abs_q j"

fun encode_lsb_block :: "nat \<Rightarrow> int list \<Rightarrow> ec_ctx \<Rightarrow> ec_ctx option" where
  "encode_lsb_block nLS [] e = Some e"
| "encode_lsb_block nLS (q # qs) e = encode_lsb_bits (s8 \<bar>q\<bar>) nLS e \<bind> encode_lsb_block nLS qs"

fun encode_lsbs :: "int list \<Rightarrow> int list \<Rightarrow> ec_ctx \<Rightarrow> ec_ctx option" where
  "encode_lsbs [] pulses e = Some e"
| "encode_lsbs (shift # shifts) pulses e =
    (if shift > 0
     then encode_lsb_block (nat (shift - 1)) (take 16 pulses) e \<bind> encode_lsbs shifts (drop 16 pulses)
     else encode_lsbs shifts (drop 16 pulses) e)"

text \<open>
  The number of blocks of a frame, and the 16 zeros written after a frame that does not
  fill its last block.
\<close>

definition shell_blocks :: "int \<Rightarrow> int" where
  "shell_blocks frame_length =
    (let iter = silk_RSHIFT frame_length 4
     in if iter * 16 < frame_length then iter + 1 else iter)"

definition clear_after :: "int list \<Rightarrow> int \<Rightarrow> int list option" where
  "clear_after pulses frame_length =
    (if silk_RSHIFT frame_length 4 * 16 < frame_length then
       if nat frame_length + 16 \<le> length pulses
       then Some (take (nat frame_length) pulses @ replicate 16 0 @ drop (nat frame_length + 16) pulses)
       else None
     else Some pulses)"

definition silk_encode_pulses ::
  "int \<Rightarrow> int \<Rightarrow> int list \<Rightarrow> int \<Rightarrow> ec_ctx \<Rightarrow> ec_ctx option" where
  "silk_encode_pulses signalType quantOffsetType pulses frame_length e = do {
     pulses \<leftarrow> clear_after pulses frame_length;
     let iter = nat (shell_blocks frame_length);
     abs_pulses \<leftarrow> (if 16 * iter \<le> length pulses then Some (map abs (take (16 * iter) pulses)) else None);
     (abs_pulses, sum_pulses, nRshifts) \<leftarrow> scale_blocks iter (replicate 8 0) abs_pulses;
     let level = choose_rate_level signalType sum_pulses nRshifts;
     levels \<leftarrow> elem silk_rate_levels_iCDF (silk_RSHIFT signalType 1);
     e \<leftarrow> enc_icdf level levels e;
     cdf_ptr \<leftarrow> elem silk_pulses_per_block_iCDF level;
     e \<leftarrow> encode_sums cdf_ptr sum_pulses nRshifts e;
     e \<leftarrow> encode_shells sum_pulses abs_pulses e;
     e \<leftarrow> encode_lsbs nRshifts pulses e;
     silk_encode_signs pulses frame_length signalType quantOffsetType sum_pulses e
   }"

section \<open>The decoder (decode_pulses.c)\<close>

text \<open>The \<open>while\<close> loop for one block: its sum and \<open>nLshifts\<close>.\<close>

partial_function (option) decode_sum_loop :: "int \<Rightarrow> int \<Rightarrow> ec_ctx \<Rightarrow> ((int \<times> int) \<times> ec_ctx) option" where
  "decode_sum_loop sm nLshifts d =
    (if sm = 17 then
       do {
         tab \<leftarrow> from_elem (silk_pulses_per_block_iCDF ! 9) (of_bool (nLshifts + 1 = 10));
         (sm, d) \<leftarrow> dec_icdf tab d;
         decode_sum_loop sm (nLshifts + 1) d
       }
     else Some ((sm, nLshifts), d))"

declare decode_sum_loop.simps [code]

fun decode_sums :: "nat \<Rightarrow> u32 list \<Rightarrow> ec_ctx \<Rightarrow> ((int list \<times> int list) \<times> ec_ctx) option" where
  "decode_sums 0 cdf_ptr d = Some (([], []), d)"
| "decode_sums (Suc n) cdf_ptr d = do {
     (sm, d) \<leftarrow> dec_icdf cdf_ptr d;
     ((sm, shift), d) \<leftarrow> decode_sum_loop sm 0 d;
     ((sums, shifts), d) \<leftarrow> decode_sums n cdf_ptr d;
     Some ((sm # sums, shift # shifts), d)
   }"

fun decode_shells :: "int list \<Rightarrow> ec_ctx \<Rightarrow> (int list \<times> ec_ctx) option" where
  "decode_shells [] d = Some ([], d)"
| "decode_shells (sm # sums) d =
    (if sm > 0 then do {
       (block, d) \<leftarrow> silk_shell_decoder sm d;
       (rest, d) \<leftarrow> decode_shells sums d;
       Some (block @ rest, d)
     } else do {
       (rest, d) \<leftarrow> decode_shells sums d;
       Some (replicate 16 0 @ rest, d)
     })"

fun decode_lsb_bits :: "nat \<Rightarrow> int \<Rightarrow> ec_ctx \<Rightarrow> (int \<times> ec_ctx) option" where
  "decode_lsb_bits 0 abs_q d = Some (abs_q, d)"
| "decode_lsb_bits (Suc n) abs_q d = do {
     (bit, d) \<leftarrow> dec_icdf silk_lsb_iCDF d;
     decode_lsb_bits n (silk_LSHIFT abs_q 1 + bit) d
   }"

fun decode_lsb_block :: "nat \<Rightarrow> int list \<Rightarrow> ec_ctx \<Rightarrow> (int list \<times> ec_ctx) option" where
  "decode_lsb_block nLS [] d = Some ([], d)"
| "decode_lsb_block nLS (q # qs) d = do {
     (abs_q, d) \<leftarrow> decode_lsb_bits nLS q d;
     (qs, d) \<leftarrow> decode_lsb_block nLS qs d;
     Some (s16 abs_q # qs, d)
   }"

text \<open>The pulses with their low bits, and the sums marked for the decoding of the signs.\<close>

fun decode_lsbs :: "int list \<Rightarrow> int list \<Rightarrow> int list \<Rightarrow> ec_ctx \<Rightarrow> ((int list \<times> int list) \<times> ec_ctx) option" where
  "decode_lsbs (sm # sums) (nLS # shifts) pulses d =
    (if nLS > 0 then do {
       (block, d) \<leftarrow> decode_lsb_block (nat nLS) (take 16 pulses) d;
       ((rest, sums), d) \<leftarrow> decode_lsbs sums shifts (drop 16 pulses) d;
       Some ((block @ rest, (sm OR silk_LSHIFT nLS 5) # sums), d)
     } else do {
       ((rest, sums), d) \<leftarrow> decode_lsbs sums shifts (drop 16 pulses) d;
       Some ((take 16 pulses @ rest, sm # sums), d)
     })"
| "decode_lsbs _ _ pulses d = Some ((pulses, []), d)"

text \<open>
  The arrays \<open>sum_pulses\<close> and \<open>nLshifts\<close> have \<open>MAX_NB_SHELL_BLOCKS\<close> = 20 elements. The
  result is what is written to \<open>pulses\<close>, a multiple of 16 values.
\<close>

definition silk_decode_pulses :: "int \<Rightarrow> int \<Rightarrow> int \<Rightarrow> ec_ctx \<Rightarrow> (int list \<times> ec_ctx) option" where
  "silk_decode_pulses signalType quantOffsetType frame_length d = do {
     levels \<leftarrow> elem silk_rate_levels_iCDF (silk_RSHIFT signalType 1);
     (level, d) \<leftarrow> dec_icdf levels d;
     let iter = nat (shell_blocks frame_length);
     cdf_ptr \<leftarrow> elem silk_pulses_per_block_iCDF level;
     ((sum_pulses, nLshifts), d) \<leftarrow> (if iter \<le> 20 then decode_sums iter cdf_ptr d else None);
     (pulses, d) \<leftarrow> decode_shells sum_pulses d;
     ((pulses, sum_pulses), d) \<leftarrow> decode_lsbs sum_pulses nLshifts pulses d;
     silk_decode_signs pulses frame_length signalType quantOffsetType sum_pulses d
   }"

end
