(* ===== verification/Silk_Pulses_Correct.thy ===== *)
theory Silk_Pulses_Correct
  imports Silk_Pulses
begin

text \<open>
  The excitation coder: scaling a block down ends after at most seven steps with sums the
  shell coder can code, and the decoder reads back the pulses of the frame.
\<close>

section \<open>Scaling down\<close>

lemma combine_loop_facts:
  assumes "k + n \<le> length comb"
  shows "fst (combine_loop m inp comb k n) = of_bool (\<exists>j. k \<le> j \<and> j < k + n \<and> m < inp ! (2 * j) + inp ! (2 * j + 1))"
    and "length (snd (combine_loop m inp comb k n)) = length comb"
    and "fst (combine_loop m inp comb k n) = 0 \<Longrightarrow> snd (combine_loop m inp comb k n)
      = take k comb @ map (\<lambda>j. inp ! (2 * j) + inp ! (2 * j + 1)) [k..<k + n] @ drop (k + n) comb"
proof -
  have "fst (combine_loop m inp comb k n) = of_bool (\<exists>j. k \<le> j \<and> j < k + n \<and> m < inp ! (2 * j) + inp ! (2 * j + 1))
    \<and> length (snd (combine_loop m inp comb k n)) = length comb
    \<and> (fst (combine_loop m inp comb k n) = 0 \<longrightarrow> snd (combine_loop m inp comb k n)
      = take k comb @ map (\<lambda>j. inp ! (2 * j) + inp ! (2 * j + 1)) [k..<k + n] @ drop (k + n) comb)"
    using assms
  proof (induction n arbitrary: k comb)
    case (Suc n)
    let ?s = "inp ! (2 * k) + inp ! (2 * k + 1)"
    show ?case
    proof (cases "m < ?s")
      case True
      then show ?thesis by (auto simp: Let_def intro!: exI [of _ k])
    next
      case False
      have "Suc k + n \<le> length (comb[k := ?s])" using Suc.prems by simp
      note IH = Suc.IH [OF this]
      have ex: "(\<exists>j. k \<le> j \<and> j < k + Suc n \<and> m < inp ! (2 * j) + inp ! (2 * j + 1))
          \<longleftrightarrow> (\<exists>j. Suc k \<le> j \<and> j < Suc k + n \<and> m < inp ! (2 * j) + inp ! (2 * j + 1))"
        using False by (metis Suc_leD add_Suc add_Suc_right le_antisym not_less_eq_eq)
      have tk: "take (Suc k) (comb[k := ?s]) = take k comb @ [?s]"
        using Suc.prems by (simp add: take_Suc_conv_app_nth)
      have up: "[k..<k + Suc n] = k # [Suc k..<Suc k + n]" by (simp add: upt_rec)
      show ?thesis using IH False unfolding ex up by (simp add: Let_def tk [simplified])
    qed
  qed simp
  then show "fst (combine_loop m inp comb k n) = of_bool (\<exists>j. k \<le> j \<and> j < k + n \<and> m < inp ! (2 * j) + inp ! (2 * j + 1))"
    "length (snd (combine_loop m inp comb k n)) = length comb"
    "fst (combine_loop m inp comb k n) = 0 \<Longrightarrow> snd (combine_loop m inp comb k n)
      = take k comb @ map (\<lambda>j. inp ! (2 * j) + inp ! (2 * j + 1)) [k..<k + n] @ drop (k + n) comb"
    by blast+
qed

lemma combine_and_check_facts:
  assumes "len \<le> length comb"
  shows "fst (combine_and_check comb inp m len) = of_bool (\<exists>x \<in> set (combine_pulses inp len). m < x)"
    and "length (snd (combine_and_check comb inp m len)) = length comb"
    and "fst (combine_and_check comb inp m len) = 0 \<Longrightarrow>
      snd (combine_and_check comb inp m len) = combine_pulses inp len @ drop len comb"
  using combine_loop_facts [of 0 len comb m inp] assms
  unfolding combine_and_check_def combine_pulses_def by (auto simp: of_bool_def)

lemma combine_pulses_append:
  "2 * len \<le> length xs \<Longrightarrow> combine_pulses (xs @ ys) len = combine_pulses xs len"
  by (simp add: combine_pulses_def nth_append)

lemma length_combine [simp]: "length (combine_pulses xs len) = len"
  by (simp add: combine_pulses_def)

lemma combine_bounds:
  assumes "2 * len \<le> length xs" and "\<And>x. x \<in> set xs \<Longrightarrow> 0 \<le> x \<and> x \<le> c"
  shows "x \<in> set (combine_pulses xs len) \<Longrightarrow> 0 \<le> x \<and> x \<le> 2 * c"
proof -
  assume "x \<in> set (combine_pulses xs len)"
  then obtain k where k: "k < len" "x = xs ! (2 * k) + xs ! (2 * k + 1)" by (auto simp: combine_pulses_def)
  then have "xs ! (2 * k) \<in> set xs" "xs ! (2 * k + 1) \<in> set xs" using assms(1) by simp_all
  then have "0 \<le> xs ! (2 * k) \<and> xs ! (2 * k) \<le> c" "0 \<le> xs ! (2 * k + 1) \<and> xs ! (2 * k + 1) \<le> c"
    by (auto intro: assms(2) [THEN conjunct1] assms(2) [THEN conjunct2])
  then show ?thesis unfolding k(2) by linarith
qed

text \<open>The four sums of a block of 16.\<close>

abbreviation "pairs xs \<equiv> combine_pulses xs 8"
abbreviation "quads xs \<equiv> combine_pulses (pairs xs) 4"
abbreviation "octets xs \<equiv> combine_pulses (quads xs) 2"

lemma combine_sum:
  assumes "length xs = 16"
  shows "combine_pulses (octets xs) 1 = [sum_list xs]"
proof -
  have up: "[0..<8] = [0, 1, 2, 3, 4, 5, 6, 7::nat]" "[0..<4] = [0, 1, 2, 3::nat]" "[0..<2] = [0, 1::nat]"
    by (simp_all add: upt_rec)
  show ?thesis
    by (subst (2) length16 [OF assms], unfold combine_pulses_def up) simp
qed

definition sums_fit :: "int list \<Rightarrow> bool" where
  "sums_fit xs \<longleftrightarrow> list_all (\<lambda>x. x \<le> 8) (pairs xs) \<and> list_all (\<lambda>x. x \<le> 10) (quads xs)
     \<and> list_all (\<lambda>x. x \<le> 12) (octets xs) \<and> sum_list xs \<le> 16"

lemma max_pulses: "silk_max_pulses_table ! 0 = 8" "silk_max_pulses_table ! 1 = 10"
    "silk_max_pulses_table ! 2 = 12" "silk_max_pulses_table ! 3 = 16"
  by (simp_all add: silk_max_pulses_table_def)

lemma combine_block_facts:
  assumes "length comb = 8" and xs: "length xs = 16"
  shows "fst (combine_block comb xs) = 0 \<longleftrightarrow> sums_fit xs"
    and "sums_fit xs \<Longrightarrow> snd (snd (combine_block comb xs)) = sum_list xs"
    and "length (fst (snd (combine_block comb xs))) = 8"
proof -
  define r0 where "r0 = combine_and_check comb xs 8 8"
  define r1 where "r1 = combine_and_check (snd r0) (snd r0) 10 4"
  define r2 where "r2 = combine_and_check (snd r1) (snd r1) 12 2"
  define r3 where "r3 = combine_and_check [0] (snd r2) 16 1"
  have B: "combine_block comb xs = (fst r0 + fst r1 + fst r2 + fst r3, snd r2, snd r3 ! 0)"
    unfolding combine_block_def max_pulses
    by (simp add: r0_def r1_def r2_def r3_def split_def Let_def)
  have l0: "length (snd r0) = 8" using combine_and_check_facts(2) [of 8 comb xs 8] assms by (simp add: r0_def)
  have l1: "length (snd r1) = 8" using combine_and_check_facts(2) [of 4 "snd r0" "snd r0" 10] l0 by (simp add: r1_def)
  have l2: "length (snd r2) = 8" using combine_and_check_facts(2) [of 2 "snd r1" "snd r1" 12] l1 by (simp add: r2_def)
  show "length (fst (snd (combine_block comb xs))) = 8" by (simp add: B l2)
  have c0: "fst r0 = of_bool (\<exists>x \<in> set (pairs xs). 8 < x)" "fst r0 = 0 \<Longrightarrow> snd r0 = pairs xs"
    using combine_and_check_facts(1,3) [of 8 comb xs 8] assms by (simp_all add: r0_def)
  have c1: "fst r1 = of_bool (\<exists>x \<in> set (quads xs). 10 < x)" "fst r1 = 0 \<Longrightarrow> snd r1 = quads xs @ drop 4 (pairs xs)"
    if "fst r0 = 0"
    using combine_and_check_facts(1,3) [of 4 "pairs xs" "pairs xs" 10] that c0(2) by (simp_all add: r1_def)
  have c2: "fst r2 = of_bool (\<exists>x \<in> set (octets xs). 12 < x)" "fst r2 = 0 \<Longrightarrow> \<exists>ys. snd r2 = octets xs @ ys"
    if "fst r0 = 0" "fst r1 = 0"
    using combine_and_check_facts(1,3) [of 2 "snd r1" "snd r1" 12] l1
    by (simp_all add: r2_def c1(2) [OF that] combine_pulses_append)
  have c3: "fst r3 = of_bool (16 < sum_list xs)" "fst r3 = 0 \<Longrightarrow> snd r3 = [sum_list xs]"
    if "fst r0 = 0" "fst r1 = 0" "fst r2 = 0"
  proof -
    note z = that
    obtain ys where ys: "snd r2 = octets xs @ ys" using c2(2) [OF z] by blast
    have "combine_pulses (snd r2) 1 = [sum_list xs]"
      unfolding ys by (simp add: combine_pulses_append combine_sum [OF xs] del: One_nat_def)
    then show "fst r3 = of_bool (16 < sum_list xs)" "fst r3 = 0 \<Longrightarrow> snd r3 = [sum_list xs]"
      using combine_and_check_facts(1,3) [of 1 "[0]" "snd r2" 16] by (simp_all add: r3_def)
  qed
  have nn: "0 \<le> fst r0" "0 \<le> fst r1" "0 \<le> fst r2" "0 \<le> fst r3"
    using combine_and_check_facts(1) [of 4 "snd r0" "snd r0" 10] combine_and_check_facts(1) [of 2 "snd r1" "snd r1" 12]
      combine_and_check_facts(1) [of 1 "[0]" "snd r2" 16] l0 l1
    by (simp_all add: c0(1) r1_def r2_def r3_def)
  have z: "fst (combine_block comb xs) = 0 \<longleftrightarrow> fst r0 = 0 \<and> fst r1 = 0 \<and> fst r2 = 0 \<and> fst r3 = 0"
    unfolding B fst_conv using nn by linarith
  have f0: "fst r0 = 0 \<longleftrightarrow> list_all (\<lambda>x. x \<le> 8) (pairs xs)" unfolding c0(1) list_all_iff of_bool_eq_0_iff by (meson not_less)
  have f1: "fst r1 = 0 \<longleftrightarrow> list_all (\<lambda>x. x \<le> 10) (quads xs)" if "fst r0 = 0"
    unfolding c1(1) [OF that] list_all_iff of_bool_eq_0_iff by (meson not_less)
  have f2: "fst r2 = 0 \<longleftrightarrow> list_all (\<lambda>x. x \<le> 12) (octets xs)" if "fst r0 = 0" "fst r1 = 0"
    unfolding c2(1) [OF that] list_all_iff of_bool_eq_0_iff by (meson not_less)
  have f3: "fst r3 = 0 \<longleftrightarrow> sum_list xs \<le> 16" if "fst r0 = 0" "fst r1 = 0" "fst r2 = 0"
    by (auto simp: c3(1) [OF that])
  show fit: "fst (combine_block comb xs) = 0 \<longleftrightarrow> sums_fit xs"
    unfolding z sums_fit_def using f0 f1 f2 f3 by blast
  show "sums_fit xs \<Longrightarrow> snd (snd (combine_block comb xs)) = sum_list xs"
    using fit c3(2) unfolding z by (simp add: B)
qed

lemma small_sums_fit:
  assumes "length xs = 16" and xs: "\<And>x. x \<in> set xs \<Longrightarrow> 0 \<le> x \<and> x \<le> 1"
  shows "sums_fit xs"
proof -
  have p: "0 \<le> x \<and> x \<le> 2" if "x \<in> set (pairs xs)" for x
    using combine_bounds [of 8 xs 1 x] that assms by simp
  have q: "0 \<le> x \<and> x \<le> 4" if "x \<in> set (quads xs)" for x
    using combine_bounds [of 4 "pairs xs" 2 x] that p by simp
  have oc: "0 \<le> x \<and> x \<le> 8" if "x \<in> set (octets xs)" for x
    using combine_bounds [of 2 "quads xs" 4 x] that q by simp
  have "x \<le> 16" if "x \<in> set (combine_pulses (octets xs) 1)" for x
    using combine_bounds [of 1 "octets xs" 8 x] that oc by simp
  then have "sum_list xs \<le> 16" by (simp add: combine_sum [OF assms(1)] del: One_nat_def)
  then show ?thesis using p q oc by (fastforce simp: sums_fit_def list_all_iff)
qed

text \<open>Halving, until the sums fit: at most \<open>m\<close> times when all magnitudes are below \<open>2 ^ (m + 1)\<close>.\<close>

definition halved :: "nat \<Rightarrow> int list \<Rightarrow> int list" where
  "halved k xs = map (\<lambda>x. x div 2 ^ k) xs"

lemma halved_Suc: "halved k (map (\<lambda>q. silk_RSHIFT q 1) xs) = halved (Suc k) xs"
  by (simp add: halved_def rshift_div comp_def flip: zdiv_zmult2_eq)

lemma sum_list_pos:
  fixes xs :: "int list"
  assumes "\<And>x. x \<in> set xs \<Longrightarrow> 0 \<le> x" and "y \<in> set xs" and "0 < y"
  shows "0 < sum_list xs"
proof -
  have "y \<le> sum_list xs" using assms(1,2) by (intro member_le_sum_list) auto
  then show ?thesis using assms(3) by simp
qed

lemma scale_block_ends:
  assumes "length xs = 16" and "\<And>x. x \<in> set xs \<Longrightarrow> 0 \<le> x \<and> x < 2 ^ (m + 1)" and "length comb = 8"
  shows "\<exists>comb' k. scale_block comb xs n = Some (comb', halved k xs, sum_list (halved k xs), n + int k)
    \<and> length comb' = 8 \<and> k \<le> m \<and> shell_block (halved k xs) \<and> (0 < k \<longrightarrow> 0 < sum_list (halved k xs))"
  using assms
proof (induction m arbitrary: xs comb n)
  case 0
  have "sums_fit xs" using 0 by (intro small_sums_fit) force+
  then show ?case using combine_block_facts [OF 0(3,1)] 0 by (subst scale_block.simps)
      (auto simp: split_def Let_def halved_def shell_block_def sums_fit_def list_all_iff intro!: exI [of _ "0 :: nat"])
next
  case (Suc m)
  note cb = combine_block_facts [OF Suc.prems(3,1)]
  show ?case
  proof (cases "sums_fit xs")
    case True
    then show ?thesis using cb Suc.prems by (subst scale_block.simps)
      (auto simp: split_def Let_def halved_def shell_block_def sums_fit_def list_all_iff intro!: exI [of _ "0 :: nat"])
  next
    case False
    let ?ys = "map (\<lambda>q. silk_RSHIFT q 1) xs"
    have ys: "0 \<le> y \<and> y < 2 ^ (m + 1)" if "y \<in> set ?ys" for y
      using that Suc.prems(2) by (auto simp: rshift_div pos_imp_zdiv_nonneg_iff int_div_less)
    obtain x where x: "x \<in> set xs" "1 < x"
      using False small_sums_fit [OF Suc.prems(1)] Suc.prems(2) by (meson linorder_not_less)
    have pos: "0 < sum_list ?ys"
    proof (rule sum_list_pos)
      show "silk_RSHIFT x 1 \<in> set ?ys" using x by simp
      show "0 < silk_RSHIFT x 1" using x(2) int_le_div [of 2 1 x] by (simp add: rshift_div)
    qed (use ys in blast)
    from Suc.IH [of ?ys "fst (snd (combine_block comb xs))" "n + 1", OF _ ys cb(3)] Suc.prems(1) obtain comb' k where
      k: "scale_block (fst (snd (combine_block comb xs))) ?ys (n + 1)
          = Some (comb', halved k ?ys, sum_list (halved k ?ys), n + 1 + int k)"
      "length comb' = 8" "k \<le> m" "shell_block (halved k ?ys)" "0 < k \<longrightarrow> 0 < sum_list (halved k ?ys)"
      by auto
    have "0 < sum_list (halved k ?ys)" using k(5) pos by (cases "k = 0") (simp_all add: halved_def)
    moreover have "scale_block comb xs n = scale_block (fst (snd (combine_block comb xs))) ?ys (n + 1)"
      using cb(1) False by (subst scale_block.simps) (simp add: split_def Let_def)
    ultimately show ?thesis using k unfolding halved_Suc by (intro exI [of _ comb'] exI [of _ "Suc k"]) simp
  qed
qed

section \<open>The blocks of a frame\<close>

text \<open>
  A block of the frame with the sum and the shift the encoder finds for it.
\<close>

definition scaled :: "int list \<times> int \<times> int \<Rightarrow> int list" where
  "scaled t = halved (nat (snd (snd t))) (map abs (fst t))"

definition coded_block :: "int list \<times> int \<times> int \<Rightarrow> bool" where
  "coded_block t \<longleftrightarrow> (let (b, s, k) = t in length b = 16 \<and> list_all (\<lambda>q. - 128 \<le> q \<and> q \<le> 127) b
     \<and> 0 \<le> k \<and> k \<le> 7 \<and> shell_block (scaled t) \<and> s = sum_list (scaled t) \<and> (0 < k \<longrightarrow> 0 < s))"

abbreviation "block_of \<equiv> fst"
abbreviation "sum_of \<equiv> \<lambda>t. fst (snd t)"
abbreviation "shift_of \<equiv> \<lambda>t. snd (snd t)"

lemma scale_blocks_ends:
  assumes "length comb = 8" and "\<And>b. b \<in> set bs \<Longrightarrow> length b = 16 \<and> list_all (\<lambda>q. - 128 \<le> q \<and> q \<le> 127) b"
  shows "\<exists>ts. map block_of ts = bs \<and> list_all coded_block ts \<and> scale_blocks (length bs) comb (map abs (concat bs))
    = Some (concat (map scaled ts), map sum_of ts, map shift_of ts)"
  using assms
proof (induction bs arbitrary: comb)
  case (Cons b bs)
  have b: "length b = 16" "list_all (\<lambda>q. - 128 \<le> q \<and> q \<le> 127) b" using Cons.prems(2) by simp_all
  have bound: "0 \<le> x \<and> x < 2 ^ (7 + 1)" if "x \<in> set (map abs b)" for x
    using that b(2) by (auto simp: list_all_iff)
  have len: "length (map abs b) = 16" using b(1) by simp
  from scale_block_ends [OF len bound Cons.prems(1), of 0] obtain comb' k where
    k: "scale_block comb (map abs b) 0 = Some (comb', halved k (map abs b), sum_list (halved k (map abs b)), int k)"
    "length comb' = 8" "k \<le> 7" "shell_block (halved k (map abs b))" "0 < k \<longrightarrow> 0 < sum_list (halved k (map abs b))"
    by auto
  from Cons.IH [OF k(2)] Cons.prems(2) obtain ts where ts: "map block_of ts = bs" "list_all coded_block ts"
    "scale_blocks (length bs) comb' (map abs (concat bs)) = Some (concat (map scaled ts), map sum_of ts, map shift_of ts)"
    by auto
  let ?t = "(b, sum_list (halved k (map abs b)), int k)"
  have "coded_block ?t" using b k by (simp add: coded_block_def scaled_def)
  moreover have "scale_blocks (length (b # bs)) comb (map abs (concat (b # bs)))
      = Some (concat (map scaled (?t # ts)), map sum_of (?t # ts), map shift_of (?t # ts))"
    using k(1) ts(3) b(1) by (simp add: scaled_def)
  ultimately show ?case using ts by (intro exI [of _ "?t # ts"]) simp
qed simp

end
