(* ===== verification/Silk_Pulses_Codec.thy ===== *)
theory Silk_Pulses_Codec
  imports Silk_Pulses_Correct
begin

text \<open>
  The steps of the excitation coder as coding steps, for the blocks found by the scaling
  loop, and the decoder on arbitrary input.
\<close>

section \<open>Tables\<close>

lemma pulse_tables:
  "k < 10 \<Longrightarrow> icdf_size (silk_pulses_per_block_iCDF ! k) 18"
  "icdf_size (drop 1 (silk_pulses_per_block_iCDF ! 9)) 17"
  "k < 2 \<Longrightarrow> icdf_size (silk_rate_levels_iCDF ! k) 9"
  "icdf_size silk_lsb_iCDF 2"
  "length silk_pulses_per_block_iCDF = 10" "length silk_rate_levels_iCDF = 2"
proof -
  have "list_all (\<lambda>tab. icdf_size tab 18) silk_pulses_per_block_iCDF"
    "list_all (\<lambda>tab. icdf_size tab 9) silk_rate_levels_iCDF" by code_simp+
  moreover show l: "length silk_pulses_per_block_iCDF = 10" "length silk_rate_levels_iCDF = 2"
    by (simp_all add: silk_pulses_per_block_iCDF_def silk_rate_levels_iCDF_def)
  ultimately show "k < 10 \<Longrightarrow> icdf_size (silk_pulses_per_block_iCDF ! k) 18"
    "k < 2 \<Longrightarrow> icdf_size (silk_rate_levels_iCDF ! k) 9" by (simp_all add: list_all_length)
  show "icdf_size (drop 1 (silk_pulses_per_block_iCDF ! 9)) 17" "icdf_size silk_lsb_iCDF 2" by code_simp+
qed

section \<open>The sums\<close>

lemma coded_block_facts:
  assumes "coded_block t"
  shows "length (block_of t) = 16" and "list_all (\<lambda>q. - 128 \<le> q \<and> q \<le> 127) (block_of t)"
    and "0 \<le> shift_of t" and "shift_of t \<le> 7" and "shell_block (scaled t)"
    and "sum_of t = sum_list (scaled t)" and "0 < shift_of t \<Longrightarrow> 0 < sum_of t"
    and "0 \<le> sum_of t" and "sum_of t \<le> 16" and "length (scaled t) = 16"
proof -
  show f: "length (block_of t) = 16" "list_all (\<lambda>q. - 128 \<le> q \<and> q \<le> 127) (block_of t)"
    "0 \<le> shift_of t" "shift_of t \<le> 7" "shell_block (scaled t)" "sum_of t = sum_list (scaled t)"
    "0 < shift_of t \<Longrightarrow> 0 < sum_of t"
    using assms by (simp_all add: coded_block_def split_def Let_def)
  show "sum_of t \<le> 16" "length (scaled t) = 16" using f(5,6) by (simp_all add: shell_block_def)
  show "0 \<le> sum_of t" using f(5) unfolding f(6) shell_block_def list_all_iff by (intro sum_list_nonneg) blast
qed

lemma decode_sum_stop: "s \<noteq> 17 \<Longrightarrow> decode_sum_loop s k = (\<lambda>d. Some ((s, k), d))"
  by (rule ext) (subst decode_sum_loop.simps, simp)

lemma decode_sum_escape:
  "k + 1 \<noteq> 10 \<Longrightarrow> decode_sum_loop 17 k
     = (\<lambda>d. dec_icdf (silk_pulses_per_block_iCDF ! 9) d \<bind> (\<lambda>(s, d). decode_sum_loop s (k + 1) d))"
  by (rule ext) (subst decode_sum_loop.simps, simp add: from_elem_def)

lemma codes_escapes:
  assumes "0 \<le> s" and "s \<le> 16" and "0 \<le> k" and "k + int m + 1 < 10"
  shows "codes (\<lambda>e. encode_escapes m e \<bind> enc_icdf s (silk_pulses_per_block_iCDF ! 9))
    (decode_sum_loop 17 k) (s, k + int m + 1)"
  using assms
proof (induction m arbitrary: k)
  case 0
  have "codes (enc_icdf s (silk_pulses_per_block_iCDF ! 9))
     (\<lambda>d. dec_icdf (silk_pulses_per_block_iCDF ! 9) d \<bind> (\<lambda>(s, d). decode_sum_loop s (k + 1) d)) (s, k + 1)"
    using 0 by (intro codes_then [OF codes_enc_icdf [OF pulse_tables(1)]]) (simp_all add: decode_sum_stop)
  then show ?case using 0 by (simp add: decode_sum_escape)
next
  case (Suc m)
  have "codes (\<lambda>e. enc_icdf 17 (silk_pulses_per_block_iCDF ! 9) e
       \<bind> (\<lambda>e. encode_escapes m e \<bind> enc_icdf s (silk_pulses_per_block_iCDF ! 9)))
     (\<lambda>d. dec_icdf (silk_pulses_per_block_iCDF ! 9) d \<bind> (\<lambda>(s, d). decode_sum_loop s (k + 1) d))
     (s, k + 1 + int m + 1)"
    using Suc.prems by (intro codes_bind [OF codes_enc_icdf [OF pulse_tables(1)]] Suc.IH) simp_all
  then show ?case using Suc.prems by (simp add: decode_sum_escape algebra_simps)
qed

lemma codes_sums:
  assumes cdf: "icdf_size cdf 18"
  shows "list_all coded_block ts \<Longrightarrow> codes (encode_sums cdf (map sum_of ts) (map shift_of ts))
    (decode_sums (length ts) cdf) (map sum_of ts, map shift_of ts)"
proof (induction ts)
  case Nil
  then show ?case by (simp add: codes_return)
next
  case (Cons t ts)
  obtain b s k where t: "t = (b, s, k)" by (cases t)
  have ok: "0 \<le> s" "s \<le> 16" "0 \<le> k" "k \<le> 7"
    using coded_block_facts [of t] Cons.prems by (simp_all add: t)
  have IH: "codes (encode_sums cdf (map sum_of ts) (map shift_of ts))
      (\<lambda>d. decode_sums (length ts) cdf d \<bind> (\<lambda>((sums, shifts), d). Some ((s # sums, k # shifts), d)))
      (s # map sum_of ts, k # map shift_of ts)" for s k
    using Cons by (intro codes_then2 [OF Cons.IH]) simp_all
  show ?case
  proof (cases "k = 0")
    case True
    have "codes (\<lambda>e. enc_icdf s cdf e \<bind> encode_sums cdf (map sum_of ts) (map shift_of ts))
      (\<lambda>d. dec_icdf cdf d \<bind> (\<lambda>(s, d). decode_sum_loop s 0 d \<bind> (\<lambda>((s, k), d).
         decode_sums (length ts) cdf d \<bind> (\<lambda>((sums, shifts), d). Some ((s # sums, k # shifts), d)))))
      (s # map sum_of ts, k # map shift_of ts)"
      using ok True IH by (intro codes_bind [OF codes_enc_icdf [OF cdf]]) (simp_all add: decode_sum_stop)
    then show ?thesis using True t by simp
  next
    case False
    have "codes (\<lambda>e. enc_icdf 17 cdf e \<bind> (\<lambda>e. (encode_escapes (nat (k - 1)) e
         \<bind> enc_icdf s (silk_pulses_per_block_iCDF ! 9)) \<bind> encode_sums cdf (map sum_of ts) (map shift_of ts)))
      (\<lambda>d. dec_icdf cdf d \<bind> (\<lambda>(s, d). decode_sum_loop s 0 d \<bind> (\<lambda>((s, k), d).
         decode_sums (length ts) cdf d \<bind> (\<lambda>((sums, shifts), d). Some ((s # sums, k # shifts), d)))))
      (s # map sum_of ts, k # map shift_of ts)"
      using ok False IH codes_escapes [of s 0 "nat (k - 1)"]
      by (intro codes_bind [OF codes_enc_icdf [OF cdf]] codes_bind2 [of _ _ s k]) simp_all
    then show ?thesis using False t by (simp add: bind_assoc)
  qed
qed

section \<open>Magnitudes\<close>

lemma zero_list: "length xs = n \<Longrightarrow> (\<And>x. x \<in> set xs \<Longrightarrow> x = 0) \<Longrightarrow> xs = replicate n (0 :: int)"
  by (metis replicate_eqI)

lemma scaled_zero:
  assumes t: "coded_block t" and "\<not> 0 < sum_of t"
  shows "scaled t = replicate 16 0" and "shift_of t = 0" and "block_of t = replicate 16 0"
proof -
  note f = coded_block_facts [OF t]
  have nn: "\<And>x. x \<in> set (scaled t) \<Longrightarrow> 0 \<le> x" using f(5) by (auto simp: shell_block_def list_all_iff)
  have s0: "sum_list (scaled t) = 0" using assms(2) f(6,8) by simp
  have z: "x = 0" if "x \<in> set (scaled t)" for x
  proof (rule ccontr)
    assume "x \<noteq> 0"
    then have "0 < x" using nn [OF that] by simp
    from sum_list_pos [OF nn that this] show False using s0 by simp
  qed
  show sz: "scaled t = replicate 16 0" by (rule zero_list [OF f(10) z])
  show k0: "shift_of t = 0" using f(3,7) assms(2) by linarith
  have eq: "scaled t = map abs (block_of t)" using k0 by (simp add: scaled_def halved_def)
  show "block_of t = replicate 16 0"
  proof (rule zero_list [OF f(1)])
    fix x assume "x \<in> set (block_of t)"
    then have "\<bar>x\<bar> \<in> set (scaled t)" unfolding eq by simp
    then show "x = 0" using z [of "\<bar>x\<bar>"] by simp
  qed
qed

lemma codes_shells:
  "list_all coded_block ts \<Longrightarrow> codes (encode_shells (map sum_of ts) (concat (map scaled ts)))
    (decode_shells (map sum_of ts)) (concat (map scaled ts))"
proof (induction ts)
  case Nil
  then show ?case by (simp add: codes_return)
next
  case (Cons t ts)
  then have t: "coded_block t" by simp
  note sb = coded_block_facts(5,6) [OF t] and length_scaled = coded_block_facts(10) [OF t]
  show ?case
  proof (cases "0 < sum_of t")
    case True
    have "codes (\<lambda>e. silk_shell_encoder (scaled t) e \<bind> encode_shells (map sum_of ts) (concat (map scaled ts)))
      (\<lambda>d. silk_shell_decoder (sum_of t) d \<bind> (\<lambda>(block, d). decode_shells (map sum_of ts) d \<bind>
         (\<lambda>(rest, d). Some (block @ rest, d)))) (scaled t @ concat (map scaled ts))"
      unfolding sb(2) using Cons by (intro codes_bind [OF codes_shell [OF sb(1)]] codes_then [OF Cons.IH]) simp_all
    then show ?thesis using True length_scaled by simp
  next
    case False
    have "codes (encode_shells (map sum_of ts) (concat (map scaled ts)))
      (\<lambda>d. decode_shells (map sum_of ts) d \<bind> (\<lambda>(rest, d). Some (replicate 16 0 @ rest, d)))
      (scaled t @ concat (map scaled ts))"
      using Cons scaled_zero(1) [OF t False] by (intro codes_then [OF Cons.IH]) simp_all
    then show ?thesis using False length_scaled by simp
  qed
qed

text \<open>The low bits of a magnitude; the magnitude 128 is -128 in eight bits.\<close>

lemma s8_bit:
  assumes "0 \<le> a" and "a \<le> 128" and "j \<le> 7"
  shows "silk_RSHIFT (s8 a) j AND 1 = a div 2 ^ j mod 2"
proof (cases "a = 128")
  case True
  have "j \<in> {0, 1, 2, 3, 4, 5, 6, 7}" using assms(3) by auto
  then show ?thesis unfolding True by (auto simp: rshift_div and_one_eq s8_def)
next
  case False
  then show ?thesis using assms by (simp add: s8_id rshift_div and_one_eq)
qed

lemma decode_lsb_0: "decode_lsb_bits 0 x = (\<lambda>d. Some (x, d))"
  by (rule ext) simp

lemma div_power_Suc: "(a :: int) div 2 ^ Suc n = a div 2 ^ n div 2"
  unfolding power_Suc2 by (rule zdiv_zmult2_eq) simp

lemma codes_lsb_bits:
  "0 \<le> a \<Longrightarrow> a \<le> 128 \<Longrightarrow> j \<le> 7 \<Longrightarrow>
     codes (encode_lsb_bits (s8 a) j) (decode_lsb_bits (Suc j) (a div 2 ^ Suc j)) a"
proof (induction j)
  case 0
  have a: "2 * (a div 2) + a mod 2 = a" by simp
  have "codes (enc_icdf (a mod 2) silk_lsb_iCDF)
    (\<lambda>d. dec_icdf silk_lsb_iCDF d \<bind> (\<lambda>(bit, d). Some (silk_LSHIFT (a div 2) 1 + bit, d))) a"
    by (rule codes_then [OF codes_enc_icdf [OF pulse_tables(4)]]) (use 0 in \<open>simp_all add: lshift_mult\<close>)
  moreover have "s8 a AND 1 = a mod 2" using s8_bit [of a 0] 0 by (simp add: rshift_div)
  then have "encode_lsb_bits (s8 a) 0 = enc_icdf (a mod 2) silk_lsb_iCDF" by (intro ext) simp
  moreover have "decode_lsb_bits (Suc 0) x = (\<lambda>d. dec_icdf silk_lsb_iCDF d \<bind>
      (\<lambda>(bit, d). Some (silk_LSHIFT x 1 + bit, d)))" for x
    by (rule ext) (simp only: decode_lsb_bits.simps(2) decode_lsb_0)
  ultimately show ?case by simp
next
  case (Suc j)
  define c where "c = a div 2 ^ Suc j"
  let ?b = "c mod 2"
  have "a div 2 ^ Suc j \<le> a div 1" using Suc.prems(1) by (intro zdiv_mono2) (simp_all del: power_Suc)
  then have "0 \<le> c" "c \<le> a" unfolding c_def using Suc.prems(1)
    by (simp_all add: pos_imp_zdiv_nonneg_iff del: power_Suc)
  then have "silk_LSHIFT (c div 2) 1 + ?b = c" using Suc.prems by (subst lshift_mult) simp_all
  then have IH: "codes (encode_lsb_bits (s8 a) j) (decode_lsb_bits (Suc j) (silk_LSHIFT (c div 2) 1 + ?b)) a"
    using Suc unfolding c_def by (simp only: Suc_leD)
  have "codes (\<lambda>e. enc_icdf ?b silk_lsb_iCDF e \<bind> encode_lsb_bits (s8 a) j)
    (\<lambda>d. dec_icdf silk_lsb_iCDF d \<bind> (\<lambda>(bit, d).
       decode_lsb_bits (Suc j) (silk_LSHIFT (c div 2) 1 + bit) d)) a"
    by (rule codes_bind, rule codes_enc_icdf [OF pulse_tables(4)], simp_all only: pos_mod_sign pos_mod_bound zero_less_numeral)
      (rule IH)
  moreover have "encode_lsb_bits (s8 a) (Suc j) = (\<lambda>e. enc_icdf ?b silk_lsb_iCDF e \<bind> encode_lsb_bits (s8 a) j)"
    unfolding c_def by (intro ext) (simp only: encode_lsb_bits.simps s8_bit [OF Suc.prems])
  moreover have "decode_lsb_bits (Suc (Suc j)) x = (\<lambda>d. dec_icdf silk_lsb_iCDF d \<bind> (\<lambda>(bit, d).
       decode_lsb_bits (Suc j) (silk_LSHIFT x 1 + bit) d))" for x
    by (rule ext) (rule decode_lsb_bits.simps(2))
  ultimately show ?case unfolding div_power_Suc [of a "Suc j"] c_def [symmetric] by (simp only:)
qed

lemma codes_lsb_block:
  assumes "1 \<le> k" and "k \<le> 7"
  shows "list_all (\<lambda>q. - 128 \<le> q \<and> q \<le> 127) qs \<Longrightarrow>
    codes (encode_lsb_block (nat (k - 1)) qs) (decode_lsb_block (nat k) (halved (nat k) (map abs qs))) (map abs qs)"
proof (induction qs)
  case Nil
  have "encode_lsb_block (nat (k - 1)) [] = Some" "decode_lsb_block (nat k) [] = (\<lambda>d. Some ([], d))"
    by (simp_all add: fun_eq_iff)
  then show ?case by (simp add: halved_def codes_return)
next
  case (Cons q qs)
  have k: "Suc (nat (k - 1)) = nat k" using assms by simp
  have q: "0 \<le> \<bar>q\<bar>" "\<bar>q\<bar> \<le> 128" "nat (k - 1) \<le> 7" "s16 \<bar>q\<bar> = \<bar>q\<bar>"
    using Cons.prems assms by (auto simp: s16_id)
  note c = codes_lsb_bits [OF q(1-3), unfolded k]
  have IH: "codes (encode_lsb_block (nat (k - 1)) qs)
      (\<lambda>d. decode_lsb_block (nat k) (halved (nat k) (map abs qs)) d \<bind> (\<lambda>(qs, d). Some (s16 \<bar>q\<bar> # qs, d)))
      (\<bar>q\<bar> # map abs qs)"
    using Cons by (intro codes_then [OF Cons.IH]) (simp_all add: q)
  have "codes (\<lambda>e. encode_lsb_bits (s8 \<bar>q\<bar>) (nat (k - 1)) e \<bind> encode_lsb_block (nat (k - 1)) qs)
     (\<lambda>d. decode_lsb_bits (nat k) (\<bar>q\<bar> div 2 ^ nat k) d \<bind> (\<lambda>(abs_q, d).
        decode_lsb_block (nat k) (halved (nat k) (map abs qs)) d \<bind> (\<lambda>(qs, d). Some (s16 abs_q # qs, d))))
     (\<bar>q\<bar> # map abs qs)"
    by (rule codes_bind [OF c]) (rule IH)
  then show ?case by (simp add: halved_def)
qed

text \<open>What the decoder makes of the sums, for the signs.\<close>

definition marked_sum :: "int \<Rightarrow> int \<Rightarrow> int" where
  "marked_sum s k = (if k > 0 then s OR silk_LSHIFT k 5 else s)"

lemma marked_sum_same:
  assumes "coded_block t"
  shows "same_sums (sum_of t) (marked_sum (sum_of t) (shift_of t))"
proof -
  note f = coded_block_facts [OF assms]
  let ?s = "sum_of t" and ?k = "shift_of t"
  have sh: "silk_LSHIFT ?k 5 = push_bit 5 ?k" using f(3,4) by (simp add: lshift_mult push_bit_eq_mult)
  have "(?s OR push_bit 5 ?k) AND 31 = ?s AND 31"
  proof (rule bit_eqI)
    fix n :: nat
    have "bit (31 :: int) n \<longleftrightarrow> n < 5"
      using bit_mask_iff [of 5 n, where ?'a = int] by (simp add: mask_eq_exp_minus_1)
    then show "bit ((?s OR push_bit 5 ?k) AND 31) n \<longleftrightarrow> bit (?s AND 31) n"
      by (auto simp: bit_simps)
  qed
  moreover have "0 < ?k \<Longrightarrow> 0 < ?s OR push_bit 5 ?k"
    using or_greater_eq [of "push_bit 5 ?k" ?s] f(7,8) by (simp add: push_bit_eq_mult)
  ultimately show ?thesis using f(7)
    by (auto simp: same_sums_def marked_sum_def sh)
qed

lemma codes_lsbs:
  "list_all coded_block ts \<Longrightarrow>
    codes (encode_lsbs (map shift_of ts) (concat (map block_of ts) @ r))
      (decode_lsbs (map sum_of ts) (map shift_of ts) (concat (map scaled ts)))
      (map abs (concat (map block_of ts)), map (\<lambda>t. marked_sum (sum_of t) (shift_of t)) ts)"
proof (induction ts)
  case Nil
  have "encode_lsbs [] (concat [] @ r) = Some" "decode_lsbs [] [] [] = (\<lambda>d. Some (([], []), d))"
    by (simp_all add: fun_eq_iff)
  then show ?case by (simp add: codes_return)
next
  case (Cons t ts)
  then have t: "coded_block t" and ts: "list_all coded_block ts" by simp_all
  note f = coded_block_facts [OF t]
  let ?m = "\<lambda>t. marked_sum (sum_of t) (shift_of t)"
  note IH = codes_then2 [OF Cons.IH [OF ts]]
  show ?case
  proof (cases "0 < shift_of t")
    case True
    have m: "?m t = sum_of t OR silk_LSHIFT (shift_of t) 5" using True by (simp add: marked_sum_def)
    have "codes (\<lambda>e. encode_lsb_block (nat (shift_of t - 1)) (block_of t) e
          \<bind> encode_lsbs (map shift_of ts) (concat (map block_of ts) @ r))
      (\<lambda>d. decode_lsb_block (nat (shift_of t)) (scaled t) d \<bind> (\<lambda>(block, d).
         decode_lsbs (map sum_of ts) (map shift_of ts) (concat (map scaled ts)) d \<bind> (\<lambda>((rest, sums), d).
           Some ((block @ rest, (sum_of t OR silk_LSHIFT (shift_of t) 5) # sums), d))))
      (map abs (block_of t) @ map abs (concat (map block_of ts)), ?m t # map ?m ts)"
      unfolding scaled_def
      by (rule codes_bind [OF codes_lsb_block], use True f in simp_all, rule IH [unfolded scaled_def]) (simp add: marked_sum_def)
    then show ?thesis using True f(1,10) by simp
  next
    case False
    have z: "scaled t = map abs (block_of t)" "?m t = sum_of t" using False f(3)
      by (simp_all add: scaled_def halved_def marked_sum_def)
    have "codes (encode_lsbs (map shift_of ts) (concat (map block_of ts) @ r))
      (\<lambda>d. decode_lsbs (map sum_of ts) (map shift_of ts) (concat (map scaled ts)) d \<bind> (\<lambda>((rest, sums), d).
           Some ((map abs (block_of t) @ rest, sum_of t # sums), d)))
      (map abs (block_of t) @ map abs (concat (map block_of ts)), sum_of t # map ?m ts)"
      by (rule IH) simp
    then show ?thesis using False f(1) by (simp add: z)
  qed
qed

end
