(* ===== verification/Silk_Excitation.thy ===== *)
theory Silk_Excitation
  imports Silk_Pulses_Codec
begin

text \<open>
  The whole excitation coder: \<open>silk_decode_pulses\<close> reads back the pulses that
  \<open>silk_encode_pulses\<close> wrote, and on any input it ends and returns 16 bit pulses.
\<close>

section \<open>The rate level\<close>

lemma foldl_level:
  assumes "0 \<le> l" and "l < 9" and "\<And>k. k \<in> set ks \<Longrightarrow> k < 9"
  shows "0 \<le> snd (foldl (\<lambda>(m, l) k. let b = f k in if b < m then (b, int k) else (m, l)) (m, l) ks)
    \<and> snd (foldl (\<lambda>(m, l) k. let b = f k in if b < m then (b, int k) else (m, l)) (m, l) ks) < (9 :: int)"
  using assms
proof (induction ks arbitrary: m l)
  case (Cons k ks)
  then show ?case using Cons.IH [of "int k" "f k"] Cons.IH [of l m] by (simp add: Let_def)
qed simp

lemma choose_rate_level_bounds: "0 \<le> choose_rate_level st sums shifts" "choose_rate_level st sums shifts < 9"
  using foldl_level [of 0 "[0..<9]" "rate_level_bits st sums shifts" 2147483647]
  by (simp_all only: choose_rate_level_def) auto

text \<open>The level chosen needs the fewest bits of all levels, when the bits fit in 32 bits.\<close>

lemma foldl_least:
  fixes f :: "nat \<Rightarrow> int"
  assumes "(m, l) = foldl (\<lambda>(m, l) k. let b = f k in if b < m then (b, int k) else (m, l)) (m0, l0) ks"
  shows "m \<le> m0 \<and> (\<forall>k \<in> set ks. m \<le> f k) \<and> (m = m0 \<and> l = l0 \<or> (\<exists>k \<in> set ks. l = int k \<and> m = f k))"
  using assms
proof (induction ks arbitrary: m0 l0)
  case (Cons k ks)
  show ?case
  proof (cases "f k < m0")
    case True
    with Cons.prems have "(m, l) = foldl (\<lambda>(m, l) k. let b = f k in if b < m then (b, int k) else (m, l)) (f k, int k) ks"
      by (simp add: Let_def)
    from Cons.IH [OF this] show ?thesis using True by auto
  next
    case False
    with Cons.prems have "(m, l) = foldl (\<lambda>(m, l) k. let b = f k in if b < m then (b, int k) else (m, l)) (m0, l0) ks"
      by (simp add: Let_def)
    from Cons.IH [OF this] show ?thesis using False by auto
  qed
qed simp

lemma rate_level_least:
  assumes "j < 9" and "\<exists>k < 9. rate_level_bits st sums shifts k < 2147483647"
  shows "rate_level_bits st sums shifts (nat (choose_rate_level st sums shifts)) \<le> rate_level_bits st sums shifts j"
proof -
  let ?f = "rate_level_bits st sums shifts"
  define p where "p = foldl (\<lambda>(m, l) k. let b = ?f k in if b < m then (b, int k) else (m, l)) (2147483647, 0 :: int) [0..<9]"
  obtain m l where ml: "p = (m, l)" by (cases p)
  note f = foldl_least [OF ml [symmetric, unfolded p_def]]
  obtain k where "k < 9" "?f k < 2147483647" using assms(2) by blast
  then have "m < 2147483647" using f by (metis atLeastLessThan_upt le_less_trans atLeastLessThan_iff zero_le)
  then have "m = ?f (nat l)" using f by auto
  moreover have "m \<le> ?f j" using f assms(1) by simp
  moreover have "choose_rate_level st sums shifts = l"
    using ml by (simp only: choose_rate_level_def p_def [symmetric]) simp
  ultimately show ?thesis by simp
qed

section \<open>The frame\<close>

text \<open>
  The frames the codec has: a multiple of 16 pulses, or 120 (10 ms at 12 kHz), for which
  the buffer has room for the zeros written after the frame.
\<close>

definition frame_size_ok :: "int \<Rightarrow> bool" where
  "frame_size_ok fl \<longleftrightarrow> 0 \<le> fl \<and> fl \<le> 320 \<and> (fl mod 16 = 0 \<or> fl = 120)"

definition excitation_ok :: "int \<Rightarrow> int \<Rightarrow> int list \<Rightarrow> int \<Rightarrow> bool" where
  "excitation_ok signalType quantOffsetType pulses fl \<longleftrightarrow>
     signalType \<in> {0, 1, 2} \<and> quantOffsetType \<in> {0, 1} \<and> frame_size_ok fl
     \<and> nat fl + (if fl = 120 then 16 else 0) \<le> length pulses
     \<and> list_all (\<lambda>q. - 128 \<le> q \<and> q \<le> 127) (take (nat fl) pulses)"

text \<open>The pulses of the frame, filled up to whole blocks.\<close>

definition frame_pulses :: "int list \<Rightarrow> int \<Rightarrow> int list" where
  "frame_pulses pulses fl = take (nat fl) pulses @ replicate (if fl = 120 then 8 else 0) 0"

lemma shell_blocks_size:
  assumes "frame_size_ok fl"
  shows "nat (shell_blocks fl) = nat ((fl + 8) div 16)" and "nat (shell_blocks fl) \<le> 20"
    and "16 * nat (shell_blocks fl) = nat fl + (if fl = 120 then 8 else 0)"
    and "silk_RSHIFT fl 4 * 16 < fl \<longleftrightarrow> fl = 120"
proof -
  have b: "0 \<le> fl" "fl \<le> 320" and c: "fl = 120 \<or> fl mod 16 = 0" using assms by (auto simp: frame_size_ok_def)
  then obtain m where m: "fl = 120 \<or> fl = 16 * m" by (auto simp: mod_eq_0_iff_dvd elim: dvdE)
  have "120 div 16 = (7 :: int)" by simp
  show "silk_RSHIFT fl 4 * 16 < fl \<longleftrightarrow> fl = 120"
    using m by (elim disjE) (simp_all add: rshift_div, presburger)
  show "nat (shell_blocks fl) = nat ((fl + 8) div 16)" "nat (shell_blocks fl) \<le> 20"
    "16 * nat (shell_blocks fl) = nat fl + (if fl = 120 then 8 else 0)"
    using m b by (auto simp: shell_blocks_def rshift_div Let_def)
qed

lemma clear_after_frame:
  assumes "excitation_ok st qo pulses fl"
  obtains r where "clear_after pulses fl = Some (frame_pulses pulses fl @ r)"
proof -
  have fs: "frame_size_ok fl" and len: "nat fl + (if fl = 120 then 16 else 0) \<le> length pulses"
    using assms by (simp_all add: excitation_ok_def)
  note s = shell_blocks_size(4) [OF fs]
  show thesis
  proof (cases "fl = 120")
    case True
    have r: "replicate 16 (0 :: int) = replicate 8 0 @ replicate 8 0" by (simp add: numeral_eq_Suc)
    show ?thesis using that [of "replicate 8 0 @ drop (nat fl + 16) pulses"] s True len
      unfolding clear_after_def frame_pulses_def r by simp
  next
    case False
    then show ?thesis using that [of "drop (nat fl) pulses"] s by (simp add: clear_after_def frame_pulses_def)
  qed
qed

lemma in_blocks:
  "length xs = 16 * n \<Longrightarrow> \<exists>bs. length bs = n \<and> (\<forall>b \<in> set bs. length b = 16) \<and> concat bs = xs"
proof (induction n arbitrary: xs)
  case (Suc n)
  then have l: "length (drop 16 xs) = 16 * n" "length (take 16 xs) = 16" by simp_all
  from Suc.IH [OF l(1)] obtain bs where "length bs = n" "\<forall>b \<in> set bs. length b = 16" "concat bs = drop 16 xs" by blast
  then show ?case using l(2) by (intro exI [of _ "take 16 xs # bs"]) simp
qed simp

text \<open>The blocks of a frame as the encoder finds them.\<close>

lemma frame_blocks:
  assumes ok: "excitation_ok st qo pulses fl"
  obtains ts where "concat (map block_of ts) = frame_pulses pulses fl" and "list_all coded_block ts"
    and "length ts = nat (shell_blocks fl)"
    and "scale_blocks (nat (shell_blocks fl)) (replicate 8 0) (map abs (frame_pulses pulses fl))
      = Some (concat (map scaled ts), map sum_of ts, map shift_of ts)"
proof -
  have fs: "frame_size_ok fl" and len: "nat fl + (if fl = 120 then 16 else 0) \<le> length pulses"
    and rg: "list_all (\<lambda>q. - 128 \<le> q \<and> q \<le> 127) (take (nat fl) pulses)"
    using ok by (simp_all add: excitation_ok_def)
  have l: "length (frame_pulses pulses fl) = 16 * nat (shell_blocks fl)"
    using len unfolding shell_blocks_size(3) [OF fs] frame_pulses_def by simp
  obtain bs where bs: "length bs = nat (shell_blocks fl)" "\<forall>b \<in> set bs. length b = 16"
    "concat bs = frame_pulses pulses fl" using in_blocks [OF l] by blast
  have "list_all (\<lambda>q. - 128 \<le> q \<and> q \<le> 127) (concat bs)"
    using rg by (simp add: bs(3) frame_pulses_def list_all_iff)
  then have "length b = 16 \<and> list_all (\<lambda>q. - 128 \<le> q \<and> q \<le> 127) b" if "b \<in> set bs" for b
    using that bs(2) by (auto simp: list_all_iff)
  from scale_blocks_ends [OF _ this, of "replicate 8 0"] obtain ts where
    ts: "map block_of ts = bs" "list_all coded_block ts" "scale_blocks (length bs) (replicate 8 0)
      (map abs (concat bs)) = Some (concat (map scaled ts), map sum_of ts, map shift_of ts)" by auto
  have "length ts = length bs" using ts(1) by (metis length_map)
  then show thesis using that [of ts] ts bs by simp
qed

lemma codes_signs:
  assumes ok: "excitation_ok st qo pulses fl" and ts: "list_all coded_block ts" "length ts = nat (shell_blocks fl)"
  shows "codes (silk_encode_signs (concat (map block_of ts) @ r) fl st qo (map sum_of ts))
    (silk_decode_signs (map abs (concat (map block_of ts))) fl st qo (map (\<lambda>t. marked_sum (sum_of t) (shift_of t)) ts))
    (concat (map block_of ts))"
proof -
  have fs: "frame_size_ok fl" and st: "st \<in> {0, 1, 2}" "qo \<in> {0, 1}" using ok by (simp_all add: excitation_ok_def)
  obtain tab where tab: "sign_table st qo = Some tab" "sign_table_ok tab" by (rule sign_table_Some [OF st])
  have n: "nat (silk_RSHIFT (fl + 16 div 2) 4) = length ts"
    using shell_blocks_size(1) [OF fs] ts(2) by (simp add: rshift_div)
  have b: "list_all2 sign_block (map sum_of ts) (map block_of ts)"
  proof -
    have "sign_block (sum_of t) (block_of t)" if "t \<in> set ts" for t
      using that ts(1) coded_block_facts(1,2) [of t] scaled_zero(3) [of t]
      by (auto simp only: list_all_iff sign_block_def)
    then show ?thesis by (simp add: list_all2_map1 list_all2_map2 list_all2_same)
  qed
  have s: "list_all2 same_sums (map sum_of ts) (map (\<lambda>t. marked_sum (sum_of t) (shift_of t)) ts)"
    using ts(1) marked_sum_same by (auto simp: list_all2_map1 list_all2_map2 list_all2_same list_all_iff)
  have "sign_blocks fl xs = Some xs" if "length xs = length ts" for xs
    using n that by (simp add: sign_blocks_def Let_def)
  then show ?thesis using codes_sign_blocks [OF tab(2) b s, of r]
    by (simp add: silk_encode_signs_def silk_decode_signs_def tab(1) fun_eq_iff codes_def)
qed

section \<open>Round trip\<close>

lemma codes_pulses:
  assumes ok: "excitation_ok st qo pulses fl"
  shows "codes (silk_encode_pulses st qo pulses fl) (silk_decode_pulses st qo fl) (frame_pulses pulses fl)"
proof -
  have fs: "frame_size_ok fl" and st: "st \<in> {0, 1, 2}" using ok by (simp_all add: excitation_ok_def)
  obtain r where r: "clear_after pulses fl = Some (frame_pulses pulses fl @ r)"
    by (rule clear_after_frame [OF ok])
  obtain ts where ts: "concat (map block_of ts) = frame_pulses pulses fl" "list_all coded_block ts"
    "length ts = nat (shell_blocks fl)" "scale_blocks (nat (shell_blocks fl)) (replicate 8 0)
      (map abs (frame_pulses pulses fl)) = Some (concat (map scaled ts), map sum_of ts, map shift_of ts)"
    by (rule frame_blocks [OF ok])
  have l: "16 * nat (shell_blocks fl) = length (frame_pulses pulses fl)"
    using ok unfolding shell_blocks_size(3) [OF fs] frame_pulses_def by (auto simp: excitation_ok_def)
  define lv where "lv = choose_rate_level st (map sum_of ts) (map shift_of ts)"
  have lv: "0 \<le> lv" "lv < 9" by (simp_all only: lv_def choose_rate_level_bounds)
  let ?i = "silk_RSHIFT st 1"
  have i: "0 \<le> ?i" "nat ?i < 2" using st by (auto simp: rshift_div)
  define levels cdf where "levels = silk_rate_levels_iCDF ! nat ?i" and "cdf = silk_pulses_per_block_iCDF ! nat lv"
  have el: "elem silk_rate_levels_iCDF ?i = Some levels" "elem silk_pulses_per_block_iCDF lv = Some cdf"
    using i lv pulse_tables(5,6) by (simp_all add: levels_def cdf_def)
  have sz: "icdf_size levels 9" "icdf_size cdf 18"
    using pulse_tables(1,3) i lv by (simp_all add: levels_def cdf_def)
  let ?sums = "map sum_of ts" and ?shifts = "map shift_of ts" and ?b = "concat (map block_of ts)"
  let ?E = "\<lambda>e. enc_icdf lv levels e \<bind> (\<lambda>e. encode_sums cdf ?sums ?shifts e \<bind>
     (\<lambda>e. encode_shells ?sums (concat (map scaled ts)) e \<bind>
     (\<lambda>e. encode_lsbs ?shifts (?b @ r) e \<bind> silk_encode_signs (?b @ r) fl st qo ?sums)))"
  let ?D = "\<lambda>d. dec_icdf levels d \<bind> (\<lambda>(level, d). elem silk_pulses_per_block_iCDF level \<bind> (\<lambda>cdf_ptr.
     decode_sums (nat (shell_blocks fl)) cdf_ptr d \<bind> (\<lambda>((sum_pulses, nLshifts), d).
     decode_shells sum_pulses d \<bind> (\<lambda>(pulses, d). decode_lsbs sum_pulses nLshifts pulses d \<bind>
     (\<lambda>((pulses, sum_pulses), d). silk_decode_signs pulses fl st qo sum_pulses d)))))"
  have "codes (\<lambda>e. encode_sums cdf ?sums ?shifts e \<bind>
     (\<lambda>e. encode_shells ?sums (concat (map scaled ts)) e \<bind>
     (\<lambda>e. encode_lsbs ?shifts (?b @ r) e \<bind> silk_encode_signs (?b @ r) fl st qo ?sums)))
    (\<lambda>d. decode_sums (nat (shell_blocks fl)) cdf d \<bind> (\<lambda>((sum_pulses, nLshifts), d).
     decode_shells sum_pulses d \<bind> (\<lambda>(pulses, d). decode_lsbs sum_pulses nLshifts pulses d \<bind>
     (\<lambda>((pulses, sum_pulses), d). silk_decode_signs pulses fl st qo sum_pulses d)))) ?b"
    unfolding ts(3) [symmetric]
    by (rule codes_bind2 [OF codes_sums [OF sz(2) ts(2)]], rule codes_bind [OF codes_shells [OF ts(2)]],
        rule codes_bind2 [OF codes_lsbs [OF ts(2)]], rule codes_signs [OF ok ts(2,3)])
  then have "codes ?E ?D ?b"
    by (intro codes_bind [OF codes_enc_icdf [OF sz(1) lv]]) (simp add: el(2))
  moreover have "silk_encode_pulses st qo pulses fl = ?E"
    using r l by (intro ext) (simp add: silk_encode_pulses_def Let_def ts(1) ts(4) el(1) [unfolded One_nat_def] el(2) flip: lv_def)
  moreover have "silk_decode_pulses st qo fl = ?D"
    using shell_blocks_size(2) [OF fs] by (intro ext) (simp add: silk_decode_pulses_def Let_def el(1) [unfolded One_nat_def])
  ultimately show ?thesis by (simp only: ts(1))
qed

section \<open>Arbitrary input\<close>

lemma reads_sum_loop:
  assumes "0 \<le> s" and "s \<le> 17" and "0 \<le> k" and "k \<le> 10" and "k = 10 \<longrightarrow> s \<noteq> 17"
  shows "reads (decode_sum_loop s k) (\<lambda>(s, k). 0 \<le> s \<and> s \<le> 16 \<and> 0 \<le> k \<and> k \<le> 10)"
  using assms
proof (induction "nat (10 - k)" arbitrary: s k rule: less_induct)
  case less
  show ?case
  proof (cases "s = 17")
    case False
    then show ?thesis using less.prems by (simp add: decode_sum_stop reads_return)
  next
    case True
    then have k: "k < 10" using less.prems by linarith
    define tab where "tab = drop (nat (of_bool (k + 1 = 10))) (silk_pulses_per_block_iCDF ! 9)"
    have sz: "icdf_size tab (if k + 1 = 10 then 17 else 18)"
      using pulse_tables(1) [of 9] pulse_tables(2) by (simp add: tab_def)
    have len: "length (silk_pulses_per_block_iCDF ! 9) \<ge> 18"
      using icdf_size_facts(1) [OF pulse_tables(1) [of 9]] by simp
    have "reads (\<lambda>d. dec_icdf tab d \<bind> (\<lambda>(s, d). decode_sum_loop s (k + 1) d))
       (\<lambda>(s, k). 0 \<le> s \<and> s \<le> 16 \<and> 0 \<le> k \<and> k \<le> 10)"
      by (rule reads_bind [OF reads_dec_icdf [OF sz]], rule less.hyps) (use k less.prems in \<open>auto split: if_splits\<close>)
    moreover have "from_elem (silk_pulses_per_block_iCDF ! 9) (of_bool (k + 1 = 10)) = Some tab"
      using len by (simp add: tab_def from_elem_def)
    then have "decode_sum_loop 17 k = (\<lambda>d. dec_icdf tab d \<bind> (\<lambda>(s, d). decode_sum_loop s (k + 1) d))"
      by (intro ext, subst decode_sum_loop.simps) simp
    ultimately show ?thesis using True by simp
  qed
qed

definition sums_ok :: "int list \<Rightarrow> int list \<Rightarrow> bool" where
  "sums_ok sums shifts \<longleftrightarrow> list_all2 (\<lambda>s k. 0 \<le> s \<and> s \<le> 16 \<and> 0 \<le> k \<and> k \<le> 10) sums shifts"

lemma reads_sums:
  assumes "icdf_size cdf 18"
  shows "reads (decode_sums n cdf) (\<lambda>(sums, shifts). length sums = n \<and> sums_ok sums shifts)"
proof (induction n)
  case 0
  have "decode_sums 0 cdf = (\<lambda>d. Some (([], []), d))" by (rule ext) simp
  then show ?case by (simp add: reads_return sums_ok_def)
next
  case (Suc n)
  have "reads (\<lambda>d. dec_icdf cdf d \<bind> (\<lambda>(s, d). decode_sum_loop s 0 d \<bind> (\<lambda>((s, k), d).
         decode_sums n cdf d \<bind> (\<lambda>((sums, shifts), d). Some ((s # sums, k # shifts), d)))))
    (\<lambda>(sums, shifts). length sums = Suc n \<and> sums_ok sums shifts)"
    by (rule reads_bind [OF reads_dec_icdf [OF assms]], rule reads_bind2 [OF reads_sum_loop],
        simp_all, rule reads_bind2 [OF Suc.IH], rule reads_return) (simp add: sums_ok_def)
  moreover have "decode_sums (Suc n) cdf = (\<lambda>d. dec_icdf cdf d \<bind> (\<lambda>(s, d). decode_sum_loop s 0 d \<bind> (\<lambda>((s, k), d).
         decode_sums n cdf d \<bind> (\<lambda>((sums, shifts), d). Some ((s # sums, k # shifts), d)))))"
    by (rule ext) simp
  ultimately show ?case by simp
qed

text \<open>\<open>n\<close> blocks of 16 values from 0 to \<open>c\<close>.\<close>

definition blocks_upto :: "int \<Rightarrow> nat \<Rightarrow> int list \<Rightarrow> bool" where
  "blocks_upto c n ps \<longleftrightarrow> length ps = 16 * n \<and> list_all (\<lambda>q. 0 \<le> q \<and> q \<le> c) ps"

lemma shell_block_upto: "shell_block b \<Longrightarrow> length b = 16 \<and> list_all (\<lambda>q. 0 \<le> q \<and> q \<le> 16) b"
  unfolding shell_block_def list_all_iff
  by (metis member_le_sum_list order_trans)

lemma reads_shells:
  "list_all (\<lambda>s. 0 \<le> s \<and> s \<le> 16) sums \<Longrightarrow> reads (decode_shells sums) (blocks_upto 16 (length sums))"
proof (induction sums)
  case Nil
  have "decode_shells [] = (\<lambda>d. Some ([], d))" by (rule ext) simp
  then show ?case by (simp add: reads_return blocks_upto_def)
next
  case (Cons s sums)
  then have IH: "reads (decode_shells sums) (blocks_upto 16 (length sums))" and s: "0 \<le> s" "s \<le> 16" by simp_all
  show ?case
  proof (cases "0 < s")
    case True
    have "reads (\<lambda>d. silk_shell_decoder s d \<bind> (\<lambda>(block, d). decode_shells sums d \<bind>
         (\<lambda>(rest, d). Some (block @ rest, d)))) (blocks_upto 16 (length (s # sums)))"
      by (rule reads_bind [OF reads_shell [OF s]], rule reads_bind [OF IH], rule reads_return)
        (use shell_block_upto in \<open>auto simp: blocks_upto_def\<close>)
    moreover have "decode_shells (s # sums) = (\<lambda>d. silk_shell_decoder s d \<bind> (\<lambda>(block, d). decode_shells sums d \<bind>
         (\<lambda>(rest, d). Some (block @ rest, d))))" using True by (intro ext) simp
    ultimately show ?thesis by simp
  next
    case False
    have "reads (\<lambda>d. decode_shells sums d \<bind> (\<lambda>(rest, d). Some (replicate 16 0 @ rest, d)))
        (blocks_upto 16 (length (s # sums)))"
      by (rule reads_bind [OF IH], rule reads_return) (simp add: blocks_upto_def list_all_iff)
    moreover have "decode_shells (s # sums) = (\<lambda>d. decode_shells sums d \<bind> (\<lambda>(rest, d). Some (replicate 16 0 @ rest, d)))"
      using False by (intro ext) simp
    ultimately show ?thesis by simp
  qed
qed

lemma reads_lsb_bits:
  "0 \<le> q \<Longrightarrow> (q + 1) * 2 ^ n \<le> 2147483648 \<Longrightarrow>
     reads (decode_lsb_bits n q) (\<lambda>x. 0 \<le> x \<and> x < (q + 1) * 2 ^ n)"
proof (induction n arbitrary: q)
  case 0
  then show ?case by (simp add: decode_lsb_0 reads_return)
next
  case (Suc n)
  have "(q + 1) * 2 * 1 \<le> (q + 1) * 2 * 2 ^ n" using Suc.prems(1) by (intro mult_left_mono) simp_all
  moreover have "(q + 1) * 2 * 2 ^ n = (q + 1) * 2 ^ Suc n" by simp
  ultimately have "(q + 1) * 2 \<le> 2147483648" using Suc.prems(2) by linarith
  then have sh: "silk_LSHIFT q 1 = q * 2" using Suc.prems(1) by (simp add: lshift_mult)
  have le: "(silk_LSHIFT q 1 + b + 1) * 2 ^ n \<le> (q + 1) * 2 ^ Suc n" if "b < 2" for b
  proof -
    have "(silk_LSHIFT q 1 + b + 1) * 2 ^ n \<le> ((q + 1) * 2) * 2 ^ n"
      using that sh by (intro mult_right_mono) simp_all
    then show ?thesis by (simp add: mult.assoc)
  qed
  have "reads (\<lambda>d. dec_icdf silk_lsb_iCDF d \<bind> (\<lambda>(bit, d). decode_lsb_bits n (silk_LSHIFT q 1 + bit) d))
     (\<lambda>x. 0 \<le> x \<and> x < (q + 1) * 2 ^ Suc n)"
  proof (rule reads_bind [OF reads_dec_icdf [OF pulse_tables(4)]])
    fix b :: int assume b: "0 \<le> b \<and> b < 2"
    have pos: "0 \<le> silk_LSHIFT q 1 + b" using b Suc.prems(1) sh by linarith
    have "(silk_LSHIFT q 1 + b + 1) * 2 ^ n \<le> 2147483648"
      using le [of b] b Suc.prems(2) by linarith
    from Suc.IH [OF pos this] le [of b] b show "reads (decode_lsb_bits n (silk_LSHIFT q 1 + b))
       (\<lambda>x. 0 \<le> x \<and> x < (q + 1) * 2 ^ Suc n)"
      by (elim reads_weaken) linarith
  qed
  moreover have "decode_lsb_bits (Suc n) q = (\<lambda>d. dec_icdf silk_lsb_iCDF d \<bind>
      (\<lambda>(bit, d). decode_lsb_bits n (silk_LSHIFT q 1 + bit) d))" by (rule ext) (rule decode_lsb_bits.simps(2))
  ultimately show ?case by (simp only:)
qed

lemma reads_lsb_block:
  assumes "0 \<le> k" and "k \<le> 10"
  shows "list_all (\<lambda>q. 0 \<le> q \<and> q \<le> 16) qs \<Longrightarrow>
    reads (decode_lsb_block (nat k) qs) (\<lambda>ps. length ps = length qs \<and> list_all (\<lambda>q. 0 \<le> q \<and> q \<le> 17407) ps)"
proof (induction qs)
  case Nil
  have "decode_lsb_block (nat k) [] = (\<lambda>d. Some ([], d))" by (rule ext) simp
  then show ?case by (simp add: reads_return)
next
  case (Cons q qs)
  then have q: "0 \<le> q" "q \<le> 16" by simp_all
  have "(2 :: int) ^ nat k \<le> 2 ^ 10" using assms by (intro power_increasing) simp_all
  then have top: "(q + 1) * 2 ^ nat k \<le> 17 * 1024" using q by (intro mult_mono) simp_all
  then have bound: "(q + 1) * 2 ^ nat k \<le> 2147483648" by simp
  have le: "x \<le> 17407" "s16 x = x" if "0 \<le> x" "x < (q + 1) * 2 ^ nat k" for x
    using that top by (simp_all add: s16_id)
  have "reads (\<lambda>d. decode_lsb_bits (nat k) q d \<bind> (\<lambda>(abs_q, d). decode_lsb_block (nat k) qs d \<bind>
       (\<lambda>(qs, d). Some (s16 abs_q # qs, d))))
    (\<lambda>ps. length ps = length (q # qs) \<and> list_all (\<lambda>q. 0 \<le> q \<and> q \<le> 17407) ps)"
    by (rule reads_bind [OF reads_lsb_bits [OF q(1) bound]], rule reads_bind [OF Cons.IH], use Cons.prems in simp,
        rule reads_return) (simp add: le)
  moreover have "decode_lsb_block (nat k) (q # qs) = (\<lambda>d. decode_lsb_bits (nat k) q d \<bind> (\<lambda>(abs_q, d).
      decode_lsb_block (nat k) qs d \<bind> (\<lambda>(qs, d). Some (s16 abs_q # qs, d))))" by (rule ext) simp
  ultimately show ?case by simp
qed

lemma reads_lsbs:
  "sums_ok sums shifts \<Longrightarrow> blocks_upto 16 (length sums) ps \<Longrightarrow> reads (decode_lsbs sums shifts ps)
     (\<lambda>(ps, sums'). length sums' = length sums \<and> blocks_upto 17407 (length sums) ps)"
  unfolding sums_ok_def
proof (induction sums shifts arbitrary: ps rule: list_all2_induct)
  case Nil
  have "decode_lsbs [] [] ps = (\<lambda>d. Some ((ps, []), d))" by (rule ext) simp
  then show ?case using Nil by (simp add: reads_return blocks_upto_def)
next
  case (Cons s sums k shifts)
  have k: "0 \<le> k" "k \<le> 10" using Cons.hyps(1) by simp_all
  have dr: "blocks_upto 16 (length sums) (drop 16 ps)" and tk: "list_all (\<lambda>q. 0 \<le> q \<and> q \<le> 16) (take 16 ps)"
    and lt: "length (take 16 ps) = 16"
    using Cons.prems by (auto simp: blocks_upto_def list_all_iff dest: in_set_takeD in_set_dropD)
  note IH = Cons.IH [OF dr]
  show ?case
  proof (cases "0 < k")
    case True
    have "reads (\<lambda>d. decode_lsb_block (nat k) (take 16 ps) d \<bind> (\<lambda>(block, d).
         decode_lsbs sums shifts (drop 16 ps) d \<bind> (\<lambda>((rest, sums), d).
           Some ((block @ rest, (s OR silk_LSHIFT k 5) # sums), d))))
      (\<lambda>(ps, sums'). length sums' = length (s # sums) \<and> blocks_upto 17407 (length (s # sums)) ps)"
      by (rule reads_bind [OF reads_lsb_block [OF k tk]], rule reads_bind2 [OF IH], rule reads_return)
        (use lt in \<open>simp add: blocks_upto_def\<close>)
    moreover have "decode_lsbs (s # sums) (k # shifts) ps = (\<lambda>d. decode_lsb_block (nat k) (take 16 ps) d \<bind> (\<lambda>(block, d).
         decode_lsbs sums shifts (drop 16 ps) d \<bind> (\<lambda>((rest, sums), d).
           Some ((block @ rest, (s OR silk_LSHIFT k 5) # sums), d))))" using True by (intro ext) simp
    ultimately show ?thesis by simp
  next
    case False
    have "list_all (\<lambda>q. 0 \<le> q \<and> q \<le> 17407) (take 16 ps)" using tk by (auto simp: list_all_iff)
    then have "reads (\<lambda>d. decode_lsbs sums shifts (drop 16 ps) d \<bind> (\<lambda>((rest, sums), d).
           Some ((take 16 ps @ rest, s # sums), d)))
      (\<lambda>(ps, sums'). length sums' = length (s # sums) \<and> blocks_upto 17407 (length (s # sums)) ps)"
      by (intro reads_bind2 [OF IH] reads_return) (use lt in \<open>simp add: blocks_upto_def\<close>)
    moreover have "decode_lsbs (s # sums) (k # shifts) ps = (\<lambda>d. decode_lsbs sums shifts (drop 16 ps) d \<bind>
       (\<lambda>((rest, sums), d). Some ((take 16 ps @ rest, s # sums), d)))" using False by (intro ext) simp
    ultimately show ?thesis by simp
  qed
qed

lemma reads_signs:
  assumes "frame_size_ok fl" and "st \<in> {0, 1, 2}" and "qo \<in> {0, 1}"
    and "length sums = nat (shell_blocks fl)" and "blocks_upto 17407 (length sums) ps"
  shows "reads (silk_decode_signs ps fl st qo sums)
    (\<lambda>qs. length qs = 16 * length sums \<and> list_all (\<lambda>q. \<bar>q\<bar> \<le> 17407) qs)"
proof -
  obtain tab where tab: "sign_table st qo = Some tab" "sign_table_ok tab"
    by (rule sign_table_Some [OF assms(2,3)])
  obtain bs where bs: "length bs = length sums" "\<forall>b \<in> set bs. length b = 16" "concat bs = ps"
    using in_blocks [of ps "length sums"] assms(5) by (auto simp: blocks_upto_def)
  have "list_all2 (\<lambda>p b. length b = 16 \<and> list_all (\<lambda>q. 0 \<le> q \<and> q < 32768) b) sums bs"
    unfolding list_all2_conv_all_nth
  proof (intro conjI allI impI)
    fix i assume "i < length sums"
    then have b: "bs ! i \<in> set bs" using bs(1) by simp
    then show "length (bs ! i) = 16" using bs(2) by blast
    have "set (bs ! i) \<subseteq> set ps" using b bs(3) by auto
    then show "list_all (\<lambda>q. 0 \<le> q \<and> q < 32768) (bs ! i)"
      using assms(5) by (fastforce simp: blocks_upto_def list_all_iff)
  qed (use bs in simp)
  from reads_sign_blocks [OF tab(2) this] have "reads (decode_sign_blocks tab sums ps) (\<lambda>qs. map abs qs = ps)"
    by (simp add: bs(3))
  moreover have "length qs = 16 * length sums \<and> list_all (\<lambda>q. \<bar>q\<bar> \<le> 17407) qs" if "map abs qs = ps" for qs
    using assms(5) that by (auto simp: blocks_upto_def list_all_iff)
  moreover have "sign_blocks fl sums = Some sums"
    using shell_blocks_size(1) [OF assms(1)] assms(4) by (simp add: sign_blocks_def Let_def rshift_div)
  then have "silk_decode_signs ps fl st qo sums = decode_sign_blocks tab sums ps"
    by (intro ext) (simp add: silk_decode_signs_def tab(1))
  ultimately show ?thesis by (auto elim: reads_weaken)
qed

lemma reads_pulses:
  assumes "frame_size_ok fl" and "st \<in> {0, 1, 2}" and "qo \<in> {0, 1}"
  shows "reads (silk_decode_pulses st qo fl)
    (\<lambda>qs. length qs = 16 * nat (shell_blocks fl) \<and> list_all (\<lambda>q. \<bar>q\<bar> \<le> 17407) qs)"
proof -
  let ?i = "silk_RSHIFT st 1" and ?n = "nat (shell_blocks fl)"
  have i: "0 \<le> ?i" "nat ?i < 2" using assms(2) by (auto simp: rshift_div)
  define levels where "levels = silk_rate_levels_iCDF ! nat ?i"
  have el: "elem silk_rate_levels_iCDF ?i = Some levels" "icdf_size levels 9"
    using i pulse_tables(3,6) by (simp_all add: levels_def)
  let ?D = "\<lambda>cdf d. decode_sums ?n cdf d \<bind> (\<lambda>((sum_pulses, nLshifts), d).
     decode_shells sum_pulses d \<bind> (\<lambda>(pulses, d). decode_lsbs sum_pulses nLshifts pulses d \<bind>
     (\<lambda>((pulses, sum_pulses), d). silk_decode_signs pulses fl st qo sum_pulses d)))"
  let ?P = "\<lambda>qs. length qs = 16 * ?n \<and> list_all (\<lambda>q. \<bar>q\<bar> \<le> 17407) qs"
  have D: "reads (?D cdf) ?P" if cdf: "icdf_size cdf 18" for cdf
  proof (rule reads_bind2 [OF reads_sums [OF cdf]])
    fix sums shifts assume s: "length sums = ?n \<and> sums_ok sums shifts"
    then have "list_all (\<lambda>s. 0 \<le> s \<and> s \<le> 16) sums"
      by (auto simp: sums_ok_def list_all2_conv_all_nth list_all_length)
    from reads_shells [OF this] show "reads (\<lambda>d. decode_shells sums d \<bind> (\<lambda>(pulses, d).
        decode_lsbs sums shifts pulses d \<bind>
        (\<lambda>((pulses, sum_pulses), d). silk_decode_signs pulses fl st qo sum_pulses d))) ?P"
    proof (rule reads_bind)
      fix ps assume "blocks_upto 16 (length sums) ps"
      then show "reads (\<lambda>d. decode_lsbs sums shifts ps d \<bind>
        (\<lambda>((pulses, sum_pulses), d). silk_decode_signs pulses fl st qo sum_pulses d)) ?P"
        using s by (intro reads_bind2 [OF reads_lsbs] reads_weaken [OF reads_signs [OF assms]]) simp_all
    qed
  qed
  have "reads (\<lambda>d. dec_icdf levels d \<bind> (\<lambda>(level, d). elem silk_pulses_per_block_iCDF level \<bind> (\<lambda>cdf. ?D cdf d))) ?P"
  proof (rule reads_bind [OF reads_dec_icdf [OF el(2)]])
    fix lv :: int assume "0 \<le> lv \<and> lv < 9"
    then have "elem silk_pulses_per_block_iCDF lv = Some (silk_pulses_per_block_iCDF ! nat lv)"
      "icdf_size (silk_pulses_per_block_iCDF ! nat lv) 18"
      using pulse_tables(1) [of "nat lv"] pulse_tables(5) by auto
    then show "reads (\<lambda>d. elem silk_pulses_per_block_iCDF lv \<bind> (\<lambda>cdf. ?D cdf d)) ?P" using D by simp
  qed
  moreover have "silk_decode_pulses st qo fl = (\<lambda>d. dec_icdf levels d \<bind>
      (\<lambda>(level, d). elem silk_pulses_per_block_iCDF level \<bind> (\<lambda>cdf. ?D cdf d)))"
    using shell_blocks_size(2) [OF assms(1)] by (intro ext) (simp add: silk_decode_pulses_def Let_def el(1) [unfolded One_nat_def])
  ultimately show ?thesis by simp
qed

section \<open>The interfaces\<close>

text \<open>
  For a given frame type the coder is a codec for blocks that are 0 after the frame, and
  the decoder is total.
\<close>

definition padded_frame :: "int \<Rightarrow> int \<Rightarrow> int \<Rightarrow> int list \<Rightarrow> bool" where
  "padded_frame st qo fl ps \<longleftrightarrow> excitation_ok st qo (ps @ replicate 16 0) fl
     \<and> length ps = 16 * nat (shell_blocks fl) \<and> list_all (\<lambda>q. q = 0) (drop (nat fl) ps)"

lemma frame_pulses_padded:
  assumes "padded_frame st qo fl ps"
  shows "frame_pulses (ps @ replicate 16 0) fl = ps"
proof -
  have fs: "frame_size_ok fl" and l: "length ps = 16 * nat (shell_blocks fl)"
    and z: "list_all (\<lambda>q. q = 0) (drop (nat fl) ps)"
    using assms by (simp_all add: padded_frame_def excitation_ok_def)
  have len: "length ps = nat fl + (if fl = 120 then 8 else 0)" using l shell_blocks_size(3) [OF fs] by simp
  have "drop (nat fl) ps = replicate (if fl = 120 then 8 else 0) 0"
    by (rule zero_list) (use len z in \<open>simp_all add: list_all_iff\<close>)
  then show ?thesis using append_take_drop_id [of "nat fl" ps] len
    by (simp add: frame_pulses_def split: if_splits)
qed

interpretation excitation: codec "\<lambda>ps. silk_encode_pulses st qo (ps @ replicate 16 0) fl"
    "silk_decode_pulses st qo fl" "padded_frame st qo fl" for st qo fl
proof unfold_locales
  fix ps assume ps: "padded_frame st qo fl ps"
  then have "excitation_ok st qo (ps @ replicate 16 0) fl" by (simp add: padded_frame_def)
  from codes_pulses [OF this] show "codes (silk_encode_pulses st qo (ps @ replicate 16 0) fl)
      (silk_decode_pulses st qo fl) ps"
    unfolding frame_pulses_padded [OF ps] .
qed

interpretation excitation_input: total_decoder "\<lambda>(st, qo, fl). silk_decode_pulses st qo fl"
    "\<lambda>(st, qo, fl). frame_size_ok fl \<and> st \<in> {0, 1, 2} \<and> qo \<in> {0, 1}"
    "\<lambda>(st, qo, fl) qs. length qs = 16 * nat (shell_blocks fl) \<and> list_all (\<lambda>q. \<bar>q\<bar> \<le> 17407) qs"
  by unfold_locales (use reads_pulses in auto)

end
