(* ===== verification/Silk_Properties.thy ===== *)
theory Silk_Properties
  imports Silk_Excitation Range_Coder_Tell
begin

text \<open>
  The properties of the SILK bitstream: what is written to a packet buffer is what a
  decoder reads from it, and any buffer is decoded without a fault.
\<close>

section \<open>From steps to buffers\<close>

lemma codes_buffer:
  assumes "codes E D x" and "length buf = sz" and "sz < 2 ^ 27"
    and "E (ec_enc_init buf sz) = Some e" and "ec_tell e \<le> 8 * int sz"
  shows "ec_get_error (ec_enc_done e) = 0 \<and> length (ec_buf (ec_enc_done e)) = sz
    \<and> (\<exists>d. (ec_dec_init (ec_buf (ec_enc_done e)) sz \<bind> D) = Some (x, d) \<and> same_state e d)"
proof -
  from codes_run [OF assms(1,2)] obtain e0 where e0: "E (ec_enc_init buf sz) = Some e0" "enc_inv e0"
    "ec_storage e0 = sz" "within e0 \<Longrightarrow> ec_error e0 = 0" by metis
  have e: "e0 = e" using e0(1) assms(4) by simp
  have "within e" by (rule tell_within) (use e0 assms(3,5) e in simp_all)
  from codes_finish [OF assms(1,2) e0(1) e0(2,3) e0(4), unfolded e, OF this assms(3,5)]
  show ?thesis by (simp add: ec_get_error_def)
qed

lemma codes_total:
  assumes "codes E D x" and "length buf = sz"
  shows "\<exists>e. E (ec_enc_init buf sz) = Some e"
  using codes_run [OF assms] by metis

lemma reads_buffer:
  assumes "reads D P" and "length buf = sz"
  shows "\<exists>x d. (ec_dec_init buf sz \<bind> D) = Some (x, d) \<and> P x \<and> ec_offs d \<le> sz \<and> ec_end_offs d \<le> sz"
proof -
  obtain d0 where d0: "ec_dec_init buf sz = Some d0" "dec_inv d0" "ec_storage d0 = sz"
    using dec_init_storage [OF assms(2)] by blast
  with assms(1) obtain x d where "D d0 = Some (x, d)" "P x" "dec_inv d" "ec_storage d = ec_storage d0"
    unfolding reads_def by blast
  then show ?thesis using d0(1,3) by (auto simp: dec_inv_def dec_mid_def dec_shape_def)
qed

section \<open>The excitation\<close>

text \<open>
  C20. The pulses of a frame survive coding: for every signal type and offset type, every
  frame size of the codec and all pulses of eight bits, however many times the blocks have
  to be scaled down, the encoder ends without an error, and when the bits fit in the buffer
  the decoder reads exactly the pulses of the frame, filled up with zeros to whole blocks.
\<close>

theorem excitation_roundtrip:
  assumes "excitation_ok signalType quantOffsetType pulses fl" and "length buf = sz" and "sz < 2 ^ 27"
  shows "\<exists>e. silk_encode_pulses signalType quantOffsetType pulses fl (ec_enc_init buf sz) = Some e
    \<and> (ec_tell e \<le> 8 * int sz \<longrightarrow> ec_get_error (ec_enc_done e) = 0
       \<and> (\<exists>d. (ec_dec_init (ec_buf (ec_enc_done e)) sz \<bind> silk_decode_pulses signalType quantOffsetType fl)
            = Some (frame_pulses pulses fl, d) \<and> same_state e d))"
proof -
  note c = codes_pulses [OF assms(1)]
  obtain e where e: "silk_encode_pulses signalType quantOffsetType pulses fl (ec_enc_init buf sz) = Some e"
    using codes_total [OF c assms(2)] by blast
  show ?thesis using codes_buffer [OF c assms(2,3) e] e by blast
qed

definition example_pulses :: "int list" where
  "example_pulses = [3, - 20, 0, 1, 0, 0, - 128, 0, 0, 0, 7, 0, 0, 0, - 1, 127]"

theorem excitation_roundtrip_witness:
  "\<exists>e d. silk_encode_pulses 2 1 example_pulses 16 (ec_enc_init (replicate 40 0) 40) = Some e
    \<and> (ec_dec_init (ec_buf (ec_enc_done e)) 40 \<bind> silk_decode_pulses 2 1 16) = Some (example_pulses, d)"
proof -
  let ?r = "silk_encode_pulses 2 1 example_pulses 16 (ec_enc_init (replicate 40 0) 40)"
  have ok: "excitation_ok 2 1 example_pulses 16"
    by (simp add: excitation_ok_def frame_size_ok_def example_pulses_def)
  have t: "case ?r of None \<Rightarrow> False | Some e \<Rightarrow> ec_tell e \<le> 320" by code_simp
  have f: "frame_pulses example_pulses 16 = example_pulses"
    by (simp add: frame_pulses_def example_pulses_def)
  from excitation_roundtrip [OF ok, of "replicate 40 0" 40] t show ?thesis by (auto simp: f)
qed

text \<open>
  C21. The excitation decoder is total: on every buffer it ends (after at most ten escape
  symbols per block), reads nothing outside the buffer or a table, and returns whole blocks
  of pulses below 17408 in magnitude, which fit in 16 bits.
\<close>

theorem excitation_decode_total:
  assumes "frame_size_ok fl" and "signalType \<in> {0, 1, 2}" and "quantOffsetType \<in> {0, 1}" and "length buf = sz"
  shows "\<exists>qs d. (ec_dec_init buf sz \<bind> silk_decode_pulses signalType quantOffsetType fl) = Some (qs, d)
    \<and> length qs = 16 * nat (shell_blocks fl) \<and> list_all (\<lambda>q. \<bar>q\<bar> < 17408) qs
    \<and> ec_offs d \<le> sz \<and> ec_end_offs d \<le> sz"
proof -
  have "q \<le> 17407 \<longleftrightarrow> q < 17408" for q :: int by auto
  then show ?thesis using reads_buffer [OF reads_pulses [OF assms(1-3)] assms(4)] by simp
qed

theorem excitation_decode_total_witness:
  "\<exists>qs d. (ec_dec_init [0, 0, 0, 255, 1] 5 \<bind> silk_decode_pulses 0 1 120) = Some (qs, d) \<and> length qs = 128"
  using excitation_decode_total [of 120 0 1 "[0, 0, 0, 255, 1]" 5]
  by (auto simp: frame_size_ok_def shell_blocks_def rshift_div)

text \<open>
  C22. The rate level the encoder writes is one that needs the fewest bits of all nine for
  the sums of the frame (as long as some level needs less than the largest 32 bit integer).
\<close>

theorem rate_level_is_least:
  assumes "j < 9" and "\<exists>k < 9. rate_level_bits signalType sums shifts k < 2147483647"
  shows "rate_level_bits signalType sums shifts (nat (choose_rate_level signalType sums shifts))
    \<le> rate_level_bits signalType sums shifts j"
  by (rule rate_level_least [OF assms])

theorem rate_level_is_least_witness:
  "rate_level_bits 2 [3, 0, 16] [0, 0, 2] (nat (choose_rate_level 2 [3, 0, 16] [0, 0, 2]))
    \<le> rate_level_bits 2 [3, 0, 16] [0, 0, 2] 4"
proof -
  have "rate_level_bits 2 [3, 0, 16] [0, 0, 2] 0 < 2147483647" by code_simp
  then have "\<exists>k < 9. rate_level_bits 2 [3, 0, 16] [0, 0, 2] k < 2147483647" by (intro exI [of _ 0]) simp
  then show ?thesis by (intro rate_level_is_least) simp_all
qed

end
