(* ===== verification/Silk_Resampler.thy ===== *)
theory Silk_Resampler
  imports Silk_Icdf
begin

text \<open>
  The resampler of SILK (resampler.c and the filters of the resampler_private files): its
  state and initialization for a pair of sampling rates, and the conversion of a block of
  samples. A read outside of a buffer, a write past the output array and a loop that does
  not end are \<open>None\<close>.
\<close>

section \<open>Arithmetic and arrays\<close>

definition silk_SMULWW :: "int \<Rightarrow> int \<Rightarrow> int" where
  "silk_SMULWW a32 b32 = s32 (drop_bit 16 (a32 * b32))"

definition silk_SAT16 :: "int \<Rightarrow> int" where
  "silk_SAT16 a = (if a > 32767 then 32767 else if a < - 32768 then - 32768 else a)"

text \<open>\<open>n\<close> elements of an array from index \<open>i\<close> on, and a block copied into an array.\<close>

definition elems :: "'a list \<Rightarrow> nat \<Rightarrow> nat \<Rightarrow> 'a list option" where
  "elems xs i n = (if i + n \<le> length xs then Some (take n (drop i xs)) else None)"

definition put_at :: "'a list \<Rightarrow> nat \<Rightarrow> 'a list \<Rightarrow> 'a list option" where
  "put_at out i xs = (if i + length xs \<le> length out
     then Some (take i out @ xs @ drop (i + length xs) out) else None)"

section \<open>State (silk/resampler_structs.h)\<close>

text \<open>The union \<open>sFIR\<close> holds 16 bit samples for one filter and 32 bit samples for the other.\<close>

record silk_resampler_state_struct =
  sIIR :: "int list"
  sFIR :: "int list"
  delayBuf :: "int list"
  resampler_function :: int
  batchSize :: int
  invRatio_Q16 :: int
  FIR_Order :: int
  FIR_Fracs :: int
  Fs_in_kHz :: int
  Fs_out_kHz :: int
  inputDelay :: int
  Coefs :: "int list"

definition resampler_cleared :: silk_resampler_state_struct where
  "resampler_cleared = \<lparr>sIIR = replicate 6 0, sFIR = replicate 36 0, delayBuf = replicate 48 0,
     resampler_function = 0, batchSize = 0, invRatio_Q16 = 0, FIR_Order = 0, FIR_Fracs = 0,
     Fs_in_kHz = 0, Fs_out_kHz = 0, inputDelay = 0, Coefs = []\<rparr>"

definition USE_silk_resampler_copy :: int where "USE_silk_resampler_copy = 0"
definition USE_silk_resampler_private_up2_HQ_wrapper :: int where "USE_silk_resampler_private_up2_HQ_wrapper = 1"
definition USE_silk_resampler_private_IIR_FIR :: int where "USE_silk_resampler_private_IIR_FIR = 2"
definition USE_silk_resampler_private_down_FIR :: int where "USE_silk_resampler_private_down_FIR = 3"

lemmas resampler_functions = USE_silk_resampler_copy_def USE_silk_resampler_private_up2_HQ_wrapper_def
  USE_silk_resampler_private_IIR_FIR_def USE_silk_resampler_private_down_FIR_def

section \<open>Initialization (resampler.c)\<close>

definition rateID :: "int \<Rightarrow> int" where
  "rateID R = drop_bit (if R > 24000 then 1 else 0) (drop_bit 12 R - (if R > 16000 then 1 else 0)) - 1"

definition input_delay :: "bool \<Rightarrow> int \<Rightarrow> int \<Rightarrow> int option" where
  "input_delay forEnc Fs_Hz_in Fs_Hz_out =
    (if forEnc then
       if Fs_Hz_in \<notin> {8000, 12000, 16000, 24000, 48000} \<or> Fs_Hz_out \<notin> {8000, 12000, 16000} then None
       else elem delay_matrix_enc (rateID Fs_Hz_in) \<bind> (\<lambda>row. elem row (rateID Fs_Hz_out))
     else
       if Fs_Hz_in \<notin> {8000, 12000, 16000} \<or> Fs_Hz_out \<notin> {8000, 12000, 16000, 24000, 48000} then None
       else elem delay_matrix_dec (rateID Fs_Hz_in) \<bind> (\<lambda>row. elem row (rateID Fs_Hz_out)))"

text \<open>The filter for the ratio of the rates, and whether the signal is first upsampled by two.\<close>

definition select_resampler ::
  "silk_resampler_state_struct \<Rightarrow> int \<Rightarrow> int \<Rightarrow> silk_resampler_state_struct \<times> nat \<times> bool" where
  "select_resampler S Fs_Hz_in Fs_Hz_out =
    (if Fs_Hz_out > Fs_Hz_in then
       if Fs_Hz_out = Fs_Hz_in * 2 then (S\<lparr>resampler_function := USE_silk_resampler_private_up2_HQ_wrapper\<rparr>, 0, True)
       else (S\<lparr>resampler_function := USE_silk_resampler_private_IIR_FIR\<rparr>, 1, True)
     else if Fs_Hz_out < Fs_Hz_in then
       let S = S\<lparr>resampler_function := USE_silk_resampler_private_down_FIR\<rparr>
       in if Fs_Hz_out * 4 = Fs_Hz_in * 3 then (S\<lparr>FIR_Fracs := 3, FIR_Order := 18, Coefs := silk_Resampler_3_4_COEFS\<rparr>, 0, True)
          else if Fs_Hz_out * 3 = Fs_Hz_in * 2 then (S\<lparr>FIR_Fracs := 2, FIR_Order := 18, Coefs := silk_Resampler_2_3_COEFS\<rparr>, 0, True)
          else if Fs_Hz_out * 2 = Fs_Hz_in then (S\<lparr>FIR_Fracs := 1, FIR_Order := 24, Coefs := silk_Resampler_1_2_COEFS\<rparr>, 0, True)
          else if Fs_Hz_out * 3 = Fs_Hz_in then (S\<lparr>FIR_Fracs := 1, FIR_Order := 36, Coefs := silk_Resampler_1_3_COEFS\<rparr>, 0, True)
          else if Fs_Hz_out * 4 = Fs_Hz_in then (S\<lparr>FIR_Fracs := 1, FIR_Order := 36, Coefs := silk_Resampler_1_4_COEFS\<rparr>, 0, True)
          else if Fs_Hz_out * 6 = Fs_Hz_in then (S\<lparr>FIR_Fracs := 1, FIR_Order := 36, Coefs := silk_Resampler_1_6_COEFS\<rparr>, 0, True)
          else (S, 0, False)
     else (S\<lparr>resampler_function := USE_silk_resampler_copy\<rparr>, 0, True))"

text \<open>The loop that rounds the ratio up; it may run for ever.\<close>

partial_function (option) round_ratio :: "int \<Rightarrow> int \<Rightarrow> int \<Rightarrow> int option" where
  [code]: "round_ratio ratio Fs_Hz_out bound =
    (if silk_SMULWW ratio Fs_Hz_out < bound then round_ratio (ratio + 1) Fs_Hz_out bound else Some ratio)"

text \<open>The return value and the state.\<close>

definition silk_resampler_init :: "int \<Rightarrow> int \<Rightarrow> bool \<Rightarrow> (int \<times> silk_resampler_state_struct) option" where
  "silk_resampler_init Fs_Hz_in Fs_Hz_out forEnc =
    (case input_delay forEnc Fs_Hz_in Fs_Hz_out of
       None \<Rightarrow> Some (- 1, resampler_cleared)
     | Some delay \<Rightarrow>
         let S = resampler_cleared\<lparr>inputDelay := delay, Fs_in_kHz := cdiv Fs_Hz_in 1000,
               Fs_out_kHz := cdiv Fs_Hz_out 1000, batchSize := cdiv Fs_Hz_in 1000 * 10\<rparr>;
             (S, up2x, found) = select_resampler S Fs_Hz_in Fs_Hz_out
         in if \<not> found then Some (- 1, S)
            else do {
              ratio \<leftarrow> round_ratio (silk_LSHIFT (cdiv (silk_LSHIFT Fs_Hz_in (14 + up2x)) Fs_Hz_out) 2)
                Fs_Hz_out (silk_LSHIFT Fs_Hz_in up2x);
              Some (0, S\<lparr>invRatio_Q16 := ratio\<rparr>)
            })"

section \<open>Upsampling by two (resampler_private_up2_HQ.c)\<close>

text \<open>An allpass section: its output and its new state.\<close>

definition allpass :: "int \<Rightarrow> int \<Rightarrow> int \<Rightarrow> int \<times> int" where
  "allpass c s x = (let Y = x - s; X = silk_SMULWB Y c in (s + X, x + X))"

definition allpass_last :: "int \<Rightarrow> int \<Rightarrow> int \<Rightarrow> int \<times> int" where
  "allpass_last c s x = (let Y = x - s; X = silk_SMLAWB Y Y c in (s + X, x + X))"

definition up2_branch :: "int list \<Rightarrow> int list \<Rightarrow> int \<Rightarrow> (int \<times> int list) option" where
  "up2_branch cs S in32 =
    (case (cs, S) of
       ([c0, c1, c2], [s0, s1, s2]) \<Rightarrow>
         let (out32_1, s0) = allpass c0 s0 in32;
             (out32_2, s1) = allpass c1 s1 out32_1;
             (out32_1, s2) = allpass_last c2 s2 out32_2
         in Some (silk_SAT16 (silk_RSHIFT_ROUND out32_1 10), [s0, s1, s2])
     | _ \<Rightarrow> None)"

fun silk_resampler_private_up2_HQ :: "int list \<Rightarrow> int list \<Rightarrow> (int list \<times> int list) option" where
  "silk_resampler_private_up2_HQ S [] = Some ([], S)"
| "silk_resampler_private_up2_HQ S (x # xs) = do {
     let in32 = silk_LSHIFT x 10;
     (out0, S0) \<leftarrow> up2_branch silk_resampler_up2_hq_0 (take 3 S) in32;
     (out1, S1) \<leftarrow> up2_branch silk_resampler_up2_hq_1 (drop 3 S) in32;
     (out, S) \<leftarrow> silk_resampler_private_up2_HQ (S0 @ S1) xs;
     Some (out0 # out1 # out, S)
   }"

section \<open>Interpolation\<close>

text \<open>The positions of the output samples; a step that is not positive never ends.\<close>

function index_steps :: "int \<Rightarrow> int \<Rightarrow> int \<Rightarrow> int list option" where
  "index_steps index_Q16 max_index_Q16 inc =
    (if index_Q16 < max_index_Q16
     then if inc \<le> 0 then None
          else map_option (Cons index_Q16) (index_steps (index_Q16 + inc) max_index_Q16 inc)
     else Some [])"
  by pat_completeness auto
termination by (relation "measure (\<lambda>(i, m, inc). nat (m - i))") auto

fun collect :: "('a \<Rightarrow> 'b option) \<Rightarrow> 'a list \<Rightarrow> 'b list option" where
  "collect f [] = Some []"
| "collect f (x # xs) = do { y \<leftarrow> f x; ys \<leftarrow> collect f xs; Some (y # ys) }"

text \<open>A sum of products, from left to right.\<close>

definition inner_BB :: "int list \<Rightarrow> int list \<Rightarrow> int" where
  "inner_BB xs cs = fold (\<lambda>(x, c) res. silk_SMLABB res x c) (zip xs cs) 0"

definition inner_WB :: "int list \<Rightarrow> int list \<Rightarrow> int" where
  "inner_WB xs cs = fold (\<lambda>(x, c) res. silk_SMLAWB res x c) (zip xs cs) 0"

text \<open>One output sample of \<open>silk_resampler_private_IIR_FIR_INTERPOL\<close>.\<close>

definition IIR_FIR_sample :: "int list \<Rightarrow> int \<Rightarrow> int option" where
  "IIR_FIR_sample buf index_Q16 =
    (let table_index = silk_SMULWB (index_Q16 AND 65535) 12
     in do {
       buf_ptr \<leftarrow> elems buf (nat (drop_bit 16 index_Q16)) 8;
       c0 \<leftarrow> elem silk_resampler_frac_FIR_12 table_index;
       c1 \<leftarrow> elem silk_resampler_frac_FIR_12 (11 - table_index);
       Some (silk_SAT16 (silk_RSHIFT_ROUND (inner_BB buf_ptr (c0 @ rev c1)) 15))
     })"

definition silk_resampler_private_IIR_FIR_INTERPOL :: "int list \<Rightarrow> int \<Rightarrow> int \<Rightarrow> int list option" where
  "silk_resampler_private_IIR_FIR_INTERPOL buf max_index_Q16 inc =
    index_steps 0 max_index_Q16 inc \<bind> collect (IIR_FIR_sample buf)"

section \<open>Upsampling (resampler_private_IIR_FIR.c)\<close>

text \<open>
  The loop over batches: the state of the upsampler, the last eight samples and the input.
\<close>

function IIR_FIR_loop :: "int \<Rightarrow> int \<Rightarrow> int list \<Rightarrow> int list \<Rightarrow> int list \<Rightarrow> (int list \<times> int list \<times> int list) option" where
  "IIR_FIR_loop batch inc iir past ins =
    (let n = nat (min (int (length ins)) batch)
     in do {
       (up, iir) \<leftarrow> silk_resampler_private_up2_HQ iir (take n ins);
       let buf = past @ up;
       out \<leftarrow> silk_resampler_private_IIR_FIR_INTERPOL buf (silk_LSHIFT (int n) 17) inc;
       past \<leftarrow> elems buf (2 * n) 8;
       if length ins > n then
         if n = 0 then None
         else do {
           (rest, iir, past) \<leftarrow> IIR_FIR_loop batch inc iir past (drop n ins);
           Some (out @ rest, iir, past)
         }
       else Some (out, iir, past)
     })"
  by pat_completeness auto
termination by (relation "measure (\<lambda>(b, i, s, p, ins). length ins)") auto

definition silk_resampler_private_IIR_FIR ::
  "silk_resampler_state_struct \<Rightarrow> int list \<Rightarrow> (int list \<times> silk_resampler_state_struct) option" where
  "silk_resampler_private_IIR_FIR S ins = do {
     past \<leftarrow> elems (sFIR S) 0 8;
     (out, iir, past) \<leftarrow> IIR_FIR_loop (batchSize S) (invRatio_Q16 S) (sIIR S) past ins;
     fir \<leftarrow> put_at (sFIR S) 0 past;
     Some (out, S\<lparr>sIIR := iir, sFIR := fir\<rparr>)
   }"

section \<open>Downsampling (resampler_private_AR2.c, resampler_private_down_FIR.c)\<close>

fun silk_resampler_private_AR2 :: "int \<Rightarrow> int \<Rightarrow> int \<times> int \<Rightarrow> int list \<Rightarrow> int list \<times> int \<times> int" where
  "silk_resampler_private_AR2 A0 A1 S [] = ([], S)"
| "silk_resampler_private_AR2 A0 A1 (S0, S1) (x # xs) =
    (let out32 = S0 + silk_LSHIFT x 8;
         scaled = silk_LSHIFT out32 2;
         (out_Q8, S) = silk_resampler_private_AR2 A0 A1 (silk_SMLAWB S1 scaled A0, silk_SMULWB scaled A1) xs
     in (out32 # out_Q8, S))"

text \<open>
  One output sample: with order 18 the filters of both sides are chosen by the fractional
  part of the position, with orders 24 and 36 the filter is symmetric.
\<close>

definition down_FIR_sample :: "int list \<Rightarrow> int list \<Rightarrow> int \<Rightarrow> int \<Rightarrow> int \<Rightarrow> int option" where
  "down_FIR_sample buf FIR_Coefs fir_order fracs index_Q16 = do {
     buf_ptr \<leftarrow> elems buf (nat (silk_RSHIFT index_Q16 16)) (nat fir_order);
     if fir_order = 18 then do {
       let interpol_ind = silk_SMULWB (index_Q16 AND 65535) fracs;
       if interpol_ind < 0 \<or> fracs - 1 - interpol_ind < 0 then None
       else do {
         c0 \<leftarrow> elems FIR_Coefs (nat (9 * interpol_ind)) 9;
         c1 \<leftarrow> elems FIR_Coefs (nat (9 * (fracs - 1 - interpol_ind))) 9;
         Some (silk_SAT16 (silk_RSHIFT_ROUND (inner_WB (take 9 buf_ptr @ rev (drop 9 buf_ptr)) (c0 @ c1)) 6))
       }
     } else if fir_order = 24 \<or> fir_order = 36 then do {
       let half = nat fir_order div 2;
       cs \<leftarrow> elems FIR_Coefs 0 half;
       Some (silk_SAT16 (silk_RSHIFT_ROUND
         (inner_WB (map2 (+) (take half buf_ptr) (rev (drop half buf_ptr))) cs) 6))
     } else None
   }"

definition silk_resampler_private_down_FIR_INTERPOL ::
  "int list \<Rightarrow> int list \<Rightarrow> int \<Rightarrow> int \<Rightarrow> int \<Rightarrow> int \<Rightarrow> int list option" where
  "silk_resampler_private_down_FIR_INTERPOL buf FIR_Coefs fir_order fracs max_index_Q16 inc =
    index_steps 0 max_index_Q16 inc \<bind> collect (down_FIR_sample buf FIR_Coefs fir_order fracs)"

function down_FIR_loop ::
  "silk_resampler_state_struct \<Rightarrow> int \<times> int \<Rightarrow> int list \<Rightarrow> int list \<Rightarrow> (int list \<times> (int \<times> int) \<times> int list) option" where
  "down_FIR_loop S iir past ins =
    (let n = nat (min (int (length ins)) (batchSize S))
     in do {
       A0 \<leftarrow> elem (Coefs S) 0;
       A1 \<leftarrow> elem (Coefs S) 1;
       let (filtered, iir) = silk_resampler_private_AR2 A0 A1 iir (take n ins);
       let buf = past @ filtered;
       out \<leftarrow> silk_resampler_private_down_FIR_INTERPOL buf (drop 2 (Coefs S)) (FIR_Order S) (FIR_Fracs S)
         (silk_LSHIFT (int n) 16) (invRatio_Q16 S);
       past \<leftarrow> elems buf n (nat (FIR_Order S));
       if length ins > n + 1 then
         if n = 0 then None
         else do {
           (rest, iir, past) \<leftarrow> down_FIR_loop S iir past (drop n ins);
           Some (out @ rest, iir, past)
         }
       else Some (out, iir, past)
     })"
  by pat_completeness auto
termination by (relation "measure (\<lambda>(s, i, p, ins). length ins)") auto

definition silk_resampler_private_down_FIR ::
  "silk_resampler_state_struct \<Rightarrow> int list \<Rightarrow> (int list \<times> silk_resampler_state_struct) option" where
  "silk_resampler_private_down_FIR S ins = do {
     past \<leftarrow> elems (sFIR S) 0 (nat (FIR_Order S));
     S0 \<leftarrow> elem (sIIR S) 0;
     S1 \<leftarrow> elem (sIIR S) 1;
     (out, (S0, S1), past) \<leftarrow> down_FIR_loop S (S0, S1) past ins;
     fir \<leftarrow> put_at (sFIR S) 0 past;
     Some (out, S\<lparr>sIIR := (sIIR S)[0 := S0, 1 := S1], sFIR := fir\<rparr>)
   }"

section \<open>Resampling (resampler.c)\<close>

definition silk_resampler_private_up2_HQ_wrapper ::
  "silk_resampler_state_struct \<Rightarrow> int list \<Rightarrow> (int list \<times> silk_resampler_state_struct) option" where
  "silk_resampler_private_up2_HQ_wrapper S ins = do {
     (out, iir) \<leftarrow> silk_resampler_private_up2_HQ (sIIR S) ins;
     Some (out, S\<lparr>sIIR := iir\<rparr>)
   }"

text \<open>The filter of the switch.\<close>

definition resample_block ::
  "silk_resampler_state_struct \<Rightarrow> int list \<Rightarrow> (int list \<times> silk_resampler_state_struct) option" where
  "resample_block S ins =
    (if resampler_function S = USE_silk_resampler_private_up2_HQ_wrapper then silk_resampler_private_up2_HQ_wrapper S ins
     else if resampler_function S = USE_silk_resampler_private_IIR_FIR then silk_resampler_private_IIR_FIR S ins
     else if resampler_function S = USE_silk_resampler_private_down_FIR then silk_resampler_private_down_FIR S ins
     else Some (ins, S))"

text \<open>The first millisecond comes from the delay buffer, the rest from the input.\<close>

definition silk_resampler ::
  "silk_resampler_state_struct \<Rightarrow> int list \<Rightarrow> int list \<Rightarrow> (int list \<times> silk_resampler_state_struct) option" where
  "silk_resampler S out ins = do {
     let delay = nat (inputDelay S);
     let n = nat (Fs_in_kHz S - inputDelay S);
     first \<leftarrow> elems ins 0 n;
     buf \<leftarrow> put_at (delayBuf S) delay first;
     let S = S\<lparr>delayBuf := buf\<rparr>;
     block \<leftarrow> elems buf 0 (nat (Fs_in_kHz S));
     (out1, S) \<leftarrow> resample_block S block;
     out \<leftarrow> put_at out 0 out1;
     block \<leftarrow> elems ins n (length ins - nat (Fs_in_kHz S));
     (out2, S) \<leftarrow> resample_block S block;
     out \<leftarrow> put_at out (nat (Fs_out_kHz S)) out2;
     keep \<leftarrow> elems ins (length ins - delay) delay;
     buf \<leftarrow> put_at (delayBuf S) 0 keep;
     Some (out, S\<lparr>delayBuf := buf\<rparr>)
   }"

end
