(* ===== verification/Silk_Indices.thy ===== *)
theory Silk_Indices
  imports Silk_Resampler
begin

text \<open>
  The side information of a SILK frame: the indices of the quantizers (silk/structs.h),
  their encoding (encode_indices.c) and decoding (decode_indices.c), and the unpacking of a
  codebook entry (NLSF_unpack.c). The long C functions are cut into one definition per
  section of their code; the state they change is passed and returned.
\<close>

section \<open>Data (silk/structs.h, silk/define.h)\<close>

record SideInfoIndices =
  GainsIndices :: "int list"
  LTPIndex :: "int list"
  NLSFIndices :: "int list"
  lagIndex :: int
  contourIndex :: int
  signalType :: int
  quantOffsetType :: int
  NLSFInterpCoef_Q2 :: int
  PERIndex :: int
  LTP_scaleIndex :: int
  Seed :: int

definition TYPE_VOICED :: int where "TYPE_VOICED = 2"
definition CODE_INDEPENDENTLY :: int where "CODE_INDEPENDENTLY = 0"
definition CODE_CONDITIONALLY :: int where "CODE_CONDITIONALLY = 2"
definition NLSF_QUANT_MAX_AMPLITUDE :: int where "NLSF_QUANT_MAX_AMPLITUDE = 4"

lemmas silk_consts = TYPE_VOICED_def CODE_INDEPENDENTLY_def CODE_CONDITIONALLY_def
  NLSF_QUANT_MAX_AMPLITUDE_def

text \<open>
  The fields of the encoder state that the coding of indices uses, and the decoder state
  with the states of concealment and comfort noise.
\<close>

record silk_encoder_state =
  enc_fs_kHz :: int
  enc_nb_subfr :: int
  enc_pitch_lag_low_bits_iCDF :: "u32 list"
  enc_pitch_contour_iCDF :: "u32 list"
  enc_psNLSF_CB :: silk_NLSF_CB_struct
  enc_indices :: SideInfoIndices
  enc_indices_LBRR :: "SideInfoIndices list"
  enc_ec_prevSignalType :: int
  enc_ec_prevLagIndex :: int

record silk_PLC_struct =
  pitchL_Q8 :: int
  plc_LTPCoef_Q14 :: "int list"
  prevLPC_Q12 :: "int list"
  last_frame_lost :: int
  plc_rand_seed :: int
  randScale_Q14 :: int
  conc_energy :: int
  conc_energy_shift :: int
  prevLTP_scale_Q14 :: int
  prevGain_Q16 :: "int list"
  plc_fs_kHz :: int
  plc_nb_subfr :: int
  plc_subfr_length :: int
  enable_deep_plc :: int

record silk_CNG_struct =
  CNG_exc_buf_Q14 :: "int list"
  CNG_smth_NLSF_Q15 :: "int list"
  CNG_synth_state :: "int list"
  CNG_smth_Gain_Q16 :: int
  cng_rand_seed :: int
  cng_fs_kHz :: int

record silk_decoder_state =
  prev_gain_Q16 :: int
  exc_Q14 :: "int list"
  sLPC_Q14_buf :: "int list"
  outBuf :: "int list"
  lagPrev :: int
  LastGainIndex :: int
  dec_fs_kHz :: int
  fs_API_hz :: int
  dec_nb_subfr :: int
  frame_length :: int
  subfr_length :: int
  ltp_mem_length :: int
  LPC_order :: int
  prevNLSF_Q15 :: "int list"
  first_frame_after_reset :: int
  dec_pitch_lag_low_bits_iCDF :: "u32 list"
  dec_pitch_contour_iCDF :: "u32 list"
  nFramesDecoded :: int
  nFramesPerPacket :: int
  dec_ec_prevSignalType :: int
  dec_ec_prevLagIndex :: int
  dec_VAD_flags :: "int list"
  LBRR_flag :: int
  LBRR_flags :: "int list"
  resampler_state :: silk_resampler_state_struct
  dec_psNLSF_CB :: silk_NLSF_CB_struct
  dec_indices :: SideInfoIndices
  sCNG :: silk_CNG_struct
  lossCnt :: int
  prevSignalType :: int
  sPLC :: silk_PLC_struct

text \<open>The states of concealment and comfort noise after a reset (PLC.c, CNG.c).\<close>

definition PLC_cleared :: silk_PLC_struct where
  "PLC_cleared = \<lparr>pitchL_Q8 = 0, plc_LTPCoef_Q14 = replicate 5 0, prevLPC_Q12 = replicate 16 0, last_frame_lost = 0,
     plc_rand_seed = 0, randScale_Q14 = 0, conc_energy = 0, conc_energy_shift = 0, prevLTP_scale_Q14 = 0,
     prevGain_Q16 = [0, 0], plc_fs_kHz = 0, plc_nb_subfr = 0, plc_subfr_length = 0, enable_deep_plc = 0\<rparr>"

definition CNG_cleared :: silk_CNG_struct where
  "CNG_cleared = \<lparr>CNG_exc_buf_Q14 = replicate 320 0, CNG_smth_NLSF_Q15 = replicate 16 0, CNG_synth_state = replicate 16 0,
     CNG_smth_Gain_Q16 = 0, cng_rand_seed = 0, cng_fs_kHz = 0\<rparr>"

text \<open>An array whose first elements are replaced.\<close>

definition overwrite :: "'a list \<Rightarrow> 'a list \<Rightarrow> 'a list" where
  "overwrite xs new = new @ drop (length new) xs"

section \<open>Codebook entries (NLSF_unpack.c)\<close>

text \<open>The loop over pairs of coefficients: \<open>ec_ix\<close> and \<open>pred_Q8\<close>.\<close>

fun NLSF_unpack_loop :: "silk_NLSF_CB_struct \<Rightarrow> int \<Rightarrow> int list \<Rightarrow> (int list \<times> int list) option" where
  "NLSF_unpack_loop cb i [] = Some ([], [])"
| "NLSF_unpack_loop cb i (entry # ec_sel_ptr) = do {
     let ec0 = silk_SMULBB (silk_RSHIFT entry 1 AND 7) (2 * NLSF_QUANT_MAX_AMPLITUDE + 1);
     pred0 \<leftarrow> elem (pred_Q8 cb) (i + (entry AND 1) * (int (order cb) - 1));
     let ec1 = silk_SMULBB (silk_RSHIFT entry 5 AND 7) (2 * NLSF_QUANT_MAX_AMPLITUDE + 1);
     pred1 \<leftarrow> elem (pred_Q8 cb) (i + (silk_RSHIFT entry 4 AND 1) * (int (order cb) - 1) + 1);
     (ec_ix, pred) \<leftarrow> NLSF_unpack_loop cb (i + 2) ec_sel_ptr;
     Some (ec0 # ec1 # ec_ix, pred0 # pred1 # pred)
   }"

definition silk_NLSF_unpack :: "silk_NLSF_CB_struct \<Rightarrow> int \<Rightarrow> (int list \<times> int list) option" where
  "silk_NLSF_unpack cb CB1_index =
    (if CB1_index < 0 then None
     else do {
       entries \<leftarrow> elems (ec_sel cb) (nat CB1_index * order cb div 2) (order cb div 2);
       NLSF_unpack_loop cb 0 entries
     })"

section \<open>Encoding (encode_indices.c)\<close>

text \<open>A sequence of symbols of one table.\<close>

fun encode_symbols :: "u32 list \<Rightarrow> int list \<Rightarrow> ec_ctx \<Rightarrow> ec_ctx option" where
  "encode_symbols icdf [] e = Some e"
| "encode_symbols icdf (s # ss) e = enc_icdf s icdf e \<bind> encode_symbols icdf ss"

definition encode_type_offset :: "bool \<Rightarrow> SideInfoIndices \<Rightarrow> ec_ctx \<Rightarrow> ec_ctx option" where
  "encode_type_offset encode_LBRR ix e =
    (let typeOffset = 2 * signalType ix + quantOffsetType ix
     in if encode_LBRR \<or> typeOffset \<ge> 2 then enc_icdf (typeOffset - 2) silk_type_offset_VAD_iCDF e
        else enc_icdf typeOffset silk_type_offset_no_VAD_iCDF e)"

definition encode_gains :: "int \<Rightarrow> int \<Rightarrow> SideInfoIndices \<Rightarrow> ec_ctx \<Rightarrow> ec_ctx option" where
  "encode_gains nb_subfr condCoding ix e = do {
     g0 \<leftarrow> elem (GainsIndices ix) 0;
     rest \<leftarrow> elems (GainsIndices ix) 1 (nat nb_subfr - 1);
     e \<leftarrow> (if condCoding = CODE_CONDITIONALLY then enc_icdf g0 silk_delta_gain_iCDF e
           else do {
             tab \<leftarrow> elem silk_gain_iCDF (signalType ix);
             e \<leftarrow> enc_icdf (silk_RSHIFT g0 3) tab e;
             enc_icdf (g0 AND 7) silk_uniform8_iCDF e
           });
     encode_symbols silk_delta_gain_iCDF rest e
   }"

text \<open>One coefficient, with the part \<open>tab\<close> of \<open>ec_iCDF\<close> for it, and all of them.\<close>

definition encode_NLSF_residual :: "u32 list \<Rightarrow> int \<Rightarrow> ec_ctx \<Rightarrow> ec_ctx option" where
  "encode_NLSF_residual tab v e =
    (if v \<ge> NLSF_QUANT_MAX_AMPLITUDE then do {
       e \<leftarrow> enc_icdf (2 * NLSF_QUANT_MAX_AMPLITUDE) tab e;
       enc_icdf (v - NLSF_QUANT_MAX_AMPLITUDE) silk_NLSF_EXT_iCDF e
     } else if v \<le> - NLSF_QUANT_MAX_AMPLITUDE then do {
       e \<leftarrow> enc_icdf 0 tab e;
       enc_icdf (- v - NLSF_QUANT_MAX_AMPLITUDE) silk_NLSF_EXT_iCDF e
     } else enc_icdf (v + NLSF_QUANT_MAX_AMPLITUDE) tab e)"

fun encode_NLSF_residuals :: "u32 list \<Rightarrow> int list \<Rightarrow> int list \<Rightarrow> ec_ctx \<Rightarrow> ec_ctx option" where
  "encode_NLSF_residuals iCDF (i # ec_ix) (v # vs) e = do {
     tab \<leftarrow> from_elem iCDF i;
     e \<leftarrow> encode_NLSF_residual tab v e;
     encode_NLSF_residuals iCDF ec_ix vs e
   }"
| "encode_NLSF_residuals iCDF _ _ e = Some e"

definition encode_NLSFs :: "silk_NLSF_CB_struct \<Rightarrow> int \<Rightarrow> SideInfoIndices \<Rightarrow> ec_ctx \<Rightarrow> ec_ctx option" where
  "encode_NLSFs cb nb_subfr ix e = do {
     i0 \<leftarrow> elem (NLSFIndices ix) 0;
     tab \<leftarrow> from_elem (CB1_iCDF cb) (silk_RSHIFT (signalType ix) 1 * int (nVectors cb));
     e \<leftarrow> enc_icdf i0 tab e;
     (ec_ix, pred) \<leftarrow> silk_NLSF_unpack cb i0;
     vs \<leftarrow> elems (NLSFIndices ix) 1 (order cb);
     e \<leftarrow> encode_NLSF_residuals (ec_iCDF cb) ec_ix vs e;
     if nb_subfr = 4 then enc_icdf (NLSFInterpCoef_Q2 ix) silk_NLSF_interpolation_factor_iCDF e else Some e
   }"

text \<open>The lag: \<open>silk_DIV32_16\<close> by half the sampling rate, as a division of C.\<close>

definition encode_absolute_lag :: "silk_encoder_state \<Rightarrow> int \<Rightarrow> ec_ctx \<Rightarrow> ec_ctx option" where
  "encode_absolute_lag psEncC lag e =
    (let half = silk_RSHIFT (enc_fs_kHz psEncC) 1
     in if half = 0 then None
        else let pitch_high_bits = cdiv lag half;
                 pitch_low_bits = lag - silk_SMULBB pitch_high_bits half
             in do {
               e \<leftarrow> enc_icdf pitch_high_bits silk_pitch_lag_iCDF e;
               enc_icdf pitch_low_bits (enc_pitch_lag_low_bits_iCDF psEncC) e
             })"

definition encode_lag :: "silk_encoder_state \<Rightarrow> int \<Rightarrow> int \<Rightarrow> ec_ctx \<Rightarrow> ec_ctx option" where
  "encode_lag psEncC condCoding lag e =
    (if condCoding = CODE_CONDITIONALLY \<and> enc_ec_prevSignalType psEncC = TYPE_VOICED then
       let delta_lagIndex = lag - enc_ec_prevLagIndex psEncC
       in if delta_lagIndex < - 8 \<or> delta_lagIndex > 11
          then enc_icdf 0 silk_pitch_delta_iCDF e \<bind> encode_absolute_lag psEncC lag
          else enc_icdf (delta_lagIndex + 9) silk_pitch_delta_iCDF e
     else encode_absolute_lag psEncC lag e)"

definition encode_LTP :: "int \<Rightarrow> int \<Rightarrow> SideInfoIndices \<Rightarrow> ec_ctx \<Rightarrow> ec_ctx option" where
  "encode_LTP nb_subfr condCoding ix e = do {
     e \<leftarrow> enc_icdf (PERIndex ix) silk_LTP_per_index_iCDF e;
     tab \<leftarrow> elem silk_LTP_gain_iCDF_ptrs (PERIndex ix);
     js \<leftarrow> elems (LTPIndex ix) 0 (nat nb_subfr);
     e \<leftarrow> encode_symbols tab js e;
     if condCoding = CODE_INDEPENDENTLY then enc_icdf (LTP_scaleIndex ix) silk_LTPscale_iCDF e else Some e
   }"

definition encode_voiced :: "silk_encoder_state \<Rightarrow> int \<Rightarrow> SideInfoIndices \<Rightarrow> ec_ctx \<Rightarrow> ec_ctx option" where
  "encode_voiced psEncC condCoding ix e = do {
     e \<leftarrow> encode_lag psEncC condCoding (lagIndex ix) e;
     e \<leftarrow> enc_icdf (contourIndex ix) (enc_pitch_contour_iCDF psEncC) e;
     encode_LTP (enc_nb_subfr psEncC) condCoding ix e
   }"

text \<open>What is written, and the function with the state it leaves.\<close>

definition encode_side_info ::
  "silk_encoder_state \<Rightarrow> SideInfoIndices \<Rightarrow> bool \<Rightarrow> int \<Rightarrow> ec_ctx \<Rightarrow> ec_ctx option" where
  "encode_side_info psEncC ix encode_LBRR condCoding e = do {
     e \<leftarrow> encode_type_offset encode_LBRR ix e;
     e \<leftarrow> encode_gains (enc_nb_subfr psEncC) condCoding ix e;
     e \<leftarrow> encode_NLSFs (enc_psNLSF_CB psEncC) (enc_nb_subfr psEncC) ix e;
     e \<leftarrow> (if signalType ix = TYPE_VOICED then encode_voiced psEncC condCoding ix e else Some e);
     enc_icdf (Seed ix) silk_uniform4_iCDF e
   }"

definition encoded_state :: "silk_encoder_state \<Rightarrow> SideInfoIndices \<Rightarrow> silk_encoder_state" where
  "encoded_state psEncC ix =
    (let psEncC = (if signalType ix = TYPE_VOICED then psEncC\<lparr>enc_ec_prevLagIndex := lagIndex ix\<rparr> else psEncC)
     in psEncC\<lparr>enc_ec_prevSignalType := signalType ix\<rparr>)"

definition silk_encode_indices ::
  "silk_encoder_state \<Rightarrow> int \<Rightarrow> bool \<Rightarrow> int \<Rightarrow> ec_ctx \<Rightarrow> (silk_encoder_state \<times> ec_ctx) option" where
  "silk_encode_indices psEncC FrameIndex encode_LBRR condCoding e = do {
     ix \<leftarrow> (if encode_LBRR then elem (enc_indices_LBRR psEncC) FrameIndex else Some (enc_indices psEncC));
     e \<leftarrow> encode_side_info psEncC ix encode_LBRR condCoding e;
     Some (encoded_state psEncC ix, e)
   }"

section \<open>Decoding (decode_indices.c)\<close>

fun decode_symbols :: "u32 list \<Rightarrow> nat \<Rightarrow> ec_ctx \<Rightarrow> (int list \<times> ec_ctx) option" where
  "decode_symbols icdf 0 d = Some ([], d)"
| "decode_symbols icdf (Suc n) d = do {
     (s, d) \<leftarrow> dec_icdf icdf d;
     (ss, d) \<leftarrow> decode_symbols icdf n d;
     Some (s8 s # ss, d)
   }"

text \<open>The signal type and the quantizer offset.\<close>

definition decode_type_offset :: "bool \<Rightarrow> ec_ctx \<Rightarrow> ((int \<times> int) \<times> ec_ctx) option" where
  "decode_type_offset active d = do {
     (Ix, d) \<leftarrow> (if active then do {
                  (s, d) \<leftarrow> dec_icdf silk_type_offset_VAD_iCDF d;
                  Some (s + 2, d)
                } else dec_icdf silk_type_offset_no_VAD_iCDF d);
     Some ((s8 (silk_RSHIFT Ix 1), s8 (Ix AND 1)), d)
   }"

definition decode_gain0 :: "int \<Rightarrow> int \<Rightarrow> ec_ctx \<Rightarrow> (int \<times> ec_ctx) option" where
  "decode_gain0 condCoding sigType d =
    (if condCoding = CODE_CONDITIONALLY then do {
       (s, d) \<leftarrow> dec_icdf silk_delta_gain_iCDF d;
       Some (s8 s, d)
     } else do {
       tab \<leftarrow> elem silk_gain_iCDF sigType;
       (hi, d) \<leftarrow> dec_icdf tab d;
       (lo, d) \<leftarrow> dec_icdf silk_uniform8_iCDF d;
       Some (s8 (s8 (silk_LSHIFT hi 3) + s8 lo), d)
     })"

definition decode_gains :: "int \<Rightarrow> int \<Rightarrow> int \<Rightarrow> ec_ctx \<Rightarrow> (int list \<times> ec_ctx) option" where
  "decode_gains nb_subfr condCoding sigType d = do {
     (g0, d) \<leftarrow> decode_gain0 condCoding sigType d;
     (gs, d) \<leftarrow> decode_symbols silk_delta_gain_iCDF (nat nb_subfr - 1) d;
     Some (g0 # gs, d)
   }"

definition decode_NLSF_residual :: "u32 list \<Rightarrow> ec_ctx \<Rightarrow> (int \<times> ec_ctx) option" where
  "decode_NLSF_residual tab d = do {
     (Ix, d) \<leftarrow> dec_icdf tab d;
     (Ix, d) \<leftarrow> (if Ix = 0 then do { (s, d) \<leftarrow> dec_icdf silk_NLSF_EXT_iCDF d; Some (Ix - s, d) }
                 else if Ix = 2 * NLSF_QUANT_MAX_AMPLITUDE
                 then do { (s, d) \<leftarrow> dec_icdf silk_NLSF_EXT_iCDF d; Some (Ix + s, d) }
                 else Some (Ix, d));
     Some (s8 (Ix - NLSF_QUANT_MAX_AMPLITUDE), d)
   }"

fun decode_NLSF_residuals :: "u32 list \<Rightarrow> int list \<Rightarrow> ec_ctx \<Rightarrow> (int list \<times> ec_ctx) option" where
  "decode_NLSF_residuals iCDF [] d = Some ([], d)"
| "decode_NLSF_residuals iCDF (i # ec_ix) d = do {
     tab \<leftarrow> from_elem iCDF i;
     (v, d) \<leftarrow> decode_NLSF_residual tab d;
     (vs, d) \<leftarrow> decode_NLSF_residuals iCDF ec_ix d;
     Some (v # vs, d)
   }"

definition decode_NLSFs :: "silk_NLSF_CB_struct \<Rightarrow> int \<Rightarrow> ec_ctx \<Rightarrow> (int list \<times> ec_ctx) option" where
  "decode_NLSFs cb sigType d = do {
     tab \<leftarrow> from_elem (CB1_iCDF cb) (silk_RSHIFT sigType 1 * int (nVectors cb));
     (i0, d) \<leftarrow> dec_icdf tab d;
     (ec_ix, pred) \<leftarrow> silk_NLSF_unpack cb (s8 i0);
     (vs, d) \<leftarrow> decode_NLSF_residuals (ec_iCDF cb) ec_ix d;
     Some (s8 i0 # vs, d)
   }"

definition decode_interp :: "int \<Rightarrow> ec_ctx \<Rightarrow> (int \<times> ec_ctx) option" where
  "decode_interp nb_subfr d =
    (if nb_subfr = 4 then do {
       (s, d) \<leftarrow> dec_icdf silk_NLSF_interpolation_factor_iCDF d;
       Some (s8 s, d)
     } else Some (4, d))"

definition decode_absolute_lag :: "silk_decoder_state \<Rightarrow> ec_ctx \<Rightarrow> (int \<times> ec_ctx) option" where
  "decode_absolute_lag psDec d = do {
     (hi, d) \<leftarrow> dec_icdf silk_pitch_lag_iCDF d;
     (lo, d) \<leftarrow> dec_icdf (dec_pitch_lag_low_bits_iCDF psDec) d;
     Some (s16 (s16 (s16 hi * silk_RSHIFT (dec_fs_kHz psDec) 1) + s16 lo), d)
   }"

definition decode_lag :: "silk_decoder_state \<Rightarrow> int \<Rightarrow> ec_ctx \<Rightarrow> (int \<times> ec_ctx) option" where
  "decode_lag psDec condCoding d =
    (if condCoding = CODE_CONDITIONALLY \<and> dec_ec_prevSignalType psDec = TYPE_VOICED then do {
       (delta, d) \<leftarrow> dec_icdf silk_pitch_delta_iCDF d;
       if s16 delta > 0 then Some (s16 (dec_ec_prevLagIndex psDec + (s16 delta - 9)), d)
       else decode_absolute_lag psDec d
     } else decode_absolute_lag psDec d)"

text \<open>The periodicity index, the codebook indices and the scaling.\<close>

definition decode_LTP :: "int \<Rightarrow> int \<Rightarrow> ec_ctx \<Rightarrow> ((int \<times> int list \<times> int) \<times> ec_ctx) option" where
  "decode_LTP nb_subfr condCoding d = do {
     (per, d) \<leftarrow> dec_icdf silk_LTP_per_index_iCDF d;
     tab \<leftarrow> elem silk_LTP_gain_iCDF_ptrs (s8 per);
     (js, d) \<leftarrow> decode_symbols tab (nat nb_subfr) d;
     (sc, d) \<leftarrow> (if condCoding = CODE_INDEPENDENTLY then do {
                  (s, d) \<leftarrow> dec_icdf silk_LTPscale_iCDF d;
                  Some (s8 s, d)
                } else Some (0, d));
     Some ((s8 per, js, sc), d)
   }"

definition decode_voiced :: "silk_decoder_state \<Rightarrow> int \<Rightarrow> ec_ctx \<Rightarrow> (silk_decoder_state \<times> ec_ctx) option" where
  "decode_voiced psDec condCoding d = do {
     (lag, d) \<leftarrow> decode_lag psDec condCoding d;
     (contour, d) \<leftarrow> dec_icdf (dec_pitch_contour_iCDF psDec) d;
     ((per, js, sc), d) \<leftarrow> decode_LTP (dec_nb_subfr psDec) condCoding d;
     let ix = dec_indices psDec;
     Some (psDec\<lparr>dec_ec_prevLagIndex := lag,
       dec_indices := ix\<lparr>lagIndex := lag, contourIndex := s8 contour, PERIndex := per,
         LTPIndex := overwrite (LTPIndex ix) js, LTP_scaleIndex := sc\<rparr>\<rparr>, d)
   }"

definition silk_decode_indices ::
  "silk_decoder_state \<Rightarrow> int \<Rightarrow> bool \<Rightarrow> int \<Rightarrow> ec_ctx \<Rightarrow> (silk_decoder_state \<times> ec_ctx) option" where
  "silk_decode_indices psDec FrameIndex decode_LBRR condCoding d = do {
     active \<leftarrow> (if decode_LBRR then Some True
                else map_option (\<lambda>f. f \<noteq> 0) (elem (dec_VAD_flags psDec) FrameIndex));
     ((sigType, offType), d) \<leftarrow> decode_type_offset active d;
     (gains, d) \<leftarrow> decode_gains (dec_nb_subfr psDec) condCoding sigType d;
     (nlsfs, d) \<leftarrow> decode_NLSFs (dec_psNLSF_CB psDec) sigType d;
     (interp, d) \<leftarrow> decode_interp (dec_nb_subfr psDec) d;
     let ix = dec_indices psDec;
     let psDec = psDec\<lparr>dec_indices := ix\<lparr>signalType := sigType, quantOffsetType := offType,
        GainsIndices := overwrite (GainsIndices ix) gains,
        NLSFIndices := overwrite (NLSFIndices ix) nlsfs, NLSFInterpCoef_Q2 := interp\<rparr>\<rparr>;
     (psDec, d) \<leftarrow> (if sigType = TYPE_VOICED then decode_voiced psDec condCoding d else Some (psDec, d));
     (s, d) \<leftarrow> dec_icdf silk_uniform4_iCDF d;
     Some (psDec\<lparr>dec_ec_prevSignalType := sigType,
       dec_indices := (dec_indices psDec)\<lparr>Seed := s8 s\<rparr>\<rparr>, d)
   }"

end
