(* ===== verification/Silk_Indices_Correct.thy ===== *)
theory Silk_Indices_Correct
  imports Silk_Indices
begin

text \<open>
  The sections of the index coder as coding steps, for the tables that belong to a
  sampling rate, and as total decoders.
\<close>

section \<open>Configurations and valid indices\<close>

definition rate_ok :: "int \<Rightarrow> int \<Rightarrow> bool" where
  "rate_ok fs nb \<longleftrightarrow> fs \<in> {8, 12, 16} \<and> nb \<in> {2, 4}"

definition low_bits_table :: "int \<Rightarrow> u32 list" where
  "low_bits_table fs = (if fs = 16 then silk_uniform8_iCDF else if fs = 12 then silk_uniform6_iCDF
     else silk_uniform4_iCDF)"

definition contour_table :: "int \<Rightarrow> int \<Rightarrow> u32 list" where
  "contour_table fs nb =
    (if fs = 8 then if nb = 4 then silk_pitch_contour_NB_iCDF else silk_pitch_contour_10_ms_NB_iCDF
     else if nb = 4 then silk_pitch_contour_iCDF else silk_pitch_contour_10_ms_iCDF)"

definition contour_count :: "int \<Rightarrow> int \<Rightarrow> int" where
  "contour_count fs nb = (if fs = 8 then if nb = 4 then 11 else 3 else if nb = 4 then 34 else 12)"

definition NLSF_codebook :: "int \<Rightarrow> silk_NLSF_CB_struct" where
  "NLSF_codebook fs = (if fs = 16 then silk_NLSF_CB_WB else silk_NLSF_CB_NB_MB)"

definition enc_config :: "silk_encoder_state \<Rightarrow> bool" where
  "enc_config e \<longleftrightarrow> rate_ok (enc_fs_kHz e) (enc_nb_subfr e)
     \<and> enc_pitch_lag_low_bits_iCDF e = low_bits_table (enc_fs_kHz e)
     \<and> enc_pitch_contour_iCDF e = contour_table (enc_fs_kHz e) (enc_nb_subfr e)
     \<and> enc_psNLSF_CB e = NLSF_codebook (enc_fs_kHz e)"

definition dec_config :: "silk_decoder_state \<Rightarrow> bool" where
  "dec_config d \<longleftrightarrow> rate_ok (dec_fs_kHz d) (dec_nb_subfr d)
     \<and> dec_pitch_lag_low_bits_iCDF d = low_bits_table (dec_fs_kHz d)
     \<and> dec_pitch_contour_iCDF d = contour_table (dec_fs_kHz d) (dec_nb_subfr d)
     \<and> dec_psNLSF_CB d = NLSF_codebook (dec_fs_kHz d)"

text \<open>The ranges that the assertions of the encoder state for the indices of a frame.\<close>

definition all_below :: "int \<Rightarrow> int list \<Rightarrow> bool" where
  "all_below n xs \<longleftrightarrow> list_all (\<lambda>x. 0 \<le> x \<and> x < n) xs"

definition gains_ok :: "int \<Rightarrow> int \<Rightarrow> int list \<Rightarrow> bool" where
  "gains_ok nb cond gs \<longleftrightarrow> length gs = 4 \<and> 0 \<le> gs ! 0 \<and> gs ! 0 < (if cond = 2 then 41 else 64)
     \<and> all_below 41 (take (nat nb - 1) (drop 1 gs))"

definition NLSFs_ok :: "int \<Rightarrow> int list \<Rightarrow> bool" where
  "NLSFs_ok fs vs \<longleftrightarrow> length vs = 17 \<and> 0 \<le> vs ! 0 \<and> vs ! 0 < 32
     \<and> list_all (\<lambda>v. - 10 \<le> v \<and> v \<le> 10) (take (order (NLSF_codebook fs)) (drop 1 vs))"

definition voiced_ok :: "int \<Rightarrow> int \<Rightarrow> int \<Rightarrow> SideInfoIndices \<Rightarrow> bool" where
  "voiced_ok fs nb cond ix \<longleftrightarrow> 0 \<le> lagIndex ix \<and> lagIndex ix < 16 * fs
     \<and> 0 \<le> contourIndex ix \<and> contourIndex ix < contour_count fs nb \<and> 0 \<le> PERIndex ix \<and> PERIndex ix < 3
     \<and> length (LTPIndex ix) = 4 \<and> all_below (8 * 2 ^ nat (PERIndex ix)) (take (nat nb) (LTPIndex ix))
     \<and> (cond = 0 \<longrightarrow> 0 \<le> LTP_scaleIndex ix \<and> LTP_scaleIndex ix < 3)"

definition indices_ok :: "int \<Rightarrow> int \<Rightarrow> bool \<Rightarrow> int \<Rightarrow> SideInfoIndices \<Rightarrow> bool" where
  "indices_ok fs nb lbrr cond ix \<longleftrightarrow> signalType ix \<in> {0, 1, 2} \<and> quantOffsetType ix \<in> {0, 1}
     \<and> (lbrr \<longrightarrow> signalType ix \<noteq> 0) \<and> gains_ok nb cond (GainsIndices ix) \<and> NLSFs_ok fs (NLSFIndices ix)
     \<and> (nb = 4 \<longrightarrow> 0 \<le> NLSFInterpCoef_Q2 ix \<and> NLSFInterpCoef_Q2 ix < 5)
     \<and> (signalType ix = 2 \<longrightarrow> voiced_ok fs nb cond ix) \<and> 0 \<le> Seed ix \<and> Seed ix < 4"

section \<open>Tables\<close>

lemma index_tables:
  "icdf_size silk_type_offset_VAD_iCDF 4" "icdf_size silk_type_offset_no_VAD_iCDF 2"
  "icdf_size silk_delta_gain_iCDF 41" "icdf_size silk_uniform8_iCDF 8" "icdf_size silk_uniform4_iCDF 4"
  "icdf_size silk_uniform6_iCDF 6"
  "icdf_size silk_NLSF_EXT_iCDF 7" "icdf_size silk_NLSF_interpolation_factor_iCDF 5"
  "icdf_size silk_pitch_delta_iCDF 21" "icdf_size silk_pitch_lag_iCDF 32"
  "icdf_size silk_LTP_per_index_iCDF 3" "icdf_size silk_LTPscale_iCDF 3"
  by code_simp+

lemma gain_tables: "0 \<le> t \<Longrightarrow> t \<le> 2 \<Longrightarrow> \<exists>tab. elem silk_gain_iCDF t = Some tab \<and> icdf_size tab 8"
proof -
  assume t: "0 \<le> t" "t \<le> 2"
  have "list_all (\<lambda>t. \<exists>tab \<in> set_option (elem silk_gain_iCDF t). icdf_size tab 8) [0, 1, 2]" by code_simp
  moreover have "t \<in> {0, 1, 2}" using t by auto
  ultimately show ?thesis by auto
qed

lemma LTP_tables:
  "0 \<le> p \<Longrightarrow> p < 3 \<Longrightarrow> \<exists>tab. elem silk_LTP_gain_iCDF_ptrs p = Some tab \<and> icdf_size tab (8 * 2 ^ nat p)"
proof -
  assume p: "0 \<le> p" "p < 3"
  have "list_all (\<lambda>p. \<exists>tab \<in> set_option (elem silk_LTP_gain_iCDF_ptrs p). icdf_size tab (8 * 2 ^ nat p)) [0, 1, 2]"
    by code_simp
  moreover have "p \<in> {0, 1, 2}" using p by auto
  ultimately show ?thesis by auto
qed

lemma contour_tables: "rate_ok fs nb \<Longrightarrow> icdf_size (contour_table fs nb) (contour_count fs nb)"
proof -
  have "icdf_size silk_pitch_contour_NB_iCDF 11" "icdf_size silk_pitch_contour_10_ms_NB_iCDF 3"
    "icdf_size silk_pitch_contour_iCDF 34" "icdf_size silk_pitch_contour_10_ms_iCDF 12" by code_simp+
  then show ?thesis by (simp add: contour_table_def contour_count_def)
qed

lemma low_bits_tables: "rate_ok fs nb \<Longrightarrow> icdf_size (low_bits_table fs) (silk_RSHIFT fs 1)"
  using index_tables by (auto simp: rate_ok_def low_bits_table_def rshift_div)

section \<open>Codebooks\<close>

text \<open>
  The predictor index of the last coefficient would be one past the table if bit 4 of the
  last entry of a vector were set; it never is.
\<close>

definition sel_ok :: "silk_NLSF_CB_struct \<Rightarrow> bool" where
  "sel_ok cb \<longleftrightarrow> even (order cb) \<and> 2 \<le> order cb \<and> nVectors cb = 32 \<and> length (pred_Q8 cb) = 2 * order cb - 2
     \<and> length (ec_sel cb) = 16 * order cb
     \<and> list_all (\<lambda>x. silk_RSHIFT (ec_sel cb ! x) 4 AND 1 = 0) (map (\<lambda>k. k * (order cb div 2) + order cb div 2 - 1) [0..<32])
     \<and> list_all (\<lambda>p. 0 \<le> p \<and> p \<le> 255) (pred_Q8 cb)"

definition codebook_ok :: "silk_NLSF_CB_struct \<Rightarrow> bool" where
  "codebook_ok cb \<longleftrightarrow> sel_ok cb
     \<and> list_all (\<lambda>x. nat x \<le> length (ec_iCDF cb) \<and> icdf_size (drop (nat x) (ec_iCDF cb)) 9) [0, 9, 18, 27, 36, 45, 54, 63]
     \<and> list_all (\<lambda>x. nat x \<le> length (CB1_iCDF cb) \<and> icdf_size (drop (nat x) (CB1_iCDF cb)) 32) [0, 32]"

lemma codebook_NB_MB: "codebook_ok silk_NLSF_CB_NB_MB"
proof -
  have "sel_ok silk_NLSF_CB_NB_MB"
    by (simp add: sel_ok_def silk_NLSF_CB_NB_MB_def silk_NLSF_PRED_NB_MB_Q8_def silk_NLSF_CB2_SELECT_NB_MB_def
        upt_rec silk_RSHIFT_def drop_bit_eq_div and_one_eq)
  moreover have "list_all (\<lambda>x. nat x \<le> length (ec_iCDF silk_NLSF_CB_NB_MB)
      \<and> icdf_size (drop (nat x) (ec_iCDF silk_NLSF_CB_NB_MB)) 9) [0, 9, 18, 27, 36, 45, 54, 63]"
    "list_all (\<lambda>x. nat x \<le> length (CB1_iCDF silk_NLSF_CB_NB_MB)
      \<and> icdf_size (drop (nat x) (CB1_iCDF silk_NLSF_CB_NB_MB)) 32) [0, 32]" by code_simp+
  ultimately show ?thesis by (simp only: codebook_ok_def)
qed

lemma codebook_WB: "codebook_ok silk_NLSF_CB_WB"
proof -
  have "sel_ok silk_NLSF_CB_WB"
    by (simp add: sel_ok_def silk_NLSF_CB_WB_def silk_NLSF_PRED_WB_Q8_def silk_NLSF_CB2_SELECT_WB_def
        upt_rec silk_RSHIFT_def drop_bit_eq_div and_one_eq)
  moreover have "list_all (\<lambda>x. nat x \<le> length (ec_iCDF silk_NLSF_CB_WB)
      \<and> icdf_size (drop (nat x) (ec_iCDF silk_NLSF_CB_WB)) 9) [0, 9, 18, 27, 36, 45, 54, 63]"
    "list_all (\<lambda>x. nat x \<le> length (CB1_iCDF silk_NLSF_CB_WB)
      \<and> icdf_size (drop (nat x) (CB1_iCDF silk_NLSF_CB_WB)) 32) [0, 32]" by code_simp+
  ultimately show ?thesis by (simp only: codebook_ok_def)
qed

lemmas codebooks_ok = codebook_NB_MB codebook_WB

lemma codebook_ok: "codebook_ok (NLSF_codebook fs)"
  by (simp add: NLSF_codebook_def codebooks_ok)

lemma codebook_order: "order (NLSF_codebook fs) = (if fs = 16 then 16 else 10)"
  by (simp add: NLSF_codebook_def silk_NLSF_CB_WB_def silk_NLSF_CB_NB_MB_def)

lemma entry_bits: "(x :: int) AND 1 = 0 \<or> x AND 1 = 1" "0 \<le> x AND (7 :: int)" "x AND (7 :: int) < 8"
proof -
  show "x AND 1 = 0 \<or> x AND 1 = 1" by (auto simp: and_one_eq)
  have "x AND 7 = take_bit 3 x" by (simp add: take_bit_eq_mask mask_eq_exp_minus_1)
  then show "0 \<le> x AND 7" "x AND 7 < 8" by (simp_all add: take_bit_eq_mod)
qed

lemma elem_set: "0 \<le> i \<Longrightarrow> nat i < length xs \<Longrightarrow> \<exists>p. elem xs i = Some p \<and> p \<in> set xs"
  by (auto simp: elem_def)

definition ix_ok :: "int \<Rightarrow> bool" where
  "ix_ok x \<longleftrightarrow> x \<in> set [0, 9, 18, 27, 36, 45, 54, 63]"

lemma ec_index: "ix_ok (silk_SMULBB (x AND 7) (2 * NLSF_QUANT_MAX_AMPLITUDE + 1))"
proof -
  have "y \<in> {0, 1, 2, 3, 4, 5, 6, 7}" if "0 \<le> y" "y < 8" for y :: int
    using that by (simp, presburger)
  from this [OF entry_bits(2,3) [of x]] show ?thesis by (auto simp: ix_ok_def silk_SMULBB_def silk_consts s16_id)
qed

lemma unpack_loop:
  assumes "length (pred_Q8 cb) = 2 * order cb - 2" and "0 \<le> i" and "nat i + 2 * length es = order cb" and "2 \<le> order cb"
    and "es \<noteq> [] \<Longrightarrow> silk_RSHIFT (last es) 4 AND 1 = 0"
  shows "\<exists>ix pr. NLSF_unpack_loop cb i es = Some (ix, pr) \<and> length ix = 2 * length es \<and> length pr = 2 * length es
    \<and> list_all ix_ok ix \<and> set pr \<subseteq> set (pred_Q8 cb)"
  using assms
proof (induction es arbitrary: i)
  case (Cons x es)
  let ?n = "int (order cb) - 1"
  have i: "nat i + 2 + 2 * length es = order cb" using Cons.prems(3) by simp
  have "\<exists>p. elem (pred_Q8 cb) (i + (x AND 1) * ?n) = Some p \<and> p \<in> set (pred_Q8 cb)"
    using entry_bits(1) [of x] Cons.prems(1,2,4) i by (intro elem_set) auto
  then obtain p0 where p0: "elem (pred_Q8 cb) (i + (x AND 1) * ?n) = Some p0" "p0 \<in> set (pred_Q8 cb)" by blast
  have "\<exists>p. elem (pred_Q8 cb) (i + (silk_RSHIFT x 4 AND 1) * ?n + 1) = Some p \<and> p \<in> set (pred_Q8 cb)"
  proof (cases "es = []")
    case True
    then show ?thesis using Cons.prems i by (intro elem_set) auto
  next
    case False
    then have "2 \<le> 2 * length es" by (cases es) simp_all
    then show ?thesis using entry_bits(1) [of "silk_RSHIFT x 4"] Cons.prems(1,2,4) i
      by (intro elem_set) auto
  qed
  then obtain p1 where p1: "elem (pred_Q8 cb) (i + (silk_RSHIFT x 4 AND 1) * ?n + 1) = Some p1"
    "p1 \<in> set (pred_Q8 cb)" by blast
  have "0 \<le> i + 2" "nat (i + 2) + 2 * length es = order cb" "es \<noteq> [] \<Longrightarrow> silk_RSHIFT (last es) 4 AND 1 = 0"
    using Cons.prems i by auto
  from Cons.IH [OF Cons.prems(1) this(1,2) Cons.prems(4) this(3)] obtain ix pr where
    r: "NLSF_unpack_loop cb (i + 2) es = Some (ix, pr)" "length ix = 2 * length es" "length pr = 2 * length es"
    "list_all ix_ok ix" "set pr \<subseteq> set (pred_Q8 cb)" by blast
  then show ?case using p0 p1 ec_index by simp
qed simp

lemma unpack_codebook:
  assumes cb: "codebook_ok cb" and i: "0 \<le> i" "i < 32"
  obtains ix pr where "silk_NLSF_unpack cb i = Some (ix, pr)" and "length ix = order cb" and "length pr = order cb"
    and "list_all (\<lambda>x. 0 \<le> x \<and> nat x \<le> length (ec_iCDF cb) \<and> icdf_size (drop (nat x) (ec_iCDF cb)) 9) ix"
    and "list_all (\<lambda>p. 0 \<le> p \<and> p \<le> 255) pr"
proof -
  define h where "h = order cb div 2"
  have sel: "order cb = 2 * h" "1 \<le> h" "length (pred_Q8 cb) = 2 * order cb - 2" "length (ec_sel cb) = 32 * h"
    "list_all (\<lambda>x. silk_RSHIFT (ec_sel cb ! x) 4 AND 1 = 0) (map (\<lambda>k. k * h + h - 1) [0..<32])"
    "list_all (\<lambda>p. 0 \<le> p \<and> p \<le> 255) (pred_Q8 cb)"
    using cb by (auto simp: codebook_ok_def sel_ok_def h_def)
  have start: "nat i * order cb div 2 = nat i * h" by (simp add: sel(1))
  have "nat i * h + h \<le> 31 * h + h" using i by (intro add_mono mult_right_mono) simp_all
  then have le: "nat i * h + h \<le> length (ec_sel cb)" using sel(4) by simp
  define es where "es = take h (drop (nat i * h) (ec_sel cb))"
  have len: "length es = h" using le by (simp add: es_def)
  then have ne: "es \<noteq> []" using sel(2) by auto
  have "last es = ec_sel cb ! (nat i * h + h - 1)"
    unfolding last_conv_nth [OF ne] len using sel(2) le by (simp add: es_def)
  moreover have "nat i \<in> set [0..<32]" using i by simp
  ultimately have lst: "silk_RSHIFT (last es) 4 AND 1 = 0" using sel(5) unfolding list_all_iff by fastforce
  from unpack_loop [OF sel(3), of 0 es] sel(1,2) len lst obtain ix pr where
    r: "NLSF_unpack_loop cb 0 es = Some (ix, pr)" "length ix = order cb" "length pr = order cb" "list_all ix_ok ix"
    "set pr \<subseteq> set (pred_Q8 cb)" by auto
  have "silk_NLSF_unpack cb i = Some (ix, pr)"
    using i le r(1) by (simp add: silk_NLSF_unpack_def elems_def start es_def flip: h_def)
  moreover have "0 \<le> x \<and> nat x \<le> length (ec_iCDF cb) \<and> icdf_size (drop (nat x) (ec_iCDF cb)) 9" if "ix_ok x" for x
  proof -
    have "0 \<le> x" using that by (auto simp: ix_ok_def)
    moreover have "nat x \<le> length (ec_iCDF cb) \<and> icdf_size (drop (nat x) (ec_iCDF cb)) 9"
      using cb that unfolding codebook_ok_def list_all_iff ix_ok_def by blast
    ultimately show ?thesis ..
  qed
  moreover have "list_all (\<lambda>p. 0 \<le> p \<and> p \<le> 255) pr" using r(5) sel(6) by (auto simp: list_all_iff)
  ultimately show thesis using that [OF _ r(2,3)] r(4) unfolding list_all_iff by blast
qed

lemma codebook_stage1:
  assumes "codebook_ok cb" and "t \<in> {0, 1, 2}"
  obtains tab where "from_elem (CB1_iCDF cb) (silk_RSHIFT t 1 * int (nVectors cb)) = Some tab" and "icdf_size tab 32"
proof -
  have n: "nVectors cb = 32" using assms(1) by (simp add: codebook_ok_def sel_ok_def)
  have x: "silk_RSHIFT t 1 * int (nVectors cb) \<in> {0, 32}" using assms(2) by (auto simp: n rshift_div)
  then have "nat x \<le> length (CB1_iCDF cb) \<and> icdf_size (drop (nat x) (CB1_iCDF cb)) 32"
    if "x = silk_RSHIFT t 1 * int (nVectors cb)" for x
    using assms(1) that unfolding codebook_ok_def list_all_iff by auto
  then show thesis using that x by (auto simp: from_elem_def)
qed

section \<open>Steps\<close>

lemma codes_symbols:
  assumes "icdf_size tab n" and "n \<le> 128"
  shows "all_below n xs \<Longrightarrow> codes (encode_symbols tab xs) (decode_symbols tab (length xs)) xs"
proof (induction xs)
  case Nil
  have "encode_symbols tab [] = Some" "decode_symbols tab (length []) = (\<lambda>d. Some ([], d))"
    by (simp_all add: fun_eq_iff)
  then show ?case by (simp add: codes_return)
next
  case (Cons x xs)
  then have x: "0 \<le> x" "x < n" and xs: "all_below n xs" by (simp_all add: all_below_def)
  have "codes (\<lambda>e. enc_icdf x tab e \<bind> encode_symbols tab xs)
    (\<lambda>d. dec_icdf tab d \<bind> (\<lambda>(s, d). decode_symbols tab (length xs) d \<bind> (\<lambda>(ss, d). Some (s8 s # ss, d)))) (x # xs)"
    by (rule codes_bind [OF codes_enc_icdf [OF assms(1) x]], rule codes_then [OF Cons.IH [OF xs]])
      (use x assms(2) in \<open>simp add: s8_id\<close>)
  then show ?case by (simp add: fun_eq_iff codes_def)
qed

lemma codes_symbol8:
  assumes "icdf_size tab n" and "n \<le> 128" and "0 \<le> x" and "x < n" and "\<And>d. D d = dec_icdf tab d \<bind> (\<lambda>(s, d). Some (s8 s, d))"
  shows "codes (enc_icdf x tab) D x"
proof -
  have "codes (enc_icdf x tab) (\<lambda>d. dec_icdf tab d \<bind> (\<lambda>(s, d). Some (s8 s, d))) x"
    by (rule codes_then [OF codes_enc_icdf [OF assms(1,3,4)]]) (use assms(2-4) in \<open>simp add: s8_id\<close>)
  moreover have "D = (\<lambda>d. dec_icdf tab d \<bind> (\<lambda>(s, d). Some (s8 s, d)))" by (rule ext) (rule assms(5))
  ultimately show ?thesis by simp
qed

lemma codes_type_offset:
  assumes "signalType ix \<in> {0, 1, 2}" and "quantOffsetType ix \<in> {0, 1}"
    and "active \<longleftrightarrow> lbrr \<or> signalType ix \<noteq> 0" and "lbrr \<Longrightarrow> signalType ix \<noteq> 0"
  shows "codes (encode_type_offset lbrr ix) (decode_type_offset active) (signalType ix, quantOffsetType ix)"
proof -
  let ?t = "2 * signalType ix + quantOffsetType ix"
  let ?r = "\<lambda>Ix d. Some ((s8 (silk_RSHIFT Ix 1), s8 (Ix AND 1)), d)"
  have r: "?r ?t = (\<lambda>d. Some ((signalType ix, quantOffsetType ix), d))"
    using assms(1,2) by (auto simp: rshift_div and_one_eq s8_id)
  have ge: "?t \<ge> 2 \<longleftrightarrow> signalType ix \<noteq> 0" using assms(1,2) by auto
  show ?thesis
  proof (cases active)
    case True
    then have a: "lbrr \<or> ?t \<ge> 2" "?t \<ge> 2" using assms(3,4) ge by auto
    then have E: "encode_type_offset lbrr ix = enc_icdf (?t - 2) silk_type_offset_VAD_iCDF"
      by (intro ext) (simp add: encode_type_offset_def Let_def)
    have D: "decode_type_offset active = (\<lambda>d. (dec_icdf silk_type_offset_VAD_iCDF d \<bind> (\<lambda>(s, d). Some (s + 2, d)))
        \<bind> (\<lambda>(Ix, d). ?r Ix d))" using True by (intro ext) (simp add: decode_type_offset_def)
    have c: "codes (enc_icdf (?t - 2) silk_type_offset_VAD_iCDF)
        (\<lambda>d. dec_icdf silk_type_offset_VAD_iCDF d \<bind> (\<lambda>(s, d). Some (s + 2, d))) ?t"
      by (rule codes_then [OF codes_enc_icdf [OF index_tables(1)]]) (use a assms(1,2) in auto)
    show ?thesis unfolding E D by (rule codes_then [OF c], rule r)
  next
    case False
    then have a: "\<not> (lbrr \<or> ?t \<ge> 2)" "?t < 2" "0 \<le> ?t" using assms(1-3) ge by auto
    then have E: "encode_type_offset lbrr ix = enc_icdf ?t silk_type_offset_no_VAD_iCDF"
      by (intro ext) (simp add: encode_type_offset_def Let_def)
    have D: "decode_type_offset active = (\<lambda>d. dec_icdf silk_type_offset_no_VAD_iCDF d \<bind> (\<lambda>(Ix, d). ?r Ix d))"
      using False by (intro ext) (simp add: decode_type_offset_def)
    show ?thesis unfolding E D
      by (rule codes_then [OF codes_enc_icdf [OF index_tables(2) a(3,2)]], rule r)
  qed
qed

lemma codes_gain0:
  assumes "0 \<le> g" and "g < (if cond = 2 then 41 else 64)" and "st \<in> {0, 1, 2}"
  shows "codes (\<lambda>e. if cond = CODE_CONDITIONALLY then enc_icdf g silk_delta_gain_iCDF e
      else elem silk_gain_iCDF st \<bind> (\<lambda>tab. enc_icdf (silk_RSHIFT g 3) tab e \<bind> enc_icdf (g AND 7) silk_uniform8_iCDF))
    (decode_gain0 cond st) g"
proof (cases "cond = 2")
  case True
  have "codes (enc_icdf g silk_delta_gain_iCDF) (decode_gain0 cond st) g"
    by (rule codes_symbol8 [OF index_tables(3)]) (use assms True in \<open>simp_all add: decode_gain0_def silk_consts\<close>)
  then show ?thesis using True by (simp add: silk_consts)
next
  case False
  obtain tab where tab: "elem silk_gain_iCDF st = Some tab" "icdf_size tab 8" using gain_tables [of st] assms(3) by auto
  have m: "g AND 7 = g mod 8" using take_bit_eq_mask [of 3 g] by (simp add: take_bit_eq_mod mask_eq_exp_minus_1)
  have hi: "0 \<le> g div 8" "g div 8 < 8" using assms(1,2) False by simp_all
  have lo: "0 \<le> g mod 8" "g mod 8 < 8" by simp_all
  have s: "s8 (s8 (silk_LSHIFT (g div 8) 3) + s8 (g mod 8)) = g"
  proof -
    have "silk_LSHIFT (g div 8) 3 = g div 8 * 8" using hi by (simp add: lshift_mult)
    moreover have "s8 (g div 8 * 8) = g div 8 * 8" "s8 (g mod 8) = g mod 8"
      using hi lo by (simp_all add: s8_id)
    moreover have "g div 8 * 8 + g mod 8 = g" by simp
    moreover have "s8 g = g" using assms(1,2) False by (simp add: s8_id)
    ultimately show ?thesis by simp
  qed
  have "codes (\<lambda>e. enc_icdf (g div 8) tab e \<bind> enc_icdf (g mod 8) silk_uniform8_iCDF)
    (\<lambda>d. dec_icdf tab d \<bind> (\<lambda>(hi, d). dec_icdf silk_uniform8_iCDF d \<bind>
       (\<lambda>(lo, d). Some (s8 (s8 (silk_LSHIFT hi 3) + s8 lo), d)))) g"
    by (rule codes_bind [OF codes_enc_icdf [OF tab(2) hi]],
        rule codes_then [OF codes_enc_icdf [OF index_tables(4) lo]]) (simp add: s)
  moreover have "decode_gain0 cond st = (\<lambda>d. dec_icdf tab d \<bind> (\<lambda>(hi, d). dec_icdf silk_uniform8_iCDF d \<bind>
       (\<lambda>(lo, d). Some (s8 (s8 (silk_LSHIFT hi 3) + s8 lo), d))))"
    using False tab(1) by (intro ext) (simp add: decode_gain0_def silk_consts)
  ultimately show ?thesis using False tab(1) by (simp add: silk_consts m rshift_div)
qed

lemma codes_gains:
  assumes g: "gains_ok nb cond (GainsIndices ix)" and st: "signalType ix \<in> {0, 1, 2}" and nb: "nb \<in> {2, 4}"
  shows "codes (encode_gains nb cond ix) (decode_gains nb cond (signalType ix)) (take (nat nb) (GainsIndices ix))"
proof -
  let ?gs = "GainsIndices ix"
  let ?rest = "take (nat nb - 1) (drop 1 ?gs)"
  have l: "length ?gs = 4" and g0: "0 \<le> ?gs ! 0" "?gs ! 0 < (if cond = 2 then 41 else 64)"
    and rest: "all_below 41 ?rest" using g by (simp_all only: gains_ok_def)
  have len: "length ?rest = nat nb - 1" using l nb by auto
  have e: "elem ?gs 0 = Some (?gs ! 0)" "elems ?gs 1 (nat nb - 1) = Some ?rest"
    using l nb by (auto simp: elems_def)
  have tk: "?gs ! 0 # ?rest = take (nat nb) ?gs"
    using l nb by (cases ?gs) (auto simp: take_Cons' numeral_eq_Suc)
  have "codes (\<lambda>e. (if cond = CODE_CONDITIONALLY then enc_icdf (?gs ! 0) silk_delta_gain_iCDF e
      else elem silk_gain_iCDF (signalType ix) \<bind> (\<lambda>tab. enc_icdf (silk_RSHIFT (?gs ! 0) 3) tab e
         \<bind> enc_icdf (?gs ! 0 AND 7) silk_uniform8_iCDF)) \<bind> encode_symbols silk_delta_gain_iCDF ?rest)
    (\<lambda>d. decode_gain0 cond (signalType ix) d \<bind> (\<lambda>(g0, d). decode_symbols silk_delta_gain_iCDF (length ?rest) d \<bind>
       (\<lambda>(gs, d). Some (g0 # gs, d)))) (?gs ! 0 # ?rest)"
    by (rule codes_bind [OF codes_gain0 [OF g0 st]], rule codes_then [OF codes_symbols [OF index_tables(3) _ rest]]) simp_all
  moreover have "decode_gains nb cond (signalType ix) = (\<lambda>d. decode_gain0 cond (signalType ix) d \<bind> (\<lambda>(g0, d).
      decode_symbols silk_delta_gain_iCDF (length ?rest) d \<bind> (\<lambda>(gs, d). Some (g0 # gs, d))))"
    unfolding len by (intro ext) (simp add: decode_gains_def)
  moreover have "encode_gains nb cond ix = (\<lambda>e. (if cond = CODE_CONDITIONALLY then enc_icdf (?gs ! 0) silk_delta_gain_iCDF e
      else elem silk_gain_iCDF (signalType ix) \<bind> (\<lambda>tab. enc_icdf (silk_RSHIFT (?gs ! 0) 3) tab e
         \<bind> enc_icdf (?gs ! 0 AND 7) silk_uniform8_iCDF)) \<bind> encode_symbols silk_delta_gain_iCDF ?rest)"
    by (intro ext) (simp only: encode_gains_def e bind.bind_lunit)
  ultimately show ?thesis unfolding tk by (simp only:)
qed

end
