(* ===== verification/Silk_Indices_Codec.thy ===== *)
theory Silk_Indices_Codec
  imports Silk_Indices_Correct
begin

text \<open>
  The side information as a whole: a decoder in the same configuration reads the indices
  that the encoder wrote and ends with the same memory of the previous frame.
\<close>

section \<open>Spectral coefficients\<close>

lemma codes_NLSF_residual:
  assumes tab: "icdf_size tab 9" and v: "- 10 \<le> v" "v \<le> 10"
  shows "codes (encode_NLSF_residual tab v) (decode_NLSF_residual tab) v"
proof -
  let ?K = "\<lambda>Ix d. (if Ix = 0 then dec_icdf silk_NLSF_EXT_iCDF d \<bind> (\<lambda>(s, d). Some (Ix - s, d))
      else if Ix = 8 then dec_icdf silk_NLSF_EXT_iCDF d \<bind> (\<lambda>(s, d). Some (Ix + s, d)) else Some (Ix, d))
      \<bind> (\<lambda>(Ix, d). Some (s8 (Ix - 4), d))"
  have D: "decode_NLSF_residual tab = (\<lambda>d. dec_icdf tab d \<bind> (\<lambda>(Ix, d). ?K Ix d))"
    by (intro ext) (simp add: decode_NLSF_residual_def silk_consts cong: if_cong)
  have K0: "?K 0 = (\<lambda>d. dec_icdf silk_NLSF_EXT_iCDF d \<bind> (\<lambda>(s, d). Some (s8 (- s - 4), d)))"
    by (intro ext) (simp add: split_def)
  have K8: "?K 8 = (\<lambda>d. dec_icdf silk_NLSF_EXT_iCDF d \<bind> (\<lambda>(s, d). Some (s8 (8 + s - 4), d)))"
    by (intro ext) (simp add: split_def)
  consider "4 \<le> v" | "v \<le> - 4" | "- 4 < v" "v < 4" by linarith
  then show ?thesis
  proof cases
    case 1
    have "codes (\<lambda>e. enc_icdf 8 tab e \<bind> enc_icdf (v - 4) silk_NLSF_EXT_iCDF) (\<lambda>d. dec_icdf tab d \<bind> (\<lambda>(Ix, d). ?K Ix d)) v"
      by (rule codes_bind [OF codes_enc_icdf [OF tab]], simp, simp, subst K8,
          rule codes_then [OF codes_enc_icdf [OF index_tables(7)]]) (use 1 v in \<open>simp_all add: s8_id\<close>)
    moreover have "encode_NLSF_residual tab v = (\<lambda>e. enc_icdf 8 tab e \<bind> enc_icdf (v - 4) silk_NLSF_EXT_iCDF)"
      using 1 by (intro ext) (simp add: encode_NLSF_residual_def silk_consts)
    ultimately show ?thesis by (simp only: D)
  next
    case 2
    have "codes (\<lambda>e. enc_icdf 0 tab e \<bind> enc_icdf (- v - 4) silk_NLSF_EXT_iCDF) (\<lambda>d. dec_icdf tab d \<bind> (\<lambda>(Ix, d). ?K Ix d)) v"
      by (rule codes_bind [OF codes_enc_icdf [OF tab]], simp, simp, subst K0,
          rule codes_then [OF codes_enc_icdf [OF index_tables(7)]]) (use 2 v in \<open>simp_all add: s8_id\<close>)
    moreover have "encode_NLSF_residual tab v = (\<lambda>e. enc_icdf 0 tab e \<bind> enc_icdf (- v - 4) silk_NLSF_EXT_iCDF)"
      using 2 by (intro ext) (simp add: encode_NLSF_residual_def silk_consts)
    ultimately show ?thesis by (simp only: D)
  next
    case 3
    have "codes (enc_icdf (v + 4) tab) (\<lambda>d. dec_icdf tab d \<bind> (\<lambda>(Ix, d). ?K Ix d)) v"
      by (rule codes_then [OF codes_enc_icdf [OF tab]]) (use 3 in \<open>simp_all add: s8_id\<close>)
    moreover have "encode_NLSF_residual tab v = enc_icdf (v + 4) tab"
      using 3 by (intro ext) (simp add: encode_NLSF_residual_def silk_consts)
    ultimately show ?thesis by (simp only: D)
  qed
qed

lemma codes_NLSF_residuals:
  assumes "list_all (\<lambda>x. 0 \<le> x \<and> nat x \<le> length iCDF \<and> icdf_size (drop (nat x) iCDF) 9) ix"
    and "length vs = length ix" and "list_all (\<lambda>v. - 10 \<le> v \<and> v \<le> 10) vs"
  shows "codes (encode_NLSF_residuals iCDF ix vs) (decode_NLSF_residuals iCDF ix) vs"
  using assms
proof (induction ix arbitrary: vs)
  case Nil
  have "encode_NLSF_residuals iCDF [] [] = Some" "decode_NLSF_residuals iCDF [] = (\<lambda>d. Some ([], d))"
    by (simp_all add: fun_eq_iff)
  then show ?case using Nil by (simp add: codes_return)
next
  case (Cons x ix)
  then obtain v vs' where vs: "vs = v # vs'" by (cases vs) auto
  let ?tab = "drop (nat x) iCDF"
  have x: "from_elem iCDF x = Some ?tab" "icdf_size ?tab 9" and v: "- 10 \<le> v" "v \<le> 10"
    using Cons.prems vs by simp_all
  have IH: "codes (encode_NLSF_residuals iCDF ix vs') (decode_NLSF_residuals iCDF ix) vs'"
    using Cons vs by simp
  have "codes (\<lambda>e. encode_NLSF_residual ?tab v e \<bind> encode_NLSF_residuals iCDF ix vs')
    (\<lambda>d. decode_NLSF_residual ?tab d \<bind> (\<lambda>(v, d). decode_NLSF_residuals iCDF ix d \<bind> (\<lambda>(vs, d). Some (v # vs, d)))) vs"
    unfolding vs by (rule codes_bind [OF codes_NLSF_residual [OF x(2) v]], rule codes_then [OF IH]) simp
  moreover have "encode_NLSF_residuals iCDF (x # ix) vs = (\<lambda>e. encode_NLSF_residual ?tab v e \<bind> encode_NLSF_residuals iCDF ix vs')"
    "decode_NLSF_residuals iCDF (x # ix) = (\<lambda>d. decode_NLSF_residual ?tab d \<bind> (\<lambda>(v, d).
       decode_NLSF_residuals iCDF ix d \<bind> (\<lambda>(vs, d). Some (v # vs, d))))"
    using x(1) by (simp_all add: vs fun_eq_iff)
  ultimately show ?case by (simp only:)
qed

text \<open>The coefficients of a frame and the interpolation factor, which is 4 when it is not coded.\<close>

definition coded_NLSFs :: "int \<Rightarrow> SideInfoIndices \<Rightarrow> int list" where
  "coded_NLSFs fs ix = take (order (NLSF_codebook fs) + 1) (NLSFIndices ix)"

definition coded_interp :: "int \<Rightarrow> SideInfoIndices \<Rightarrow> int" where
  "coded_interp nb ix = (if nb = 4 then NLSFInterpCoef_Q2 ix else 4)"

lemma codes_NLSFs:
  assumes ok: "NLSFs_ok fs (NLSFIndices ix)" and st: "signalType ix \<in> {0, 1, 2}"
    and interp: "nb = 4 \<Longrightarrow> 0 \<le> NLSFInterpCoef_Q2 ix \<and> NLSFInterpCoef_Q2 ix < 5"
  shows "codes (encode_NLSFs (NLSF_codebook fs) nb ix)
    (\<lambda>d. decode_NLSFs (NLSF_codebook fs) (signalType ix) d \<bind> (\<lambda>(vs, d). decode_interp nb d \<bind> (\<lambda>(i, d). Some ((vs, i), d))))
    (coded_NLSFs fs ix, coded_interp nb ix)"
proof -
  let ?cb = "NLSF_codebook fs" and ?i0 = "NLSFIndices ix ! 0"
  let ?vs = "take (order ?cb) (drop 1 (NLSFIndices ix))"
  note cb = codebook_ok [of fs]
  have l: "length (NLSFIndices ix) = 17" and i0: "0 \<le> ?i0" "?i0 < 32"
    and vs: "list_all (\<lambda>v. - 10 \<le> v \<and> v \<le> 10) ?vs" using ok by (simp_all only: NLSFs_ok_def)
  have ord: "order ?cb \<le> 16" by (simp add: codebook_order)
  obtain tab where tab: "from_elem (CB1_iCDF ?cb) (silk_RSHIFT (signalType ix) 1 * int (nVectors ?cb)) = Some tab"
    "icdf_size tab 32" by (rule codebook_stage1 [OF cb st])
  obtain ecix pr where u: "silk_NLSF_unpack ?cb ?i0 = Some (ecix, pr)" "length ecix = order ?cb"
    "list_all (\<lambda>x. 0 \<le> x \<and> nat x \<le> length (ec_iCDF ?cb) \<and> icdf_size (drop (nat x) (ec_iCDF ?cb)) 9) ecix"
    by (rule unpack_codebook [OF cb i0]) blast
  have len: "length ?vs = length ecix" using l ord u(2) by simp
  have el: "elem (NLSFIndices ix) 0 = Some ?i0" "elems (NLSFIndices ix) 1 (order ?cb) = Some ?vs"
    using l ord by (simp_all add: elems_def)
  have tk: "?i0 # ?vs = coded_NLSFs fs ix" using l by (cases "NLSFIndices ix") (simp_all add: coded_NLSFs_def)
  let ?E2 = "\<lambda>e. if nb = 4 then enc_icdf (NLSFInterpCoef_Q2 ix) silk_NLSF_interpolation_factor_iCDF e else Some e"
  have c2: "codes ?E2 (decode_interp nb) (coded_interp nb ix)"
  proof (cases "nb = 4")
    case True
    then have "codes (enc_icdf (NLSFInterpCoef_Q2 ix) silk_NLSF_interpolation_factor_iCDF) (decode_interp nb)
        (NLSFInterpCoef_Q2 ix)"
      using interp by (intro codes_symbol8 [OF index_tables(8)]) (simp_all add: decode_interp_def)
    then show ?thesis using True by (simp add: coded_interp_def eta_contract_eq)
  next
    case False
    then have "decode_interp nb = (\<lambda>d. Some (coded_interp nb ix, d))"
      by (intro ext) (simp add: decode_interp_def coded_interp_def)
    then show ?thesis using False by (simp add: codes_return)
  qed
  have s8: "s8 ?i0 = ?i0" using i0 by (simp add: s8_id)
  let ?K = "\<lambda>vs d. decode_interp nb d \<bind> (\<lambda>(i, d). Some ((vs, i), d))"
  have K: "codes ?E2 (?K vs) (vs, coded_interp nb ix)" for vs
    by (rule codes_then [OF c2]) simp
  let ?D1 = "\<lambda>i0 d. silk_NLSF_unpack ?cb (s8 i0) \<bind> (\<lambda>(ec_ix, pred). decode_NLSF_residuals (ec_iCDF ?cb) ec_ix d \<bind>
      (\<lambda>(vs, d). ?K (s8 i0 # vs) d))"
  have "codes (\<lambda>e. encode_NLSF_residuals (ec_iCDF ?cb) ecix ?vs e \<bind> ?E2) (?D1 ?i0) (?i0 # ?vs, coded_interp nb ix)"
    unfolding s8 u(1) bind.bind_lunit prod.case
    by (rule codes_bind [OF codes_NLSF_residuals [OF u(3) len vs]]) (rule K)
  then have "codes (\<lambda>e. enc_icdf ?i0 tab e \<bind> (\<lambda>e. encode_NLSF_residuals (ec_iCDF ?cb) ecix ?vs e \<bind> ?E2))
     (\<lambda>d. dec_icdf tab d \<bind> (\<lambda>(i0, d). ?D1 i0 d)) (?i0 # ?vs, coded_interp nb ix)"
    by (rule codes_bind [OF codes_enc_icdf [OF tab(2) i0]])
  moreover have "encode_NLSFs ?cb nb ix = (\<lambda>e. enc_icdf ?i0 tab e \<bind> (\<lambda>e. encode_NLSF_residuals (ec_iCDF ?cb) ecix ?vs e \<bind> ?E2))"
    by (intro ext) (simp only: encode_NLSFs_def el tab(1) u(1) bind.bind_lunit prod.case)
  moreover have "(\<lambda>d. decode_NLSFs ?cb (signalType ix) d \<bind> (\<lambda>(vs, d). ?K vs d)) = (\<lambda>d. dec_icdf tab d \<bind> (\<lambda>(i0, d). ?D1 i0 d))"
    by (intro ext) (simp add: decode_NLSFs_def tab(1) [unfolded One_nat_def] split_def)
  ultimately show ?thesis unfolding tk by (simp only:)
qed

section \<open>Pitch lags and long term prediction\<close>

lemma codes_absolute_lag:
  assumes e: "enc_config psEncC" and d: "dec_config psDec" and same: "enc_fs_kHz psEncC = dec_fs_kHz psDec"
    and lag: "0 \<le> lag" "lag < 16 * enc_fs_kHz psEncC"
  shows "codes (encode_absolute_lag psEncC lag) (decode_absolute_lag psDec) lag"
proof -
  let ?fs = "enc_fs_kHz psEncC"
  define h where "h = silk_RSHIFT ?fs 1"
  have fs: "?fs \<in> {8, 12, 16}" and ro: "rate_ok ?fs (enc_nb_subfr psEncC)" using e by (simp_all add: enc_config_def rate_ok_def)
  then have h: "?fs = 2 * h" "4 \<le> h" "h \<le> 8" by (auto simp: h_def rshift_div)
  have hi: "0 \<le> lag div h" "lag div h < 32"
    using lag h by (simp_all add: pos_imp_zdiv_nonneg_iff int_div_less)
  have lo: "0 \<le> lag mod h" "lag mod h < h" using h by simp_all
  have cd: "cdiv lag h = lag div h" using lag h by (simp add: cdiv_nonneg)
  have mb: "silk_SMULBB (lag div h) h = lag div h * h"
    using hi h by (simp add: silk_SMULBB_def s16_id)
  have sub: "lag - lag div h * h = lag mod h" by (simp add: minus_div_mult_eq_mod)
  have "lag div h * h \<le> 31 * 8" using hi h by (intro mult_mono) simp_all
  moreover have "0 \<le> lag div h * h" using hi h by simp
  ultimately have prod: "lag div h * h \<le> 248" "0 \<le> lag div h * h" by simp_all
  have val: "s16 (s16 (s16 (lag div h) * h) + s16 (lag mod h)) = lag"
  proof -
    have "s16 (lag div h) = lag div h" using hi by (intro s16_id) linarith+
    moreover have "s16 (lag div h * h) = lag div h * h" using prod by (intro s16_id) linarith+
    moreover have "s16 (lag mod h) = lag mod h" using lo h by (intro s16_id) linarith+
    moreover have "lag div h * h + lag mod h = lag" by simp
    moreover have "s16 lag = lag" using lag h by (simp add: s16_id)
    ultimately show ?thesis by simp
  qed
  have tabs: "enc_pitch_lag_low_bits_iCDF psEncC = low_bits_table ?fs" "dec_pitch_lag_low_bits_iCDF psDec = low_bits_table ?fs"
    "icdf_size (low_bits_table ?fs) h"
    using e d same low_bits_tables [OF ro] by (simp_all add: enc_config_def dec_config_def h_def)
  have "codes (\<lambda>e. enc_icdf (lag div h) silk_pitch_lag_iCDF e \<bind> enc_icdf (lag mod h) (low_bits_table ?fs))
     (\<lambda>d. dec_icdf silk_pitch_lag_iCDF d \<bind> (\<lambda>(hi, d). dec_icdf (low_bits_table ?fs) d \<bind>
        (\<lambda>(lo, d). Some (s16 (s16 (s16 hi * h) + s16 lo), d)))) lag"
    by (rule codes_bind [OF codes_enc_icdf [OF index_tables(10) hi]],
        rule codes_then [OF codes_enc_icdf [OF tabs(3) lo]]) (simp only: val)
  moreover have "encode_absolute_lag psEncC lag = (\<lambda>e. enc_icdf (lag div h) silk_pitch_lag_iCDF e \<bind> enc_icdf (lag mod h) (low_bits_table ?fs))"
    using h(2) by (intro ext) (simp add: encode_absolute_lag_def tabs(1) cd mb sub Let_def flip: h_def [simplified])
  moreover have "decode_absolute_lag psDec = (\<lambda>d. dec_icdf silk_pitch_lag_iCDF d \<bind> (\<lambda>(hi, d). dec_icdf (low_bits_table ?fs) d \<bind>
        (\<lambda>(lo, d). Some (s16 (s16 (s16 hi * h) + s16 lo), d))))"
    by (intro ext) (simp add: decode_absolute_lag_def tabs(2) h_def same)
  ultimately show ?thesis by (simp only:)
qed

lemma codes_lag:
  assumes e: "enc_config psEncC" and d: "dec_config psDec" and same: "enc_fs_kHz psEncC = dec_fs_kHz psDec"
    and mem: "dec_ec_prevSignalType psDec = enc_ec_prevSignalType psEncC" "dec_ec_prevLagIndex psDec = enc_ec_prevLagIndex psEncC"
    and lag: "0 \<le> lag" "lag < 16 * enc_fs_kHz psEncC"
  shows "codes (encode_lag psEncC cond lag) (decode_lag psDec cond) lag"
proof -
  note abs = codes_absolute_lag [OF e d same lag]
  have fs: "enc_fs_kHz psEncC \<le> 16" using e by (auto simp: enc_config_def rate_ok_def)
  let ?p = "enc_ec_prevLagIndex psEncC" and ?c = "cond = CODE_CONDITIONALLY \<and> enc_ec_prevSignalType psEncC = TYPE_VOICED"
  let ?K = "\<lambda>delta d. if s16 delta > 0 then Some (s16 (?p + (s16 delta - 9)), d) else decode_absolute_lag psDec d"
  show ?thesis
  proof (cases ?c)
    case False
    then have "encode_lag psEncC cond lag = encode_absolute_lag psEncC lag" "decode_lag psDec cond = decode_absolute_lag psDec"
      using mem by (auto simp: fun_eq_iff encode_lag_def decode_lag_def)
    then show ?thesis using abs by simp
  next
    case True
    then have D: "decode_lag psDec cond = (\<lambda>d. dec_icdf silk_pitch_delta_iCDF d \<bind> (\<lambda>(delta, d). ?K delta d))"
      using mem by (intro ext) (simp add: decode_lag_def cong: if_cong)
    show ?thesis
    proof (cases "lag - ?p < - 8 \<or> lag - ?p > 11")
      case far: True
      have "?K 0 = decode_absolute_lag psDec" by (intro ext) (simp add: s16_id)
      then have "codes (\<lambda>e. enc_icdf 0 silk_pitch_delta_iCDF e \<bind> encode_absolute_lag psEncC lag)
          (\<lambda>d. dec_icdf silk_pitch_delta_iCDF d \<bind> (\<lambda>(delta, d). ?K delta d)) lag"
        using abs by (intro codes_bind [OF codes_enc_icdf [OF index_tables(9)]]) simp_all
      then show ?thesis unfolding D using True far by (simp add: encode_lag_def Let_def fun_eq_iff codes_def)
    next
      case near: False
      have "codes (enc_icdf (lag - ?p + 9) silk_pitch_delta_iCDF)
          (\<lambda>d. dec_icdf silk_pitch_delta_iCDF d \<bind> (\<lambda>(delta, d). ?K delta d)) lag"
        by (rule codes_then [OF codes_enc_icdf [OF index_tables(9)]]) (use near lag fs in \<open>auto simp: s16_id\<close>)
      then show ?thesis unfolding D using True near by (simp add: encode_lag_def Let_def fun_eq_iff codes_def)
    qed
  qed
qed

definition coded_scale :: "int \<Rightarrow> SideInfoIndices \<Rightarrow> int" where
  "coded_scale cond ix = (if cond = CODE_INDEPENDENTLY then LTP_scaleIndex ix else 0)"

lemma codes_LTP:
  assumes v: "voiced_ok fs nb cond ix" and nb: "nb \<in> {2, 4}"
  shows "codes (encode_LTP nb cond ix) (decode_LTP nb cond) (PERIndex ix, take (nat nb) (LTPIndex ix), coded_scale cond ix)"
proof -
  let ?p = "PERIndex ix" and ?js = "take (nat nb) (LTPIndex ix)"
  have p: "0 \<le> ?p" "?p < 3" and l: "length (LTPIndex ix) = 4" and js: "all_below (8 * 2 ^ nat ?p) ?js"
    and sc: "cond = 0 \<Longrightarrow> 0 \<le> LTP_scaleIndex ix \<and> LTP_scaleIndex ix < 3" using v by (simp_all add: voiced_ok_def)
  obtain tab where tab: "elem silk_LTP_gain_iCDF_ptrs ?p = Some tab" "icdf_size tab (8 * 2 ^ nat ?p)"
    using LTP_tables [OF p] by blast
  have "nat ?p \<le> 2" using p by simp
  then have "(2 :: int) ^ nat ?p \<le> 2 ^ 2" by (rule power_increasing) simp
  then have n: "8 * 2 ^ nat ?p \<le> (128 :: int)" by simp
  have len: "length ?js = nat nb" and el: "elems (LTPIndex ix) 0 (nat nb) = Some ?js"
    using l nb by (auto simp: elems_def)
  have s8: "s8 ?p = ?p" using p by (simp add: s8_id)
  let ?E2 = "\<lambda>e. if cond = CODE_INDEPENDENTLY then enc_icdf (LTP_scaleIndex ix) silk_LTPscale_iCDF e else Some e"
  let ?D2 = "\<lambda>d. if cond = CODE_INDEPENDENTLY then dec_icdf silk_LTPscale_iCDF d \<bind> (\<lambda>(s, d). Some (s8 s, d)) else Some (0, d)"
  have c2: "codes ?E2 ?D2 (coded_scale cond ix)"
  proof (cases "cond = CODE_INDEPENDENTLY")
    case True
    have "codes (enc_icdf (LTP_scaleIndex ix) silk_LTPscale_iCDF) ?D2 (LTP_scaleIndex ix)"
      using True sc by (intro codes_symbol8 [OF index_tables(12)]) (simp_all add: silk_consts)
    then show ?thesis using True by (simp add: coded_scale_def)
  next
    case False
    then show ?thesis by (simp add: coded_scale_def codes_return)
  qed
  let ?D1 = "\<lambda>per d. elem silk_LTP_gain_iCDF_ptrs (s8 per) \<bind> (\<lambda>tab. decode_symbols tab (nat nb) d \<bind>
      (\<lambda>(js, d). ?D2 d \<bind> (\<lambda>(sc, d). Some ((s8 per, js, sc), d))))"
  have "codes (\<lambda>e. encode_symbols tab ?js e \<bind> ?E2) (?D1 ?p) (?p, ?js, coded_scale cond ix)"
    unfolding s8 tab(1) bind.bind_lunit
    by (rule codes_bind [OF codes_symbols [OF tab(2) n js, unfolded len]], rule codes_then [OF c2]) simp
  then have "codes (\<lambda>e. enc_icdf ?p silk_LTP_per_index_iCDF e \<bind> (\<lambda>e. encode_symbols tab ?js e \<bind> ?E2))
      (\<lambda>d. dec_icdf silk_LTP_per_index_iCDF d \<bind> (\<lambda>(per, d). ?D1 per d)) (?p, ?js, coded_scale cond ix)"
    by (rule codes_bind [OF codes_enc_icdf [OF index_tables(11) p]])
  moreover have "encode_LTP nb cond ix = (\<lambda>e. enc_icdf ?p silk_LTP_per_index_iCDF e \<bind> (\<lambda>e. encode_symbols tab ?js e \<bind> ?E2))"
    by (intro ext) (simp only: encode_LTP_def el tab(1) bind.bind_lunit)
  moreover have "decode_LTP nb cond = (\<lambda>d. dec_icdf silk_LTP_per_index_iCDF d \<bind> (\<lambda>(per, d). ?D1 per d))"
    by (intro ext) (simp only: decode_LTP_def)
  ultimately show ?thesis by (simp only:)
qed

section \<open>The side information of a frame\<close>

text \<open>
  What the decoder knows after a frame: the indices that were coded, over those it had
  before, and the memory for the next frame.
\<close>

definition decoded_indices :: "int \<Rightarrow> int \<Rightarrow> int \<Rightarrow> SideInfoIndices \<Rightarrow> SideInfoIndices \<Rightarrow> SideInfoIndices" where
  "decoded_indices fs nb cond old ix =
    (let new = old\<lparr>signalType := signalType ix, quantOffsetType := quantOffsetType ix,
           GainsIndices := overwrite (GainsIndices old) (take (nat nb) (GainsIndices ix)),
           NLSFIndices := overwrite (NLSFIndices old) (coded_NLSFs fs ix),
           NLSFInterpCoef_Q2 := coded_interp nb ix, Seed := Seed ix\<rparr>
     in if signalType ix = TYPE_VOICED
        then new\<lparr>lagIndex := lagIndex ix, contourIndex := contourIndex ix, PERIndex := PERIndex ix,
               LTPIndex := overwrite (LTPIndex old) (take (nat nb) (LTPIndex ix)),
               LTP_scaleIndex := coded_scale cond ix\<rparr>
        else new)"

definition decoded_state :: "int \<Rightarrow> silk_decoder_state \<Rightarrow> SideInfoIndices \<Rightarrow> silk_decoder_state" where
  "decoded_state cond psDec ix =
    psDec\<lparr>dec_indices := decoded_indices (dec_fs_kHz psDec) (dec_nb_subfr psDec) cond (dec_indices psDec) ix,
      dec_ec_prevSignalType := signalType ix,
      dec_ec_prevLagIndex := (if signalType ix = TYPE_VOICED then lagIndex ix else dec_ec_prevLagIndex psDec)\<rparr>"

text \<open>Encoder and decoder agree on the configuration and on what the last frame left.\<close>

definition paired :: "silk_encoder_state \<Rightarrow> silk_decoder_state \<Rightarrow> bool" where
  "paired psEncC psDec \<longleftrightarrow> enc_config psEncC \<and> dec_config psDec
     \<and> dec_fs_kHz psDec = enc_fs_kHz psEncC \<and> dec_nb_subfr psDec = enc_nb_subfr psEncC
     \<and> dec_ec_prevSignalType psDec = enc_ec_prevSignalType psEncC
     \<and> dec_ec_prevLagIndex psDec = enc_ec_prevLagIndex psEncC"

lemma paired_step: "paired psEncC psDec \<Longrightarrow> paired (encoded_state psEncC ix) (decoded_state cond psDec ix)"
  by (simp add: paired_def encoded_state_def decoded_state_def enc_config_def dec_config_def Let_def)

lemma codes_voiced:
  assumes p: "paired psEncC psDec" and v: "voiced_ok (enc_fs_kHz psEncC) (enc_nb_subfr psEncC) cond ix"
  shows "codes (encode_voiced psEncC cond ix) (decode_voiced psDec cond)
    (psDec\<lparr>dec_ec_prevLagIndex := lagIndex ix,
       dec_indices := (dec_indices psDec)\<lparr>lagIndex := lagIndex ix, contourIndex := contourIndex ix, PERIndex := PERIndex ix,
         LTPIndex := overwrite (LTPIndex (dec_indices psDec)) (take (nat (dec_nb_subfr psDec)) (LTPIndex ix)),
         LTP_scaleIndex := coded_scale cond ix\<rparr>\<rparr>)"
proof -
  let ?fs = "enc_fs_kHz psEncC" and ?nb = "enc_nb_subfr psEncC"
  have cfg: "enc_config psEncC" "dec_config psDec" "dec_fs_kHz psDec = ?fs" "dec_nb_subfr psDec = ?nb"
    "dec_ec_prevSignalType psDec = enc_ec_prevSignalType psEncC" "dec_ec_prevLagIndex psDec = enc_ec_prevLagIndex psEncC"
    using p by (simp_all add: paired_def)
  have ro: "rate_ok ?fs ?nb" using cfg(1) by (simp add: enc_config_def)
  then have nb: "?nb \<in> {2, 4}" by (simp add: rate_ok_def)
  have lag: "0 \<le> lagIndex ix" "lagIndex ix < 16 * ?fs" and co: "0 \<le> contourIndex ix" "contourIndex ix < contour_count ?fs ?nb"
    using v by (simp_all add: voiced_ok_def)
  have tabs: "enc_pitch_contour_iCDF psEncC = contour_table ?fs ?nb" "dec_pitch_contour_iCDF psDec = contour_table ?fs ?nb"
    using cfg by (simp_all add: enc_config_def dec_config_def)
  have "contour_count ?fs ?nb \<le> 34" by (simp add: contour_count_def)
  then have s8: "s8 (contourIndex ix) = contourIndex ix" using co by (simp add: s8_id)
  note cl = codes_lag [OF cfg(1,2) cfg(3) [symmetric] cfg(5,6) lag]
  show ?thesis
    unfolding encode_voiced_def decode_voiced_def Let_def tabs cfg(4)
    by (rule codes_bind [OF cl], rule codes_bind [OF codes_enc_icdf [OF contour_tables [OF ro] co]],
        rule codes_then [OF codes_LTP [OF v nb]]) (simp add: s8)
qed

text \<open>The parts of a voiced frame and the seed, from the state \<open>d\<close> that the other indices have reached.\<close>

definition finished_state :: "int \<Rightarrow> silk_decoder_state \<Rightarrow> SideInfoIndices \<Rightarrow> silk_decoder_state" where
  "finished_state cond d ix =
    (let d' = (if signalType ix = TYPE_VOICED
        then d\<lparr>dec_ec_prevLagIndex := lagIndex ix,
           dec_indices := (dec_indices d)\<lparr>lagIndex := lagIndex ix, contourIndex := contourIndex ix, PERIndex := PERIndex ix,
             LTPIndex := overwrite (LTPIndex (dec_indices d)) (take (nat (dec_nb_subfr d)) (LTPIndex ix)),
             LTP_scaleIndex := coded_scale cond ix\<rparr>\<rparr>
        else d)
     in d'\<lparr>dec_ec_prevSignalType := signalType ix, dec_indices := (dec_indices d')\<lparr>Seed := Seed ix\<rparr>\<rparr>)"

lemma codes_voiced_seed:
  assumes p: "paired psEncC psDec" and v: "signalType ix = 2 \<Longrightarrow> voiced_ok (enc_fs_kHz psEncC) (enc_nb_subfr psEncC) cond ix"
    and sd: "0 \<le> Seed ix" "Seed ix < 4"
  shows "codes (\<lambda>e. (if signalType ix = TYPE_VOICED then encode_voiced psEncC cond ix e else Some e)
        \<bind> enc_icdf (Seed ix) silk_uniform4_iCDF)
     (\<lambda>d. (if signalType ix = TYPE_VOICED then decode_voiced psDec cond d else Some (psDec, d)) \<bind>
        (\<lambda>(psDec, d). dec_icdf silk_uniform4_iCDF d \<bind> (\<lambda>(s, d). Some (psDec\<lparr>dec_ec_prevSignalType := signalType ix,
           dec_indices := (dec_indices psDec)\<lparr>Seed := s8 s\<rparr>\<rparr>, d))))
     (finished_state cond psDec ix)"
proof -
  let ?fin = "\<lambda>psDec d. dec_icdf silk_uniform4_iCDF d \<bind> (\<lambda>(s, d). Some (psDec\<lparr>dec_ec_prevSignalType := signalType ix,
       dec_indices := (dec_indices psDec)\<lparr>Seed := s8 s\<rparr>\<rparr>, d))"
  have s8: "s8 (Seed ix) = Seed ix" using sd by (simp add: s8_id)
  have fin: "codes (enc_icdf (Seed ix) silk_uniform4_iCDF) (?fin psDec')
     (psDec'\<lparr>dec_ec_prevSignalType := signalType ix, dec_indices := (dec_indices psDec')\<lparr>Seed := Seed ix\<rparr>\<rparr>)" for psDec'
    by (rule codes_then [OF codes_enc_icdf [OF index_tables(5) sd]]) (simp add: s8)
  show ?thesis
  proof (cases "signalType ix = TYPE_VOICED")
    case True
    then have v': "voiced_ok (enc_fs_kHz psEncC) (enc_nb_subfr psEncC) cond ix" using v by (simp add: silk_consts)
    have "codes (\<lambda>e. encode_voiced psEncC cond ix e \<bind> enc_icdf (Seed ix) silk_uniform4_iCDF)
       (\<lambda>d. decode_voiced psDec cond d \<bind> (\<lambda>(psDec, d). ?fin psDec d)) (finished_state cond psDec ix)"
      unfolding finished_state_def Let_def if_P [OF True] by (rule codes_bind [OF codes_voiced [OF p v'] fin])
    then show ?thesis using True by simp
  next
    case False
    then show ?thesis using fin [of psDec] by (simp add: finished_state_def)
  qed
qed

lemma codes_indices:
  assumes p: "paired psEncC psDec" and ok: "indices_ok (enc_fs_kHz psEncC) (enc_nb_subfr psEncC) lbrr cond ix"
    and ix: "(if lbrr then elem (enc_indices_LBRR psEncC) k else Some (enc_indices psEncC)) = Some ix"
    and act: "(if lbrr' then Some True else map_option (\<lambda>f. f \<noteq> 0) (elem (dec_VAD_flags psDec) k'))
      = Some (lbrr \<or> signalType ix \<noteq> 0)"
  shows "codes (\<lambda>e. silk_encode_indices psEncC k lbrr cond e \<bind> (\<lambda>(s, e). Some e))
    (silk_decode_indices psDec k' lbrr' cond) (decoded_state cond psDec ix)"
proof -
  let ?fs = "enc_fs_kHz psEncC" and ?nb = "enc_nb_subfr psEncC"
  have cfg: "enc_config psEncC" "dec_config psDec" "dec_fs_kHz psDec = ?fs" "dec_nb_subfr psDec = ?nb"
    using p by (simp_all add: paired_def)
  have ro: "rate_ok ?fs ?nb" using cfg(1) by (simp add: enc_config_def)
  then have nb: "?nb \<in> {2, 4}" by (simp add: rate_ok_def)
  have st: "signalType ix \<in> {0, 1, 2}" "quantOffsetType ix \<in> {0, 1}" "lbrr \<Longrightarrow> signalType ix \<noteq> 0"
    and g: "gains_ok ?nb cond (GainsIndices ix)" and n: "NLSFs_ok ?fs (NLSFIndices ix)"
    and i: "?nb = 4 \<Longrightarrow> 0 \<le> NLSFInterpCoef_Q2 ix \<and> NLSFInterpCoef_Q2 ix < 5"
    and v: "signalType ix = 2 \<Longrightarrow> voiced_ok ?fs ?nb cond ix" and sd: "0 \<le> Seed ix" "Seed ix < 4"
    using ok by (simp_all add: indices_ok_def)
  have cb: "enc_psNLSF_CB psEncC = NLSF_codebook ?fs" "dec_psNLSF_CB psDec = NLSF_codebook ?fs"
    using cfg by (simp_all add: enc_config_def dec_config_def)
  let ?upd = "\<lambda>s off gains vs i. psDec\<lparr>dec_indices := (dec_indices psDec)\<lparr>signalType := s, quantOffsetType := off,
        GainsIndices := overwrite (GainsIndices (dec_indices psDec)) gains,
        NLSFIndices := overwrite (NLSFIndices (dec_indices psDec)) vs, NLSFInterpCoef_Q2 := i\<rparr>\<rparr>"
  let ?D3 = "\<lambda>s off gains vs i d. (if s = TYPE_VOICED then decode_voiced (?upd s off gains vs i) cond d
        else Some (?upd s off gains vs i, d)) \<bind> (\<lambda>(psDec, d). dec_icdf silk_uniform4_iCDF d \<bind>
        (\<lambda>(x, d). Some (psDec\<lparr>dec_ec_prevSignalType := s, dec_indices := (dec_indices psDec)\<lparr>Seed := s8 x\<rparr>\<rparr>, d)))"
  let ?N = "\<lambda>s d. decode_NLSFs (NLSF_codebook ?fs) s d \<bind> (\<lambda>(vs, d). decode_interp ?nb d \<bind> (\<lambda>(i, d). Some ((vs, i), d)))"
  let ?D2 = "\<lambda>s off gains d. ?N s d \<bind> (\<lambda>((vs, i), d). ?D3 s off gains vs i d)"
  let ?D1 = "\<lambda>s off d. decode_gains ?nb cond s d \<bind> (\<lambda>(gains, d). ?D2 s off gains d)"
  let ?E3 = "\<lambda>e. (if signalType ix = TYPE_VOICED then encode_voiced psEncC cond ix e else Some e)
        \<bind> enc_icdf (Seed ix) silk_uniform4_iCDF"
  let ?d1 = "?upd (signalType ix) (quantOffsetType ix) (take (nat ?nb) (GainsIndices ix)) (coded_NLSFs ?fs ix) (coded_interp ?nb ix)"
  have p1: "paired psEncC ?d1" using p by (simp add: paired_def dec_config_def enc_config_def)
  have fin: "finished_state cond ?d1 ix = decoded_state cond psDec ix"
    by (auto simp: finished_state_def decoded_state_def decoded_indices_def cfg(3,4) Let_def
      intro!: silk_decoder_state.equality SideInfoIndices.equality)
  note tail = codes_voiced_seed [OF p1 v sd, unfolded fin]
  have c2: "codes (\<lambda>e. encode_NLSFs (NLSF_codebook ?fs) ?nb ix e \<bind> ?E3)
      (?D2 (signalType ix) (quantOffsetType ix) (take (nat ?nb) (GainsIndices ix))) (decoded_state cond psDec ix)"
    by (rule codes_bind2 [OF codes_NLSFs [OF n st(1) i]]) (assumption, rule tail)
  have "codes (\<lambda>e. encode_type_offset lbrr ix e \<bind> (\<lambda>e. encode_gains ?nb cond ix e \<bind>
        (\<lambda>e. encode_NLSFs (NLSF_codebook ?fs) ?nb ix e \<bind> ?E3)))
      (\<lambda>d. decode_type_offset (lbrr \<or> signalType ix \<noteq> 0) d \<bind> (\<lambda>((s, off), d). ?D1 s off d)) (decoded_state cond psDec ix)"
    by (rule codes_bind2 [OF codes_type_offset [OF st(1,2) refl st(3)]], simp, rule codes_bind [OF codes_gains [OF g st(1) nb]], rule c2)
  moreover have "encode_side_info psEncC ix lbrr cond = (\<lambda>e. encode_type_offset lbrr ix e \<bind> (\<lambda>e. encode_gains ?nb cond ix e \<bind>
        (\<lambda>e. encode_NLSFs (NLSF_codebook ?fs) ?nb ix e \<bind> ?E3)))"
    by (intro ext) (simp only: encode_side_info_def cb)
  moreover have "silk_decode_indices psDec k' lbrr' cond = (\<lambda>d. decode_type_offset (lbrr \<or> signalType ix \<noteq> 0) d \<bind>
        (\<lambda>((s, off), d). ?D1 s off d))"
    by (intro ext) (simp add: silk_decode_indices_def act cb cfg(4) Let_def split_def cong: if_cong)
  ultimately have "codes (encode_side_info psEncC ix lbrr cond) (silk_decode_indices psDec k' lbrr' cond) (decoded_state cond psDec ix)"
    by (simp only:)
  moreover have "(\<lambda>e. silk_encode_indices psEncC k lbrr cond e \<bind> (\<lambda>(s, e). Some e)) = encode_side_info psEncC ix lbrr cond"
    by (intro ext) (simp add: silk_encode_indices_def ix)
  ultimately show ?thesis by simp
qed

end
