(* ===== verification/Silk_Indices_Safe.thy ===== *)
theory Silk_Indices_Safe
  imports Silk_Indices_Codec
begin

text \<open>
  The side information read from any bytes: the decoder ends without a fault, and the
  indices it returns are ones that the encoder could have written, the pitch lag apart,
  which a difference to the last frame may move out of the range of a coded lag.
\<close>

section \<open>Symbols\<close>

lemma reads_icdf_map:
  assumes "icdf_size tab n" and "\<And>s. 0 \<le> s \<Longrightarrow> s < n \<Longrightarrow> Q (f s)"
  shows "reads (\<lambda>d. dec_icdf tab d \<bind> (\<lambda>(s, d). Some (f s, d))) Q"
  by (rule reads_bind [OF reads_dec_icdf [OF assms(1)]]) (use assms(2) in \<open>simp add: reads_return\<close>)

lemma reads_icdf_bind:
  assumes "icdf_size tab n" and "\<And>s. 0 \<le> s \<Longrightarrow> s < n \<Longrightarrow> reads (D s) Q"
  shows "reads (\<lambda>d. dec_icdf tab d \<bind> (\<lambda>(s, d). D s d)) Q"
  by (rule reads_bind [OF reads_dec_icdf [OF assms(1)]]) (use assms(2) in simp)

lemma reads_if:
  assumes "b \<Longrightarrow> reads D Q" and "\<not> b \<Longrightarrow> reads D' Q"
  shows "reads (\<lambda>d. if b then D d else D' d) Q"
  using assms by (cases b) simp_all

lemma reads_bind3:
  assumes "reads D (\<lambda>(a, b, c). P a b c)" and "\<And>a b c. P a b c \<Longrightarrow> reads (D' a b c) Q"
  shows "reads (\<lambda>d. D d \<bind> (\<lambda>((a, b, c), d). D' a b c d)) Q"
  using reads_bind [OF assms(1), of "\<lambda>(a, b, c). D' a b c" Q] assms(2) by (simp add: split_def split_paired_all)

lemma reads_symbols:
  assumes tab: "icdf_size tab n" and n: "n \<le> 128"
  shows "reads (decode_symbols tab k) (\<lambda>xs. length xs = k \<and> all_below n xs)"
proof (induction k)
  case 0
  have "decode_symbols tab 0 = (\<lambda>d. Some ([], d))" by (intro ext) simp
  then show ?case by (simp add: reads_return all_below_def)
next
  case (Suc k)
  have "decode_symbols tab (Suc k) = (\<lambda>d. dec_icdf tab d \<bind> (\<lambda>(s, d). decode_symbols tab k d \<bind> (\<lambda>(ss, d). Some (s8 s # ss, d))))"
    by (intro ext) simp
  moreover have "reads (\<lambda>d. dec_icdf tab d \<bind> (\<lambda>(s, d). decode_symbols tab k d \<bind> (\<lambda>(ss, d). Some (s8 s # ss, d))))
      (\<lambda>xs. length xs = Suc k \<and> all_below n xs)"
    by (rule reads_icdf_bind [OF tab], rule reads_bind [OF Suc.IH], rule reads_return)
      (use n in \<open>simp add: all_below_def s8_id\<close>)
  ultimately show ?case by simp
qed

section \<open>The parts of the side information\<close>

lemma reads_type_offset:
  "reads (decode_type_offset active) (\<lambda>(s, off). s \<in> {0, 1, 2} \<and> (active \<longrightarrow> s \<noteq> 0) \<and> off \<in> {0, 1})"
proof -
  let ?r = "\<lambda>Ix d. Some ((s8 (silk_RSHIFT Ix 1), s8 (Ix AND 1)), d)"
  let ?P = "\<lambda>Ix. 0 \<le> Ix \<and> Ix < 6 \<and> (active \<longrightarrow> 2 \<le> Ix)"
  have "reads (\<lambda>d. if active then dec_icdf silk_type_offset_VAD_iCDF d \<bind> (\<lambda>(s, d). Some (s + 2, d))
      else dec_icdf silk_type_offset_no_VAD_iCDF d) ?P"
    using reads_icdf_map [OF index_tables(1), of ?P "\<lambda>s. s + 2"]
      reads_weaken [OF reads_dec_icdf [OF index_tables(2)], of ?P] by (cases active) simp_all
  moreover have "(\<lambda>(s, off). s \<in> {0, 1, 2} \<and> (active \<longrightarrow> s \<noteq> 0) \<and> off \<in> {0, 1}) (s8 (silk_RSHIFT Ix 1), s8 (Ix AND 1))"
    if "?P Ix" for Ix
  proof -
    have "0 \<le> Ix" "Ix < 6" using that by simp_all
    then have "Ix \<in> {0, 1, 2, 3, 4, 5}" by (simp, presburger)
    then show ?thesis using that by (auto simp: rshift_div and_one_eq s8_id)
  qed
  ultimately show ?thesis unfolding decode_type_offset_def [abs_def]
    by (intro reads_bind [where P = ?P] reads_return)
qed

lemma reads_gain0:
  assumes "st \<in> {0, 1, 2}"
  shows "reads (decode_gain0 cond st) (\<lambda>g. 0 \<le> g \<and> g < (if cond = 2 then 41 else 64))"
proof (cases "cond = 2")
  case True
  then show ?thesis
    using reads_icdf_map [OF index_tables(3), of "\<lambda>g. 0 \<le> g \<and> g < 41" s8]
    by (simp add: decode_gain0_def [abs_def] silk_consts s8_id)
next
  case False
  obtain tab where tab: "elem silk_gain_iCDF st = Some tab" "icdf_size tab 8" using gain_tables [of st] assms by auto
  have v: "0 \<le> s8 (s8 (silk_LSHIFT hi 3) + s8 lo) \<and> s8 (s8 (silk_LSHIFT hi 3) + s8 lo) < 64"
    if "0 \<le> hi" "hi < 8" "0 \<le> lo" "lo < 8" for hi lo
  proof -
    have "silk_LSHIFT hi 3 = hi * 8" using that by (simp add: lshift_mult)
    moreover have "s8 (hi * 8) = hi * 8" "s8 lo = lo" "s8 (hi * 8 + lo) = hi * 8 + lo" using that by (simp_all add: s8_id)
    ultimately show ?thesis using that by simp
  qed
  have "reads (\<lambda>d. dec_icdf tab d \<bind> (\<lambda>(hi, d). dec_icdf silk_uniform8_iCDF d \<bind>
       (\<lambda>(lo, d). Some (s8 (s8 (silk_LSHIFT hi 3) + s8 lo), d)))) (\<lambda>g. 0 \<le> g \<and> g < 64)"
    by (rule reads_icdf_bind [OF tab(2)], rule reads_icdf_map [OF index_tables(4)]) (rule v)
  then show ?thesis using False tab(1) by (simp add: decode_gain0_def [abs_def] silk_consts)
qed

lemma reads_gains:
  assumes st: "st \<in> {0, 1, 2}" and nb: "nb \<in> {2, 4}"
  shows "reads (decode_gains nb cond st)
    (\<lambda>gs. length gs = nat nb \<and> 0 \<le> gs ! 0 \<and> gs ! 0 < (if cond = 2 then 41 else 64) \<and> all_below 41 (drop 1 gs))"
  unfolding decode_gains_def [abs_def]
  by (rule reads_bind [OF reads_gain0 [OF st]], rule reads_bind [OF reads_symbols [OF index_tables(3)]], simp,
      rule reads_return) (use nb in auto)

lemma reads_NLSF_residual:
  assumes tab: "icdf_size tab 9"
  shows "reads (decode_NLSF_residual tab) (\<lambda>v. - 10 \<le> v \<and> v \<le> 10)"
proof -
  let ?P = "\<lambda>Ix. - 6 \<le> Ix \<and> Ix \<le> 14"
  have c: "NLSF_QUANT_MAX_AMPLITUDE = 4" "2 * 4 = (8 :: int)" by (simp_all add: silk_consts)
  have "reads (\<lambda>d. if Ix = 0 then dec_icdf silk_NLSF_EXT_iCDF d \<bind> (\<lambda>(s, d). Some (Ix - s, d))
      else if Ix = 8 then dec_icdf silk_NLSF_EXT_iCDF d \<bind> (\<lambda>(s, d). Some (Ix + s, d)) else Some (Ix, d)) ?P"
    if "0 \<le> Ix" "Ix < 9" for Ix
    using that by (intro reads_if reads_icdf_map [OF index_tables(7)] reads_return) simp_all
  then show ?thesis unfolding decode_NLSF_residual_def [abs_def] c
    by (intro reads_icdf_bind [OF tab] reads_bind [where P = ?P] reads_return) (simp_all add: s8_id)
qed

lemma reads_NLSF_residuals:
  assumes "list_all (\<lambda>x. 0 \<le> x \<and> nat x \<le> length iCDF \<and> icdf_size (drop (nat x) iCDF) 9) ix"
  shows "reads (decode_NLSF_residuals iCDF ix) (\<lambda>vs. length vs = length ix \<and> list_all (\<lambda>v. - 10 \<le> v \<and> v \<le> 10) vs)"
  using assms
proof (induction ix)
  case Nil
  have "decode_NLSF_residuals iCDF [] = (\<lambda>d. Some ([], d))" by (intro ext) simp
  then show ?case by (simp add: reads_return)
next
  case (Cons x ix)
  let ?tab = "drop (nat x) iCDF"
  have x: "from_elem iCDF x = Some ?tab" "icdf_size ?tab 9" using Cons.prems by simp_all
  have "reads (decode_NLSF_residuals iCDF ix) (\<lambda>vs. length vs = length ix \<and> list_all (\<lambda>v. - 10 \<le> v \<and> v \<le> 10) vs)"
    using Cons by simp
  then have "reads (\<lambda>d. decode_NLSF_residual ?tab d \<bind> (\<lambda>(v, d). decode_NLSF_residuals iCDF ix d \<bind> (\<lambda>(vs, d). Some (v # vs, d))))
      (\<lambda>vs. length vs = length (x # ix) \<and> list_all (\<lambda>v. - 10 \<le> v \<and> v \<le> 10) vs)"
    by (intro reads_bind [OF reads_NLSF_residual [OF x(2)]]) (erule reads_bind, rule reads_return, simp)
  moreover have "decode_NLSF_residuals iCDF (x # ix) = (\<lambda>d. decode_NLSF_residual ?tab d \<bind> (\<lambda>(v, d).
      decode_NLSF_residuals iCDF ix d \<bind> (\<lambda>(vs, d). Some (v # vs, d))))"
    using x(1) by (intro ext) simp
  ultimately show ?case by (simp only:)
qed

lemma reads_NLSFs:
  assumes st: "st \<in> {0, 1, 2}"
  shows "reads (decode_NLSFs (NLSF_codebook fs) st)
    (\<lambda>vs. length vs = order (NLSF_codebook fs) + 1 \<and> 0 \<le> vs ! 0 \<and> vs ! 0 < 32 \<and> list_all (\<lambda>v. - 10 \<le> v \<and> v \<le> 10) (drop 1 vs))"
    (is "reads _ ?Q")
proof -
  let ?cb = "NLSF_codebook fs"
  note cb = codebook_ok [of fs]
  obtain tab where tab: "from_elem (CB1_iCDF ?cb) (silk_RSHIFT st 1 * int (nVectors ?cb)) = Some tab" "icdf_size tab 32"
    by (rule codebook_stage1 [OF cb st])
  have "reads (\<lambda>d. silk_NLSF_unpack ?cb (s8 i) \<bind> (\<lambda>(ec_ix, pred). decode_NLSF_residuals (ec_iCDF ?cb) ec_ix d \<bind>
      (\<lambda>(vs, d). Some (s8 i # vs, d)))) ?Q" if i: "0 \<le> i" "i < 32" for i
  proof -
    obtain ecix pr where u: "silk_NLSF_unpack ?cb i = Some (ecix, pr)" "length ecix = order ?cb"
      "list_all (\<lambda>x. 0 \<le> x \<and> nat x \<le> length (ec_iCDF ?cb) \<and> icdf_size (drop (nat x) (ec_iCDF ?cb)) 9) ecix"
      by (rule unpack_codebook [OF cb i]) blast
    have s8: "s8 i = i" using i by (simp add: s8_id)
    show ?thesis unfolding s8 u(1) bind.bind_lunit prod.case
      by (rule reads_bind [OF reads_NLSF_residuals [OF u(3)]], rule reads_return) (use i u(2) in simp)
  qed
  from reads_icdf_bind [OF tab(2) this] show ?thesis unfolding decode_NLSFs_def [abs_def] tab(1) bind.bind_lunit .
qed

lemma reads_interp: "reads (decode_interp nb) (\<lambda>i. 0 \<le> i \<and> i < 5 \<and> (nb \<noteq> 4 \<longrightarrow> i = 4))"
  unfolding decode_interp_def [abs_def]
  by (intro reads_if reads_icdf_map [OF index_tables(8)] reads_return) (simp_all add: s8_id)

lemma reads_absolute_lag: "dec_config psDec \<Longrightarrow> reads (decode_absolute_lag psDec) (\<lambda>_. True)"
  unfolding decode_absolute_lag_def [abs_def] dec_config_def
  by (auto intro!: reads_icdf_bind [OF index_tables(10)] reads_icdf_map [OF low_bits_tables])

lemma reads_lag:
  assumes "dec_config psDec"
  shows "reads (decode_lag psDec cond) (\<lambda>_. True)"
proof -
  note abs = reads_absolute_lag [OF assms]
  have "reads (\<lambda>d. dec_icdf silk_pitch_delta_iCDF d \<bind> (\<lambda>(delta, d). if s16 delta > 0
      then Some (s16 (dec_ec_prevLagIndex psDec + (s16 delta - 9)), d) else decode_absolute_lag psDec d)) (\<lambda>_. True)"
  proof (rule reads_icdf_bind [OF index_tables(9)])
    show "reads (\<lambda>d. if s16 s > 0 then Some (s16 (dec_ec_prevLagIndex psDec + (s16 s - 9)), d)
        else decode_absolute_lag psDec d) (\<lambda>_. True)" for s
      using abs by (cases "s16 s > 0") (simp_all add: reads_return)
  qed
  then show ?thesis unfolding decode_lag_def [abs_def] by (rule reads_if) (rule abs)
qed

lemma reads_LTP:
  assumes nb: "nb \<in> {2, 4}"
  shows "reads (decode_LTP nb cond) (\<lambda>(per, js, sc). 0 \<le> per \<and> per < 3 \<and> length js = nat nb
    \<and> all_below (8 * 2 ^ nat per) js \<and> 0 \<le> sc \<and> sc < 3)" (is "reads _ ?Q")
proof -
  have sc: "reads (\<lambda>d. if cond = CODE_INDEPENDENTLY then dec_icdf silk_LTPscale_iCDF d \<bind> (\<lambda>(s, d). Some (s8 s, d))
      else Some (0, d)) (\<lambda>sc. 0 \<le> sc \<and> sc < 3)"
    by (intro reads_if reads_icdf_map [OF index_tables(12)] reads_return) (simp_all add: s8_id)
  show ?thesis unfolding decode_LTP_def [abs_def]
  proof (rule reads_icdf_bind [OF index_tables(11)])
    fix p :: int assume p: "0 \<le> p" "p < 3"
    obtain tab where tab: "elem silk_LTP_gain_iCDF_ptrs p = Some tab" "icdf_size tab (8 * 2 ^ nat p)"
      using LTP_tables [OF p] by blast
    have "nat p \<le> 2" using p by simp
    then have "(2 :: int) ^ nat p \<le> 2 ^ 2" by (rule power_increasing) simp
    then have n: "8 * 2 ^ nat p \<le> (128 :: int)" by simp
    have s8: "s8 p = p" using p by (simp add: s8_id)
    show "reads (\<lambda>d. elem silk_LTP_gain_iCDF_ptrs (s8 p) \<bind> (\<lambda>tab. decode_symbols tab (nat nb) d \<bind>
      (\<lambda>(js, d). (if cond = CODE_INDEPENDENTLY then dec_icdf silk_LTPscale_iCDF d \<bind> (\<lambda>(s, d). Some (s8 s, d))
        else Some (0, d)) \<bind> (\<lambda>(sc, d). Some ((s8 p, js, sc), d))))) ?Q"
      unfolding s8 tab(1) bind.bind_lunit
      by (rule reads_bind [OF reads_symbols [OF tab(2) n]], rule reads_bind [OF sc], rule reads_return) (use p in simp)
  qed
qed

section \<open>The whole side information\<close>

text \<open>
  The decoder state between frames, and what is true of the indices read into it. The pitch
  lag is left out of the comparison with what an encoder may send.
\<close>

definition dec_ready :: "silk_decoder_state \<Rightarrow> bool" where
  "dec_ready d \<longleftrightarrow> dec_config d \<and> length (GainsIndices (dec_indices d)) = 4
     \<and> length (LTPIndex (dec_indices d)) = 4 \<and> length (NLSFIndices (dec_indices d)) = 17"

definition decoded_ok :: "bool \<Rightarrow> int \<Rightarrow> silk_decoder_state \<Rightarrow> silk_decoder_state \<Rightarrow> bool" where
  "decoded_ok active cond d d' \<longleftrightarrow> dec_ready d'
     \<and> d' = d\<lparr>dec_indices := dec_indices d', dec_ec_prevSignalType := signalType (dec_indices d'),
         dec_ec_prevLagIndex := dec_ec_prevLagIndex d'\<rparr>
     \<and> indices_ok (dec_fs_kHz d) (dec_nb_subfr d) active cond ((dec_indices d')\<lparr>lagIndex := 0\<rparr>)
     \<and> 0 \<le> NLSFInterpCoef_Q2 (dec_indices d') \<and> NLSFInterpCoef_Q2 (dec_indices d') < 5
     \<and> (signalType (dec_indices d') = 2 \<longrightarrow> 0 \<le> LTP_scaleIndex (dec_indices d') \<and> LTP_scaleIndex (dec_indices d') < 3)"

lemma overwrite_facts:
  assumes "length new \<le> length old"
  shows "length (overwrite old new) = length old" and "take (length new) (overwrite old new) = new"
    and "0 < length new \<Longrightarrow> overwrite old new ! 0 = new ! 0"
    and "take (length new - 1) (drop 1 (overwrite old new)) = drop 1 new"
  using assms by (cases new; simp add: overwrite_def)+

lemma overwrite_gains:
  assumes "length old = 4" and "nb \<in> {2, 4}" and "length gs = nat nb \<and> 0 \<le> gs ! 0 \<and> gs ! 0 < (if cond = 2 then 41 else 64)
    \<and> all_below 41 (drop 1 gs)"
  shows "gains_ok nb cond (overwrite old gs)"
proof -
  have l: "length gs = nat nb" "length gs \<le> length old" "0 < length gs" using assms by auto
  show ?thesis using assms(1,3) overwrite_facts(1,3) [OF l(2)] overwrite_facts(4) [OF l(2), unfolded l(1)] l(3)
    by (simp add: gains_ok_def)
qed

lemma overwrite_NLSFs:
  assumes "length old = 17" and "length vs = order (NLSF_codebook fs) + 1 \<and> 0 \<le> vs ! 0 \<and> vs ! 0 < 32
    \<and> list_all (\<lambda>v. - 10 \<le> v \<and> v \<le> 10) (drop 1 vs)"
  shows "NLSFs_ok fs (overwrite old vs)"
proof -
  have l: "length vs = order (NLSF_codebook fs) + 1" "length vs \<le> length old" "0 < length vs"
    using assms by (simp_all add: codebook_order)
  show ?thesis using assms overwrite_facts(1,3) [OF l(2)] overwrite_facts(4) [OF l(2), unfolded l(1)] l(3)
    by (simp add: NLSFs_ok_def)
qed

lemma reads_voiced:
  assumes rd: "dec_ready psDec"
  shows "reads (decode_voiced psDec cond) (\<lambda>d'. \<exists>lag co per ltp sc.
      d' = psDec\<lparr>dec_ec_prevLagIndex := lag, dec_indices := (dec_indices psDec)\<lparr>lagIndex := lag, contourIndex := co,
         PERIndex := per, LTPIndex := ltp, LTP_scaleIndex := sc\<rparr>\<rparr>
    \<and> 0 \<le> co \<and> co < contour_count (dec_fs_kHz psDec) (dec_nb_subfr psDec) \<and> 0 \<le> per \<and> per < 3 \<and> length ltp = 4
    \<and> all_below (8 * 2 ^ nat per) (take (nat (dec_nb_subfr psDec)) ltp) \<and> 0 \<le> sc \<and> sc < 3)"
proof -
  have cfg: "dec_config psDec" and len: "length (LTPIndex (dec_indices psDec)) = 4" using rd by (simp_all add: dec_ready_def)
  then have ro: "rate_ok (dec_fs_kHz psDec) (dec_nb_subfr psDec)"
    and ct: "dec_pitch_contour_iCDF psDec = contour_table (dec_fs_kHz psDec) (dec_nb_subfr psDec)" by (simp_all add: dec_config_def)
  from ro have nb: "dec_nb_subfr psDec \<in> {2, 4}" by (simp add: rate_ok_def)
  have "contour_count (dec_fs_kHz psDec) (dec_nb_subfr psDec) \<le> 34" by (simp add: contour_count_def)
  then have s8: "s8 co = co" if "0 \<le> co" "co < contour_count (dec_fs_kHz psDec) (dec_nb_subfr psDec)" for co
    using that by (simp add: s8_id)
  have ow: "length (overwrite (LTPIndex (dec_indices psDec)) js) = 4"
    "take (nat (dec_nb_subfr psDec)) (overwrite (LTPIndex (dec_indices psDec)) js) = js"
    if "length js = nat (dec_nb_subfr psDec)" for js
  proof -
    have "length js \<le> length (LTPIndex (dec_indices psDec))" using that nb len by auto
    from overwrite_facts(1,2) [OF this] show "length (overwrite (LTPIndex (dec_indices psDec)) js) = 4"
      "take (nat (dec_nb_subfr psDec)) (overwrite (LTPIndex (dec_indices psDec)) js) = js" using that len by simp_all
  qed
  show ?thesis unfolding decode_voiced_def [abs_def] Let_def ct
    by (rule reads_bind [OF reads_lag [OF cfg]], rule reads_icdf_bind [OF contour_tables [OF ro]],
        rule reads_bind3 [OF reads_LTP [OF nb]], rule reads_return)
      (intro exI conjI, rule refl, simp_all add: s8 ow)
qed

text \<open>What holds once the spectral coefficients are read, in the state \<open>d'\<close>.\<close>

definition begun_ok :: "bool \<Rightarrow> int \<Rightarrow> silk_decoder_state \<Rightarrow> int \<Rightarrow> silk_decoder_state \<Rightarrow> bool" where
  "begun_ok active cond d s d' \<longleftrightarrow> dec_ready d'
     \<and> d' = d\<lparr>dec_indices := dec_indices d', dec_ec_prevLagIndex := dec_ec_prevLagIndex d'\<rparr>
     \<and> signalType (dec_indices d') = s \<and> s \<in> {0, 1, 2} \<and> (active \<longrightarrow> s \<noteq> 0)
     \<and> quantOffsetType (dec_indices d') \<in> {0, 1} \<and> gains_ok (dec_nb_subfr d) cond (GainsIndices (dec_indices d'))
     \<and> NLSFs_ok (dec_fs_kHz d) (NLSFIndices (dec_indices d'))
     \<and> 0 \<le> NLSFInterpCoef_Q2 (dec_indices d') \<and> NLSFInterpCoef_Q2 (dec_indices d') < 5"

lemma begun_cases:
  assumes "begun_ok active cond d s d'"
  obtains ix lag where "d' = d\<lparr>dec_indices := ix, dec_ec_prevLagIndex := lag\<rparr>"
  using assms unfolding begun_ok_def by blast

lemma begun_done:
  assumes b: "begun_ok active cond d s d'" and v: "s = 2 \<longrightarrow> voiced_ok (dec_fs_kHz d) (dec_nb_subfr d) cond ((dec_indices d')\<lparr>lagIndex := 0\<rparr>)
      \<and> 0 \<le> LTP_scaleIndex (dec_indices d') \<and> LTP_scaleIndex (dec_indices d') < 3"
    and x: "0 \<le> x" "x < 4"
  shows "decoded_ok active cond d (d'\<lparr>dec_ec_prevSignalType := s, dec_indices := (dec_indices d')\<lparr>Seed := x\<rparr>\<rparr>)"
proof -
  obtain ix lag where d': "d' = d\<lparr>dec_indices := ix, dec_ec_prevLagIndex := lag\<rparr>" using b by (rule begun_cases)
  show ?thesis using b v x unfolding d'
    by (auto simp: decoded_ok_def begun_ok_def dec_ready_def dec_config_def indices_ok_def voiced_ok_def)
qed

lemma reads_voiced_seed:
  assumes b: "begun_ok active cond d0 s psDec"
  shows "reads (\<lambda>d. (if s = TYPE_VOICED then decode_voiced psDec cond d else Some (psDec, d))
      \<bind> (\<lambda>(psDec, d). dec_icdf silk_uniform4_iCDF d \<bind>
        (\<lambda>(x, d). Some (psDec\<lparr>dec_ec_prevSignalType := s, dec_indices := (dec_indices psDec)\<lparr>Seed := s8 x\<rparr>\<rparr>, d))))
      (decoded_ok active cond d0)"
proof -
  let ?P = "\<lambda>d'. begun_ok active cond d0 s d'
      \<and> (s = 2 \<longrightarrow> voiced_ok (dec_fs_kHz d0) (dec_nb_subfr d0) cond ((dec_indices d')\<lparr>lagIndex := 0\<rparr>)
           \<and> 0 \<le> LTP_scaleIndex (dec_indices d') \<and> LTP_scaleIndex (dec_indices d') < 3)"
  obtain ix lag where ps: "psDec = d0\<lparr>dec_indices := ix, dec_ec_prevLagIndex := lag\<rparr>" using b by (rule begun_cases)
  have rd: "dec_ready psDec" using b by (simp add: begun_ok_def)
  then have "dec_fs_kHz d0 > 0" by (auto simp: dec_ready_def dec_config_def rate_ok_def ps)
  then have "?P d'" if "d' = psDec\<lparr>dec_ec_prevLagIndex := lag, dec_indices := (dec_indices psDec)\<lparr>lagIndex := lag, contourIndex := co,
         PERIndex := per, LTPIndex := ltp, LTP_scaleIndex := sc\<rparr>\<rparr>
    \<and> 0 \<le> co \<and> co < contour_count (dec_fs_kHz psDec) (dec_nb_subfr psDec) \<and> 0 \<le> per \<and> per < 3 \<and> length ltp = 4
    \<and> all_below (8 * 2 ^ nat per) (take (nat (dec_nb_subfr psDec)) ltp) \<and> 0 \<le> sc \<and> sc < 3" for d' lag co per ltp sc
    using b that unfolding ps by (auto simp: begun_ok_def dec_ready_def dec_config_def voiced_ok_def)
  then have "reads (decode_voiced psDec cond) ?P" by (intro reads_weaken [OF reads_voiced [OF rd]]) blast
  then have "reads (\<lambda>d. if s = TYPE_VOICED then decode_voiced psDec cond d else Some (psDec, d)) ?P"
    using b by (intro reads_if) (auto simp: silk_consts intro!: reads_return)
  then show ?thesis
    by (rule reads_bind, intro reads_icdf_map [OF index_tables(5)]) (auto intro!: begun_done simp: s8_id)
qed

lemma reads_indices:
  assumes rd: "dec_ready psDec"
    and act: "(if lbrr then Some True else map_option (\<lambda>f. f \<noteq> 0) (elem (dec_VAD_flags psDec) k)) = Some active"
  shows "reads (silk_decode_indices psDec k lbrr cond) (decoded_ok active cond psDec)"
proof -
  let ?fs = "dec_fs_kHz psDec" and ?nb = "dec_nb_subfr psDec" and ?ix = "dec_indices psDec"
  have cfg: "dec_config psDec" and len: "length (GainsIndices ?ix) = 4" "length (LTPIndex ?ix) = 4" "length (NLSFIndices ?ix) = 17"
    using rd by (simp_all add: dec_ready_def)
  have cb: "dec_psNLSF_CB psDec = NLSF_codebook ?fs" and nb: "?nb \<in> {2, 4}" using cfg by (simp_all add: dec_config_def rate_ok_def)
  let ?upd = "\<lambda>s off gains vs i. psDec\<lparr>dec_indices := ?ix\<lparr>signalType := s, quantOffsetType := off,
        GainsIndices := overwrite (GainsIndices ?ix) gains,
        NLSFIndices := overwrite (NLSFIndices ?ix) vs, NLSFInterpCoef_Q2 := i\<rparr>\<rparr>"
  have step: "reads (\<lambda>d. decode_NLSFs (NLSF_codebook ?fs) s d \<bind> (\<lambda>(vs, d). decode_interp ?nb d \<bind> (\<lambda>(i, d).
        (if s = TYPE_VOICED then decode_voiced (?upd s off gains vs i) cond d
        else Some (?upd s off gains vs i, d)) \<bind> (\<lambda>(psDec, d). dec_icdf silk_uniform4_iCDF d \<bind>
        (\<lambda>(x, d). Some (psDec\<lparr>dec_ec_prevSignalType := s, dec_indices := (dec_indices psDec)\<lparr>Seed := s8 x\<rparr>\<rparr>, d))))))
      (decoded_ok active cond psDec)"
    if s: "s \<in> {0, 1, 2} \<and> (active \<longrightarrow> s \<noteq> 0) \<and> off \<in> {0, 1}"
      and g: "length gains = nat ?nb \<and> 0 \<le> gains ! 0 \<and> gains ! 0 < (if cond = 2 then 41 else 64) \<and> all_below 41 (drop 1 gains)"
    for s off gains
  proof -
    note go = overwrite_gains [OF len(1) nb g] and vo = overwrite_NLSFs [OF len(3)]
    have "begun_ok active cond psDec s (?upd s off gains vs i)"
      if v: "length vs = order (NLSF_codebook ?fs) + 1 \<and> 0 \<le> vs ! 0 \<and> vs ! 0 < 32 \<and> list_all (\<lambda>v. - 10 \<le> v \<and> v \<le> 10) (drop 1 vs)"
        and i: "0 \<le> i \<and> i < 5 \<and> (?nb \<noteq> 4 \<longrightarrow> i = 4)" for vs i
    proof -
      have "length (overwrite (GainsIndices ?ix) gains) = 4" "length (overwrite (NLSFIndices ?ix) vs) = 17"
        using go vo [OF v] by (simp_all add: gains_ok_def NLSFs_ok_def)
      then show ?thesis using s go vo [OF v] i rd by (simp add: begun_ok_def dec_ready_def dec_config_def)
    qed
    from reads_voiced_seed [OF this] show ?thesis
      using s by (intro reads_bind [OF reads_NLSFs] reads_bind [OF reads_interp]) blast+
  qed
  have "reads (\<lambda>d. decode_gains ?nb cond s d \<bind> (\<lambda>(gains, d). decode_NLSFs (NLSF_codebook ?fs) s d \<bind>
      (\<lambda>(vs, d). decode_interp ?nb d \<bind> (\<lambda>(i, d).
        (if s = TYPE_VOICED then decode_voiced (?upd s off gains vs i) cond d
        else Some (?upd s off gains vs i, d)) \<bind> (\<lambda>(psDec, d). dec_icdf silk_uniform4_iCDF d \<bind>
        (\<lambda>(x, d). Some (psDec\<lparr>dec_ec_prevSignalType := s, dec_indices := (dec_indices psDec)\<lparr>Seed := s8 x\<rparr>\<rparr>, d)))))))
      (decoded_ok active cond psDec)" if s: "s \<in> {0, 1, 2} \<and> (active \<longrightarrow> s \<noteq> 0) \<and> off \<in> {0, 1}" for s off
    by (rule reads_bind [OF reads_gains [OF _ nb]]) (use s in blast, rule step [OF s])
  from reads_bind2 [OF reads_type_offset [of active] this] show ?thesis
    unfolding silk_decode_indices_def [abs_def] act bind.bind_lunit cb Let_def .
qed

end
