(* ===== verification/Silk_Frames.thy ===== *)
theory Silk_Frames
  imports Silk_Indices_Safe Silk_Excitation
begin

text \<open>
  A frame in the bitstream: side information and excitation, as the encoder writes them
  (enc_API.c, encode_frame_FLP.c) and the decoder reads them (decode_frame.c, dec_API.c),
  and the frames of a packet one after the other, where each frame is coded with the memory
  that the last one left.
\<close>

section \<open>One frame\<close>

definition encode_frame_symbols ::
  "silk_encoder_state \<Rightarrow> int \<Rightarrow> bool \<Rightarrow> int \<Rightarrow> int list \<Rightarrow> int \<Rightarrow> ec_ctx \<Rightarrow> (silk_encoder_state \<times> ec_ctx) option" where
  "encode_frame_symbols psEncC FrameIndex lbrr condCoding pulses fl e = do {
     (psEncC, e) \<leftarrow> silk_encode_indices psEncC FrameIndex lbrr condCoding e;
     ix \<leftarrow> (if lbrr then elem (enc_indices_LBRR psEncC) FrameIndex else Some (enc_indices psEncC));
     e \<leftarrow> silk_encode_pulses (signalType ix) (quantOffsetType ix) pulses fl e;
     Some (psEncC, e)
   }"

definition decode_frame_symbols ::
  "silk_decoder_state \<Rightarrow> int \<Rightarrow> bool \<Rightarrow> int \<Rightarrow> ec_ctx \<Rightarrow> ((silk_decoder_state \<times> int list) \<times> ec_ctx) option" where
  "decode_frame_symbols psDec FrameIndex lbrr condCoding d = do {
     (psDec, d) \<leftarrow> silk_decode_indices psDec FrameIndex lbrr condCoding d;
     (pulses, d) \<leftarrow> silk_decode_pulses (signalType (dec_indices psDec)) (quantOffsetType (dec_indices psDec))
       (frame_length psDec) d;
     Some ((psDec, pulses), d)
   }"

text \<open>The frame length that goes with a sampling rate and a number of subframes.\<close>

definition frame_ok :: "silk_encoder_state \<Rightarrow> silk_decoder_state \<Rightarrow> int \<Rightarrow> bool" where
  "frame_ok psEncC psDec fl \<longleftrightarrow> fl = 5 * enc_nb_subfr psEncC * enc_fs_kHz psEncC \<and> frame_length psDec = fl"

lemma frame_length_ok: "rate_ok fs nb \<Longrightarrow> frame_size_ok (5 * nb * fs)"
  by (auto simp: rate_ok_def frame_size_ok_def)

lemma decoded_state_keeps:
  "frame_length (decoded_state cond psDec ix) = frame_length psDec"
  "dec_VAD_flags (decoded_state cond psDec ix) = dec_VAD_flags psDec"
  "signalType (dec_indices (decoded_state cond psDec ix)) = signalType ix"
  "quantOffsetType (dec_indices (decoded_state cond psDec ix)) = quantOffsetType ix"
  by (simp_all add: decoded_state_def decoded_indices_def Let_def)

lemma encoded_state_keeps:
  "enc_indices (encoded_state psEncC ix) = enc_indices psEncC"
  "enc_indices_LBRR (encoded_state psEncC ix) = enc_indices_LBRR psEncC"
  "enc_fs_kHz (encoded_state psEncC ix) = enc_fs_kHz psEncC"
  "enc_nb_subfr (encoded_state psEncC ix) = enc_nb_subfr psEncC"
  by (simp_all add: encoded_state_def Let_def)

text \<open>The state an encoder leaves does not depend on the buffer it writes to.\<close>

lemma encode_frame_state:
  "encode_frame_symbols psEncC k lbrr cond pulses fl e = Some (s, e') \<Longrightarrow>
     (if lbrr then elem (enc_indices_LBRR psEncC) k else Some (enc_indices psEncC)) = Some ix \<Longrightarrow> s = encoded_state psEncC ix"
  by (auto simp: encode_frame_symbols_def silk_encode_indices_def bind_eq_Some_conv)

lemma codes_frame:
  assumes p: "paired psEncC psDec" and f: "frame_ok psEncC psDec fl"
    and ok: "indices_ok (enc_fs_kHz psEncC) (enc_nb_subfr psEncC) lbrr cond ix"
    and ex: "excitation_ok (signalType ix) (quantOffsetType ix) pulses fl"
    and ix: "(if lbrr then elem (enc_indices_LBRR psEncC) k else Some (enc_indices psEncC)) = Some ix"
    and act: "(if lbrr' then Some True else map_option (\<lambda>f. f \<noteq> 0) (elem (dec_VAD_flags psDec) k'))
      = Some (lbrr \<or> signalType ix \<noteq> 0)"
  shows "codes (\<lambda>e. encode_frame_symbols psEncC k lbrr cond pulses fl e \<bind> (\<lambda>(s, e). Some e))
    (decode_frame_symbols psDec k' lbrr' cond) (decoded_state cond psDec ix, frame_pulses pulses fl)"
proof -
  let ?d = "decoded_state cond psDec ix"
  have fl: "frame_length ?d = fl" using f by (simp add: frame_ok_def decoded_state_keeps)
  have "codes (\<lambda>e. (silk_encode_indices psEncC k lbrr cond e \<bind> (\<lambda>(s, e). Some e)) \<bind>
      silk_encode_pulses (signalType ix) (quantOffsetType ix) pulses fl)
    (\<lambda>d. silk_decode_indices psDec k' lbrr' cond d \<bind> (\<lambda>(psDec, d).
       silk_decode_pulses (signalType (dec_indices psDec)) (quantOffsetType (dec_indices psDec)) (frame_length psDec) d \<bind>
       (\<lambda>(pulses, d). Some ((psDec, pulses), d)))) (?d, frame_pulses pulses fl)"
    by (rule codes_bind [OF codes_indices [OF p ok ix act]])
      (unfold decoded_state_keeps(3,4) fl, rule codes_then [OF codes_pulses [OF ex]], simp)
  moreover have "(\<lambda>e. encode_frame_symbols psEncC k lbrr cond pulses fl e \<bind> (\<lambda>(s, e). Some e))
    = (\<lambda>e. (silk_encode_indices psEncC k lbrr cond e \<bind> (\<lambda>(s, e). Some e)) \<bind>
      silk_encode_pulses (signalType ix) (quantOffsetType ix) pulses fl)"
    using ix by (intro ext, cases lbrr) (simp_all add: encode_frame_symbols_def silk_encode_indices_def encoded_state_keeps)
  moreover have "decode_frame_symbols psDec k' lbrr' cond = (\<lambda>d. silk_decode_indices psDec k' lbrr' cond d \<bind> (\<lambda>(psDec, d).
       silk_decode_pulses (signalType (dec_indices psDec)) (quantOffsetType (dec_indices psDec)) (frame_length psDec) d \<bind>
       (\<lambda>(pulses, d). Some ((psDec, pulses), d))))"
    by (intro ext) (simp add: decode_frame_symbols_def)
  ultimately show ?thesis by (simp only:)
qed

lemma reads_frame:
  assumes rd: "dec_ready psDec" and fl: "frame_size_ok (frame_length psDec)"
    and act: "(if lbrr then Some True else map_option (\<lambda>f. f \<noteq> 0) (elem (dec_VAD_flags psDec) k)) = Some active"
  shows "reads (decode_frame_symbols psDec k lbrr cond) (\<lambda>(d', pulses). decoded_ok active cond psDec d'
    \<and> length pulses = 16 * nat (shell_blocks (frame_length psDec)) \<and> list_all (\<lambda>q. \<bar>q\<bar> < 17408) pulses)"
proof -
  have lt: "q \<le> 17407 \<longleftrightarrow> q < 17408" for q :: int by auto
  have "reads (\<lambda>d. silk_decode_pulses (signalType (dec_indices d')) (quantOffsetType (dec_indices d')) (frame_length d') d \<bind>
       (\<lambda>(pulses, d). Some ((d', pulses), d))) (\<lambda>(d', pulses). decoded_ok active cond psDec d'
    \<and> length pulses = 16 * nat (shell_blocks (frame_length psDec)) \<and> list_all (\<lambda>q. \<bar>q\<bar> < 17408) pulses)"
    if d': "decoded_ok active cond psDec d'" for d'
  proof -
    obtain s ix lag where "d' = psDec\<lparr>dec_indices := ix, dec_ec_prevSignalType := s, dec_ec_prevLagIndex := lag\<rparr>"
      using d' unfolding decoded_ok_def by blast
    then have l: "frame_length d' = frame_length psDec" by simp
    have t: "signalType (dec_indices d') \<in> {0, 1, 2}" "quantOffsetType (dec_indices d') \<in> {0, 1}"
      using d' by (simp_all add: decoded_ok_def indices_ok_def)
    show ?thesis unfolding l
      by (rule reads_bind [OF reads_pulses [OF fl t]], rule reads_return) (use d' in \<open>simp add: lt\<close>)
  qed
  then show ?thesis unfolding decode_frame_symbols_def [abs_def] by (rule reads_bind [OF reads_indices [OF rd act]])
qed

section \<open>The frames of a packet\<close>

text \<open>
  For one channel: the first frame of a packet is coded independently of what came before,
  the others relative to their predecessor.
\<close>

definition frame_cond :: "int \<Rightarrow> int" where
  "frame_cond k = (if k \<le> 0 then CODE_INDEPENDENTLY else CODE_CONDITIONALLY)"

fun encode_frames ::
  "silk_encoder_state \<Rightarrow> int \<Rightarrow> int \<Rightarrow> (SideInfoIndices \<times> int list) list \<Rightarrow> ec_ctx \<Rightarrow> (silk_encoder_state \<times> ec_ctx) option" where
  "encode_frames psEncC k fl [] e = Some (psEncC, e)"
| "encode_frames psEncC k fl ((ix, pulses) # fs) e = do {
     (psEncC, e) \<leftarrow> encode_frame_symbols (psEncC\<lparr>enc_indices := ix\<rparr>) k False (frame_cond k) pulses fl e;
     encode_frames psEncC (k + 1) fl fs e
   }"

fun decode_frames ::
  "silk_decoder_state \<Rightarrow> int \<Rightarrow> nat \<Rightarrow> ec_ctx \<Rightarrow> ((silk_decoder_state \<times> (SideInfoIndices \<times> int list) list) \<times> ec_ctx) option" where
  "decode_frames psDec k 0 d = Some ((psDec, []), d)"
| "decode_frames psDec k (Suc n) d = do {
     ((psDec, pulses), d) \<leftarrow> decode_frame_symbols psDec k False (frame_cond k) d;
     let ix = dec_indices psDec;
     ((psDec, fs), d) \<leftarrow> decode_frames psDec (k + 1) n d;
     Some ((psDec, (ix, pulses) # fs), d)
   }"

text \<open>What a packet may hold, and what is read from it.\<close>

fun frames_ok :: "int \<Rightarrow> int \<Rightarrow> int list \<Rightarrow> int \<Rightarrow> (SideInfoIndices \<times> int list) list \<Rightarrow> bool" where
  "frames_ok fs nb flags k [] \<longleftrightarrow> True"
| "frames_ok fs nb flags k ((ix, pulses) # rest) \<longleftrightarrow> indices_ok fs nb False (frame_cond k) ix
     \<and> excitation_ok (signalType ix) (quantOffsetType ix) pulses (5 * nb * fs)
     \<and> map_option (\<lambda>f. f \<noteq> 0) (elem flags k) = Some (signalType ix \<noteq> 0) \<and> frames_ok fs nb flags (k + 1) rest"

fun decoded_frames ::
  "silk_decoder_state \<Rightarrow> int \<Rightarrow> (SideInfoIndices \<times> int list) list \<Rightarrow> silk_decoder_state \<times> (SideInfoIndices \<times> int list) list" where
  "decoded_frames psDec k [] = (psDec, [])"
| "decoded_frames psDec k ((ix, pulses) # rest) =
    (let psDec' = decoded_state (frame_cond k) psDec ix;
         (final, fs) = decoded_frames psDec' (k + 1) rest
     in (final, (dec_indices psDec', frame_pulses pulses (frame_length psDec)) # fs))"

lemma codes_frames:
  "paired psEncC psDec \<Longrightarrow> frame_ok psEncC psDec fl \<Longrightarrow>
     frames_ok (enc_fs_kHz psEncC) (enc_nb_subfr psEncC) (dec_VAD_flags psDec) k fs \<Longrightarrow>
     codes (\<lambda>e. encode_frames psEncC k fl fs e \<bind> (\<lambda>(s, e). Some e)) (decode_frames psDec k (length fs)) (decoded_frames psDec k fs)"
proof (induction fs arbitrary: psEncC psDec k)
  case Nil
  have "(\<lambda>e. encode_frames psEncC k fl [] e \<bind> (\<lambda>(s, e). Some e)) = Some"
    "decode_frames psDec k (length []) = (\<lambda>d. Some ((psDec, []), d))" by (simp_all add: fun_eq_iff)
  then show ?case by (simp add: codes_return)
next
  case (Cons x fs)
  obtain ix pulses where x: "x = (ix, pulses)" by (cases x)
  let ?e = "psEncC\<lparr>enc_indices := ix\<rparr>" and ?d = "decoded_state (frame_cond k) psDec ix"
  have p: "paired ?e psDec" "frame_ok ?e psDec fl" using Cons.prems(1,2) by (simp_all add: paired_def enc_config_def frame_ok_def)
  have fl: "fl = 5 * enc_nb_subfr psEncC * enc_fs_kHz psEncC" "frame_length psDec = fl" using Cons.prems(2) by (simp_all add: frame_ok_def)
  have ok: "indices_ok (enc_fs_kHz ?e) (enc_nb_subfr ?e) False (frame_cond k) ix"
    "excitation_ok (signalType ix) (quantOffsetType ix) pulses fl"
    "map_option (\<lambda>f. f \<noteq> 0) (elem (dec_VAD_flags psDec) k) = Some (signalType ix \<noteq> 0)"
    "frames_ok (enc_fs_kHz psEncC) (enc_nb_subfr psEncC) (dec_VAD_flags psDec) (k + 1) fs"
    using Cons.prems(3) x fl(1) by simp_all
  have c1: "codes (\<lambda>e. encode_frame_symbols ?e k False (frame_cond k) pulses fl e \<bind> (\<lambda>(s, e). Some e))
    (decode_frame_symbols psDec k False (frame_cond k)) (?d, frame_pulses pulses fl)"
    by (rule codes_frame [OF p ok(1,2)]) (use ok(3) in simp_all)
  have "paired (encoded_state ?e ix) ?d" by (rule paired_step [OF p(1)])
  moreover have "frame_ok (encoded_state ?e ix) ?d fl" using fl by (simp add: frame_ok_def encoded_state_keeps decoded_state_keeps)
  ultimately have c2: "codes (\<lambda>e. encode_frames (encoded_state ?e ix) (k + 1) fl fs e \<bind> (\<lambda>(s, e). Some e))
      (decode_frames ?d (k + 1) (length fs)) (decoded_frames ?d (k + 1) fs)"
    using ok(4) by (intro Cons.IH) (simp_all add: encoded_state_keeps decoded_state_keeps)
  let ?K = "\<lambda>psDec pulses d. decode_frames psDec (k + 1) (length fs) d \<bind>
      (\<lambda>((psDec', fs), d). Some ((psDec', (dec_indices psDec, pulses) # fs), d))"
  have "codes (\<lambda>e. encode_frames (encoded_state ?e ix) (k + 1) fl fs e \<bind> (\<lambda>(s, e). Some e))
      (?K ?d (frame_pulses pulses fl)) (decoded_frames psDec k (x # fs))"
    using codes_then [OF c2, of "\<lambda>(s, fs) d. Some ((s, (dec_indices ?d, frame_pulses pulses fl) # fs), d)"
      "decoded_frames psDec k (x # fs)"] by (simp add: x fl(2) split_def Let_def)
  from codes_bind2 [OF c1, of _ ?K, OF this]
  have "codes (\<lambda>e. (encode_frame_symbols ?e k False (frame_cond k) pulses fl e \<bind> (\<lambda>(s, e). Some e)) \<bind>
      (\<lambda>e. encode_frames (encoded_state ?e ix) (k + 1) fl fs e \<bind> (\<lambda>(s, e). Some e)))
     (\<lambda>d. decode_frame_symbols psDec k False (frame_cond k) d \<bind> (\<lambda>((psDec, pulses), d). ?K psDec pulses d))
     (decoded_frames psDec k (x # fs))" .
  moreover have "(\<lambda>e. encode_frames psEncC k fl (x # fs) e \<bind> (\<lambda>(s, e). Some e)) =
     (\<lambda>e. (encode_frame_symbols ?e k False (frame_cond k) pulses fl e \<bind> (\<lambda>(s, e). Some e)) \<bind>
      (\<lambda>e. encode_frames (encoded_state ?e ix) (k + 1) fl fs e \<bind> (\<lambda>(s, e). Some e)))"
  proof (rule ext)
    fix e
    show "encode_frames psEncC k fl (x # fs) e \<bind> (\<lambda>(s, e). Some e) =
     (encode_frame_symbols ?e k False (frame_cond k) pulses fl e \<bind> (\<lambda>(s, e). Some e)) \<bind>
      (\<lambda>e. encode_frames (encoded_state ?e ix) (k + 1) fl fs e \<bind> (\<lambda>(s, e). Some e))"
      using encode_frame_state [of ?e k False "frame_cond k" pulses fl e _ _ ix]
      by (cases "encode_frame_symbols ?e k False (frame_cond k) pulses fl e") (auto simp: x)
  qed
  moreover have "decode_frames psDec k (length (x # fs)) =
     (\<lambda>d. decode_frame_symbols psDec k False (frame_cond k) d \<bind> (\<lambda>((psDec, pulses), d). ?K psDec pulses d))"
    by (intro ext) (simp add: Let_def)
  ultimately show ?case by (simp only:)
qed

text \<open>Any bytes: the ranges of the indices hold whatever the way a frame was coded.\<close>

lemma indices_ok_any: "indices_ok fs nb active cond ix \<Longrightarrow> indices_ok fs nb False 1 ix"
  by (auto simp: indices_ok_def gains_ok_def voiced_ok_def split: if_splits)

lemma reads_frames:
  "dec_ready psDec \<Longrightarrow> frame_size_ok (frame_length psDec) \<Longrightarrow> 0 \<le> k \<Longrightarrow> nat k + n \<le> length (dec_VAD_flags psDec) \<Longrightarrow>
     reads (decode_frames psDec k n) (\<lambda>(d', fs). dec_ready d' \<and> length fs = n
       \<and> list_all (\<lambda>(ix, pulses). indices_ok (dec_fs_kHz psDec) (dec_nb_subfr psDec) False 1 (ix\<lparr>lagIndex := 0\<rparr>)
           \<and> length pulses = 16 * nat (shell_blocks (frame_length psDec)) \<and> list_all (\<lambda>q. \<bar>q\<bar> < 17408) pulses) fs)"
proof (induction n arbitrary: psDec k)
  case 0
  have "decode_frames psDec k 0 = (\<lambda>d. Some ((psDec, []), d))" by (intro ext) simp
  then show ?case using 0 by (simp add: reads_return)
next
  case (Suc n)
  let ?fs = "dec_fs_kHz psDec" and ?nb = "dec_nb_subfr psDec" and ?fl = "frame_length psDec"
  let ?Q = "\<lambda>n (d', fs). dec_ready d' \<and> length fs = n
       \<and> list_all (\<lambda>(ix, pulses). indices_ok ?fs ?nb False 1 (ix\<lparr>lagIndex := 0\<rparr>)
           \<and> length pulses = 16 * nat (shell_blocks ?fl) \<and> list_all (\<lambda>q. \<bar>q\<bar> < 17408) pulses) fs"
  have "nat k < length (dec_VAD_flags psDec)" using Suc.prems(4) by simp
  then obtain active where act: "map_option (\<lambda>f. f \<noteq> 0) (elem (dec_VAD_flags psDec) k) = Some active" using Suc.prems(3) by simp
  have step: "reads (\<lambda>d. decode_frames d' (k + 1) n d \<bind> (\<lambda>((d'', fs), d). Some ((d'', (dec_indices d', pulses) # fs), d))) (?Q (Suc n))"
    if d': "decoded_ok active (frame_cond k) psDec d'" and ps: "length pulses = 16 * nat (shell_blocks ?fl)"
      "list_all (\<lambda>q. \<bar>q\<bar> < 17408) pulses" for d' pulses
  proof -
    obtain s ix lag where e: "d' = psDec\<lparr>dec_indices := ix, dec_ec_prevSignalType := s, dec_ec_prevLagIndex := lag\<rparr>"
      using d' unfolding decoded_ok_def by blast
    have ok: "dec_ready d'" "indices_ok ?fs ?nb False 1 ((dec_indices d')\<lparr>lagIndex := 0\<rparr>)"
      using d' indices_ok_any by (auto simp: decoded_ok_def)
    have "reads (decode_frames d' (k + 1) n) (?Q n)"
      using Suc.IH [OF ok(1), of "k + 1"] Suc.prems by (simp add: e nat_add_distrib)
    then have "reads (decode_frames d' (k + 1) n) (\<lambda>(a, b). (\<lambda>a b. ?Q n (a, b)) a b)" by simp
    then show ?thesis by (rule reads_bind2) (use ok ps in \<open>auto intro!: reads_return\<close>)
  qed
  have "reads (\<lambda>d. decode_frame_symbols psDec k False (frame_cond k) d \<bind> (\<lambda>((d', pulses), d).
      decode_frames d' (k + 1) n d \<bind> (\<lambda>((d'', fs), d). Some ((d'', (dec_indices d', pulses) # fs), d)))) (?Q (Suc n))"
    by (rule reads_bind2 [OF reads_frame [OF Suc.prems(1,2)]]) (use act step in auto)
  moreover have "decode_frames psDec k (Suc n) = (\<lambda>d. decode_frame_symbols psDec k False (frame_cond k) d \<bind> (\<lambda>((d', pulses), d).
      decode_frames d' (k + 1) n d \<bind> (\<lambda>((d'', fs), d). Some ((d'', (dec_indices d', pulses) # fs), d))))"
    by (intro ext) (simp add: Let_def)
  ultimately show ?case by (simp only:)
qed

end
