(* ===== verification/Silk_Frame_Properties.thy ===== *)
theory Silk_Frame_Properties
  imports Silk_Frames Silk_Properties
begin

text \<open>
  The properties of the frames of a SILK packet: side information and excitation together,
  over all frames of one channel, and the redundant copy of a frame.
\<close>

section \<open>Example states\<close>

definition example_indices :: SideInfoIndices where
  "example_indices = \<lparr>GainsIndices = [20, 3, 0, 0], LTPIndex = [7, 2, 0, 0],
     NLSFIndices = [5, 1, - 2, 0, 4, - 10, 10, 0, 3, - 4, 1, 0, 0, 0, 0, 0, 0], lagIndex = 37, contourIndex = 2,
     signalType = 2, quantOffsetType = 1, NLSFInterpCoef_Q2 = 4, PERIndex = 0, LTP_scaleIndex = 1, Seed = 3\<rparr>"

definition example_encoder :: silk_encoder_state where
  "example_encoder = \<lparr>enc_fs_kHz = 8, enc_nb_subfr = 2, enc_pitch_lag_low_bits_iCDF = low_bits_table 8,
     enc_pitch_contour_iCDF = contour_table 8 2, enc_psNLSF_CB = NLSF_codebook 8, enc_indices = example_indices,
     enc_indices_LBRR = [example_indices], enc_ec_prevSignalType = 0, enc_ec_prevLagIndex = 0\<rparr>"

definition example_decoder :: silk_decoder_state where
  "example_decoder = \<lparr>prev_gain_Q16 = 65536, exc_Q14 = replicate 320 0, sLPC_Q14_buf = replicate 16 0,
     outBuf = replicate 480 0, lagPrev = 100, LastGainIndex = 10,
     dec_fs_kHz = 8, fs_API_hz = 48000, dec_nb_subfr = 2, frame_length = 80, subfr_length = 40, ltp_mem_length = 160,
     LPC_order = 10, prevNLSF_Q15 = replicate 16 0, first_frame_after_reset = 1, dec_pitch_lag_low_bits_iCDF = low_bits_table 8,
     dec_pitch_contour_iCDF = contour_table 8 2, nFramesDecoded = 0, nFramesPerPacket = 2, dec_ec_prevSignalType = 0,
     dec_ec_prevLagIndex = 0, dec_VAD_flags = [1, 1, 0], LBRR_flag = 0, LBRR_flags = [0, 0, 0],
     resampler_state = resampler_cleared, dec_psNLSF_CB = NLSF_codebook 8,
     dec_indices = \<lparr>GainsIndices = replicate 4 0, LTPIndex = replicate 4 0, NLSFIndices = replicate 17 0, lagIndex = 0,
       contourIndex = 0, signalType = 0, quantOffsetType = 0, NLSFInterpCoef_Q2 = 0, PERIndex = 0, LTP_scaleIndex = 0, Seed = 0\<rparr>,
     sCNG = CNG_cleared, lossCnt = 0, prevSignalType = 0, sPLC = PLC_cleared\<rparr>"

definition example_frames :: "(SideInfoIndices \<times> int list) list" where
  "example_frames = [(example_indices, 3 # - 20 # replicate 78 0), (example_indices\<lparr>lagIndex := 40\<rparr>, replicate 79 0 @ [1])]"

lemma example_fields: "enc_fs_kHz example_encoder = 8" "enc_nb_subfr example_encoder = 2" "dec_fs_kHz example_decoder = 8"
  "dec_nb_subfr example_decoder = 2" "frame_length example_decoder = 80" "dec_VAD_flags example_decoder = [1, 1, 0]"
  "length example_frames = 2" "enc_indices_LBRR example_encoder = [example_indices]"
  by (simp_all add: example_encoder_def example_decoder_def example_frames_def)

lemma example_codebook: "order (NLSF_codebook 8) = 10"
  by (simp add: codebook_order)

lemma example_frames_valid:
  "paired example_encoder example_decoder" "frame_ok example_encoder example_decoder 80"
  "frames_ok 8 2 [1, 1, 0] 0 example_frames" "dec_ready example_decoder"
  by (simp_all add: paired_def enc_config_def dec_config_def rate_ok_def example_encoder_def example_decoder_def frame_ok_def
      example_frames_def example_indices_def indices_ok_def gains_ok_def NLSFs_ok_def voiced_ok_def all_below_def
      contour_count_def frame_cond_def silk_consts excitation_ok_def frame_size_ok_def dec_ready_def elem_def example_codebook
      numeral_eq_Suc)

text \<open>The symbols that the encoder writes for the two frames of the example.\<close>

fun encode_list :: "(int \<times> u32 list) list \<Rightarrow> ec_ctx \<Rightarrow> ec_ctx option" where
  "encode_list [] = Some"
| "encode_list ((s, tab) # xs) = (\<lambda>e. enc_icdf s tab e \<bind> encode_list xs)"

definition example_written :: "ec_ctx \<Rightarrow> ec_ctx option" where
  "example_written e =
     encode_list [(3, silk_type_offset_VAD_iCDF), (2, silk_gain_iCDF ! 2), (4, silk_uniform8_iCDF), (3, silk_delta_gain_iCDF)] e
     \<bind> encode_NLSFs (NLSF_codebook 8) 2 example_indices
     \<bind> encode_list [(9, silk_pitch_lag_iCDF), (1, low_bits_table 8), (2, contour_table 8 2), (0, silk_LTP_per_index_iCDF),
         (7, silk_LTP_gain_iCDF_0), (2, silk_LTP_gain_iCDF_0), (1, silk_LTPscale_iCDF), (3, silk_uniform4_iCDF)]
     \<bind> silk_encode_pulses 2 1 (3 # - 20 # replicate 78 0) 80
     \<bind> encode_list [(3, silk_type_offset_VAD_iCDF), (20, silk_delta_gain_iCDF), (3, silk_delta_gain_iCDF)]
     \<bind> encode_NLSFs (NLSF_codebook 8) 2 (example_indices\<lparr>lagIndex := 40\<rparr>)
     \<bind> encode_list [(12, silk_pitch_delta_iCDF), (2, contour_table 8 2), (0, silk_LTP_per_index_iCDF),
         (7, silk_LTP_gain_iCDF_0), (2, silk_LTP_gain_iCDF_0), (3, silk_uniform4_iCDF)]
     \<bind> silk_encode_pulses 2 1 (replicate 79 0 @ [1]) 80"

lemmas example_simps = encode_side_info_def encode_type_offset_def encode_gains_def encode_voiced_def encode_lag_def
  encode_absolute_lag_def encode_LTP_def example_indices_def elems_def from_elem_def silk_consts rshift_div
  silk_SMULBB_def s16_id cdiv_nonneg Let_def

lemma example_tables: "elem silk_gain_iCDF 2 = Some (silk_gain_iCDF ! 2)" "elem silk_LTP_gain_iCDF_ptrs 0 = Some silk_LTP_gain_iCDF_0"
  by (simp_all add: silk_gain_iCDF_def silk_LTP_gain_iCDF_ptrs_def)

lemma example_encoding:
  "encode_frames example_encoder 0 80 example_frames e \<bind> (\<lambda>(s, e). Some e) = example_written e"
  by (simp add: example_frames_def encode_frame_symbols_def silk_encode_indices_def encoded_state_def frame_cond_def
      example_encoder_def example_written_def example_tables example_simps fun_eq_iff del: silk_encode_pulses_def)

lemma example_fits: "case example_written (ec_enc_init (replicate 100 0) 100) of None \<Rightarrow> False | Some e \<Rightarrow> ec_tell e \<le> 800"
  by code_simp



text \<open>
  C24. The redundant copy of a frame, which a later packet carries, survives coding in the
  same way: it is read as an active frame whatever the activity flags of the new packet say,
  and the decoder ends with the memory of that frame, paired with the encoder.
\<close>

theorem redundant_frame_roundtrip:
  assumes "paired psEncC psDec" and "frame_ok psEncC psDec fl" and "elem (enc_indices_LBRR psEncC) k = Some ix"
    and "indices_ok (enc_fs_kHz psEncC) (enc_nb_subfr psEncC) True cond ix"
    and "excitation_ok (signalType ix) (quantOffsetType ix) pulses fl" and "length buf = sz" and "sz < 2 ^ 27"
  shows "\<exists>s e. encode_frame_symbols psEncC k True cond pulses fl (ec_enc_init buf sz) = Some (s, e)
    \<and> paired s (decoded_state cond psDec ix)
    \<and> (ec_tell e \<le> 8 * int sz \<longrightarrow> ec_get_error (ec_enc_done e) = 0
       \<and> (\<exists>d. (ec_dec_init (ec_buf (ec_enc_done e)) sz \<bind> decode_frame_symbols psDec k True cond)
            = Some ((decoded_state cond psDec ix, frame_pulses pulses fl), d) \<and> same_state e d))"
proof -
  have c: "codes (\<lambda>e. encode_frame_symbols psEncC k True cond pulses fl e \<bind> (\<lambda>(s, e). Some e))
    (decode_frame_symbols psDec k True cond) (decoded_state cond psDec ix, frame_pulses pulses fl)"
    by (rule codes_frame [OF assms(1,2,4,5)]) (simp_all add: assms(3))
  obtain s e where e: "encode_frame_symbols psEncC k True cond pulses fl (ec_enc_init buf sz) = Some (s, e)"
    using codes_total [OF c assms(6)] by (auto simp: bind_eq_Some_conv)
  then have s: "s = encoded_state psEncC ix" using encode_frame_state [OF e, of ix] assms(3) by simp
  have "encode_frame_symbols psEncC k True cond pulses fl (ec_enc_init buf sz) \<bind> (\<lambda>(s, e). Some e) = Some e"
    using e by simp
  from codes_buffer [OF c assms(6,7) this] show ?thesis using e s paired_step [OF assms(1)] by auto
qed

definition redundant_written :: "ec_ctx \<Rightarrow> ec_ctx option" where
  "redundant_written e =
     encode_list [(3, silk_type_offset_VAD_iCDF), (2, silk_gain_iCDF ! 2), (4, silk_uniform8_iCDF), (3, silk_delta_gain_iCDF)] e
     \<bind> encode_NLSFs (NLSF_codebook 8) 2 example_indices
     \<bind> encode_list [(9, silk_pitch_lag_iCDF), (1, low_bits_table 8), (2, contour_table 8 2), (0, silk_LTP_per_index_iCDF),
         (7, silk_LTP_gain_iCDF_0), (2, silk_LTP_gain_iCDF_0), (1, silk_LTPscale_iCDF), (3, silk_uniform4_iCDF)]
     \<bind> silk_encode_pulses 2 1 (replicate 79 0 @ [1]) 80"

lemma redundant_encoding:
  "encode_frame_symbols example_encoder 0 True 0 (replicate 79 0 @ [1]) 80 e \<bind> (\<lambda>(s, e). Some e) = redundant_written e"
  by (simp add: encode_frame_symbols_def silk_encode_indices_def encoded_state_def
      example_encoder_def redundant_written_def example_tables example_simps fun_eq_iff del: silk_encode_pulses_def)

lemma redundant_fits: "case redundant_written (ec_enc_init (replicate 60 0) 60) of None \<Rightarrow> False | Some e \<Rightarrow> ec_tell e \<le> 480"
  by code_simp

theorem redundant_frame_roundtrip_witness:
  "\<exists>s e d. encode_frame_symbols example_encoder 0 True 0 (replicate 79 0 @ [1]) 80 (ec_enc_init (replicate 60 0) 60) = Some (s, e)
    \<and> (ec_dec_init (ec_buf (ec_enc_done e)) 60 \<bind> decode_frame_symbols example_decoder 0 True 0)
        = Some ((decoded_state 0 example_decoder example_indices, frame_pulses (replicate 79 0 @ [1]) 80), d)"
proof -
  have ok: "indices_ok 8 2 True 0 example_indices" "elem [example_indices] 0 = Some example_indices"
    "excitation_ok (signalType example_indices) (quantOffsetType example_indices) (replicate 79 0 @ [1]) 80"
    by (simp_all add: example_indices_def indices_ok_def gains_ok_def NLSFs_ok_def voiced_ok_def all_below_def
      contour_count_def excitation_ok_def frame_size_ok_def example_codebook numeral_eq_Suc)
  note r = redundant_frame_roundtrip [OF example_frames_valid(1,2), unfolded example_fields, OF ok(2,1,3), of "replicate 60 0" 60]
  from r redundant_fits [folded redundant_encoding] show ?thesis by auto
qed



end
