(* ===== verification/Silk_Resampler_Correct.thy ===== *)
theory Silk_Resampler_Correct
  imports Silk_Resampler
begin

text \<open>
  The resampler fills its output array exactly, for every pair of rates of the codec: no
  read leaves a buffer, every loop ends, and a whole number of milliseconds of input gives
  the same number of milliseconds of output, in 16 bits.
\<close>

section \<open>Positions\<close>

declare index_steps.simps [simp del]

lemma index_steps_length:
  assumes "0 < inc"
  shows "index_steps i m inc = Some xs \<Longrightarrow> int (length xs) = (if i < m then (m - i + inc - 1) div inc else 0)"
proof (induction i m inc arbitrary: xs rule: index_steps.induct)
  case (1 i m inc)
  show ?case
  proof (cases "i < m")
    case True
    with 1(2) obtain ys where ys: "index_steps (i + inc) m inc = Some ys" "xs = i # ys" "0 < inc"
      by (auto simp: index_steps.simps [of i] split: if_splits)
    have IH: "int (length ys) = (if i + inc < m then (m - (i + inc) + inc - 1) div inc else 0)"
      using 1(1) True ys by simp
    have "m - i + inc - 1 = (m - i - 1) + 1 * inc" by simp
    then have d: "(m - i + inc - 1) div inc = (m - i - 1) div inc + 1"
      using ys(3) by (simp only: div_mult_self1 [of inc])
    show ?thesis
    proof (cases "i + inc < m")
      case True
      have "m - (i + inc) + inc - 1 = m - i - 1" by simp
      with True IH d \<open>i < m\<close> ys(2) show ?thesis by simp
    next
      case False
      then have "(m - i - 1) div inc = 0" using \<open>i < m\<close> by simp
      with False IH d \<open>i < m\<close> ys(2) show ?thesis by simp
    qed
  next
    case False
    then show ?thesis using 1(2) by (simp add: index_steps.simps [of i])
  qed
qed

lemma index_steps_total:
  "0 < inc \<Longrightarrow> \<exists>xs. index_steps i m inc = Some xs \<and> list_all (\<lambda>x. i \<le> x \<and> x < m) xs"
proof (induction i m inc rule: index_steps.induct)
  case (1 i m inc)
  show ?case
  proof (cases "i < m")
    case True
    with 1 obtain xs where "index_steps (i + inc) m inc = Some xs" "list_all (\<lambda>x. i + inc \<le> x \<and> x < m) xs" by auto
    with True 1(2) show ?thesis by (auto simp: index_steps.simps [of i] list_all_iff)
  next
    case False
    then show ?thesis by (simp add: index_steps.simps [of i])
  qed
qed

lemma positions:
  assumes "0 < inc" and "0 \<le> m"
  obtains xs where "index_steps 0 m inc = Some xs" and "int (length xs) = (m + inc - 1) div inc"
    and "list_all (\<lambda>x. 0 \<le> x \<and> x < m) xs"
proof -
  obtain xs where xs: "index_steps 0 m inc = Some xs" "list_all (\<lambda>x. 0 \<le> x \<and> x < m) xs"
    using index_steps_total [OF assms(1), of 0 m] by auto
  have "int (length xs) = (m + inc - 1) div inc"
    using index_steps_length [OF assms(1) xs(1)] assms by (cases "m = 0") auto
  with xs show thesis by (intro that)
qed

lemma collect_total:
  assumes "\<And>x. x \<in> set xs \<Longrightarrow> \<exists>y. f x = Some y \<and> P y"
  shows "\<exists>ys. collect f xs = Some ys \<and> length ys = length xs \<and> list_all P ys"
  using assms
proof (induction xs)
  case (Cons x xs)
  then obtain y ys where "f x = Some y" "P y" "collect f xs = Some ys" "length ys = length xs" "list_all P ys"
    by (metis list.set_intros)
  then show ?case by simp
qed simp

section \<open>Samples\<close>

definition int16 :: "int \<Rightarrow> bool" where
  "int16 x \<longleftrightarrow> - 32768 \<le> x \<and> x \<le> 32767"

lemma int16_s16 [simp]: "int16 (s16 x)"
  using s16_bounds [of x] by (simp add: int16_def)

lemma sat16: "int16 (silk_SAT16 a)"
  by (simp add: int16_def silk_SAT16_def)

lemma and_65535: "(x :: int) AND 65535 = x mod 65536"
  using take_bit_eq_mask [of 16 x] by (simp add: take_bit_eq_mod mask_eq_exp_minus_1)

lemma fraction_index:
  assumes "0 < n" and "n \<le> 12"
  shows "0 \<le> silk_SMULWB (x AND 65535) n" and "silk_SMULWB (x AND 65535) n < n"
proof -
  let ?f = "x mod 65536"
  have f: "0 \<le> ?f" "?f < 65536" by simp_all
  have n: "s16 n = n" using assms by (simp add: s16_id)
  have "?f * n < 65536 * n" using f(2) assms(1) by (rule mult_strict_right_mono)
  then have "?f * n div 65536 < n" by (simp add: int_div_less mult.commute)
  moreover have "0 \<le> ?f * n div 65536" using f assms by (simp add: pos_imp_zdiv_nonneg_iff)
  ultimately show "0 \<le> silk_SMULWB (x AND 65535) n" "silk_SMULWB (x AND 65535) n < n"
    using assms by (simp_all add: silk_SMULWB_def and_65535 n drop_bit_eq_div s32_id)
qed

lemma up2_branch_total:
  assumes "length cs = 3" and "length S = 3"
  shows "\<exists>y S'. up2_branch cs S x = Some (y, S') \<and> int16 y \<and> length S' = 3"
proof -
  obtain c0 c1 c2 where "cs = [c0, c1, c2]" using assms(1) by (auto simp: numeral_3_eq_3 length_Suc_conv)
  moreover obtain s0 s1 s2 where "S = [s0, s1, s2]" using assms(2) by (auto simp: numeral_3_eq_3 length_Suc_conv)
  ultimately show ?thesis by (simp add: up2_branch_def split_def Let_def sat16)
qed

lemma up2_total:
  "length S = 6 \<Longrightarrow> \<exists>out S'. silk_resampler_private_up2_HQ S xs = Some (out, S')
     \<and> length out = 2 * length xs \<and> list_all int16 out \<and> length S' = 6"
proof (induction xs arbitrary: S)
  case (Cons x xs)
  let ?in = "silk_LSHIFT x 10"
  obtain y0 S0 where 0: "up2_branch silk_resampler_up2_hq_0 (take 3 S) ?in = Some (y0, S0)" "int16 y0" "length S0 = 3"
    using up2_branch_total [of silk_resampler_up2_hq_0 "take 3 S" ?in] Cons.prems by (auto simp: silk_resampler_up2_hq_0_def)
  obtain y1 S1 where 1: "up2_branch silk_resampler_up2_hq_1 (drop 3 S) ?in = Some (y1, S1)" "int16 y1" "length S1 = 3"
    using up2_branch_total [of silk_resampler_up2_hq_1 "drop 3 S" ?in] Cons.prems by (auto simp: silk_resampler_up2_hq_1_def)
  have "length (S0 @ S1) = 6" using 0 1 by simp
  from Cons.IH [OF this] 0 1 show ?case by (auto simp: Let_def)
qed simp

lemma IIR_FIR_sample_total:
  assumes "length buf = 2 * n + 8" and "0 \<le> i" and "i < 131072 * int n"
  shows "\<exists>y. IIR_FIR_sample buf i = Some y \<and> int16 y"
proof -
  have "i div 65536 < 2 * int n" using assms(3) by (simp add: int_div_less)
  then have "nat (drop_bit 16 i) + 8 \<le> length buf" using assms(1) by (simp add: drop_bit_eq_div)
  then obtain b where b: "elems buf (nat (drop_bit 16 i)) 8 = Some b" by (simp add: elems_def)
  define t where "t = silk_SMULWB (i AND 65535) 12"
  have t: "0 \<le> t" "t < 12" using fraction_index [of 12 i] by (simp_all add: t_def)
  have "length silk_resampler_frac_FIR_12 = 12" by (simp add: silk_resampler_frac_FIR_12_def)
  then obtain c0 c1 where "elem silk_resampler_frac_FIR_12 t = Some c0" "elem silk_resampler_frac_FIR_12 (11 - t) = Some c1"
    using t by simp
  then show ?thesis using b by (simp add: IIR_FIR_sample_def Let_def sat16 flip: t_def)
qed

lemma down_FIR_sample_total:
  assumes buf: "length buf = n + nat fir_order" and i: "0 \<le> i" "i < 65536 * int n"
    and fo: "fir_order = 18 \<and> 0 < fracs \<and> fracs \<le> 3 \<and> 9 * nat fracs \<le> length cs
      \<or> fir_order \<in> {24, 36} \<and> nat fir_order div 2 \<le> length cs"
  shows "\<exists>y. down_FIR_sample buf cs fir_order fracs i = Some y \<and> int16 y"
proof -
  have "i div 65536 < int n" using i(2) by (simp add: int_div_less)
  moreover have "0 \<le> i div 65536" using i(1) by (simp add: pos_imp_zdiv_nonneg_iff)
  ultimately have "nat (silk_RSHIFT i 16) + nat fir_order \<le> length buf" using buf by (simp add: rshift_div)
  then obtain b where b: "elems buf (nat (silk_RSHIFT i 16)) (nat fir_order) = Some b" by (simp add: elems_def)
  consider "fir_order = 18" "0 < fracs" "fracs \<le> 3" "9 * nat fracs \<le> length cs"
    | "fir_order \<in> {24, 36}" "nat fir_order div 2 \<le> length cs" using fo by blast
  then show ?thesis
  proof cases
    case 1
    define t where "t = silk_SMULWB (i AND 65535) fracs"
    have t: "0 \<le> t" "t < fracs" using fraction_index [of fracs i] 1 by (simp_all add: t_def)
    have "9 * fracs \<le> int (length cs)" using 1(2,4) by linarith
    moreover have "9 * t + 9 \<le> 9 * fracs" "9 * (fracs - 1 - t) + 9 \<le> 9 * fracs" using t by simp_all
    ultimately have "9 * t + 9 \<le> int (length cs)" "9 * (fracs - 1 - t) + 9 \<le> int (length cs)" by linarith+
    moreover have "0 \<le> 9 * t" "0 \<le> 9 * (fracs - 1 - t)" using t by simp_all
    moreover have "nat a + 9 \<le> l" if "a + 9 \<le> int l" "0 \<le> a" for a :: int and l :: nat using that by linarith
    ultimately have "nat (9 * t) + 9 \<le> length cs" "nat (9 * (fracs - 1 - t)) + 9 \<le> length cs" by blast+
    then obtain c0 c1 where "elems cs (nat (9 * t)) 9 = Some c0" "elems cs (nat (9 * (fracs - 1 - t))) 9 = Some c1"
      by (simp add: elems_def)
    then show ?thesis using b 1(1) t by (simp add: down_FIR_sample_def Let_def sat16 flip: t_def)
  next
    case 2
    then obtain c where c: "elems cs 0 (nat fir_order div 2) = Some c" by (auto simp: elems_def)
    have "fir_order \<noteq> 18" "fir_order = 24 \<or> fir_order = 36" using 2(1) by auto
    then show ?thesis using b c by (simp add: down_FIR_sample_def Let_def sat16)
  qed
qed

section \<open>Configurations\<close>

text \<open>
  What the initialization has to establish: the number of output samples of \<open>k\<close>
  milliseconds is right for every \<open>k\<close> up to the ten of a batch.
\<close>

definition counts_ok :: "int \<Rightarrow> int \<Rightarrow> int \<Rightarrow> int \<Rightarrow> bool" where
  "counts_ok scale fs_in fs_out inc \<longleftrightarrow> 0 < inc
     \<and> list_all (\<lambda>k. (scale * (k * fs_in) + inc - 1) div inc = k * fs_out) [0, 1, 2, 3, 4, 5, 6, 7, 8, 9, 10]"

definition config_ok :: "silk_resampler_state_struct \<Rightarrow> bool" where
  "config_ok S \<longleftrightarrow> 8 \<le> Fs_in_kHz S \<and> Fs_in_kHz S \<le> 48 \<and> 0 < Fs_out_kHz S \<and> 0 \<le> inputDelay S \<and> inputDelay S \<le> Fs_in_kHz S
     \<and> batchSize S = 10 * Fs_in_kHz S
     \<and> (resampler_function S = 0 \<and> Fs_out_kHz S = Fs_in_kHz S
        \<or> resampler_function S = 1 \<and> Fs_out_kHz S = 2 * Fs_in_kHz S
        \<or> resampler_function S = 2 \<and> counts_ok 131072 (Fs_in_kHz S) (Fs_out_kHz S) (invRatio_Q16 S)
        \<or> resampler_function S = 3 \<and> counts_ok 65536 (Fs_in_kHz S) (Fs_out_kHz S) (invRatio_Q16 S)
           \<and> (FIR_Order S = 18 \<and> 0 < FIR_Fracs S \<and> FIR_Fracs S \<le> 3 \<and> 9 * nat (FIR_Fracs S) + 2 \<le> length (Coefs S)
              \<or> FIR_Order S \<in> {24, 36} \<and> nat (FIR_Order S) div 2 + 2 \<le> length (Coefs S)))"

definition rate_pairs :: "(bool \<times> int \<times> int) list" where
  "rate_pairs = map (Pair True) (List.product [8000, 12000, 16000, 24000, 48000] [8000, 12000, 16000])
     @ map (Pair False) (List.product [8000, 12000, 16000] [8000, 12000, 16000, 24000, 48000])"

lemma init_configs:
  "list_all (\<lambda>(forEnc, fin, fout). case silk_resampler_init fin fout forEnc of None \<Rightarrow> False
     | Some (ret, S) \<Rightarrow> ret = 0 \<and> config_ok S \<and> Fs_in_kHz S * 1000 = fin \<and> Fs_out_kHz S * 1000 = fout
         \<and> length (sIIR S) = 6 \<and> length (sFIR S) = 36 \<and> length (delayBuf S) = 48 \<and> list_all int16 (delayBuf S)) rate_pairs"
  by code_simp

section \<open>Blocks\<close>

definition milliseconds :: "int \<Rightarrow> nat \<Rightarrow> nat" where
  "milliseconds fs k = k * nat fs"

lemma counts_positions:
  assumes "counts_ok scale fs_in fs_out inc" and "k \<le> 10" and "0 < fs_in" and "0 < fs_out" and "0 < scale"
  obtains xs where "index_steps 0 (scale * int (milliseconds fs_in k)) inc = Some xs" and "length xs = milliseconds fs_out k"
    and "list_all (\<lambda>x. 0 \<le> x \<and> x < scale * int (milliseconds fs_in k)) xs"
proof -
  have inc: "0 < inc" and c: "list_all (\<lambda>k. (scale * (k * fs_in) + inc - 1) div inc = k * fs_out) [0, 1, 2, 3, 4, 5, 6, 7, 8, 9, 10]"
    using assms(1) by (simp_all only: counts_ok_def)
  have "int k \<in> set [0, 1, 2, 3, 4, 5, 6, 7, 8, 9, 10]" using assms(2) by (simp, presburger)
  with c have "(scale * (int k * fs_in) + inc - 1) div inc = int k * fs_out" unfolding list_all_iff by blast
  moreover have m: "int (milliseconds fs_in k) = int k * fs_in" "int (milliseconds fs_out k) = int k * fs_out"
    using assms(3,4) by (simp_all add: milliseconds_def)
  moreover have "0 \<le> scale * int (milliseconds fs_in k)" using assms(5) by simp
  ultimately show thesis using positions [OF inc] that by (metis of_nat_eq_iff)
qed

lemma IIR_FIR_block:
  assumes c: "counts_ok 131072 fs_in fs_out inc" and fs: "0 < fs_in" "fs_in \<le> 48" "0 < fs_out" and k: "k \<le> 10"
    and l: "length iir = 6" "length past = 8" "length ins = milliseconds fs_in k"
  obtains up iir' out past' where "silk_resampler_private_up2_HQ iir ins = Some (up, iir')" and "length iir' = 6"
    and "silk_resampler_private_IIR_FIR_INTERPOL (past @ up) (silk_LSHIFT (int (length ins)) 17) inc = Some out"
    and "length out = milliseconds fs_out k" and "list_all int16 out"
    and "elems (past @ up) (2 * length ins) 8 = Some past'" and "length past' = 8"
proof -
  obtain up iir' where up: "silk_resampler_private_up2_HQ iir ins = Some (up, iir')" "length up = 2 * length ins" "length iir' = 6"
    using up2_total [OF l(1)] by blast
  have "nat fs_in * k \<le> 48 * 10" using fs k by (intro mult_mono) simp_all
  then have n: "length ins \<le> 480" using l(3) by (simp add: milliseconds_def mult.commute)
  then have sh: "silk_LSHIFT (int (length ins)) 17 = 131072 * int (length ins)" by (simp add: lshift_mult)
  obtain xs where xs: "index_steps 0 (131072 * int (length ins)) inc = Some xs" "length xs = milliseconds fs_out k"
    "list_all (\<lambda>x. 0 \<le> x \<and> x < 131072 * int (length ins)) xs"
    using counts_positions [OF c k fs(1,3)] l(3) by auto
  have "length (past @ up) = 2 * length ins + 8" using up(2) l(2) by simp
  then have "\<exists>y. IIR_FIR_sample (past @ up) x = Some y \<and> int16 y" if "x \<in> set xs" for x
    using xs(3) that IIR_FIR_sample_total unfolding list_all_iff by blast
  from collect_total [where f = "IIR_FIR_sample (past @ up)" and P = int16, OF this] obtain out where
    out: "collect (IIR_FIR_sample (past @ up)) xs = Some out" "length out = length xs" "list_all int16 out" by blast
  have "silk_resampler_private_IIR_FIR_INTERPOL (past @ up) (silk_LSHIFT (int (length ins)) 17) inc = Some out"
    using out xs by (simp add: silk_resampler_private_IIR_FIR_INTERPOL_def sh)
  with up out xs l that show thesis by (simp add: elems_def)
qed

declare IIR_FIR_loop.simps [simp del] down_FIR_loop.simps [simp del]

lemma milliseconds_split:
  "0 < fs \<Longrightarrow> length ins = milliseconds fs m \<Longrightarrow> nat (min (int (length ins)) (10 * fs)) = milliseconds fs (min m 10)"
proof -
  assume fs: "0 < fs" and l: "length ins = milliseconds fs m"
  have "int (length ins) = int m * fs" using l fs by (simp add: milliseconds_def)
  moreover have "min (int m * fs) (10 * fs) = int (min m 10) * fs" using fs by (cases "m \<le> 10") (simp_all add: min_def)
  ultimately show ?thesis using fs by (simp add: milliseconds_def nat_mult_distrib)
qed

lemma IIR_FIR_loop_total:
  assumes c: "counts_ok 131072 fs_in fs_out inc" and fs: "0 < fs_in" "fs_in \<le> 48" "0 < fs_out"
  shows "length iir = 6 \<Longrightarrow> length past = 8 \<Longrightarrow> length ins = milliseconds fs_in m \<Longrightarrow>
    \<exists>out iir' past'. IIR_FIR_loop (10 * fs_in) inc iir past ins = Some (out, iir', past') \<and> length out = milliseconds fs_out m
      \<and> list_all int16 out \<and> length iir' = 6 \<and> length past' = 8"
proof (induction m arbitrary: iir past ins rule: less_induct)
  case (less m)
  let ?k = "min m 10" and ?n = "nat (min (int (length ins)) (10 * fs_in))"
  have n: "?n = milliseconds fs_in ?k" using fs(1) less.prems(3) by (rule milliseconds_split)
  have tk: "length (take ?n ins) = milliseconds fs_in ?k" using n less.prems(3) by (simp add: milliseconds_def)
  obtain up iir' out past' where b: "silk_resampler_private_up2_HQ iir (take ?n ins) = Some (up, iir')" "length iir' = 6"
    "silk_resampler_private_IIR_FIR_INTERPOL (past @ up) (silk_LSHIFT (int (length (take ?n ins))) 17) inc = Some out"
    "length out = milliseconds fs_out ?k" "list_all int16 out"
    "elems (past @ up) (2 * length (take ?n ins)) 8 = Some past'" "length past' = 8"
    by (rule IIR_FIR_block [OF c fs _ less.prems(1,2) tk]) simp
  have len: "length (take ?n ins) = ?n" using tk n by simp
  note loop = IIR_FIR_loop.simps [of "10 * fs_in" inc iir past ins]
  show ?case
  proof (cases "m \<le> 10")
    case True
    then have "\<not> length ins > ?n" using n less.prems(3) by simp
    then show ?thesis using b True unfolding len by (subst loop) (simp add: Let_def)
  next
    case False
    then have m: "m - 10 < m" "?n = 10 * nat fs_in" using n by (simp_all add: milliseconds_def)
    have "10 * nat fs_in < m * nat fs_in" using False fs(1) by (intro mult_strict_right_mono) simp_all
    then have more: "length ins > ?n" "?n \<noteq> 0" using m(2) less.prems(3) fs(1) by (simp_all add: milliseconds_def)
    have "length (drop ?n ins) = milliseconds fs_in (m - 10)" using m(2) less.prems(3) by (simp add: milliseconds_def diff_mult_distrib)
    from less.IH [OF m(1) b(2,7) this] obtain rest iir2 past2 where
      r: "IIR_FIR_loop (10 * fs_in) inc iir' past' (drop ?n ins) = Some (rest, iir2, past2)"
      "length rest = milliseconds fs_out (m - 10)" "list_all int16 rest" "length iir2 = 6" "length past2 = 8" by blast
    have "length (out @ rest) = milliseconds fs_out m"
      using b(4) r(2) False by (simp add: milliseconds_def flip: distrib_right)
    then show ?thesis using b r more unfolding len by (subst loop) (simp add: Let_def)
  qed
qed

lemma AR2_length: "length (fst (silk_resampler_private_AR2 A0 A1 S xs)) = length xs"
  by (induction A0 A1 S xs rule: silk_resampler_private_AR2.induct) (simp_all add: Let_def split_def)

definition down_ok :: "silk_resampler_state_struct \<Rightarrow> bool" where
  "down_ok S \<longleftrightarrow> 2 \<le> Fs_in_kHz S \<and> Fs_in_kHz S \<le> 48 \<and> 0 < Fs_out_kHz S \<and> batchSize S = 10 * Fs_in_kHz S
     \<and> counts_ok 65536 (Fs_in_kHz S) (Fs_out_kHz S) (invRatio_Q16 S)
     \<and> (FIR_Order S = 18 \<and> 0 < FIR_Fracs S \<and> FIR_Fracs S \<le> 3 \<and> 9 * nat (FIR_Fracs S) + 2 \<le> length (Coefs S)
       \<or> FIR_Order S \<in> {24, 36} \<and> nat (FIR_Order S) div 2 + 2 \<le> length (Coefs S))"

lemma down_FIR_block:
  assumes c: "down_ok S" and k: "k \<le> 10"
    and l: "length past = nat (FIR_Order S)" "length ins = milliseconds (Fs_in_kHz S) k"
    and f: "silk_resampler_private_AR2 A0 A1 iir ins = (filtered, iir')"
  obtains out past' where
    "silk_resampler_private_down_FIR_INTERPOL (past @ filtered) (drop 2 (Coefs S)) (FIR_Order S) (FIR_Fracs S)
       (silk_LSHIFT (int (length ins)) 16) (invRatio_Q16 S) = Some out"
    and "length out = milliseconds (Fs_out_kHz S) k" and "list_all int16 out"
    and "elems (past @ filtered) (length ins) (nat (FIR_Order S)) = Some past'" and "length past' = nat (FIR_Order S)"
proof -
  have fs: "0 < Fs_in_kHz S" "Fs_in_kHz S \<le> 48" "0 < Fs_out_kHz S"
    and ct: "counts_ok 65536 (Fs_in_kHz S) (Fs_out_kHz S) (invRatio_Q16 S)"
    and fo: "FIR_Order S = 18 \<and> 0 < FIR_Fracs S \<and> FIR_Fracs S \<le> 3 \<and> 9 * nat (FIR_Fracs S) \<le> length (drop 2 (Coefs S))
       \<or> FIR_Order S \<in> {24, 36} \<and> nat (FIR_Order S) div 2 \<le> length (drop 2 (Coefs S))"
    using c by (auto simp: down_ok_def)
  have "nat (Fs_in_kHz S) * k \<le> 48 * 10" using fs k by (intro mult_mono) simp_all
  then have n: "length ins \<le> 480" using l(2) by (simp add: milliseconds_def mult.commute)
  then have sh: "silk_LSHIFT (int (length ins)) 16 = 65536 * int (length ins)" by (simp add: lshift_mult)
  have lf: "length filtered = length ins" using AR2_length [of A0 A1 iir ins] f by simp
  obtain xs where xs: "index_steps 0 (65536 * int (length ins)) (invRatio_Q16 S) = Some xs" "length xs = milliseconds (Fs_out_kHz S) k"
    "list_all (\<lambda>x. 0 \<le> x \<and> x < 65536 * int (length ins)) xs"
    using counts_positions [OF ct k fs(1,3)] l(2) by auto
  let ?f = "down_FIR_sample (past @ filtered) (drop 2 (Coefs S)) (FIR_Order S) (FIR_Fracs S)"
  have "length (past @ filtered) = length ins + nat (FIR_Order S)" using lf l(1) by simp
  then have "\<exists>y. ?f x = Some y \<and> int16 y" if "x \<in> set xs" for x
    using xs(3) that fo down_FIR_sample_total unfolding list_all_iff by blast
  from collect_total [where f = ?f and P = int16, OF this] obtain out where
    out: "collect ?f xs = Some out" "length out = length xs" "list_all int16 out" by blast
  have "silk_resampler_private_down_FIR_INTERPOL (past @ filtered) (drop 2 (Coefs S)) (FIR_Order S) (FIR_Fracs S)
       (silk_LSHIFT (int (length ins)) 16) (invRatio_Q16 S) = Some out"
    using out xs by (simp add: silk_resampler_private_down_FIR_INTERPOL_def sh)
  moreover obtain past' where "elems (past @ filtered) (length ins) (nat (FIR_Order S)) = Some past'" "length past' = nat (FIR_Order S)"
    using lf l(1) by (simp add: elems_def)
  ultimately show thesis using that out(2,3) xs(2) by simp
qed

lemma down_FIR_loop_total:
  assumes c: "down_ok S"
  shows "length past = nat (FIR_Order S) \<Longrightarrow> length ins = milliseconds (Fs_in_kHz S) m \<Longrightarrow>
    \<exists>out iir' past'. down_FIR_loop S iir past ins = Some (out, iir', past') \<and> length out = milliseconds (Fs_out_kHz S) m
      \<and> list_all int16 out \<and> length past' = nat (FIR_Order S)"
proof (induction m arbitrary: iir past ins rule: less_induct)
  case (less m)
  let ?k = "min m 10"
  define n where "n = nat (min (int (length ins)) (batchSize S))"
  have "2 \<le> Fs_in_kHz S" and bs: "batchSize S = 10 * Fs_in_kHz S" using c by (simp_all add: down_ok_def)
  then have fs: "0 < Fs_in_kHz S" "2 \<le> nat (Fs_in_kHz S)" by linarith+
  have n: "n = milliseconds (Fs_in_kHz S) ?k" unfolding n_def bs by (rule milliseconds_split [OF fs(1) less.prems(2)])
  have tk: "length (take n ins) = milliseconds (Fs_in_kHz S) ?k" using n less.prems(2) by (simp add: milliseconds_def)
  have "2 \<le> length (Coefs S)" using c by (auto simp: down_ok_def)
  then have "elem (Coefs S) 0 = Some (Coefs S ! 0)" "elem (Coefs S) 1 = Some (Coefs S ! 1)" by (auto simp: elem_def)
  then obtain A0 A1 where A: "elem (Coefs S) 0 = Some A0" "elem (Coefs S) 1 = Some A1" by blast
  obtain filtered iir' where f: "silk_resampler_private_AR2 A0 A1 iir (take n ins) = (filtered, iir')" by (metis surj_pair)
  obtain out past' where b:
    "silk_resampler_private_down_FIR_INTERPOL (past @ filtered) (drop 2 (Coefs S)) (FIR_Order S) (FIR_Fracs S)
       (silk_LSHIFT (int (length (take n ins))) 16) (invRatio_Q16 S) = Some out"
    "length out = milliseconds (Fs_out_kHz S) ?k" "list_all int16 out"
    "elems (past @ filtered) (length (take n ins)) (nat (FIR_Order S)) = Some past'" "length past' = nat (FIR_Order S)"
    by (rule down_FIR_block [OF c _ less.prems(1) tk f]) simp
  have len: "length (take n ins) = n" using tk n by simp
  note loop = down_FIR_loop.simps [of S iir past ins, folded n_def]
  show ?case
  proof (cases "m \<le> 10")
    case True
    then have "\<not> length ins > n + 1" using n less.prems(2) by simp
    then show ?thesis using b True A f unfolding len by (subst loop) (simp add: Let_def)
  next
    case False
    then have m: "m - 10 < m" "n = 10 * nat (Fs_in_kHz S)" using n by (simp_all add: milliseconds_def)
    have "length ins = n + (m - 10) * nat (Fs_in_kHz S)" using m(2) less.prems(2) False by (simp add: milliseconds_def flip: distrib_right)
    moreover have "1 * 2 \<le> (m - 10) * nat (Fs_in_kHz S)" using False fs by (intro mult_mono) simp_all
    ultimately have rest: "length (drop n ins) = milliseconds (Fs_in_kHz S) (m - 10)" "length ins > n + 1" "n \<noteq> 0"
      using m(2) fs by (simp_all add: milliseconds_def)
    from less.IH [OF m(1) b(5) rest(1)] obtain rest' iir2 past2 where
      r: "down_FIR_loop S iir' past' (drop n ins) = Some (rest', iir2, past2)"
      "length rest' = milliseconds (Fs_out_kHz S) (m - 10)" "list_all int16 rest'" "length past2 = nat (FIR_Order S)" by blast
    have "length (out @ rest') = milliseconds (Fs_out_kHz S) m"
      using b(2) r(2) False by (simp add: milliseconds_def flip: distrib_right)
    then show ?thesis using b r rest(2,3) A f unfolding len by (subst loop) (simp add: Let_def)
  qed
qed

section \<open>The resampler\<close>

text \<open>The state of a resampler in use: what its buffers keep and what never changes.\<close>

definition resampler_ok :: "silk_resampler_state_struct \<Rightarrow> bool" where
  "resampler_ok S \<longleftrightarrow> config_ok S \<and> length (sIIR S) = 6 \<and> length (sFIR S) = 36 \<and> length (delayBuf S) = 48
     \<and> list_all int16 (delayBuf S)"

definition same_config :: "silk_resampler_state_struct \<Rightarrow> silk_resampler_state_struct \<Rightarrow> bool" where
  "same_config S S' \<longleftrightarrow> S' = S\<lparr>sIIR := sIIR S', sFIR := sFIR S', delayBuf := delayBuf S'\<rparr>"

lemma put_atI: "i + length xs \<le> length out \<Longrightarrow> put_at out i xs = Some (take i out @ xs @ drop (i + length xs) out)"
  by (simp add: put_at_def)

lemma resample_block_total:
  assumes ok: "resampler_ok S" and l: "length ins = milliseconds (Fs_in_kHz S) m" and v: "list_all int16 ins"
  shows "\<exists>out S'. resample_block S ins = Some (out, S') \<and> length out = milliseconds (Fs_out_kHz S) m \<and> list_all int16 out
    \<and> resampler_ok S' \<and> S' = S\<lparr>sIIR := sIIR S', sFIR := sFIR S'\<rparr>"
proof -
  let ?S = "\<lambda>iir fir. S\<lparr>sIIR := iir, sFIR := fir\<rparr>"
  have cf: "config_ok S" and len: "length (sIIR S) = 6" "length (sFIR S) = 36" using ok by (simp_all add: resampler_ok_def)
  have keep: "resampler_ok (?S iir fir)" if "length iir = 6" "length fir = 36" for iir fir
    using ok that by (simp add: resampler_ok_def config_ok_def)
  have self: "S = ?S (sIIR S) (sFIR S)" by simp
  consider "resampler_function S = 0" | "resampler_function S = 1" | "resampler_function S = 2" | "resampler_function S = 3"
    using cf unfolding config_ok_def by blast
  then show ?thesis
  proof cases
    case 1
    then have "Fs_out_kHz S = Fs_in_kHz S" using cf by (simp add: config_ok_def)
    then show ?thesis using 1 ok l v by (simp add: resample_block_def resampler_functions)
  next
    case 2
    then have fo: "Fs_out_kHz S = 2 * Fs_in_kHz S" using cf by (simp add: config_ok_def)
    obtain out iir where "silk_resampler_private_up2_HQ (sIIR S) ins = Some (out, iir)" "length out = 2 * length ins"
      "list_all int16 out" "length iir = 6" using up2_total [OF len(1)] by blast
    then show ?thesis using 2 l fo keep [of iir "sFIR S"] len
      by (auto simp: resample_block_def resampler_functions silk_resampler_private_up2_HQ_wrapper_def milliseconds_def)
  next
    case 3
    then have c: "counts_ok 131072 (Fs_in_kHz S) (Fs_out_kHz S) (invRatio_Q16 S)" "0 < Fs_in_kHz S" "Fs_in_kHz S \<le> 48"
      "0 < Fs_out_kHz S" and b: "batchSize S = 10 * Fs_in_kHz S" using cf by (simp_all add: config_ok_def)
    obtain past where past: "elems (sFIR S) 0 8 = Some past" "length past = 8" using len by (simp add: elems_def)
    from IIR_FIR_loop_total [OF c len(1) past(2) l] obtain out iir past' where
      r: "IIR_FIR_loop (batchSize S) (invRatio_Q16 S) (sIIR S) past ins = Some (out, iir, past')"
      "length out = milliseconds (Fs_out_kHz S) m" "list_all int16 out" "length iir = 6" "length past' = 8" unfolding b by blast
    have "put_at (sFIR S) 0 past' = Some (past' @ drop 8 (sFIR S))" using len r(5) by (simp add: put_atI)
    then show ?thesis using 3 past r keep [of iir "past' @ drop 8 (sFIR S)"] len
      by (simp add: resample_block_def resampler_functions silk_resampler_private_IIR_FIR_def)
  next
    case 4
    then have c: "down_ok S" using cf by (auto simp: config_ok_def down_ok_def)
    then have fo: "nat (FIR_Order S) \<le> 36" by (auto simp: down_ok_def)
    then obtain past where past: "elems (sFIR S) 0 (nat (FIR_Order S)) = Some past" "length past = nat (FIR_Order S)"
      using len by (simp add: elems_def)
    from down_FIR_loop_total [OF c past(2) l] obtain out iir past' where
      r: "down_FIR_loop S (sIIR S ! 0, sIIR S ! 1) past ins = Some (out, iir, past')"
      "length out = milliseconds (Fs_out_kHz S) m" "list_all int16 out" "length past' = nat (FIR_Order S)" by blast
    obtain a b where ab: "iir = (a, b)" by (cases iir)
    have "put_at (sFIR S) 0 past' = Some (past' @ drop (nat (FIR_Order S)) (sFIR S))" using len r(4) fo by (simp add: put_atI)
    moreover have "elem (sIIR S) 0 = Some (sIIR S ! 0)" "elem (sIIR S) 1 = Some (sIIR S ! 1)" using len by simp_all
    ultimately show ?thesis using 4 past r keep [of "(sIIR S)[0 := a, 1 := b]" "past' @ drop (nat (FIR_Order S)) (sFIR S)"] len fo
      by (simp add: resample_block_def resampler_functions silk_resampler_private_down_FIR_def ab)
  qed
qed

lemma init_ok:
  assumes "(forEnc, fin, fout) \<in> set rate_pairs"
  shows "\<exists>S. silk_resampler_init fin fout forEnc = Some (0, S) \<and> resampler_ok S
    \<and> Fs_in_kHz S * 1000 = fin \<and> Fs_out_kHz S * 1000 = fout"
proof -
  from init_configs assms have "case silk_resampler_init fin fout forEnc of None \<Rightarrow> False
     | Some (ret, S) \<Rightarrow> ret = 0 \<and> config_ok S \<and> Fs_in_kHz S * 1000 = fin \<and> Fs_out_kHz S * 1000 = fout
         \<and> length (sIIR S) = 6 \<and> length (sFIR S) = 36 \<and> length (delayBuf S) = 48 \<and> list_all int16 (delayBuf S)"
    unfolding list_all_iff by blast
  then show ?thesis by (cases "silk_resampler_init fin fout forEnc") (auto simp: resampler_ok_def)
qed

lemma elems_total: "i + n \<le> length xs \<Longrightarrow> \<exists>ys. elems xs i n = Some ys"
  by (simp add: elems_def)

lemma put_total: "i + length ys \<le> length xs \<Longrightarrow> \<exists>zs. put_at xs i ys = Some zs"
  by (simp add: put_at_def)

lemma int16_part: "list_all int16 xs \<Longrightarrow> elems xs i n = Some ys \<Longrightarrow> length ys = n \<and> list_all int16 ys"
  by (auto simp: elems_def list_all_iff split: if_splits dest!: in_set_takeD in_set_dropD)

lemma int16_put: "list_all int16 xs \<Longrightarrow> list_all int16 ys \<Longrightarrow> put_at xs i ys = Some zs \<Longrightarrow> length zs = length xs \<and> list_all int16 zs"
  by (auto simp: put_at_def list_all_iff split: if_splits dest!: in_set_takeD in_set_dropD)

lemma resampler_total:
  assumes ok: "resampler_ok S" and m: "1 \<le> m" and l: "length ins = milliseconds (Fs_in_kHz S) m" and v: "list_all int16 ins"
  obtains res S' where "\<And>out. length out = milliseconds (Fs_out_kHz S) m \<Longrightarrow> silk_resampler S out ins = Some (res, S')"
    and "length res = milliseconds (Fs_out_kHz S) m" and "list_all int16 res" and "resampler_ok S'" and "same_config S S'"
proof -
  have cf: "8 \<le> Fs_in_kHz S" "Fs_in_kHz S \<le> 48" "0 < Fs_out_kHz S" "0 \<le> inputDelay S" "inputDelay S \<le> Fs_in_kHz S"
    and db: "length (delayBuf S) = 48" "list_all int16 (delayBuf S)" using ok by (simp_all add: resampler_ok_def config_ok_def)
  define fs d where "fs = nat (Fs_in_kHz S)" and "d = nat (inputDelay S)"
  have fs: "Fs_in_kHz S = int fs" "inputDelay S = int d" "d \<le> fs" "fs \<le> 48" using cf by (auto simp: fs_def d_def)
  have "1 * fs \<le> m * fs" using m by (intro mult_right_mono) simp_all
  then have lm: "length ins = m * fs" "fs \<le> m * fs" using l by (simp_all add: milliseconds_def fs_def)
  have keep: "resampler_ok (T\<lparr>delayBuf := b\<rparr>)" if "resampler_ok T" "length b = 48" "list_all int16 b" for T b
    using that by (simp add: resampler_ok_def config_ok_def)
  have room: "0 + (fs - d) \<le> length ins" "fs - d + (length ins - fs) \<le> length ins" "length ins - d + d \<le> length ins"
    using lm fs by linarith+
  obtain first where e1: "elems ins 0 (fs - d) = Some first" using elems_total [OF room(1)] by blast
  note f1 = int16_part [OF v e1]
  obtain buf where p1: "put_at (delayBuf S) d first = Some buf" using put_total [of d first "delayBuf S"] f1 fs db by auto
  note b1 = int16_put [OF db(2) conjunct2 [OF f1] p1]
  obtain block where e2: "elems buf 0 fs = Some block" using elems_total [of 0 fs buf] b1 db fs by auto
  note f2 = int16_part [OF conjunct2 [OF b1] e2]
  let ?S1 = "S\<lparr>delayBuf := buf\<rparr>"
  have "resampler_ok ?S1" using ok b1 db by (intro keep) simp_all
  moreover have "length block = milliseconds (Fs_in_kHz ?S1) 1" using f2 by (simp add: milliseconds_def fs_def)
  ultimately obtain out1 S2 where r1: "resample_block ?S1 block = Some (out1, S2)" "length out1 = milliseconds (Fs_out_kHz S) 1"
    "list_all int16 out1" "resampler_ok S2" "S2 = ?S1\<lparr>sIIR := sIIR S2, sFIR := sFIR S2\<rparr>"
    using resample_block_total [of ?S1 block 1] f2 by auto
  have S2: "Fs_in_kHz S2 = Fs_in_kHz S" "Fs_out_kHz S2 = Fs_out_kHz S" "delayBuf S2 = buf"
    by (subst r1(5); simp)+
  obtain block2 where e3: "elems ins (fs - d) (length ins - fs) = Some block2" using elems_total [OF room(2)] by blast
  note f3 = int16_part [OF v e3]
  have "length block2 = milliseconds (Fs_in_kHz S2) (m - 1)"
    using f3 lm by (simp add: S2 milliseconds_def diff_mult_distrib flip: fs_def)
  from resample_block_total [OF r1(4) this conjunct2 [OF f3]] obtain out2 S3 where
    r2: "resample_block S2 block2 = Some (out2, S3)" "length out2 = milliseconds (Fs_out_kHz S) (m - 1)"
    "list_all int16 out2" "resampler_ok S3" "S3 = S2\<lparr>sIIR := sIIR S3, sFIR := sFIR S3\<rparr>" by (auto simp: S2)
  have S3: "delayBuf S3 = buf" "Fs_out_kHz S3 = Fs_out_kHz S" by (subst r2(5); simp add: S2)+
  obtain tail where e4: "elems ins (length ins - d) d = Some tail" using elems_total [OF room(3)] by blast
  note f4 = int16_part [OF v e4]
  obtain buf2 where p2: "put_at buf 0 tail = Some buf2" using put_total [of 0 tail buf] f4 fs b1 db by auto
  note b2 = int16_put [OF conjunct2 [OF b1] conjunct2 [OF f4] p2]
  have len: "length (out1 @ out2) = milliseconds (Fs_out_kHz S) m"
    using r1(2) r2(2) m by (cases m) (simp_all add: milliseconds_def)
  have "silk_resampler S out ins = Some (out1 @ out2, S3\<lparr>delayBuf := buf2\<rparr>)" if "length out = milliseconds (Fs_out_kHz S) m" for out
  proof -
    have "put_at out 0 out1 = Some (out1 @ drop (length out1) out)" using that len by (intro put_atI [of 0, simplified]) simp
    moreover have "put_at (out1 @ drop (length out1) out) (nat (Fs_out_kHz S)) out2 = Some (out1 @ out2)"
      using that len r1(2) m by (subst put_atI) (simp_all add: milliseconds_def)
    moreover have "nat (Fs_in_kHz S - inputDelay S) = fs - d" using fs by simp
    ultimately show ?thesis using e1 p1 e2 r1(1) e3 r2(1) e4 p2 S2 S3
      by (simp add: silk_resampler_def Let_def S3 flip: d_def fs_def)
  qed
  moreover have "same_config S (S3\<lparr>delayBuf := buf2\<rparr>)" unfolding same_config_def
    by (subst r2(5), subst r1(5)) simp
  moreover have "resampler_ok (S3\<lparr>delayBuf := buf2\<rparr>)" using r2(4) b2 b1 db by (intro keep) simp_all
  ultimately show thesis using that len r1(3) r2(3) by simp
qed

section \<open>Properties\<close>

lemma rate_pairs_iff: "(forEnc, fin, fout) \<in> set rate_pairs \<longleftrightarrow>
    (if forEnc then fin \<in> {8000, 12000, 16000, 24000, 48000} \<and> fout \<in> {8000, 12000, 16000}
     else fin \<in> {8000, 12000, 16000} \<and> fout \<in> {8000, 12000, 16000, 24000, 48000})"
proof -
  have "(forEnc, fin, fout) \<in> set rate_pairs \<longleftrightarrow>
     forEnc \<and> (fin, fout) \<in> set [8000, 12000, 16000, 24000, 48000] \<times> set [8000, 12000, 16000]
     \<or> \<not> forEnc \<and> (fin, fout) \<in> set [8000, 12000, 16000] \<times> set [8000, 12000, 16000, 24000, 48000]"
    unfolding rate_pairs_def set_append set_map set_product [symmetric] by blast
  then show ?thesis by (simp only: mem_Sigma_iff list.set if_bool_eq_disj)
qed

text \<open>
  C26. Initialization succeeds for exactly the pairs of rates of the codec, for the encoder
  and the decoder: there the loop that rounds the ratio up ends and the state is ready for
  use; for every other pair the error code is returned and the state is cleared.
\<close>

theorem resampler_init_rates:
  "if (forEnc, fin, fout) \<in> set rate_pairs
   then \<exists>S. silk_resampler_init fin fout forEnc = Some (0, S) \<and> resampler_ok S
     \<and> Fs_in_kHz S * 1000 = fin \<and> Fs_out_kHz S * 1000 = fout
   else silk_resampler_init fin fout forEnc = Some (- 1, resampler_cleared)"
proof (cases "(forEnc, fin, fout) \<in> set rate_pairs")
  case True
  then show ?thesis using init_ok by simp
next
  case False
  then have "input_delay forEnc fin fout = None" unfolding rate_pairs_iff by (cases forEnc) (simp_all add: input_delay_def)
  then show ?thesis using False by (simp add: silk_resampler_init_def)
qed

text \<open>
  C27. The resampler fills its output exactly: from any state in use, \<open>m\<close> milliseconds of
  input give \<open>m\<close> milliseconds of output. All loops end, nothing is read outside the buffers
  and the filter tables, nothing is written past the output array, the result does not depend
  on what the array held before, and the state can be used again at the same rates.
\<close>

theorem resampler_fills_output:
  assumes "resampler_ok S" and "1 \<le> m" and "length ins = m * nat (Fs_in_kHz S)" and "list_all int16 ins"
  shows "\<exists>res S'. (\<forall>out. length out = m * nat (Fs_out_kHz S) \<longrightarrow> silk_resampler S out ins = Some (res, S'))
    \<and> length res = m * nat (Fs_out_kHz S) \<and> list_all int16 res \<and> resampler_ok S' \<and> same_config S S'"
proof -
  obtain res S' where "\<And>out. length out = milliseconds (Fs_out_kHz S) m \<Longrightarrow> silk_resampler S out ins = Some (res, S')"
    and "length res = milliseconds (Fs_out_kHz S) m" "list_all int16 res" "resampler_ok S'" "same_config S S'"
    by (rule resampler_total [OF assms(1,2) _ assms(4)]) (use assms(3) in \<open>auto simp: milliseconds_def\<close>)
  then show ?thesis unfolding milliseconds_def by blast
qed

theorem resampler_fills_output_witness:
  "\<exists>S res S'. silk_resampler_init 12000 48000 False = Some (0, S)
    \<and> silk_resampler S (replicate 240 7) (replicate 60 (- 300)) = Some (res, S') \<and> length res = 240"
proof -
  have "(False, 12000, 48000) \<in> set rate_pairs" by (simp add: rate_pairs_def)
  then obtain S where S: "silk_resampler_init 12000 48000 False = Some (0, S)" "resampler_ok S"
    "Fs_in_kHz S = 12" "Fs_out_kHz S = 48" using init_ok [of False 12000 48000] by auto
  from resampler_fills_output [OF S(2), of 5 "replicate 60 (- 300)"] S show ?thesis by (auto simp: int16_def list_all_iff)
qed

end
