(* ===== verification/Silk_Math.thy ===== *)
theory Silk_Math
  imports Silk_Resampler
begin

text \<open>
  The approximations of SILK in integer arithmetic: logarithms (lin2log.c, log2lin.c),
  square root, division and inverse (silk/Inlines.h) and the macros they use. A division
  by zero is \<open>None\<close>.
\<close>

section \<open>Macros (silk/macros.h, silk/SigProc_FIX.h)\<close>

definition silk_int32_MAX :: int where "silk_int32_MAX = 2147483647"
definition silk_int32_MIN :: int where "silk_int32_MIN = - 2147483648"

definition silk_CLZ32 :: "int \<Rightarrow> int" where
  "silk_CLZ32 in32 = (if in32 \<noteq> 0 then 32 - ec_ilog (of_int in32) else 32)"

definition silk_ROR32 :: "int \<Rightarrow> int \<Rightarrow> int" where
  "silk_ROR32 a32 rot =
    (let x = of_int a32 :: u32
     in if rot = 0 then a32
        else if rot < 0 then s32 (uint (push_bit (nat (- rot)) x OR drop_bit (nat (32 + rot)) x))
        else s32 (uint (push_bit (nat (32 - rot)) x OR drop_bit (nat rot) x)))"

definition silk_SMMUL :: "int \<Rightarrow> int \<Rightarrow> int" where
  "silk_SMMUL a32 b32 = s32 (drop_bit 32 (a32 * b32))"

definition silk_SMLAWW :: "int \<Rightarrow> int \<Rightarrow> int \<Rightarrow> int" where
  "silk_SMLAWW a32 b32 c32 = s32 (a32 + drop_bit 16 (b32 * c32))"

definition silk_SUB32_ovflw :: "int \<Rightarrow> int \<Rightarrow> int" where
  "silk_SUB32_ovflw a b = s32 (a - b)"

definition silk_LSHIFT_SAT32 :: "int \<Rightarrow> nat \<Rightarrow> int" where
  "silk_LSHIFT_SAT32 a shift =
    silk_LSHIFT (silk_LIMIT a (silk_RSHIFT silk_int32_MIN shift) (silk_RSHIFT silk_int32_MAX shift)) shift"

definition silk_abs :: "int \<Rightarrow> int" where
  "silk_abs a = (if a > 0 then a else - a)"

section \<open>Square root, division and inverse (silk/Inlines.h)\<close>

text \<open>The number of leading zeros, and the seven bits after the leading one.\<close>

definition silk_CLZ_FRAC :: "int \<Rightarrow> int \<times> int" where
  "silk_CLZ_FRAC x = (let lzeros = silk_CLZ32 x in (lzeros, silk_ROR32 x (24 - lzeros) AND 127))"

definition silk_SQRT_APPROX :: "int \<Rightarrow> int" where
  "silk_SQRT_APPROX x =
    (if x \<le> 0 then 0
     else let (lz, frac_Q7) = silk_CLZ_FRAC x;
              y = (if lz AND 1 \<noteq> 0 then 32768 else 46214);
              y = drop_bit (nat (silk_RSHIFT lz 1)) y
          in silk_SMLAWB y y (silk_SMULBB 213 frac_Q7))"

definition silk_DIV32_varQ :: "int \<Rightarrow> int \<Rightarrow> int \<Rightarrow> int option" where
  "silk_DIV32_varQ a32 b32 Qres =
    (let a_headrm = silk_CLZ32 (silk_abs a32) - 1;
         a32_nrm = silk_LSHIFT a32 (nat a_headrm);
         b_headrm = silk_CLZ32 (silk_abs b32) - 1;
         b32_nrm = silk_LSHIFT b32 (nat b_headrm)
     in if silk_RSHIFT b32_nrm 16 = 0 then None
        else let b32_inv = cdiv (silk_RSHIFT silk_int32_MAX 2) (silk_RSHIFT b32_nrm 16);
                 result = silk_SMULWB a32_nrm b32_inv;
                 a32_nrm = silk_SUB32_ovflw a32_nrm (silk_LSHIFT (silk_SMMUL b32_nrm result) 3);
                 result = silk_SMLAWB result a32_nrm b32_inv;
                 lshift = 29 + a_headrm - b_headrm - Qres
             in Some (if lshift < 0 then silk_LSHIFT_SAT32 result (nat (- lshift))
                      else if lshift < 32 then silk_RSHIFT result (nat lshift) else 0))"

definition silk_INVERSE32_varQ :: "int \<Rightarrow> int \<Rightarrow> int option" where
  "silk_INVERSE32_varQ b32 Qres =
    (let b_headrm = silk_CLZ32 (silk_abs b32) - 1;
         b32_nrm = silk_LSHIFT b32 (nat b_headrm)
     in if silk_RSHIFT b32_nrm 16 = 0 then None
        else let b32_inv = cdiv (silk_RSHIFT silk_int32_MAX 2) (silk_RSHIFT b32_nrm 16);
                 result = silk_LSHIFT b32_inv 16;
                 err_Q32 = silk_LSHIFT (2 ^ 29 - silk_SMULWB b32_nrm b32_inv) 3;
                 result = silk_SMLAWW result err_Q32 b32_inv;
                 lshift = 61 - b_headrm - Qres
             in Some (if lshift \<le> 0 then silk_LSHIFT_SAT32 result (nat (- lshift))
                      else if lshift < 32 then silk_RSHIFT result (nat lshift) else 0))"

section \<open>Logarithms (lin2log.c, log2lin.c)\<close>

definition silk_lin2log :: "int \<Rightarrow> int" where
  "silk_lin2log inLin =
    (let (lz, frac_Q7) = silk_CLZ_FRAC inLin
     in silk_SMLAWB frac_Q7 (frac_Q7 * (128 - frac_Q7)) 179 + silk_LSHIFT (31 - lz) 7)"

definition silk_log2lin :: "int \<Rightarrow> int" where
  "silk_log2lin inLog_Q7 =
    (if inLog_Q7 < 0 then 0
     else if inLog_Q7 \<ge> 3967 then silk_int32_MAX
     else let out = silk_LSHIFT 1 (nat (silk_RSHIFT inLog_Q7 7));
              frac_Q7 = inLog_Q7 AND 127;
              interp = silk_SMLAWB frac_Q7 (silk_SMULBB frac_Q7 (128 - frac_Q7)) (- 174)
          in if inLog_Q7 < 2048 then out + silk_RSHIFT (out * interp) 7
             else out + silk_RSHIFT out 7 * interp)"

end
