(* ===== verification/Silk_Gains.thy ===== *)
theory Silk_Gains
  imports Silk_Math Silk_Indices_Safe
begin

text \<open>
  The quantizer of the gains of the subframes (gain_quant.c): scalar quantization on a
  logarithmic scale, the first gain by itself or relative to the last frame, the others as
  differences, with steps that double for a large increase.
\<close>

section \<open>Quantization (gain_quant.c)\<close>

definition N_LEVELS_QGAIN :: int where "N_LEVELS_QGAIN = 64"
definition MAX_DELTA_GAIN_QUANT :: int where "MAX_DELTA_GAIN_QUANT = 36"
definition MIN_DELTA_GAIN_QUANT :: int where "MIN_DELTA_GAIN_QUANT = - 4"
definition MIN_QGAIN_DB :: int where "MIN_QGAIN_DB = 2"
definition MAX_QGAIN_DB :: int where "MAX_QGAIN_DB = 88"

definition OFFSET :: int where
  "OFFSET = cdiv (MIN_QGAIN_DB * 128) 6 + 16 * 128"

definition SCALE_Q16 :: int where
  "SCALE_Q16 = cdiv (65536 * (N_LEVELS_QGAIN - 1)) (cdiv ((MAX_QGAIN_DB - MIN_QGAIN_DB) * 128) 6)"

definition INV_SCALE_Q16 :: int where
  "INV_SCALE_Q16 = cdiv (65536 * cdiv ((MAX_QGAIN_DB - MIN_QGAIN_DB) * 128) 6) (N_LEVELS_QGAIN - 1)"

text \<open>The gain of a level.\<close>

definition level_gain :: "int \<Rightarrow> int" where
  "level_gain prev_ind = silk_log2lin (min (silk_SMULWB INV_SCALE_Q16 prev_ind + OFFSET) 3967)"

text \<open>The level nearest to a gain, rounded towards the previous one.\<close>

definition gain_level :: "int \<Rightarrow> int \<Rightarrow> int" where
  "gain_level prev_ind gain =
    (let ind = s8 (silk_SMULWB SCALE_Q16 (silk_lin2log gain - OFFSET));
         ind = (if ind < prev_ind then s8 (ind + 1) else ind)
     in silk_LIMIT ind 0 (N_LEVELS_QGAIN - 1))"

definition double_step_size_threshold :: "int \<Rightarrow> int" where
  "double_step_size_threshold prev_ind = 2 * MAX_DELTA_GAIN_QUANT - N_LEVELS_QGAIN + prev_ind"

text \<open>One gain: the index and the level reached.\<close>

definition quant_gain :: "bool \<Rightarrow> int \<Rightarrow> int \<Rightarrow> int \<times> int" where
  "quant_gain full prev_ind gain =
    (let ind = gain_level prev_ind gain
     in if full then
          let ind = s8 (silk_LIMIT ind (prev_ind + MIN_DELTA_GAIN_QUANT) (N_LEVELS_QGAIN - 1))
          in (ind, ind)
        else
          let ind = s8 (ind - prev_ind);
              thr = double_step_size_threshold prev_ind;
              ind = (if ind > thr then s8 (thr + silk_RSHIFT (ind - thr + 1) 1) else ind);
              ind = silk_LIMIT ind MIN_DELTA_GAIN_QUANT MAX_DELTA_GAIN_QUANT;
              prev_ind = (if ind > thr
                then min (s8 (prev_ind + (silk_LSHIFT ind 1 - thr))) (N_LEVELS_QGAIN - 1)
                else s8 (prev_ind + ind))
          in (s8 (ind - MIN_DELTA_GAIN_QUANT), prev_ind))"

fun gains_quant_loop :: "bool \<Rightarrow> int \<Rightarrow> int list \<Rightarrow> int list \<times> int list \<times> int" where
  "gains_quant_loop full prev_ind [] = ([], [], prev_ind)"
| "gains_quant_loop full prev_ind (gain # gains) =
    (let (ind, prev_ind) = quant_gain full prev_ind gain;
         (inds, quantized, last_ind) = gains_quant_loop False prev_ind gains
     in (ind # inds, level_gain prev_ind # quantized, last_ind))"

text \<open>The first \<open>nb_subfr\<close> indices and quantized gains, and the index to remember.\<close>

definition silk_gains_quant :: "int list \<Rightarrow> int \<Rightarrow> bool \<Rightarrow> int \<Rightarrow> (int list \<times> int list \<times> int) option" where
  "silk_gains_quant gain_Q16 prev_ind conditional nb_subfr = do {
     gains \<leftarrow> elems gain_Q16 0 (nat nb_subfr);
     Some (gains_quant_loop (\<not> conditional) prev_ind gains)
   }"

definition dequant_gain :: "bool \<Rightarrow> int \<Rightarrow> int \<Rightarrow> int" where
  "dequant_gain full prev_ind ind =
    (let prev_ind =
       (if full then max ind (prev_ind - 16)
        else
          let ind_tmp = ind + MIN_DELTA_GAIN_QUANT;
              thr = double_step_size_threshold prev_ind
          in if ind_tmp > thr then prev_ind + (silk_LSHIFT ind_tmp 1 - thr) else prev_ind + ind_tmp)
     in silk_LIMIT (s8 prev_ind) 0 (N_LEVELS_QGAIN - 1))"

fun gains_dequant_loop :: "bool \<Rightarrow> int \<Rightarrow> int list \<Rightarrow> int list \<times> int" where
  "gains_dequant_loop full prev_ind [] = ([], prev_ind)"
| "gains_dequant_loop full prev_ind (ind # inds) =
    (let prev_ind = dequant_gain full prev_ind ind;
         (gains, last_ind) = gains_dequant_loop False prev_ind inds
     in (level_gain prev_ind # gains, last_ind))"

definition silk_gains_dequant :: "int list \<Rightarrow> int \<Rightarrow> bool \<Rightarrow> int \<Rightarrow> (int list \<times> int) option" where
  "silk_gains_dequant ind prev_ind conditional nb_subfr = do {
     inds \<leftarrow> elems ind 0 (nat nb_subfr);
     Some (gains_dequant_loop (\<not> conditional) prev_ind inds)
   }"

definition silk_gains_ID :: "int list \<Rightarrow> int \<Rightarrow> int option" where
  "silk_gains_ID ind nb_subfr = do {
     inds \<leftarrow> elems ind 0 (nat nb_subfr);
     Some (foldl (\<lambda>gainsID i. i + silk_LSHIFT gainsID 8) 0 inds)
   }"

section \<open>The decoder follows the encoder\<close>

lemmas gain_consts = N_LEVELS_QGAIN_def MAX_DELTA_GAIN_QUANT_def MIN_DELTA_GAIN_QUANT_def

definition level_ok :: "int \<Rightarrow> bool" where
  "level_ok p \<longleftrightarrow> 0 \<le> p \<and> p < 64"

lemma gain_level_ok: "level_ok (gain_level prev_ind gain)"
  by (simp add: gain_level_def level_ok_def gain_consts limit_bounds Let_def)

lemma quant_full:
  assumes "level_ok prev_ind" and "quant_gain True prev_ind gain = (ind, prev')"
  shows "0 \<le> ind" and "ind < 64" and "dequant_gain True prev_ind ind = prev'" and "level_ok prev'"
proof -
  define l where "l = gain_level prev_ind gain"
  have l: "0 \<le> l" "l < 64" using gain_level_ok [of prev_ind gain] by (simp_all add: l_def level_ok_def)
  have p: "0 \<le> prev_ind" "prev_ind < 64" using assms(1) by (simp_all add: level_ok_def)
  have e: "ind = max (prev_ind - 4) l" "prev' = ind"
    using assms(2) l p by (simp_all add: quant_gain_def gain_consts limit_bounds s8_id Let_def max_def min_def split: if_splits flip: l_def)
  show "0 \<le> ind" "ind < 64" "level_ok prev'" using e l p by (auto simp: level_ok_def)
  show "dequant_gain True prev_ind ind = prev'" using e l p
    by (simp add: dequant_gain_def gain_consts limit_bounds s8_id)
qed

lemma quant_delta:
  assumes "level_ok prev_ind" and "quant_gain False prev_ind gain = (ind, prev')"
  shows "0 \<le> ind" and "ind < 41" and "dequant_gain False prev_ind ind = prev'" and "level_ok prev'"
proof -
  define l where "l = gain_level prev_ind gain"
  have l: "0 \<le> l" "l < 64" using gain_level_ok [of prev_ind gain] by (simp_all add: l_def level_ok_def)
  have p: "0 \<le> prev_ind" "prev_ind < 64" using assms(1) by (simp_all add: level_ok_def)
  define thr where "thr = 8 + prev_ind"
  have thr: "double_step_size_threshold prev_ind = thr" by (simp add: double_step_size_threshold_def gain_consts thr_def)
  define a where "a = (if l - prev_ind > thr then thr + (l - prev_ind - thr + 1) div 2 else l - prev_ind)"
  define b where "b = max (- 4) (min 36 a)"
  have a: "a \<le> l - prev_ind" "- prev_ind \<le> a" "- 63 \<le> a" "a \<le> 63" "a > thr \<longrightarrow> 2 * a - thr \<le> l - prev_ind + 1"
    using l p by (auto simp: a_def thr_def split: if_splits)
  have b: "- 4 \<le> b" "b \<le> 36" by (simp_all add: b_def)
  define q where "q = (if b > thr then min (prev_ind + (2 * b - thr)) 63 else prev_ind + b)"
  have q: "0 \<le> q" "q \<le> 63" using l p a by (auto simp: q_def b_def thr_def max_def min_def split: if_splits)
  have s: "s8 (l - prev_ind) = l - prev_ind" using l p by (simp add: s8_id)
  have s2: "s8 (thr + (l - prev_ind - thr + 1) div 2) = thr + (l - prev_ind - thr + 1) div 2" if "l - prev_ind > thr"
    using that l p by (simp add: thr_def s8_id)
  have sh: "silk_LSHIFT b 1 = 2 * b" using b by (simp add: lshift_mult)
  have s3: "s8 (prev_ind + (2 * b - thr)) = prev_ind + (2 * b - thr)" "s8 (prev_ind + b) = prev_ind + b" "s8 (b + 4) = b + 4"
    using b p by (simp_all add: thr_def s8_id)
  have A: "(if l - prev_ind > thr then s8 (thr + silk_RSHIFT (l - prev_ind - thr + 1) 1) else l - prev_ind) = a"
    using s2 by (simp add: a_def rshift_div)
  have B: "silk_LIMIT a MIN_DELTA_GAIN_QUANT MAX_DELTA_GAIN_QUANT = b" by (simp add: b_def gain_consts limit_bounds)
  have "quant_gain False prev_ind gain = (s8 (b + 4), if b > thr then min (s8 (prev_ind + (2 * b - thr))) 63 else s8 (prev_ind + b))"
    unfolding quant_gain_def Let_def if_False l_def [symmetric] thr s A B sh by (simp add: gain_consts)
  then have e: "ind = b + 4" "prev' = q" using assms(2) by (simp_all add: s3 q_def)
  show "0 \<le> ind" "ind < 41" "level_ok prev'" using e b q by (auto simp: level_ok_def)
  have "s8 q = q" using q by (simp add: s8_id)
  moreover have "silk_LIMIT (prev_ind + (2 * b - thr)) 0 63 = q" if "b > thr"
    using that q b p by (simp add: q_def limit_bounds thr_def)
  moreover have "silk_LIMIT q 0 63 = q" using q by (simp add: limit_bounds)
  ultimately show "dequant_gain False prev_ind ind = prev'"
    using sh s3 by (cases "b > thr") (simp_all add: dequant_gain_def Let_def thr e gain_consts q_def)
qed

lemma quant_loop:
  "level_ok prev_ind \<Longrightarrow> gains_quant_loop full prev_ind gains = (inds, quantized, last_ind) \<Longrightarrow>
     gains_dequant_loop full prev_ind inds = (quantized, last_ind) \<and> level_ok last_ind \<and> length inds = length gains
     \<and> all_below 41 (if full then drop 1 inds else inds)
     \<and> (gains \<noteq> [] \<longrightarrow> 0 \<le> inds ! 0 \<and> inds ! 0 < 64)"
proof (induction full prev_ind gains arbitrary: inds quantized last_ind rule: gains_quant_loop.induct)
  case (1 full prev_ind)
  then show ?case by (simp add: all_below_def)
next
  case (2 full prev_ind gain gains)
  obtain ind p where q: "quant_gain full prev_ind gain = (ind, p)" by (cases "quant_gain full prev_ind gain")
  obtain js qs l where r: "gains_quant_loop False p gains = (js, qs, l)" by (metis prod_cases3)
  have e: "inds = ind # js" "quantized = level_gain p # qs" "last_ind = l" using 2(3) q r by (simp_all add: Let_def)
  have one: "dequant_gain full prev_ind ind = p" "level_ok p" "0 \<le> ind" "ind < (if full then 64 else 41)"
    using quant_full [OF 2(2)] quant_delta [OF 2(2)] q by (cases full; auto)+
  from 2(1) [OF q [symmetric] refl one(2) r] have ih: "gains_dequant_loop False p js = (qs, l)" "level_ok l"
    "length js = length gains" "all_below 41 js" by simp_all
  show ?case using one ih by (auto simp: e all_below_def split: if_splits)
qed

section \<open>Properties\<close>

text \<open>
  C28. The decoder reconstructs the gains that the encoder quantized: from the same previous
  level, for independent and conditional coding and whatever the gains are, the indices are
  ones the bitstream can carry, dequantizing them gives exactly the gains the encoder put in
  place of its own, and both remember the same level for the next frame.
\<close>

theorem gains_decoder_follows:
  assumes "level_ok prev_ind" and "nb \<in> {2, 4}" and "length gains = 4"
  shows "\<exists>inds quantized last_ind. silk_gains_quant gains prev_ind conditional nb = Some (inds, quantized, last_ind)
    \<and> silk_gains_dequant inds prev_ind conditional nb = Some (quantized, last_ind) \<and> level_ok last_ind
    \<and> gains_ok nb (if conditional then 2 else 0) (inds @ replicate (4 - nat nb) 0)"
proof -
  obtain gs where gs: "elems gains 0 (nat nb) = Some gs" "length gs = nat nb" using assms(2,3) by (auto simp: elems_def)
  obtain inds qs l where q: "gains_quant_loop (\<not> conditional) prev_ind gs = (inds, qs, l)" by (metis prod_cases3)
  note f = quant_loop [OF assms(1) q]
  have len: "length inds = nat nb" "gs \<noteq> []" "inds \<noteq> []" using f gs(2) assms(2) by auto
  have "gains_ok nb (if conditional then 2 else 0) (inds @ replicate (4 - nat nb) 0)"
    using f len assms(2) by (cases inds) (auto simp: gains_ok_def all_below_def nth_append split: if_splits)
  then show ?thesis using f q gs len by (simp add: silk_gains_quant_def silk_gains_dequant_def elems_def)
qed

theorem gains_decoder_follows_witness:
  "\<exists>inds quantized last_ind. silk_gains_quant [100000, 65536, 900000000, 1] 10 True 4 = Some (inds, quantized, last_ind)
    \<and> silk_gains_dequant inds 10 True 4 = Some (quantized, last_ind)"
  using gains_decoder_follows [of 10 4 "[100000, 65536, 900000000, 1]" True] by (auto simp: level_ok_def)

lemma level_gains:
  "list_all (\<lambda>p. level_gain p < level_gain (p + 1)) (map int [0..<63])" "level_gain 0 = 81920" "level_gain 63 = 1686110208"
  by code_simp+

lemma level_gain_step: "0 \<le> p \<Longrightarrow> p < 63 \<Longrightarrow> level_gain p < level_gain (p + 1)"
proof -
  assume "0 \<le> p" "p < 63"
  then have "p \<in> set (map int [0..<63])" by (simp, intro image_eqI [of _ _ "nat p"]) auto
  then show ?thesis using level_gains(1) unfolding list_all_iff by blast
qed

lemma level_gain_mono: "0 \<le> p \<Longrightarrow> p < 64 \<Longrightarrow> q = p + int n \<Longrightarrow> q < 64 \<Longrightarrow> level_gain p + int n \<le> level_gain q"
proof (induction n arbitrary: q)
  case (Suc n)
  then have "level_gain p + int n \<le> level_gain (q - 1)" by simp
  moreover have "level_gain (q - 1) < level_gain (q - 1 + 1)" using Suc.prems by (intro level_gain_step) simp_all
  ultimately show ?case by simp
qed simp

lemma dequant_gain_ok: "level_ok (dequant_gain full prev_ind ind)"
  by (simp add: dequant_gain_def level_ok_def gain_consts limit_bounds Let_def)

lemma level_gain_bounds: "level_ok p \<Longrightarrow> 81920 \<le> level_gain p \<and> level_gain p \<le> 1686110208"
  using level_gain_mono [of 0 p "nat p"] level_gain_mono [of p 63 "nat (63 - p)"] level_gains(2,3)
  by (simp add: level_ok_def)

lemma dequant_loop_bounds:
  "gains_dequant_loop full prev_ind inds = (gains, last_ind) \<Longrightarrow> length gains = length inds
     \<and> list_all (\<lambda>g. 81920 \<le> g \<and> g \<le> 1686110208) gains \<and> (level_ok prev_ind \<longrightarrow> level_ok last_ind)"
proof (induction full prev_ind inds arbitrary: gains last_ind rule: gains_dequant_loop.induct)
  case (2 full prev_ind ind inds)
  obtain gs l where r: "gains_dequant_loop False (dequant_gain full prev_ind ind) inds = (gs, l)" by fastforce
  from 2(1) [OF refl r] 2(2) r show ?case
    using dequant_gain_ok [of full prev_ind ind] level_gain_bounds [OF dequant_gain_ok, of full prev_ind ind] by (auto simp: Let_def)
qed simp

text \<open>
  C29. Dequantized gains are within the range of the format, 81920 to 1686110208, for all
  indices that can be read and any previous level, and the 64 levels are strictly
  increasing gains.
\<close>

theorem dequantized_gains_bounds:
  assumes "silk_gains_dequant inds prev_ind conditional nb = Some (gains, last_ind)"
  shows "length gains = nat nb \<and> list_all (\<lambda>g. 81920 \<le> g \<and> g \<le> 1686110208) gains \<and> (level_ok prev_ind \<longrightarrow> level_ok last_ind)
    \<and> list_all (\<lambda>p. level_gain p < level_gain (p + 1)) (map int [0..<63])"
proof -
  obtain js where e: "elems inds 0 (nat nb) = Some js" "gains_dequant_loop (\<not> conditional) prev_ind js = (gains, last_ind)"
    using assms by (auto simp: silk_gains_dequant_def bind_eq_Some_conv)
  have len: "length js = nat nb" using e(1) by (auto simp: elems_def split: if_splits)
  note b = dequant_loop_bounds [OF e(2), unfolded len]
  show ?thesis
    by (intro conjI, rule b [THEN conjunct1], rule b [THEN conjunct2, THEN conjunct1],
        rule b [THEN conjunct2, THEN conjunct2], rule level_gains(1))
qed

theorem dequantized_gains_bounds_witness:
  "\<exists>gains last_ind. silk_gains_dequant [127, 40, 0, 3] 63 True 4 = Some (gains, last_ind) \<and> length gains = 4
    \<and> list_all (\<lambda>g. 81920 \<le> g \<and> g \<le> 1686110208) gains \<and> level_ok last_ind"
proof -
  obtain gains last_ind where d: "silk_gains_dequant [127, 40, 0, 3] 63 True 4 = Some (gains, last_ind)"
    by (cases "gains_dequant_loop False 63 [127, 40, 0, 3]") (simp add: silk_gains_dequant_def elems_def)
  from dequantized_gains_bounds [OF d] d show ?thesis by (simp add: level_ok_def)
qed

end
