(* ===== verification/Silk_NLSF.thy ===== *)
theory Silk_NLSF
  imports Silk_Math Silk_Indices_Safe Silk_Resampler_Correct "HOL-Library.Multiset"
begin

text \<open>
  Line spectral frequencies: insertion sort (sort.c), the stabilizer that keeps a minimum
  distance between the frequencies (NLSF_stabilize.c) and the decoder of a coded vector
  (NLSF_decode.c).
\<close>

section \<open>Insertion sort (sort.c)\<close>

text \<open>The inner loop: \<open>value\<close> moves down from position \<open>j\<close>.\<close>

fun sift_down :: "int list \<Rightarrow> int \<Rightarrow> nat \<Rightarrow> int list" where
  "sift_down a v 0 = a[0 := v]"
| "sift_down a v (Suc j) = (if v < a ! j then sift_down (a[Suc j := a ! j]) v j else a[Suc j := v])"

definition silk_insertion_sort_increasing_all_values_int16 :: "int list \<Rightarrow> nat \<Rightarrow> int list" where
  "silk_insertion_sort_increasing_all_values_int16 a L = foldl (\<lambda>a i. sift_down a (a ! i) i) a [1..<L]"

lemma sift_down_sorted:
  "sorted (take j a) \<Longrightarrow> j < length a \<Longrightarrow> length (sift_down a v j) = length a
     \<and> drop (Suc j) (sift_down a v j) = drop (Suc j) a \<and> sorted (take (Suc j) (sift_down a v j))
     \<and> mset (take (Suc j) (sift_down a v j)) = add_mset v (mset (take j a))"
proof (induction j arbitrary: a)
  case 0
  then show ?case by (cases a) simp_all
next
  case (Suc j)
  have tk: "take (Suc j) a = take j a @ [a ! j]" using Suc.prems(2) by (simp add: take_Suc_conv_app_nth)
  then have srt: "sorted (take j a)" "\<forall>x \<in> set (take j a). x \<le> a ! j"
    using Suc.prems(1) by (simp_all add: sorted_append)
  show ?case
  proof (cases "v < a ! j")
    case True
    let ?a = "a[Suc j := a ! j]" and ?r = "sift_down (a[Suc j := a ! j]) v j"
    have "sorted (take j ?a)" "j < length ?a" using srt Suc.prems(2) by simp_all
    from Suc.IH [OF this] have r: "length ?r = length a" "drop (Suc j) ?r = drop (Suc j) ?a" "sorted (take (Suc j) ?r)"
      "mset (take (Suc j) ?r) = add_mset v (mset (take j a))" by simp_all
    have "?r ! Suc j = drop (Suc j) ?r ! 0" using r(1) Suc.prems(2) by simp
    also have "\<dots> = a ! j" using r(2) Suc.prems(2) by simp
    finally have tk2: "take (Suc (Suc j)) ?r = take (Suc j) ?r @ [a ! j]"
      using r(1) Suc.prems(2) by (simp add: take_Suc_conv_app_nth)
    have "set (take (Suc j) ?r) = insert v (set (take j a))" using r(4) by (metis set_mset_add_mset_insert set_mset_mset)
    then have "sorted (take (Suc (Suc j)) ?r)" using tk2 r(3) srt True by (auto simp: sorted_append)
    moreover have "drop (Suc (Suc j)) ?r = drop (Suc (Suc j)) a"
      using arg_cong [OF r(2), of "drop 1"] by simp
    ultimately show ?thesis using True r tk tk2 by simp
  next
    case False
    have t: "take (Suc (Suc j)) (a[Suc j := v]) = take (Suc j) a @ [v]"
      using Suc.prems(2) by (simp add: take_Suc_conv_app_nth [of "Suc j"])
    have "sorted (take (Suc j) a @ [v])" using Suc.prems(1) False srt tk by (auto simp: sorted_append)
    then show ?thesis using False t by simp
  qed
qed

lemma sort_prefix:
  "n < length a \<Longrightarrow> let r = foldl (\<lambda>a i. sift_down a (a ! i) i) a [1..<Suc n]
     in length r = length a \<and> sorted (take (Suc n) r) \<and> mset (take (Suc n) r) = mset (take (Suc n) a) \<and> drop (Suc n) r = drop (Suc n) a"
proof (induction n)
  case 0
  then show ?case by (cases a) simp_all
next
  case (Suc n)
  let ?r = "foldl (\<lambda>a i. sift_down a (a ! i) i) a [1..<Suc n]"
  have ih: "length ?r = length a" "sorted (take (Suc n) ?r)" "mset (take (Suc n) ?r) = mset (take (Suc n) a)" "drop (Suc n) ?r = drop (Suc n) a"
    using Suc by (simp_all add: Let_def)
  have "?r ! Suc n = drop (Suc n) ?r ! 0" using ih(1) Suc.prems by simp
  also have "\<dots> = a ! Suc n" using ih(4) Suc.prems by simp
  finally have v: "?r ! Suc n = a ! Suc n" .
  have "drop (Suc (Suc n)) ?r = drop (Suc (Suc n)) a" using arg_cong [OF ih(4), of "drop 1"] by simp
  moreover have "foldl (\<lambda>a i. sift_down a (a ! i) i) a [1..<Suc (Suc n)] = sift_down ?r (a ! Suc n) (Suc n)"
    using v by simp
  moreover have "mset (take (Suc (Suc n)) a) = add_mset (a ! Suc n) (mset (take (Suc n) a))"
    using Suc.prems by (simp add: take_Suc_conv_app_nth [of "Suc n"])
  ultimately show ?case using sift_down_sorted [OF ih(2), of "a ! Suc n"] ih(1,3) Suc.prems by (simp only: Let_def)
qed

lemma insertion_sort:
  assumes "1 \<le> L" and "length a = L"
  shows "silk_insertion_sort_increasing_all_values_int16 a L = sort a"
proof -
  obtain n where n: "L = Suc n" using assms(1) by (cases L) auto
  have "n < length a" using assms(2) n by simp
  define r where "r = foldl (\<lambda>a i. sift_down a (a ! i) i) a [1..<Suc n]"
  from sort_prefix [OF \<open>n < length a\<close>, folded r_def] have "length r = length a" "sorted (take (Suc n) r)"
    "mset (take (Suc n) r) = mset (take (Suc n) a)" by (simp_all only: Let_def)
  then have "sorted r" "mset r = mset a" using assms(2) n by simp_all
  moreover have "silk_insertion_sort_increasing_all_values_int16 a L = r"
    by (simp only: silk_insertion_sort_increasing_all_values_int16_def r_def n)
  ultimately show ?thesis by (metis properties_for_sort)
qed

section \<open>The stabilizer (NLSF_stabilize.c)\<close>

definition silk_ADD_SAT16 :: "int \<Rightarrow> int \<Rightarrow> int" where
  "silk_ADD_SAT16 a b = s16 (silk_SAT16 (a + b))"

text \<open>
  The distances that are left between the frequencies, from the lower limit on and up to
  the upper limit, and the first of the smallest with its position.
\<close>

fun NLSF_distances :: "int \<Rightarrow> int list \<Rightarrow> int list \<Rightarrow> int list" where
  "NLSF_distances low (d # ds) (x # xs) = (x - (low + d)) # NLSF_distances x ds xs"
| "NLSF_distances low (d # ds) [] = [32768 - (low + d)]"
| "NLSF_distances low [] xs = []"

definition smallest_distance :: "int list \<Rightarrow> int \<times> nat" where
  "smallest_distance ds = foldl (\<lambda>(m, I) i. if ds ! i < m then (ds ! i, i) else (m, I)) (ds ! 0, 0) [1..<length ds]"

text \<open>One correction at position \<open>I\<close>.\<close>

definition NLSF_move :: "int list \<Rightarrow> int list \<Rightarrow> nat \<Rightarrow> int list" where
  "NLSF_move dmin xs I =
    (let L = length xs in
     if I = 0 then xs[0 := dmin ! 0]
     else if I = L then xs[L - 1 := s16 (32768 - dmin ! L)]
     else
       let min_center = sum_list (take I dmin) + silk_RSHIFT (dmin ! I) 1;
           max_center = 32768 - sum_list (drop (I + 1) dmin) - silk_RSHIFT (dmin ! I) 1;
           center = s16 (silk_LIMIT (silk_RSHIFT_ROUND (xs ! (I - 1) + xs ! I) 1) min_center max_center);
           below = s16 (center - silk_RSHIFT (dmin ! I) 1)
       in xs[I - 1 := below, I := s16 (below + dmin ! I)])"

text \<open>The loop of at most \<open>n\<close> corrections: whether it ended with distances that are large enough.\<close>

fun stabilize_loop :: "nat \<Rightarrow> int list \<Rightarrow> int list \<Rightarrow> bool \<times> int list" where
  "stabilize_loop 0 dmin xs = (False, xs)"
| "stabilize_loop (Suc n) dmin xs =
    (let (min_diff, I) = smallest_distance (NLSF_distances 0 dmin xs)
     in if min_diff \<ge> 0 then (True, xs) else stabilize_loop n dmin (NLSF_move dmin xs I))"

text \<open>The fall back: upwards from the second frequency, then down from the last.\<close>

fun widen_up :: "int \<Rightarrow> int list \<Rightarrow> int list \<Rightarrow> int list" where
  "widen_up low (d # ds) (x # xs) = (let y = s16 (max x (silk_ADD_SAT16 low d)) in y # widen_up y ds xs)"
| "widen_up low ds xs = []"

fun narrow_down :: "int list \<Rightarrow> int list \<Rightarrow> int list" where
  "narrow_down (d # ds) [x] = [s16 (min x (32768 - d))]"
| "narrow_down (d # ds) (x # xs) = (let ys = narrow_down ds xs in s16 (min x (hd ys - d)) # ys)"
| "narrow_down ds xs = []"

definition stabilize_fallback :: "int list \<Rightarrow> int list \<Rightarrow> int list" where
  "stabilize_fallback dmin xs =
    (case silk_insertion_sort_increasing_all_values_int16 xs (length xs) of
       [] \<Rightarrow> []
     | x # rest \<Rightarrow>
         let first = s16 (max x (dmin ! 0))
         in narrow_down (drop 1 dmin) (first # widen_up first (drop 1 dmin) rest))"

text \<open>The \<open>L\<close> frequencies; \<open>None\<close> when one of the arrays is not of the length the code reads.\<close>

definition silk_NLSF_stabilize :: "int list \<Rightarrow> int list \<Rightarrow> nat \<Rightarrow> int list option" where
  "silk_NLSF_stabilize xs dmin L =
    (if L = 0 \<or> length xs \<noteq> L \<or> length dmin \<noteq> L + 1 then None
     else case stabilize_loop 20 dmin xs of
       (True, xs) \<Rightarrow> Some xs
     | (False, xs) \<Rightarrow> Some (stabilize_fallback dmin xs))"

section \<open>The stabilizer succeeds\<close>

text \<open>Frequencies that keep the minimum distances, between the lower limit and the upper one.\<close>

fun spaced :: "int \<Rightarrow> int list \<Rightarrow> int list \<Rightarrow> bool" where
  "spaced low (d # ds) (x # xs) \<longleftrightarrow> low + d \<le> x \<and> spaced x ds xs"
| "spaced low [d] [] \<longleftrightarrow> low + d \<le> 32768"
| "spaced low ds xs \<longleftrightarrow> False"

text \<open>Minimum distances that leave room.\<close>

definition distances_ok :: "int list \<Rightarrow> bool" where
  "distances_ok dmin \<longleftrightarrow> dmin \<noteq> [] \<and> list_all int16 dmin \<and> list_all (\<lambda>d. 0 \<le> d) dmin \<and> 1 \<le> last dmin \<and> sum_list dmin \<le> 32768"

lemma spaced_distances:
  "length ds = length xs + 1 \<Longrightarrow> list_all (\<lambda>m. 0 \<le> m) (NLSF_distances low ds xs) \<Longrightarrow> spaced low ds xs"
proof (induction low ds xs rule: NLSF_distances.induct)
  case (2 low d ds)
  then show ?case by simp
qed simp_all

lemma smallest_least:
  assumes "ds \<noteq> []"
  shows "list_all (\<lambda>d. fst (smallest_distance ds) \<le> d) ds"
proof -
  let ?f = "\<lambda>(m, I) i. if ds ! i < m then (ds ! i, i) else (m, I)"
  have "\<forall>i < n. fst (foldl ?f (ds ! 0, 0) [1..<n]) \<le> ds ! i" if "1 \<le> n" "n \<le> length ds" for n
    using that
  proof (induction n)
    case (Suc n)
    show ?case
    proof (cases "n = 0")
      case False
      then have ih: "\<forall>i < n. fst (foldl ?f (ds ! 0, 0) [1..<n]) \<le> ds ! i" using Suc by simp
      have "foldl ?f (ds ! 0, 0) [1..<Suc n] = ?f (foldl ?f (ds ! 0, 0) [1..<n]) n" using False by simp
      then show ?thesis using ih by (force simp: less_Suc_eq split: prod.splits if_splits)
    qed simp
  qed simp
  from this [of "length ds"] assms show ?thesis
    by (auto simp: smallest_distance_def list_all_length Suc_le_eq)
qed

lemma stabilize_loop_spaced:
  "stabilize_loop n dmin xs = (True, out) \<Longrightarrow> length dmin = length xs + 1 \<Longrightarrow> spaced 0 dmin out \<and> length out = length xs"
proof (induction n dmin xs rule: stabilize_loop.induct)
  case (2 n dmin xs)
  obtain m I where mI: "smallest_distance (NLSF_distances 0 dmin xs) = (m, I)" by fastforce
  show ?case
  proof (cases "m \<ge> 0")
    case True
    have "NLSF_distances 0 dmin xs \<noteq> []" using 2(3) by (cases dmin; cases xs) auto
    from smallest_least [OF this] True have "list_all (\<lambda>d. 0 \<le> d) (NLSF_distances 0 dmin xs)"
      by (auto simp: mI list_all_iff)
    from spaced_distances [OF 2(3) this] show ?thesis using 2(2) True by (simp add: mI)
  next
    case False
    have "length (NLSF_move dmin xs I) = length xs" by (simp add: NLSF_move_def Let_def)
    then show ?thesis using 2 False by (simp add: mI)
  qed
qed simp

lemma stabilize_loop_length: "stabilize_loop n dmin xs = (b, out) \<Longrightarrow> length out = length xs"
proof (induction n dmin xs rule: stabilize_loop.induct)
  case (2 n dmin xs)
  then show ?case by (auto simp: NLSF_move_def Let_def split: prod.splits if_splits)
qed simp

lemma list_all_update: "list_all P xs \<Longrightarrow> P x \<Longrightarrow> list_all P (xs[i := x])"
  by (auto simp: list_all_iff dest: set_update_subset_insert [THEN subsetD])

lemma NLSF_move_int16: "list_all int16 xs \<Longrightarrow> list_all int16 dmin \<Longrightarrow> dmin \<noteq> [] \<Longrightarrow> list_all int16 (NLSF_move dmin xs I)"
  by (cases dmin) (simp_all add: NLSF_move_def Let_def list_all_update)

lemma stabilize_loop_int16: "stabilize_loop n dmin xs = (b, out) \<Longrightarrow> list_all int16 dmin \<Longrightarrow> dmin \<noteq> [] \<Longrightarrow> list_all int16 xs \<Longrightarrow> list_all int16 out"
proof (induction n dmin xs rule: stabilize_loop.induct)
  case (2 n dmin xs)
  then show ?case by (auto simp: NLSF_move_int16 split: prod.splits if_splits)
qed simp

text \<open>
  The lower bounds that the upward pass establishes are the sums of the distances, and the
  downward pass keeps them, because all distances together leave room.
\<close>

fun above_sums :: "int \<Rightarrow> int list \<Rightarrow> int list \<Rightarrow> bool" where
  "above_sums low (d # ds) (x # xs) \<longleftrightarrow> low + d \<le> x \<and> above_sums (low + d) ds xs"
| "above_sums low ds xs \<longleftrightarrow> True"

lemma add_sat: "- 32768 \<le> a + b \<Longrightarrow> silk_ADD_SAT16 a b = min 32767 (a + b)"
  by (simp add: silk_ADD_SAT16_def silk_SAT16_def s16_id min_def)

lemma widen_up_above:
  "0 \<le> low \<Longrightarrow> low \<le> x \<Longrightarrow> x \<le> 32767 \<Longrightarrow> list_all (\<lambda>d. 0 \<le> d) ds \<Longrightarrow>
     low + sum_list (take (length xs) ds) \<le> 32767 \<Longrightarrow> list_all int16 xs \<Longrightarrow> length xs \<le> length ds \<Longrightarrow> above_sums low ds (widen_up x ds xs) \<and> length (widen_up x ds xs) = length xs
       \<and> list_all (\<lambda>y. 0 \<le> y \<and> y \<le> 32767) (widen_up x ds xs)"
proof (induction x ds xs arbitrary: low rule: widen_up.induct)
  case (1 x d ds y ys)
  have sums: "0 \<le> d" "0 \<le> sum_list (take (length ys) ds)"
    using 1(5) by (auto simp: list_all_iff dest: in_set_takeD intro!: sum_list_nonneg)
  have y: "- 32768 \<le> y" "y \<le> 32767" using 1(7) by (simp_all add: int16_def)
  have z: "s16 (max y (silk_ADD_SAT16 x d)) = max y (min 32767 (x + d))"
    using 1(2-4) sums y by (simp add: add_sat s16_id)
  let ?z = "max y (min 32767 (x + d))"
  have b: "low + d \<le> ?z" "?z \<le> 32767" "0 \<le> low + d" using 1(2-6) sums y by auto
  have "above_sums (low + d) ds (widen_up ?z ds ys) \<and> length (widen_up ?z ds ys) = length ys
       \<and> list_all (\<lambda>y. 0 \<le> y \<and> y \<le> 32767) (widen_up ?z ds ys)"
    by (rule 1(1) [OF z [symmetric] b(3,1,2)]) (use 1(5-8) in auto)
  then show ?case using b by (simp add: z Let_def)
qed simp_all

lemma narrow_down_spaced:
  "above_sums low (d # ds) xs \<Longrightarrow> list_all (\<lambda>d. 0 \<le> d) (d # ds) \<Longrightarrow> 0 \<le> low \<Longrightarrow> length ds = length xs \<Longrightarrow> xs \<noteq> [] \<Longrightarrow>
     low + sum_list (d # ds) \<le> 32768 \<Longrightarrow> 1 \<le> last ds \<Longrightarrow> list_all (\<lambda>y. 0 \<le> y \<and> y \<le> 32767) xs \<Longrightarrow>
     length (narrow_down ds xs) = length xs \<and> low + d \<le> hd (narrow_down ds xs) \<and> hd (narrow_down ds xs) \<le> 32767
       \<and> spaced (hd (narrow_down ds xs)) ds (tl (narrow_down ds xs))"
proof (induction ds xs arbitrary: low d rule: narrow_down.induct)
  case (1 e es x)
  then have "es = []" by simp
  then show ?case using 1 by (auto simp: s16_id min_def)
next
  case (2 e es x x2 xs)
  let ?ys = "narrow_down es (x2 # xs)"
  have ne: "es \<noteq> []" using 2(5) by auto
  have "length ?ys = length (x2 # xs) \<and> low + d + e \<le> hd ?ys \<and> hd ?ys \<le> 32767 \<and> spaced (hd ?ys) es (tl ?ys)"
    by (rule 2(1)) (use 2(2-9) ne in \<open>auto simp: algebra_simps\<close>)
  moreover obtain y ys where ys: "?ys = y # ys" using calculation by (cases ?ys) auto
  moreover have "s16 (min x (y - e)) = min x (y - e)"
    using calculation 2(2-9) ys by (intro s16_id) auto
  ultimately show ?case using 2(2-9) by (auto simp: Let_def)
qed simp_all

lemma fallback_spaced:
  assumes d: "distances_ok dmin" and len: "length dmin = length xs + 1" and xs: "list_all int16 xs" and ne: "xs \<noteq> []"
  shows "spaced 0 dmin (stabilize_fallback dmin xs) \<and> length (stabilize_fallback dmin xs) = length xs"
proof -
  obtain d0 ds where dm: "dmin = d0 # ds" using d by (cases dmin) (auto simp: distances_ok_def)
  have s: "silk_insertion_sort_increasing_all_values_int16 xs (length xs) = sort xs"
    using ne by (intro insertion_sort) (simp_all add: Suc_le_eq)
  obtain y ys where ys: "sort xs = y # ys" using ne by (metis list.exhaust sort_key_simps(1) length_0_conv length_sort)
  have "list_all int16 (y # ys)" using xs by (simp add: list_all_iff flip: ys)
  then have ry: "int16 y" "list_all int16 ys" by simp_all
  have len2: "length ds = Suc (length ys)" using len dm arg_cong [OF ys, of length] by simp
  then have ds_ne: "ds \<noteq> []" by auto
  have nn: "0 \<le> d0" "list_all (\<lambda>d. 0 \<le> d) ds" "1 \<le> last ds" "d0 + sum_list ds \<le> 32768"
    using d dm ds_ne by (auto simp: distances_ok_def)
  have "ds = take (length ys) ds @ [last ds]" using len2 ds_ne by (metis butlast_conv_take append_butlast_last_id diff_Suc_1)
  then have "sum_list ds = sum_list (take (length ys) ds) + last ds" by (metis sum_list_append sum_list.Cons sum_list.Nil add_0_right)
  then have room: "d0 + sum_list (take (length ys) ds) \<le> 32767" using nn(3,4) by simp
  have "0 \<le> sum_list (take (length ys) ds)"
    using nn(2) by (auto simp: list_all_iff dest: in_set_takeD intro!: sum_list_nonneg)
  then have d0: "d0 \<le> 32767" using room by simp
  define first where "first = max y d0"
  have f: "d0 \<le> first" "first \<le> 32767" "s16 (max y d0) = first"
    using ry(1) d0 nn(1) by (auto simp: first_def int16_def s16_id)
  have up: "above_sums d0 ds (widen_up first ds ys)" "length (widen_up first ds ys) = length ys"
    "list_all (\<lambda>y. 0 \<le> y \<and> y \<le> 32767) (widen_up first ds ys)"
    using widen_up_above [OF nn(1) f(1,2) nn(2) room ry(2)] len2 by simp_all
  define out where "out = narrow_down ds (first # widen_up first ds ys)"
  have "length out = length (first # widen_up first ds ys) \<and> 0 + d0 \<le> hd out \<and> hd out \<le> 32767 \<and> spaced (hd out) ds (tl out)"
    unfolding out_def by (rule narrow_down_spaced) (use up f nn len2 ds_ne in auto)
  moreover then obtain z zs where "out = z # zs" by (cases out) auto
  moreover have "stabilize_fallback dmin xs = out"
    by (simp add: stabilize_fallback_def s ys dm f(3) out_def)
  moreover have "length xs = Suc (length ys)" using arg_cong [OF ys, of length] by simp
  ultimately show ?thesis using up(2) by (simp add: dm)
qed

text \<open>The stabilizer ends with frequencies that keep every minimum distance.\<close>

lemma stabilized:
  assumes "distances_ok dmin" and "length dmin = length xs + 1" and "list_all int16 xs" and "xs \<noteq> []"
  shows "\<exists>out. silk_NLSF_stabilize xs dmin (length xs) = Some out \<and> spaced 0 dmin out \<and> length out = length xs"
proof (cases "stabilize_loop 20 dmin xs")
  case (Pair b out)
  show ?thesis
  proof (cases b)
    case True
    then show ?thesis using stabilize_loop_spaced [of 20 dmin xs out] Pair assms
      by (simp add: silk_NLSF_stabilize_def)
  next
    case False
    have "length out = length xs" using stabilize_loop_length [OF Pair] .
    moreover have "list_all int16 out" using stabilize_loop_int16 [OF Pair _ _ assms(3)] assms(1) by (simp add: distances_ok_def)
    moreover have "out \<noteq> []" using calculation assms(4) by auto
    ultimately show ?thesis using fallback_spaced [of dmin out] Pair False assms
      by (simp add: silk_NLSF_stabilize_def)
  qed
qed

section \<open>Decoding a vector (NLSF_decode.c)\<close>

text \<open>The residual, from the last coefficient to the first, each predicted from the one after it.\<close>

definition NLSF_QUANT_LEVEL_ADJ_Q10 :: int where "NLSF_QUANT_LEVEL_ADJ_Q10 = 102"

definition dequant_residual :: "int \<Rightarrow> int \<Rightarrow> int \<Rightarrow> int \<Rightarrow> int" where
  "dequant_residual quant_step_size_Q16 out_Q10 index pred_coef_Q8 =
    (let pred_Q10 = silk_RSHIFT (silk_SMULBB out_Q10 pred_coef_Q8) 8;
         out_Q10 = silk_LSHIFT index 10;
         out_Q10 = (if out_Q10 > 0 then out_Q10 - NLSF_QUANT_LEVEL_ADJ_Q10
                    else if out_Q10 < 0 then out_Q10 + NLSF_QUANT_LEVEL_ADJ_Q10 else out_Q10)
     in silk_SMLAWB pred_Q10 out_Q10 quant_step_size_Q16)"

fun residual_dequant_loop :: "int \<Rightarrow> int list \<Rightarrow> int list \<Rightarrow> int \<times> int list" where
  "residual_dequant_loop step (i # indices) (p # pred_coef_Q8) =
    (let (out_Q10, x_Q10) = residual_dequant_loop step indices pred_coef_Q8;
         out_Q10 = dequant_residual step out_Q10 i p
     in (out_Q10, s16 out_Q10 # x_Q10))"
| "residual_dequant_loop step _ _ = (0, [])"

definition silk_NLSF_residual_dequant :: "int list \<Rightarrow> int list \<Rightarrow> int \<Rightarrow> nat \<Rightarrow> int list option" where
  "silk_NLSF_residual_dequant indices pred_coef_Q8 quant_step_size_Q16 L = do {
     indices \<leftarrow> elems indices 0 L;
     pred_coef_Q8 \<leftarrow> elems pred_coef_Q8 0 L;
     Some (snd (residual_dequant_loop quant_step_size_Q16 indices pred_coef_Q8))
   }"

text \<open>The residual over its weight, added to the codebook vector.\<close>

definition NLSF_combine :: "int \<Rightarrow> int \<Rightarrow> int \<Rightarrow> int option" where
  "NLSF_combine res_Q10 pCB_Wght_Q9 pCB_element =
    (if pCB_Wght_Q9 = 0 then None
     else Some (s16 (silk_LIMIT (cdiv (silk_LSHIFT res_Q10 14) pCB_Wght_Q9 + silk_LSHIFT pCB_element 7) 0 32767)))"

fun NLSF_combine_all :: "int list \<Rightarrow> int list \<Rightarrow> int list \<Rightarrow> int list option" where
  "NLSF_combine_all (r # res_Q10) (w # weights) (c # elements) = do {
     x \<leftarrow> NLSF_combine r w c;
     xs \<leftarrow> NLSF_combine_all res_Q10 weights elements;
     Some (x # xs)
   }"
| "NLSF_combine_all _ _ _ = Some []"

definition silk_NLSF_decode :: "int list \<Rightarrow> silk_NLSF_CB_struct \<Rightarrow> int list option" where
  "silk_NLSF_decode indices cb = do {
     CB1_index \<leftarrow> elem indices 0;
     (ec_ix, pred) \<leftarrow> silk_NLSF_unpack cb CB1_index;
     residual \<leftarrow> from_elem indices 1;
     res_Q10 \<leftarrow> silk_NLSF_residual_dequant residual pred (quantStepSize_Q16 cb) (order cb);
     pCB_element \<leftarrow> elems (CB1_NLSF_Q8 cb) (nat CB1_index * order cb) (order cb);
     pCB_Wght_Q9 \<leftarrow> elems (CB1_Wght_Q9 cb) (nat CB1_index * order cb) (order cb);
     NLSF_Q15 \<leftarrow> NLSF_combine_all res_Q10 pCB_Wght_Q9 pCB_element;
     silk_NLSF_stabilize NLSF_Q15 (deltaMin_Q15 cb) (order cb)
   }"

section \<open>Decoded vectors are stable\<close>

lemma residual_length:
  "length (snd (residual_dequant_loop step is ps)) = min (length is) (length ps)"
  by (induction step "is" ps rule: residual_dequant_loop.induct) (simp_all add: Let_def case_prod_beta)

lemma combine_total:
  "list_all (\<lambda>w. w \<noteq> 0) ws \<Longrightarrow> \<exists>out. NLSF_combine_all rs ws cs = Some out
     \<and> length out = min (length rs) (min (length ws) (length cs)) \<and> list_all int16 out"
  by (induction rs ws cs rule: NLSF_combine_all.induct) (auto simp: NLSF_combine_def)

lemma NLSF_table_parts:
  "length silk_NLSF_CB1_NB_MB_Q8 = 320" "length silk_NLSF_CB1_Wght_Q9 = 320"
  "length silk_NLSF_CB1_WB_Q8 = 512" "length silk_NLSF_CB1_WB_Wght_Q9 = 512"
  "list_all (\<lambda>w. w \<noteq> 0) silk_NLSF_CB1_Wght_Q9" "list_all (\<lambda>w. w \<noteq> 0) silk_NLSF_CB1_WB_Wght_Q9"
  "distances_ok silk_NLSF_DELTA_MIN_NB_MB_Q15" "distances_ok silk_NLSF_DELTA_MIN_WB_Q15"
  "length silk_NLSF_DELTA_MIN_NB_MB_Q15 = 11" "length silk_NLSF_DELTA_MIN_WB_Q15 = 17"
  by code_simp+

lemma codebook_tables:
  assumes "cb \<in> {silk_NLSF_CB_NB_MB, silk_NLSF_CB_WB}"
  shows "length (CB1_NLSF_Q8 cb) = 32 * order cb" and "length (CB1_Wght_Q9 cb) = 32 * order cb"
    and "list_all (\<lambda>w. w \<noteq> 0) (CB1_Wght_Q9 cb)" and "distances_ok (deltaMin_Q15 cb)"
    and "length (deltaMin_Q15 cb) = order cb + 1" and "order cb \<in> {10, 16}"
  using assms
  by (auto simp: NLSF_table_parts silk_NLSF_CB_NB_MB_def silk_NLSF_CB_WB_def)

lemma elems_ok: "i + n \<le> length xs \<Longrightarrow> elems xs i n = Some (take n (drop i xs))"
  by (simp add: elems_def)

lemma NLSFs_decoded:
  assumes "NLSFs_ok fs indices"
  shows "\<exists>out. silk_NLSF_decode indices (NLSF_codebook fs) = Some out
    \<and> length out = order (NLSF_codebook fs) \<and> spaced 0 (deltaMin_Q15 (NLSF_codebook fs)) out"
proof -
  have len17: "length indices = 17" using assms by (simp add: NLSFs_ok_def)
  define cb where "cb = NLSF_codebook fs"
  have mem: "cb \<in> {silk_NLSF_CB_NB_MB, silk_NLSF_CB_WB}" by (simp add: cb_def NLSF_codebook_def)
  note t = codebook_tables [OF mem]
  have i: "0 \<le> indices ! 0" "indices ! 0 < 32" using assms by (simp_all add: NLSFs_ok_def)
  obtain ix pr where u: "silk_NLSF_unpack cb (indices ! 0) = Some (ix, pr)" "length pr = order cb"
    using unpack_codebook [OF codebook_ok i] unfolding cb_def by metis
  have L: "order cb \<le> 16" "0 < order cb" using t(6) by auto
  have "nat (indices ! 0) \<le> 31" using i by simp
  then have "nat (indices ! 0) * order cb + order cb \<le> 32 * order cb"
    using mult_le_mono1 [of "Suc (nat (indices ! 0))" 32 "order cb"] by simp
  define k where "k = nat (indices ! 0) * order cb"
  have room: "k + order cb \<le> 32 * order cb" using \<open>_ \<le> 32 * order cb\<close> by (simp only: k_def)
  define part where "part xs = take (order cb) (drop k xs)" for xs :: "int list"
  have parts: "elems (CB1_NLSF_Q8 cb) k (order cb) = Some (part (CB1_NLSF_Q8 cb))"
    "elems (CB1_Wght_Q9 cb) k (order cb) = Some (part (CB1_Wght_Q9 cb))"
    and len: "length (part (CB1_NLSF_Q8 cb)) = order cb" "length (part (CB1_Wght_Q9 cb)) = order cb"
    using room t(1,2) by (simp_all add: part_def elems_ok)
  have nz: "list_all (\<lambda>w. w \<noteq> 0) (part (CB1_Wght_Q9 cb))"
    using t(3) by (auto simp: list_all_iff part_def dest: in_set_takeD in_set_dropD)
  define res where "res = snd (residual_dequant_loop (quantStepSize_Q16 cb) (take (order cb) (drop 1 indices)) pr)"
  have r: "silk_NLSF_residual_dequant (drop 1 indices) pr (quantStepSize_Q16 cb) (order cb) = Some res" "length res = order cb"
    using len17 u(2) L by (simp_all add: silk_NLSF_residual_dequant_def elems_ok res_def residual_length)
  obtain mid where m: "NLSF_combine_all res (part (CB1_Wght_Q9 cb)) (part (CB1_NLSF_Q8 cb)) = Some mid"
    "length mid = order cb" "list_all int16 mid"
    using combine_total [OF nz, of res "part (CB1_NLSF_Q8 cb)"] r(2) len by auto
  have "mid \<noteq> []" using m(2) L by auto
  from stabilized [OF t(4) _ m(3) this] m(2) t(5) obtain out where
    "silk_NLSF_stabilize mid (deltaMin_Q15 cb) (order cb) = Some out" "spaced 0 (deltaMin_Q15 cb) out" "length out = order cb"
    by auto
  then have "silk_NLSF_decode indices cb = Some out" using len17 u(1) r(1) m(1) parts
    by (simp add: silk_NLSF_decode_def k_def)
  then show ?thesis using \<open>spaced 0 (deltaMin_Q15 cb) out\<close> \<open>length out = order cb\<close> by (simp add: cb_def)
qed

text \<open>
  C30. Every vector of line spectral frequencies that can be read from a packet decodes to
  frequencies in increasing order that keep the minimum distances of the codebook, from
  the lower end of the band, between neighbours and to the upper end (what the conversion
  to a stable filter needs): no index reaches outside a table, nothing is divided by zero,
  and the fall back of the stabilizer is enough when its loop gives up.
\<close>

theorem decoded_NLSFs_stable:
  assumes "NLSFs_ok fs indices"
  shows "\<exists>out. silk_NLSF_decode indices (NLSF_codebook fs) = Some out
    \<and> length out = order (NLSF_codebook fs) \<and> spaced 0 (deltaMin_Q15 (NLSF_codebook fs)) out"
  using assms by (rule NLSFs_decoded)

theorem decoded_NLSFs_stable_witness:
  "\<exists>out. silk_NLSF_decode [5, 10, - 10, 10, - 10, 3, 0, - 4, 10, 10, 10, 0, 0, 0, 0, 0, 0] (NLSF_codebook 8) = Some out
    \<and> length out = 10 \<and> spaced 0 silk_NLSF_DELTA_MIN_NB_MB_Q15 out"
  using decoded_NLSFs_stable [of 8 "[5, 10, - 10, 10, - 10, 3, 0, - 4, 10, 10, 10, 0, 0, 0, 0, 0, 0]"]
  by (simp add: NLSFs_ok_def NLSF_codebook_def silk_NLSF_CB_NB_MB_def)

end
