(* ===== verification/Silk_LPC.thy ===== *)
theory Silk_LPC
  imports Silk_Math Silk_Resampler_Correct
begin

text \<open>
  From line spectral frequencies to a prediction filter (NLSF2A.c), with the limit on the
  coefficients (LPC_fit.c), bandwidth expansion (bwexpander.c, bwexpander_32.c) and the
  inverse prediction gain that tells whether the filter is stable (LPC_inv_pred_gain.c).
\<close>

section \<open>Bandwidth expansion (bwexpander.c, bwexpander_32.c)\<close>

fun bwexpander_32_loop :: "int \<Rightarrow> int \<Rightarrow> int list \<Rightarrow> int list" where
  "bwexpander_32_loop chirp_Q16 chirp_minus_one_Q16 [] = []"
| "bwexpander_32_loop chirp_Q16 chirp_minus_one_Q16 (a # ar) =
    silk_SMULWW chirp_Q16 a
      # bwexpander_32_loop (chirp_Q16 + silk_RSHIFT_ROUND (chirp_Q16 * chirp_minus_one_Q16) 16) chirp_minus_one_Q16 ar"

definition silk_bwexpander_32 :: "int list \<Rightarrow> int \<Rightarrow> int list" where
  "silk_bwexpander_32 ar chirp_Q16 = bwexpander_32_loop chirp_Q16 (chirp_Q16 - 65536) ar"

fun bwexpander_loop :: "int \<Rightarrow> int \<Rightarrow> int list \<Rightarrow> int list" where
  "bwexpander_loop chirp_Q16 chirp_minus_one_Q16 [] = []"
| "bwexpander_loop chirp_Q16 chirp_minus_one_Q16 (a # ar) =
    s16 (silk_RSHIFT_ROUND (chirp_Q16 * a) 16)
      # bwexpander_loop (chirp_Q16 + silk_RSHIFT_ROUND (chirp_Q16 * chirp_minus_one_Q16) 16) chirp_minus_one_Q16 ar"

definition silk_bwexpander :: "int list \<Rightarrow> int \<Rightarrow> int list" where
  "silk_bwexpander ar chirp_Q16 = bwexpander_loop chirp_Q16 (chirp_Q16 - 65536) ar"

section \<open>Fitting the coefficients into 16 bits (LPC_fit.c)\<close>

text \<open>The first largest absolute value, with its index.\<close>

definition largest_abs :: "int list \<Rightarrow> int \<times> nat" where
  "largest_abs a_QIN = foldl (\<lambda>(maxabs, idx) k. if silk_abs (a_QIN ! k) > maxabs then (silk_abs (a_QIN ! k), k) else (maxabs, idx))
     (0, 0) [0..<length a_QIN]"

definition fit_chirp :: "int \<Rightarrow> nat \<Rightarrow> int option" where
  "fit_chirp maxabs idx =
    (let maxabs = min maxabs 163838;
         divisor = silk_RSHIFT (maxabs * (int idx + 1)) 2
     in if divisor = 0 then None else Some (65470 - cdiv (silk_LSHIFT (maxabs - 32767) 14) divisor))"

text \<open>At most \<open>n\<close> rounds; the last coefficients are clipped when they were not enough.\<close>

fun LPC_fit_loop :: "nat \<Rightarrow> nat \<Rightarrow> int list \<Rightarrow> (int list \<times> int list) option" where
  "LPC_fit_loop 0 shift a_QIN =
    (let a_QOUT = map (\<lambda>a. silk_SAT16 (silk_RSHIFT_ROUND a shift)) a_QIN
     in Some (a_QOUT, map (\<lambda>a. silk_LSHIFT a shift) a_QOUT))"
| "LPC_fit_loop (Suc n) shift a_QIN =
    (let (maxabs, idx) = largest_abs a_QIN;
         maxabs = silk_RSHIFT_ROUND maxabs shift
     in if maxabs > 32767
        then fit_chirp maxabs idx \<bind> (\<lambda>chirp_Q16. LPC_fit_loop n shift (silk_bwexpander_32 a_QIN chirp_Q16))
        else Some (map (\<lambda>a. s16 (silk_RSHIFT_ROUND a shift)) a_QIN, a_QIN))"

text \<open>The result in the output domain and the input as the code leaves it.\<close>

definition silk_LPC_fit :: "int list \<Rightarrow> nat \<Rightarrow> nat \<Rightarrow> (int list \<times> int list) option" where
  "silk_LPC_fit a_QIN QOUT QIN = LPC_fit_loop 10 (QIN - QOUT) a_QIN"

section \<open>Inverse prediction gain (LPC_inv_pred_gain.c)\<close>

definition A_LIMIT :: int where "A_LIMIT = 16773022"
definition MIN_INV_GAIN_Q30 :: int where "MIN_INV_GAIN_Q30 = 107374"

definition MUL32_FRAC_Q :: "int \<Rightarrow> int \<Rightarrow> nat \<Rightarrow> int" where
  "MUL32_FRAC_Q a32 b32 Q = s32 (silk_RSHIFT_ROUND (a32 * b32) Q)"

definition silk_SUB_SAT32 :: "int \<Rightarrow> int \<Rightarrow> int" where
  "silk_SUB_SAT32 a b = max silk_int32_MIN (min silk_int32_MAX (a - b))"

text \<open>The update of the coefficients below \<open>k\<close>, two at a time; \<open>None\<close> when one does not fit.\<close>

fun update_coefs :: "int \<Rightarrow> int \<Rightarrow> nat \<Rightarrow> nat \<Rightarrow> nat list \<Rightarrow> int list \<Rightarrow> int list option" where
  "update_coefs rc_Q31 rc_mult2 mult2Q k [] A_QA = Some A_QA"
| "update_coefs rc_Q31 rc_mult2 mult2Q k (n # ns) A_QA =
    (let tmp1 = A_QA ! n; tmp2 = A_QA ! (k - n - 1);
         new1 = silk_RSHIFT_ROUND (silk_SUB_SAT32 tmp1 (MUL32_FRAC_Q tmp2 rc_Q31 31) * rc_mult2) mult2Q;
         new2 = silk_RSHIFT_ROUND (silk_SUB_SAT32 tmp2 (MUL32_FRAC_Q tmp1 rc_Q31 31) * rc_mult2) mult2Q
     in if new1 > silk_int32_MAX \<or> new1 < silk_int32_MIN then None
        else if new2 > silk_int32_MAX \<or> new2 < silk_int32_MIN then None
        else update_coefs rc_Q31 rc_mult2 mult2Q k ns (A_QA[n := new1, k - n - 1 := new2]))"

definition reflection :: "int \<Rightarrow> int \<times> int" where
  "reflection a = (let rc_Q31 = - silk_LSHIFT a 7 in (rc_Q31, 2 ^ 30 - silk_SMMUL rc_Q31 rc_Q31))"

definition next_inv_gain :: "int \<Rightarrow> int \<Rightarrow> int" where
  "next_inv_gain invGain_Q30 rc_mult1_Q30 = silk_LSHIFT (silk_SMMUL invGain_Q30 rc_mult1_Q30) 2"

text \<open>From coefficient \<open>k\<close> down to the first.\<close>

fun inverse_pred_gain_loop :: "nat \<Rightarrow> int list \<Rightarrow> int \<Rightarrow> int option" where
  "inverse_pred_gain_loop k A_QA invGain_Q30 =
    (if A_QA ! k > A_LIMIT \<or> A_QA ! k < - A_LIMIT then Some 0
     else let (rc_Q31, rc_mult1_Q30) = reflection (A_QA ! k);
              invGain_Q30 = next_inv_gain invGain_Q30 rc_mult1_Q30
          in if invGain_Q30 < MIN_INV_GAIN_Q30 then Some 0
             else case k of
               0 \<Rightarrow> Some invGain_Q30
             | Suc j \<Rightarrow>
                 let mult2Q = 32 - silk_CLZ32 (silk_abs rc_mult1_Q30)
                 in silk_INVERSE32_varQ rc_mult1_Q30 (mult2Q + 30) \<bind>
                      (\<lambda>rc_mult2. case update_coefs rc_Q31 rc_mult2 (nat mult2Q) k [0..<(k + 1) div 2] A_QA of
                         None \<Rightarrow> Some 0
                       | Some A_QA \<Rightarrow> inverse_pred_gain_loop j A_QA invGain_Q30))"

declare inverse_pred_gain_loop.simps [simp del]

definition LPC_inverse_pred_gain_QA_c :: "int list \<Rightarrow> nat \<Rightarrow> int option" where
  "LPC_inverse_pred_gain_QA_c A_QA L = (if L = 0 \<or> length A_QA \<noteq> L then None else inverse_pred_gain_loop (L - 1) A_QA (2 ^ 30))"

definition silk_LPC_inverse_pred_gain_c :: "int list \<Rightarrow> nat \<Rightarrow> int option" where
  "silk_LPC_inverse_pred_gain_c A_Q12 L = do {
     A_Q12 \<leftarrow> elems A_Q12 0 L;
     if sum_list A_Q12 \<ge> 4096 then Some 0
     else LPC_inverse_pred_gain_QA_c (map (\<lambda>a. silk_LSHIFT a 12) A_Q12) L
   }"

section \<open>Conversion of the frequencies (NLSF2A.c)\<close>

definition ordering16 :: "nat list" where
  "ordering16 = [0, 15, 8, 7, 4, 11, 12, 3, 2, 13, 10, 5, 6, 9, 14, 1]"
definition ordering10 :: "nat list" where
  "ordering10 = [0, 9, 6, 3, 4, 5, 8, 1, 2, 7]"

text \<open>Twice the cosine of a frequency, interpolated in the table.\<close>

definition cos_LSF :: "int \<Rightarrow> int option" where
  "cos_LSF x =
    (let f_int = silk_RSHIFT x 8; f_frac = x - silk_LSHIFT f_int 8 in do {
       cos_val \<leftarrow> elem silk_LSFCosTab_FIX_Q12 f_int;
       cos_next \<leftarrow> elem silk_LSFCosTab_FIX_Q12 (f_int + 1);
       Some (silk_RSHIFT_ROUND (silk_LSHIFT cos_val 8 + (cos_next - cos_val) * f_frac) 4)
     })"

fun cos_LSF_loop :: "nat list \<Rightarrow> int list \<Rightarrow> int list \<Rightarrow> int list option" where
  "cos_LSF_loop (i # places) (x # NLSF) out = do {
     c \<leftarrow> cos_LSF x;
     cos_LSF_loop places NLSF (out[i := c])
   }"
| "cos_LSF_loop _ _ out = Some out"

definition find_poly_round :: "int \<Rightarrow> nat \<Rightarrow> int list \<Rightarrow> int list" where
  "find_poly_round ftmp k out =
    (let out = out[k + 1 := s32 (silk_LSHIFT (out ! (k - 1)) 1 - MUL32_FRAC_Q ftmp (out ! k) 16)];
         out = foldl (\<lambda>out n. out[n := s32 (out ! n + out ! (n - 2) - MUL32_FRAC_Q ftmp (out ! (n - 1)) 16)]) out (rev [2..<k + 1])
     in out[1 := s32 (out ! 1 - ftmp)])"

definition silk_NLSF2A_find_poly :: "int list \<Rightarrow> nat \<Rightarrow> int list" where
  "silk_NLSF2A_find_poly cLSF dd =
    foldl (\<lambda>out k. find_poly_round (cLSF ! (2 * k)) k out)
      ((replicate (dd + 1) 0)[0 := silk_LSHIFT 1 16, 1 := - (cLSF ! 0)]) [1..<dd]"

definition poly_coefs :: "int list \<Rightarrow> int list \<Rightarrow> nat \<Rightarrow> int list" where
  "poly_coefs P Q d = foldl (\<lambda>a k. let Ptmp = s32 (P ! (k + 1) + P ! k); Qtmp = s32 (Q ! (k + 1) - Q ! k)
       in a[k := s32 (- Qtmp - Ptmp), d - k - 1 := s32 (Qtmp - Ptmp)]) (replicate d 0) [0..<d div 2]"

text \<open>At most \<open>n\<close> more expansions, until the filter is stable.\<close>

fun stabilize_filter :: "nat \<Rightarrow> int list \<Rightarrow> int list \<Rightarrow> int list option" where
  "stabilize_filter 0 a32_QA1 a_Q12 = silk_LPC_inverse_pred_gain_c a_Q12 (length a_Q12) \<bind> (\<lambda>_. Some a_Q12)"
| "stabilize_filter (Suc n) a32_QA1 a_Q12 = do {
     gain \<leftarrow> silk_LPC_inverse_pred_gain_c a_Q12 (length a_Q12);
     if gain = 0 then
       let a32_QA1 = silk_bwexpander_32 a32_QA1 (65536 - silk_LSHIFT 2 (15 - n))
       in stabilize_filter n a32_QA1 (map (\<lambda>a. s16 (silk_RSHIFT_ROUND a 5)) a32_QA1)
     else Some a_Q12
   }"

definition silk_NLSF2A :: "int list \<Rightarrow> nat \<Rightarrow> int list option" where
  "silk_NLSF2A NLSF d =
    (if \<not> (d = 10 \<or> d = 16) \<or> length NLSF \<noteq> d then None
     else do {
       cos_LSF_QA \<leftarrow> cos_LSF_loop (if d = 16 then ordering16 else ordering10) NLSF (replicate d 0);
       let P = silk_NLSF2A_find_poly cos_LSF_QA (d div 2);
       let Q = silk_NLSF2A_find_poly (drop 1 cos_LSF_QA) (d div 2);
       (a_Q12, a32_QA1) \<leftarrow> silk_LPC_fit (poly_coefs P Q d) 12 17;
       stabilize_filter 16 a32_QA1 a_Q12
     })"

section \<open>The filter is always stable\<close>

lemma bwexpander_32_length: "length (bwexpander_32_loop c m ar) = length ar"
  by (induction c m ar rule: bwexpander_32_loop.induct) simp_all

lemma bwexpander_32_zero: "bwexpander_32_loop 0 m ar = replicate (length ar) 0"
proof (induction ar)
  case (Cons a ar)
  have "silk_RSHIFT_ROUND 0 16 = 0" "silk_SMULWW 0 a = 0" by (simp_all add: rshift_round silk_SMULWW_def s32_id)
  then show ?case using Cons by simp
qed simp

lemma reflection_range:
  assumes "\<not> (a > A_LIMIT \<or> a < - A_LIMIT)" and "reflection a = (rc, m)"
  shows "0 < m" and "m \<le> 2 ^ 30"
proof -
  have a: "- 16773022 \<le> a" "a \<le> 16773022" using assms(1) by (simp_all add: A_LIMIT_def)
  have rc: "rc = - (a * 128)" using assms(2) a lshift_mult [of a 7] by (simp add: reflection_def Let_def)
  have "\<bar>rc\<bar> \<le> 2146946816" using a by (simp add: rc)
  then have "\<bar>rc\<bar> ^ 2 \<le> 2146946816 ^ 2" by (intro power_mono) simp_all
  then have sq: "0 \<le> rc * rc" "rc * rc \<le> 4609380630732537856"
    by (simp_all add: power2_eq_square)
  then have d: "0 \<le> rc * rc div 4294967296" "rc * rc div 4294967296 \<le> 1073205059"
    using zdiv_mono1 [OF sq(2), of 4294967296] by (simp_all add: pos_imp_zdiv_nonneg_iff)
  then have "silk_SMMUL rc rc = rc * rc div 4294967296"
    by (simp add: silk_SMMUL_def drop_bit_eq_div s32_id)
  moreover have "m = 2 ^ 30 - silk_SMMUL rc rc" using assms(2) rc a lshift_mult [of a 7] by (simp add: reflection_def Let_def)
  ultimately show "0 < m" "m \<le> 2 ^ 30" using d by simp_all
qed

lemma clz_bounds:
  assumes "0 < x" and "x < 2 ^ 31"
  shows "1 \<le> silk_CLZ32 x" and "silk_CLZ32 x \<le> 31" and "2 ^ nat (31 - silk_CLZ32 x) \<le> x" and "x < 2 ^ nat (32 - silk_CLZ32 x)"
proof -
  define w where "w = (of_int x :: u32)"
  have u: "uint w = x" using assms by (simp add: w_def uint_word_of_int)
  then have "0 < w" using assms(1) by (simp add: word_less_def)
  then have "is_ilog x (ec_ilog w)" using ec_ilog_correct [of w] u by simp
  then have l: "0 < ec_ilog w" "2 ^ nat (ec_ilog w - 1) \<le> x" "x < 2 ^ nat (ec_ilog w)" by (simp_all add: is_ilog_def)
  have "ec_ilog w \<le> 31"
  proof (rule ccontr)
    assume "\<not> ec_ilog w \<le> 31"
    then have "(2 :: int) ^ 31 \<le> 2 ^ nat (ec_ilog w - 1)" by (intro power_increasing) simp_all
    then show False using l(2) assms(2) by simp
  qed
  moreover have c: "silk_CLZ32 x = 32 - ec_ilog w" using assms(1) by (simp add: silk_CLZ32_def w_def)
  ultimately show "1 \<le> silk_CLZ32 x" "silk_CLZ32 x \<le> 31" "2 ^ nat (31 - silk_CLZ32 x) \<le> x" "x < 2 ^ nat (32 - silk_CLZ32 x)"
    using l unfolding c by simp_all
qed

lemma normalized_high:
  assumes "0 < x" and "x < 2 ^ 31"
  shows "silk_RSHIFT (silk_LSHIFT x (nat (silk_CLZ32 (silk_abs x) - 1))) 16 \<noteq> 0"
proof -
  note c = clz_bounds [OF assms]
  define s where "s = nat (silk_CLZ32 x - 1)"
  have e: "nat (31 - silk_CLZ32 x) + s = 30" "nat (32 - silk_CLZ32 x) + s = 31" using c(1,2) by (simp_all add: s_def)
  have "2 ^ nat (31 - silk_CLZ32 x) * 2 ^ s \<le> x * 2 ^ s" "x * 2 ^ s < 2 ^ nat (32 - silk_CLZ32 x) * 2 ^ s" using c(3,4) by simp_all
  then have b: "1073741824 \<le> x * 2 ^ s" "x * 2 ^ s < 2147483648" using e by (simp_all flip: power_add)
  then have "silk_LSHIFT x s = x * 2 ^ s" by (intro lshift_mult) simp_all
  then show ?thesis using b assms(1) by (simp add: rshift_div silk_abs_def flip: s_def)
qed

lemma inverse_total: "0 < x \<Longrightarrow> x < 2 ^ 31 \<Longrightarrow> \<exists>y. silk_INVERSE32_varQ x Q = Some y"
  using normalized_high [of x] by (simp add: silk_INVERSE32_varQ_def Let_def)

lemma division_total: "0 < x \<Longrightarrow> x < 2 ^ 31 \<Longrightarrow> \<exists>y. silk_DIV32_varQ a x Q = Some y"
  using normalized_high [of x] by (simp add: silk_DIV32_varQ_def Let_def)

lemma update_length: "update_coefs rc m q k ns A = Some B \<Longrightarrow> length B = length A"
  by (induction rc m q k ns A rule: update_coefs.induct) (auto simp: Let_def split: if_splits)

lemma inverse_loop_total:
  "k < length A \<Longrightarrow> \<exists>g. inverse_pred_gain_loop k A g0 = Some g \<and> (g = 0 \<or> MIN_INV_GAIN_Q30 \<le> g)"
proof (induction k arbitrary: A g0)
  case 0
  then show ?case by (subst inverse_pred_gain_loop.simps) (simp add: Let_def split: prod.splits)
next
  case (Suc j)
  show ?case
  proof (cases "A ! Suc j > A_LIMIT \<or> A ! Suc j < - A_LIMIT")
    case True
    then show ?thesis by (subst inverse_pred_gain_loop.simps) simp
  next
    case False
    obtain rc m where r: "reflection (A ! Suc j) = (rc, m)" by fastforce
    note m = reflection_range [OF False r]
    obtain y where y: "silk_INVERSE32_varQ m (32 - silk_CLZ32 (silk_abs m) + 30) = Some y"
      using inverse_total [of m] m by auto
    let ?u = "update_coefs rc y (nat (32 - silk_CLZ32 (silk_abs m))) (Suc j) [0..<(Suc j + 1) div 2] A"
    show ?thesis
    proof (cases ?u)
      case None
      then show ?thesis using False r y by (subst inverse_pred_gain_loop.simps) (simp add: Let_def)
    next
      case (Some B)
      have "j < length B" using update_length [OF Some] Suc.prems by simp
      from Suc.IH [OF this] show ?thesis using False r y Some
        by (subst inverse_pred_gain_loop.simps) (simp add: Let_def)
    qed
  qed
qed

lemma inverse_pred_gain_total:
  assumes "0 < length a"
  shows "\<exists>g. silk_LPC_inverse_pred_gain_c a (length a) = Some g \<and> (g = 0 \<or> MIN_INV_GAIN_Q30 \<le> g)"
  using assms inverse_loop_total [of "length a - 1" "map (\<lambda>a. silk_LSHIFT a 12) a" "2 ^ 30"]
  by (simp add: silk_LPC_inverse_pred_gain_c_def LPC_inverse_pred_gain_QA_c_def elems_def)

lemma zero_filter_stable:
  "silk_LPC_inverse_pred_gain_c (replicate 10 0) 10 = Some 1073741824"
  "silk_LPC_inverse_pred_gain_c (replicate 16 0) 16 = Some 1073741824"
  by code_simp+

lemma fit_chirp_total: "32767 < m \<Longrightarrow> \<exists>c. fit_chirp m idx = Some c"
proof -
  assume "32767 < m"
  then have "32768 * 1 \<le> min m 163838 * (int idx + 1)" by (intro mult_mono) simp_all
  then have "silk_RSHIFT (min m 163838 * (int idx + 1)) 2 \<noteq> 0" by (simp add: rshift_div)
  then show ?thesis by (simp add: fit_chirp_def Let_def)
qed

lemma LPC_fit_total:
  "\<exists>out a. LPC_fit_loop n sh a_QIN = Some (out, a) \<and> length out = length a_QIN \<and> length a = length a_QIN \<and> list_all int16 out"
proof (induction n sh a_QIN rule: LPC_fit_loop.induct)
  case (1 sh a_QIN)
  then show ?case by (simp add: Let_def list_all_iff sat16)
next
  case (2 n sh a_QIN)
  obtain m idx where m: "largest_abs a_QIN = (m, idx)" by fastforce
  show ?case
  proof (cases "silk_RSHIFT_ROUND m sh > 32767")
    case True
    from fit_chirp_total [OF this] obtain c where "fit_chirp (silk_RSHIFT_ROUND m sh) idx = Some c" by blast
    with 2 [OF m [symmetric] refl refl] True m show ?thesis
      by (auto simp: Let_def silk_bwexpander_32_def bwexpander_32_length)
  next
    case False
    then show ?thesis using m by (simp add: list_all_iff)
  qed
qed

lemma cos_LSF_total:
  assumes "0 \<le> x" and "x \<le> 32767"
  shows "\<exists>c. cos_LSF x = Some c"
proof -
  have "length silk_LSFCosTab_FIX_Q12 = 129" by (simp add: silk_LSFCosTab_FIX_Q12_def)
  moreover have "0 \<le> x div 256" "x div 256 < 128" using assms by simp_all
  ultimately show ?thesis by (simp add: cos_LSF_def Let_def rshift_div)
qed

lemma cos_LSF_loop_total:
  "list_all (\<lambda>x. 0 \<le> x \<and> x \<le> 32767) xs \<Longrightarrow> \<exists>cs. cos_LSF_loop ps xs out = Some cs"
  by (induction ps xs out rule: cos_LSF_loop.induct) (use cos_LSF_total in fastforce)+

lemma poly_coefs_length: "length (poly_coefs P Q d) = d"
proof -
  have "length (foldl (\<lambda>a k. let Ptmp = f k; Qtmp = g k in a[k := s32 (- Qtmp - Ptmp), d - k - 1 := s32 (Qtmp - Ptmp)]) a ks) = length a"
    for f g ks and a :: "int list"
    by (induction ks arbitrary: a) (simp_all add: Let_def)
  then show ?thesis by (simp add: poly_coefs_def)
qed

definition stable_filter :: "int list \<Rightarrow> bool" where
  "stable_filter a \<longleftrightarrow> list_all int16 a \<and> (\<exists>g \<ge> MIN_INV_GAIN_Q30. silk_LPC_inverse_pred_gain_c a (length a) = Some g)"

lemma stabilize_filter_total:
  assumes "length a12 = length a32" and "length a32 \<in> {10, 16}" and "list_all int16 a12" and "n \<le> 16"
    and "n = 0 \<Longrightarrow> stable_filter a12"
  shows "\<exists>out. stabilize_filter n a32 a12 = Some out \<and> length out = length a32 \<and> stable_filter out"
  using assms
proof (induction n a32 a12 rule: stabilize_filter.induct)
  case (1 a32 a12)
  then have "stable_filter a12" by simp
  then obtain g where "silk_LPC_inverse_pred_gain_c a12 (length a12) = Some g" by (auto simp: stable_filter_def)
  then show ?case using 1 \<open>stable_filter a12\<close> by simp
next
  case (2 n a32 a12)
  have "0 < length a12" using 2(2,3) by auto
  then obtain g where g: "silk_LPC_inverse_pred_gain_c a12 (length a12) = Some g" "g = 0 \<or> MIN_INV_GAIN_Q30 \<le> g"
    using inverse_pred_gain_total by blast
  show ?case
  proof (cases "g = 0")
    case False
    then show ?thesis using g 2(2,4) by (auto simp: stable_filter_def)
  next
    case True
    define b32 where "b32 = silk_bwexpander_32 a32 (65536 - silk_LSHIFT 2 (15 - n))"
    define b12 where "b12 = map (\<lambda>a. s16 (silk_RSHIFT_ROUND a 5)) b32"
    have len: "length b32 = length a32" "length b12 = length b32"
      by (simp_all add: b32_def b12_def silk_bwexpander_32_def bwexpander_32_length)
    have i16: "list_all int16 b12" by (simp add: b12_def list_all_iff)
    have last_round: "stable_filter b12" if "n = 0"
    proof -
      have "b32 = replicate (length a32) 0"
        using that by (simp add: b32_def silk_bwexpander_32_def lshift_mult bwexpander_32_zero)
      moreover have "s16 (silk_RSHIFT_ROUND 0 5) = 0" by (simp add: rshift_round s16_id)
      ultimately have "b12 = replicate (length a32) 0" by (simp add: b12_def)
      then show ?thesis using i16 zero_filter_stable 2(3) by (auto simp: stable_filter_def MIN_INV_GAIN_Q30_def)
    qed
    have "\<exists>out. stabilize_filter n b32 b12 = Some out \<and> length out = length b32 \<and> stable_filter out"
      by (rule 2(1) [OF g(1) True b32_def, folded b12_def]) (use 2(3,5) len i16 last_round in auto)
    then show ?thesis using g True len by (simp add: b12_def flip: b32_def)
  qed
qed

lemma NLSF2A_total:
  assumes "d \<in> {10, 16}" and "length NLSF = d" and "list_all (\<lambda>x. 0 \<le> x \<and> x \<le> 32767) NLSF"
  shows "\<exists>a. silk_NLSF2A NLSF d = Some a \<and> length a = d \<and> list_all int16 a
    \<and> (\<exists>g \<ge> MIN_INV_GAIN_Q30. silk_LPC_inverse_pred_gain_c a d = Some g)"
proof -
  define places where "places = (if d = 16 then ordering16 else ordering10)"
  obtain cs where cs: "cos_LSF_loop places NLSF (replicate d 0) = Some cs"
    using cos_LSF_loop_total [OF assms(3)] by blast
  define P where "P = silk_NLSF2A_find_poly cs (d div 2)"
  define Q where "Q = silk_NLSF2A_find_poly (drop 1 cs) (d div 2)"
  obtain a12 a32 where fit: "silk_LPC_fit (poly_coefs P Q d) 12 17 = Some (a12, a32)" "length a12 = d" "length a32 = d" "list_all int16 a12"
    using LPC_fit_total [of 10 5 "poly_coefs P Q d"] by (auto simp: silk_LPC_fit_def poly_coefs_length)
  obtain out where out: "stabilize_filter 16 a32 a12 = Some out" "length out = d" "stable_filter out"
    using stabilize_filter_total [of a12 a32 16] fit assms(1) by auto
  have "silk_NLSF2A NLSF d = Some out"
    using assms(1,2) cs fit(1) out(1) by (simp add: silk_NLSF2A_def Let_def P_def Q_def flip: places_def)
  then show ?thesis using out by (auto simp: stable_filter_def)
qed

text \<open>
  C31. The conversion of line spectral frequencies always ends with a stable filter: for any
  frequencies in range, of either order, no index leaves the cosine table, no division by
  zero happens in the bandwidth expansion or the inverse, the coefficients fit in 16 bits,
  and the stability test accepts the result with a power gain of at most 10000, since the
  last of the 16 rounds expands the filter down to zero.
\<close>

theorem NLSF2A_stable:
  assumes "d \<in> {10, 16}" and "length NLSF = d" and "list_all (\<lambda>x. 0 \<le> x \<and> x \<le> 32767) NLSF"
  shows "\<exists>a. silk_NLSF2A NLSF d = Some a \<and> length a = d \<and> list_all int16 a
    \<and> (\<exists>g \<ge> MIN_INV_GAIN_Q30. silk_LPC_inverse_pred_gain_c a d = Some g)"
  using assms by (rule NLSF2A_total)

theorem NLSF2A_stable_witness:
  "\<exists>a. silk_NLSF2A [3, 6, 9, 12, 15, 18, 21, 24, 27, 32767] 10 = Some a
    \<and> (\<exists>g \<ge> MIN_INV_GAIN_Q30. silk_LPC_inverse_pred_gain_c a 10 = Some g)"
  using NLSF2A_stable [of 10 "[3, 6, 9, 12, 15, 18, 21, 24, 27, 32767]"] by auto

end
