(* ===== verification/Silk_Parameters.thy ===== *)
theory Silk_Parameters
  imports Silk_Gains Silk_NLSF Silk_LPC
begin

text \<open>
  The parameters of a frame: pitch lags (decode_pitch.c), everything else that the indices
  stand for (decode_parameters.c), and the state of the decoder that depends on the sampling
  rate (decoder_set_fs.c).
\<close>

section \<open>Data (silk/structs.h)\<close>

record silk_decoder_control =
  pitchL :: "int list"
  Gains_Q16 :: "int list"
  PredCoef_Q12 :: "int list list"
  LTPCoef_Q14 :: "int list"
  LTP_scale_Q14 :: int

section \<open>Pitch lags (decode_pitch.c)\<close>

definition PE_MIN_LAG_MS :: int where "PE_MIN_LAG_MS = 2"
definition PE_MAX_LAG_MS :: int where "PE_MAX_LAG_MS = 18"

fun lag_loop :: "int list list \<Rightarrow> int \<Rightarrow> int \<Rightarrow> int \<Rightarrow> int \<Rightarrow> nat \<Rightarrow> int list option" where
  "lag_loop (row # Lag_CB) contour lag min_lag max_lag (Suc n) = do {
     offset \<leftarrow> elem row contour;
     lags \<leftarrow> lag_loop Lag_CB contour lag min_lag max_lag n;
     Some (silk_LIMIT (lag + offset) min_lag max_lag # lags)
   }"
| "lag_loop [] contour lag min_lag max_lag (Suc n) = None"
| "lag_loop Lag_CB contour lag min_lag max_lag 0 = Some []"

definition lag_codebook :: "int \<Rightarrow> int \<Rightarrow> int list list" where
  "lag_codebook Fs_kHz nb_subfr =
    (if Fs_kHz = 8 then if nb_subfr = 4 then silk_CB_lags_stage2 else silk_CB_lags_stage2_10_ms
     else if nb_subfr = 4 then silk_CB_lags_stage3 else silk_CB_lags_stage3_10_ms)"

definition silk_decode_pitch :: "int \<Rightarrow> int \<Rightarrow> int \<Rightarrow> int \<Rightarrow> int list option" where
  "silk_decode_pitch lag contour Fs_kHz nb_subfr =
    (let min_lag = silk_SMULBB PE_MIN_LAG_MS Fs_kHz; max_lag = silk_SMULBB PE_MAX_LAG_MS Fs_kHz
     in lag_loop (lag_codebook Fs_kHz nb_subfr) contour (min_lag + lag) min_lag max_lag (nat nb_subfr))"

section \<open>All parameters (decode_parameters.c)\<close>

definition BWE_AFTER_LOSS_Q16 :: int where "BWE_AFTER_LOSS_Q16 = 63570"
definition LTP_ORDER :: nat where "LTP_ORDER = 5"

fun LTP_coefs :: "int list \<Rightarrow> int list \<Rightarrow> int list option" where
  "LTP_coefs cbk_ptr_Q7 [] = Some []"
| "LTP_coefs cbk_ptr_Q7 (Ix # Ixs) = do {
     row \<leftarrow> (if Ix < 0 then None else elems cbk_ptr_Q7 (nat Ix * LTP_ORDER) LTP_ORDER);
     coefs \<leftarrow> LTP_coefs cbk_ptr_Q7 Ixs;
     Some (map (\<lambda>c. silk_LSHIFT c 7) row @ coefs)
   }"

text \<open>Pitch lags, coefficients and scaling of a voiced frame.\<close>

definition decode_LTP_parameters :: "silk_decoder_state \<Rightarrow> (int list \<times> int list \<times> int) option" where
  "decode_LTP_parameters psDec =
    (let ix = dec_indices psDec in do {
       lags \<leftarrow> silk_decode_pitch (lagIndex ix) (contourIndex ix) (dec_fs_kHz psDec) (dec_nb_subfr psDec);
       cbk_ptr_Q7 \<leftarrow> elem silk_LTP_vq_ptrs_Q7 (PERIndex ix);
       Ixs \<leftarrow> elems (LTPIndex ix) 0 (nat (dec_nb_subfr psDec));
       coefs \<leftarrow> LTP_coefs cbk_ptr_Q7 Ixs;
       scale \<leftarrow> elem silk_LTPScales_table_Q14 (LTP_scaleIndex ix);
       Some (lags, coefs, scale)
     })"

definition interpolate_NLSF :: "int \<Rightarrow> int list \<Rightarrow> int list \<Rightarrow> int list" where
  "interpolate_NLSF interp prev NLSF = map2 (\<lambda>p x. s16 (p + silk_RSHIFT (interp * (x - p)) 2)) prev NLSF"

definition decode_first_filter :: "silk_decoder_state \<Rightarrow> int \<Rightarrow> int list \<Rightarrow> int list \<Rightarrow> int list option" where
  "decode_first_filter psDec interp NLSF coefs =
    (if interp < 4 then do {
       prev \<leftarrow> elems (prevNLSF_Q15 psDec) 0 (nat (LPC_order psDec));
       silk_NLSF2A (interpolate_NLSF interp prev NLSF) (nat (LPC_order psDec))
     } else Some coefs)"

text \<open>After a loss the filters are expanded.\<close>

definition after_loss :: "silk_decoder_state \<Rightarrow> int list \<Rightarrow> int list" where
  "after_loss psDec coefs = (if lossCnt psDec \<noteq> 0 then silk_bwexpander coefs BWE_AFTER_LOSS_Q16 else coefs)"

definition silk_decode_parameters :: "silk_decoder_state \<Rightarrow> int \<Rightarrow> (silk_decoder_state \<times> silk_decoder_control) option" where
  "silk_decode_parameters psDec condCoding =
    (let ix = dec_indices psDec; nb = dec_nb_subfr psDec; L = nat (LPC_order psDec) in do {
       (gains, last_ind) \<leftarrow> silk_gains_dequant (GainsIndices ix) (LastGainIndex psDec) (condCoding = CODE_CONDITIONALLY) nb;
       NLSF \<leftarrow> silk_NLSF_decode (NLSFIndices ix) (dec_psNLSF_CB psDec);
       coefs1 \<leftarrow> silk_NLSF2A NLSF L;
       let interp = (if first_frame_after_reset psDec = 1 then 4 else NLSFInterpCoef_Q2 ix);
       coefs0 \<leftarrow> decode_first_filter psDec interp NLSF coefs1;
       let psDec' = psDec\<lparr>LastGainIndex := last_ind, prevNLSF_Q15 := overwrite (prevNLSF_Q15 psDec) NLSF,
         dec_indices := ix\<lparr>NLSFInterpCoef_Q2 := interp\<rparr>\<rparr>;
       if signalType ix = TYPE_VOICED then do {
         (lags, coefs, scale) \<leftarrow> decode_LTP_parameters psDec;
         Some (psDec', \<lparr>pitchL = lags, Gains_Q16 = gains, PredCoef_Q12 = [after_loss psDec coefs0, after_loss psDec coefs1],
           LTPCoef_Q14 = coefs, LTP_scale_Q14 = scale\<rparr>)
       } else
         Some (psDec'\<lparr>dec_indices := ix\<lparr>NLSFInterpCoef_Q2 := interp, PERIndex := 0\<rparr>\<rparr>,
           \<lparr>pitchL = replicate (nat nb) 0, Gains_Q16 = gains, PredCoef_Q12 = [after_loss psDec coefs0, after_loss psDec coefs1],
             LTPCoef_Q14 = replicate (LTP_ORDER * nat nb) 0, LTP_scale_Q14 = 0\<rparr>)
     })"

section \<open>Sampling rate (decoder_set_fs.c)\<close>

definition SUB_FRAME_LENGTH_MS :: int where "SUB_FRAME_LENGTH_MS = 5"
definition LTP_MEM_LENGTH_MS :: int where "LTP_MEM_LENGTH_MS = 20"
definition MIN_LPC_ORDER :: int where "MIN_LPC_ORDER = 10"
definition MAX_LPC_ORDER :: int where "MAX_LPC_ORDER = 16"

definition set_contour :: "int \<Rightarrow> silk_decoder_state \<Rightarrow> silk_decoder_state" where
  "set_contour fs_kHz psDec = psDec\<lparr>dec_pitch_contour_iCDF :=
    (if fs_kHz = 8 then if dec_nb_subfr psDec = 4 then silk_pitch_contour_NB_iCDF else silk_pitch_contour_10_ms_NB_iCDF
     else if dec_nb_subfr psDec = 4 then silk_pitch_contour_iCDF else silk_pitch_contour_10_ms_iCDF)\<rparr>"

text \<open>What a new internal rate changes and resets.\<close>

definition set_internal_rate :: "int \<Rightarrow> silk_decoder_state \<Rightarrow> silk_decoder_state" where
  "set_internal_rate fs_kHz psDec = psDec\<lparr>
     ltp_mem_length := silk_SMULBB LTP_MEM_LENGTH_MS fs_kHz,
     LPC_order := (if fs_kHz = 8 \<or> fs_kHz = 12 then MIN_LPC_ORDER else MAX_LPC_ORDER),
     dec_psNLSF_CB := (if fs_kHz = 8 \<or> fs_kHz = 12 then silk_NLSF_CB_NB_MB else silk_NLSF_CB_WB),
     dec_pitch_lag_low_bits_iCDF := (if fs_kHz = 16 then silk_uniform8_iCDF
       else if fs_kHz = 12 then silk_uniform6_iCDF else silk_uniform4_iCDF),
     first_frame_after_reset := 1, lagPrev := 100, LastGainIndex := 10, prevSignalType := 0,
     outBuf := replicate (length (outBuf psDec)) 0, sLPC_Q14_buf := replicate (length (sLPC_Q14_buf psDec)) 0\<rparr>"

text \<open>The two steps: the resampler when a rate changes, and the tables when the frame length or the internal rate does.\<close>

definition update_resampler :: "int \<Rightarrow> int \<Rightarrow> silk_decoder_state \<Rightarrow> (int \<times> silk_decoder_state) option" where
  "update_resampler fs_kHz fs_API_Hz psDec =
    (if dec_fs_kHz psDec \<noteq> fs_kHz \<or> fs_API_hz psDec \<noteq> fs_API_Hz then do {
       (ret, S) \<leftarrow> silk_resampler_init (silk_SMULBB fs_kHz 1000) fs_API_Hz False;
       Some (ret, psDec\<lparr>resampler_state := S, fs_API_hz := fs_API_Hz\<rparr>)
     } else Some (0, psDec))"

definition update_tables :: "int \<Rightarrow> int \<Rightarrow> silk_decoder_state \<Rightarrow> silk_decoder_state" where
  "update_tables fs_kHz new_length psDec =
    (if dec_fs_kHz psDec \<noteq> fs_kHz \<or> new_length \<noteq> frame_length psDec then
       let psDec = set_contour fs_kHz psDec;
           psDec = (if dec_fs_kHz psDec \<noteq> fs_kHz then set_internal_rate fs_kHz psDec else psDec)
       in psDec\<lparr>dec_fs_kHz := fs_kHz, frame_length := new_length\<rparr>
     else psDec)"

text \<open>The error code and the new state; \<open>None\<close> where the code asserts.\<close>

definition silk_decoder_set_fs :: "silk_decoder_state \<Rightarrow> int \<Rightarrow> int \<Rightarrow> (int \<times> silk_decoder_state) option" where
  "silk_decoder_set_fs psDec fs_kHz fs_API_Hz =
    (if fs_kHz \<notin> {8, 12, 16} \<or> dec_nb_subfr psDec \<notin> {4, 2} then None
     else do {
       let psDec = psDec\<lparr>subfr_length := silk_SMULBB SUB_FRAME_LENGTH_MS fs_kHz\<rparr>;
       let new_length = silk_SMULBB (dec_nb_subfr psDec) (subfr_length psDec);
       (ret, psDec) \<leftarrow> update_resampler fs_kHz fs_API_Hz psDec;
       let psDec = update_tables fs_kHz new_length psDec;
       if frame_length psDec > 0 \<and> frame_length psDec \<le> 320 then Some (ret, psDec) else None
     })"

section \<open>Pitch lags in range\<close>

lemma lag_loop_map:
  "n \<le> length CB \<Longrightarrow> 0 \<le> c \<Longrightarrow> list_all (\<lambda>row. nat c < length row) CB \<Longrightarrow>
     lag_loop CB c lag lo hi n = Some (map (\<lambda>row. silk_LIMIT (lag + row ! nat c) lo hi) (take n CB))"
  by (induction CB c lag lo hi n rule: lag_loop.induct) auto

definition contour_steps :: "int list list \<Rightarrow> bool" where
  "contour_steps CB \<longleftrightarrow> list_all (\<lambda>k. list_all (\<lambda>(a, b). \<bar>b - a\<bar> \<le> 6) (zip (CB ! k) (CB ! Suc k))) [0..<length CB - 1]"

lemma lag_tables:
  "list_all (\<lambda>(fs, nb). length (lag_codebook fs nb) = nat nb
     \<and> list_all (\<lambda>row. length row = nat (contour_count fs nb)) (lag_codebook fs nb) \<and> contour_steps (lag_codebook fs nb))
     [(8, 2), (8, 4), (12, 2), (12, 4), (16, 2), (16, 4)]"
  by code_simp

lemma lag_codebook_facts:
  assumes "rate_ok fs nb"
  shows "length (lag_codebook fs nb) = nat nb" and "list_all (\<lambda>row. length row = nat (contour_count fs nb)) (lag_codebook fs nb)"
    and "contour_steps (lag_codebook fs nb)"
  using lag_tables assms by (auto simp: rate_ok_def)

lemma limit_step: "lo \<le> hi \<Longrightarrow> \<bar>b - a\<bar> \<le> (6 :: int) \<Longrightarrow> \<bar>silk_LIMIT (x + b) lo hi - silk_LIMIT (x + a) lo hi\<bar> \<le> 6"
  by (auto simp: limit_bounds max_def min_def abs_le_iff)

lemma pitch_lags_total:
  assumes "rate_ok fs nb" and "0 \<le> contour" and "contour < contour_count fs nb"
  shows "\<exists>lags. silk_decode_pitch lag contour fs nb = Some lags \<and> length lags = nat nb
    \<and> list_all (\<lambda>l. 2 * fs \<le> l \<and> l \<le> 18 * fs) lags
    \<and> (\<forall>k. Suc k < nat nb \<longrightarrow> \<bar>lags ! Suc k - lags ! k\<bar> \<le> 6)"
proof -
  have fs: "fs \<in> {8, 12, 16}" using assms(1) by (simp add: rate_ok_def)
  note t = lag_codebook_facts [OF assms(1)]
  let ?CB = "lag_codebook fs nb" and ?f = "\<lambda>row. silk_LIMIT (2 * fs + lag + row ! nat contour) (2 * fs) (18 * fs)"
  have le: "2 * fs \<le> 18 * fs" using fs by auto
  have b: "silk_SMULBB PE_MIN_LAG_MS fs = 2 * fs" "silk_SMULBB PE_MAX_LAG_MS fs = 18 * fs"
    using fs by (auto simp: silk_SMULBB_def PE_MIN_LAG_MS_def PE_MAX_LAG_MS_def s16_id)
  have c: "list_all (\<lambda>row. nat contour < length row) ?CB" using t(2) assms(2,3) by (auto simp: list_all_iff)
  have d: "silk_decode_pitch lag contour fs nb = Some (map ?f ?CB)"
    using lag_loop_map [OF _ assms(2) c, of "nat nb" "2 * fs + lag" "2 * fs" "18 * fs"] t(1)
    by (simp add: silk_decode_pitch_def Let_def b)
  have "\<bar>map ?f ?CB ! Suc k - map ?f ?CB ! k\<bar> \<le> 6" if k: "Suc k < nat nb" for k
  proof -
    have "k \<in> set [0..<length ?CB - 1]" using k t(1) by simp
    then have z: "list_all (\<lambda>(a, b). \<bar>b - a\<bar> \<le> 6) (zip (?CB ! k) (?CB ! Suc k))"
      using t(3) unfolding contour_steps_def list_all_iff by blast
    have len: "nat contour < length (?CB ! k)" "nat contour < length (?CB ! Suc k)"
      using c k t(1) by (auto simp: list_all_length)
    then have "(?CB ! k ! nat contour, ?CB ! Suc k ! nat contour) \<in> set (zip (?CB ! k) (?CB ! Suc k))"
      by (auto simp: set_zip)
    with z have "\<bar>?CB ! Suc k ! nat contour - ?CB ! k ! nat contour\<bar> \<le> 6" by (auto simp: list_all_iff)
    from limit_step [OF le this] show ?thesis using k t(1) by simp
  qed
  moreover have "list_all (\<lambda>l. 2 * fs \<le> l \<and> l \<le> 18 * fs) (map ?f ?CB)"
    using le by (simp add: list_all_iff limit_bounds)
  ultimately show ?thesis using d t(1) by simp
qed

text \<open>
  C32. Whatever lag index was read, also one that relative coding drove out of range, the
  decoded pitch lags of all subframes are between 2 and 18 milliseconds, and the lags of
  neighbouring subframes differ by at most 6 samples; no contour reaches outside its table.
\<close>

theorem pitch_lags_bounded:
  assumes "rate_ok fs nb" and "0 \<le> contour" and "contour < contour_count fs nb"
  shows "\<exists>lags. silk_decode_pitch lag contour fs nb = Some lags \<and> length lags = nat nb
    \<and> list_all (\<lambda>l. 2 * fs \<le> l \<and> l \<le> 18 * fs) lags
    \<and> (\<forall>k. Suc k < nat nb \<longrightarrow> \<bar>lags ! Suc k - lags ! k\<bar> \<le> 6)"
  using assms by (rule pitch_lags_total)

theorem pitch_lags_bounded_witness:
  "\<exists>lags. silk_decode_pitch (- 30000) 33 16 4 = Some lags \<and> list_all (\<lambda>l. 32 \<le> l \<and> l \<le> 288) lags"
  using pitch_lags_bounded [of 16 4 33 "- 30000"] by (auto simp: rate_ok_def contour_count_def)

section \<open>Parameters in range\<close>

definition params_ready :: "silk_decoder_state \<Rightarrow> bool" where
  "params_ready d \<longleftrightarrow> dec_config d \<and> LPC_order d = int (order (NLSF_codebook (dec_fs_kHz d))) \<and> level_ok (LastGainIndex d)
     \<and> length (prevNLSF_Q15 d) = 16 \<and> list_all (\<lambda>x. 0 \<le> x \<and> x \<le> 32767) (prevNLSF_Q15 d)"

definition control_ok :: "silk_decoder_state \<Rightarrow> silk_decoder_control \<Rightarrow> bool" where
  "control_ok d c \<longleftrightarrow> (let fs = dec_fs_kHz d; nb = nat (dec_nb_subfr d) in
     length (pitchL c) = nb \<and> length (Gains_Q16 c) = nb \<and> length (LTPCoef_Q14 c) = LTP_ORDER * nb
     \<and> list_all (\<lambda>g. 81920 \<le> g \<and> g \<le> 1686110208) (Gains_Q16 c)
     \<and> list_all int16 (LTPCoef_Q14 c) \<and> LTP_scale_Q14 c \<in> {0, 8192, 12288, 15565}
     \<and> length (PredCoef_Q12 c) = 2
     \<and> list_all (\<lambda>a. int (length a) = LPC_order d \<and> (if lossCnt d = 0 then stable_filter a else list_all int16 a)) (PredCoef_Q12 c)
     \<and> (signalType (dec_indices d) = 2 \<longrightarrow> list_all (\<lambda>l. 2 * fs \<le> l \<and> l \<le> 18 * fs) (pitchL c)
          \<and> (\<forall>k. Suc k < nb \<longrightarrow> \<bar>pitchL c ! Suc k - pitchL c ! k\<bar> \<le> 6)))"

lemma spaced_range:
  "spaced low ds xs \<Longrightarrow> 0 \<le> low \<Longrightarrow> list_all (\<lambda>d. 0 \<le> d) ds \<Longrightarrow> 1 \<le> last ds \<Longrightarrow>
     low \<le> 32767 \<and> list_all (\<lambda>x. low \<le> x \<and> x \<le> 32767) xs"
proof (induction low ds xs rule: spaced.induct)
  case (1 low d ds x xs)
  have "ds \<noteq> []" using 1(2) by (cases xs) auto
  then have "x \<le> 32767 \<and> list_all (\<lambda>y. x \<le> y \<and> y \<le> 32767) xs" using 1 by simp
  then show ?case using 1(2,4) by (auto simp: list_all_iff)
qed simp_all

lemma interpolate_range:
  assumes "0 \<le> i" and "i < 4" and "0 \<le> p" "p \<le> (32767 :: int)" and "0 \<le> x" "x \<le> 32767"
  shows "0 \<le> s16 (p + silk_RSHIFT (i * (x - p)) 2)" and "s16 (p + silk_RSHIFT (i * (x - p)) 2) \<le> 32767"
proof -
  have "0 \<le> p + i * (x - p) div 4 \<and> p + i * (x - p) div 4 \<le> 32767"
  proof (cases "p \<le> x")
    case True
    then have "i * (x - p) \<le> 4 * (x - p)" "0 \<le> i * (x - p)" using assms(1,2) mult_right_mono [of i 4 "x - p"] by simp_all
    then have "i * (x - p) div 4 \<le> x - p" "0 \<le> i * (x - p) div 4" using zdiv_mono1 [of "i * (x - p)" "4 * (x - p)" 4] by simp_all
    then show ?thesis using assms(3,6) by simp
  next
    case False
    then have "4 * (x - p) \<le> i * (x - p)" "i * (x - p) \<le> 0"
      using assms(1,2) mult_right_mono_neg [of i 4 "x - p"] by (simp_all add: mult_le_0_iff)
    then have "x - p \<le> i * (x - p) div 4" "i * (x - p) div 4 \<le> 0"
      using zdiv_mono1 [of "4 * (x - p)" "i * (x - p)" 4] zdiv_mono1 [of "i * (x - p)" 0 4] by simp_all
    then show ?thesis using assms(4,5) by simp
  qed
  then show "0 \<le> s16 (p + silk_RSHIFT (i * (x - p)) 2)" "s16 (p + silk_RSHIFT (i * (x - p)) 2) \<le> 32767"
    by (simp_all add: rshift_div s16_id)
qed

lemma interpolate_NLSF_range:
  assumes "0 \<le> i" and "i < 4"
  shows "list_all (\<lambda>x. 0 \<le> x \<and> x \<le> 32767) prev \<Longrightarrow> list_all (\<lambda>x. 0 \<le> x \<and> x \<le> 32767) NLSF \<Longrightarrow>
    list_all (\<lambda>x. 0 \<le> x \<and> x \<le> 32767) (interpolate_NLSF i prev NLSF)"
  unfolding interpolate_NLSF_def
  by (induction prev NLSF rule: list_induct2') (simp_all add: interpolate_range [OF assms])

lemma bwexpander_int16: "length (bwexpander_loop c m ar) = length ar \<and> list_all int16 (bwexpander_loop c m ar)"
  by (induction c m ar rule: bwexpander_loop.induct) simp_all

lemma after_loss_ok:
  assumes "stable_filter a"
  shows "length (after_loss d a) = length a \<and> (if lossCnt d = 0 then stable_filter (after_loss d a) else list_all int16 (after_loss d a))"
  using assms by (simp add: after_loss_def silk_bwexpander_def bwexpander_int16)

lemma LTP_vq_tables:
  "length silk_LTP_vq_ptrs_Q7 = 3"
  "list_all (\<lambda>p. length (silk_LTP_vq_ptrs_Q7 ! p) = 5 * 8 * 2 ^ p \<and> list_all (\<lambda>c. - 128 \<le> c \<and> c \<le> 127) (silk_LTP_vq_ptrs_Q7 ! p)) [0, 1, 2]"
  by code_simp+

lemma LTP_coefs_total:
  assumes c: "list_all (\<lambda>c. - 128 \<le> c \<and> c \<le> 127) cbk" and len: "length cbk = 5 * n"
  shows "list_all (\<lambda>x. 0 \<le> x \<and> x < int n) Ixs \<Longrightarrow>
    \<exists>coefs. LTP_coefs cbk Ixs = Some coefs \<and> length coefs = LTP_ORDER * length Ixs \<and> list_all int16 coefs"
proof (induction Ixs)
  case (Cons x Ixs)
  then obtain coefs where co: "LTP_coefs cbk Ixs = Some coefs" "length coefs = LTP_ORDER * length Ixs" "list_all int16 coefs" by auto
  have x: "0 \<le> x" "nat x < n" using Cons.prems by auto
  then have room: "nat x * 5 + 5 \<le> length cbk" using len by simp
  define row where "row = take 5 (drop (nat x * 5) cbk)"
  have r: "elems cbk (nat x * LTP_ORDER) LTP_ORDER = Some row" using elems_ok [OF room] by (simp add: LTP_ORDER_def row_def)
  have "list_all (\<lambda>c. - 128 \<le> c \<and> c \<le> 127) row"
    using c by (auto simp: row_def list_all_iff dest: in_set_takeD in_set_dropD)
  then have "list_all int16 (map (\<lambda>c. silk_LSHIFT c 7) row)"
    by (auto simp: list_all_iff int16_def lshift_mult)
  moreover have "length row = 5" using room by (simp add: row_def)
  ultimately show ?case using co r x by (simp add: LTP_ORDER_def)
qed simp

text \<open>The indices that a frame can carry, whatever lag they give.\<close>

definition frame_indices_ok :: "silk_decoder_state \<Rightarrow> bool \<Rightarrow> int \<Rightarrow> bool" where
  "frame_indices_ok d active cond \<longleftrightarrow> dec_ready d
     \<and> indices_ok (dec_fs_kHz d) (dec_nb_subfr d) active cond ((dec_indices d)\<lparr>lagIndex := 0\<rparr>)
     \<and> 0 \<le> NLSFInterpCoef_Q2 (dec_indices d) \<and> NLSFInterpCoef_Q2 (dec_indices d) < 5
     \<and> (signalType (dec_indices d) = 2 \<longrightarrow> 0 \<le> LTP_scaleIndex (dec_indices d) \<and> LTP_scaleIndex (dec_indices d) < 3)"

lemma decoded_indices_ok:
  assumes "decoded_ok active cond d d'"
  shows "frame_indices_ok d' active cond"
proof -
  obtain ix st lag where "d' = d\<lparr>dec_indices := ix, dec_ec_prevSignalType := st, dec_ec_prevLagIndex := lag\<rparr>"
    using assms unfolding decoded_ok_def by blast
  then have e: "dec_fs_kHz d = dec_fs_kHz d'" "dec_nb_subfr d = dec_nb_subfr d'" by simp_all
  show ?thesis using assms unfolding frame_indices_ok_def decoded_ok_def e by blast
qed

lemma LTP_parameters_total:
  assumes ok: "frame_indices_ok d active cond" and v: "signalType (dec_indices d) = 2"
  shows "\<exists>lags coefs scale. decode_LTP_parameters d = Some (lags, coefs, scale) \<and> length lags = nat (dec_nb_subfr d)
    \<and> list_all (\<lambda>l. 2 * dec_fs_kHz d \<le> l \<and> l \<le> 18 * dec_fs_kHz d) lags
    \<and> (\<forall>k. Suc k < nat (dec_nb_subfr d) \<longrightarrow> \<bar>lags ! Suc k - lags ! k\<bar> \<le> 6)
    \<and> length coefs = LTP_ORDER * nat (dec_nb_subfr d) \<and> list_all int16 coefs \<and> scale \<in> {8192, 12288, 15565}"
proof -
  let ?ix = "dec_indices d" and ?fs = "dec_fs_kHz d" and ?nb = "dec_nb_subfr d"
  have ro: "rate_ok ?fs ?nb" and vo: "voiced_ok ?fs ?nb cond (?ix\<lparr>lagIndex := 0\<rparr>)" and sc: "0 \<le> LTP_scaleIndex ?ix" "LTP_scaleIndex ?ix < 3"
    using ok v by (simp_all add: frame_indices_ok_def dec_ready_def dec_config_def indices_ok_def)
  have nb: "nat ?nb \<le> 4" using ro by (auto simp: rate_ok_def)
  obtain lags where lags: "silk_decode_pitch (lagIndex ?ix) (contourIndex ?ix) ?fs ?nb = Some lags" "length lags = nat ?nb"
    "list_all (\<lambda>l. 2 * ?fs \<le> l \<and> l \<le> 18 * ?fs) lags" "\<forall>k. Suc k < nat ?nb \<longrightarrow> \<bar>lags ! Suc k - lags ! k\<bar> \<le> 6"
    using pitch_lags_total [OF ro, of "contourIndex ?ix" "lagIndex ?ix"] vo by (auto simp: voiced_ok_def)
  have per: "PERIndex ?ix = 0 \<or> PERIndex ?ix = 1 \<or> PERIndex ?ix = 2" using vo by (auto simp: voiced_ok_def)
  define cbk where "cbk = silk_LTP_vq_ptrs_Q7 ! nat (PERIndex ?ix)"
  have cbk: "elem silk_LTP_vq_ptrs_Q7 (PERIndex ?ix) = Some cbk" "length cbk = 5 * (8 * 2 ^ nat (PERIndex ?ix))"
    "list_all (\<lambda>c. - 128 \<le> c \<and> c \<le> 127) cbk"
    using per LTP_vq_tables by (auto simp: cbk_def)
  define Ixs where "Ixs = take (nat ?nb) (LTPIndex ?ix)"
  have ixs: "elems (LTPIndex ?ix) 0 (nat ?nb) = Some Ixs" "length Ixs = nat ?nb"
    and b: "list_all (\<lambda>x. 0 \<le> x \<and> x < int (8 * 2 ^ nat (PERIndex ?ix))) Ixs"
    using vo nb by (simp_all add: voiced_ok_def elems_def Ixs_def all_below_def)
  obtain coefs where co: "LTP_coefs cbk Ixs = Some coefs" "length coefs = LTP_ORDER * length Ixs" "list_all int16 coefs"
    using LTP_coefs_total [OF cbk(3,2) b] by blast
  have "LTP_scaleIndex ?ix = 0 \<or> LTP_scaleIndex ?ix = 1 \<or> LTP_scaleIndex ?ix = 2" using sc by auto
  then obtain scale where "elem silk_LTPScales_table_Q14 (LTP_scaleIndex ?ix) = Some scale" "scale \<in> {8192, 12288, 15565}"
    by (auto simp: silk_LTPScales_table_Q14_def)
  then show ?thesis using lags cbk(1) ixs co by (simp add: decode_LTP_parameters_def Let_def)
qed

lemma NLSF_decoded_range:
  assumes "NLSFs_ok fs indices"
  shows "\<exists>out. silk_NLSF_decode indices (NLSF_codebook fs) = Some out \<and> length out = order (NLSF_codebook fs)
    \<and> list_all (\<lambda>x. 0 \<le> x \<and> x \<le> 32767) out"
proof -
  obtain out where o: "silk_NLSF_decode indices (NLSF_codebook fs) = Some out" "length out = order (NLSF_codebook fs)"
    "spaced 0 (deltaMin_Q15 (NLSF_codebook fs)) out" using NLSFs_decoded [OF assms] by blast
  have "NLSF_codebook fs \<in> {silk_NLSF_CB_NB_MB, silk_NLSF_CB_WB}" by (simp add: NLSF_codebook_def)
  from codebook_tables(4) [OF this] have "list_all (\<lambda>x. 0 \<le> x \<and> x \<le> 32767) out"
    using spaced_range [OF o(3)] by (simp add: distances_ok_def)
  with o show ?thesis by blast
qed

lemma parameters_total:
  assumes "frame_indices_ok d active cond" and "params_ready d"
  shows "\<exists>d' c. silk_decode_parameters d cond = Some (d', c) \<and> control_ok d c \<and> params_ready d'
    \<and> d' = d\<lparr>LastGainIndex := LastGainIndex d', prevNLSF_Q15 := prevNLSF_Q15 d', dec_indices := dec_indices d'\<rparr>"
proof -
  let ?ix = "dec_indices d" and ?fs = "dec_fs_kHz d" and ?nb = "dec_nb_subfr d" and ?L = "nat (LPC_order d)"
  have cfg: "dec_config d" "LPC_order d = int (order (NLSF_codebook ?fs))" "level_ok (LastGainIndex d)"
    and prev: "length (prevNLSF_Q15 d) = 16" "list_all (\<lambda>x. 0 \<le> x \<and> x \<le> 32767) (prevNLSF_Q15 d)"
    using assms(2) by (simp_all add: params_ready_def)
  have ro: "rate_ok ?fs ?nb" and cb: "dec_psNLSF_CB d = NLSF_codebook ?fs" using cfg(1) by (simp_all add: dec_config_def)
  have nb: "nat ?nb \<le> 4" using ro by (auto simp: rate_ok_def)
  have L: "?L \<in> {10, 16}" "?L \<le> 16" using cfg(2) by (auto simp: codebook_order)
  have ok: "length (GainsIndices ?ix) = 4" "NLSFs_ok ?fs (NLSFIndices ?ix)" "0 \<le> NLSFInterpCoef_Q2 ?ix"
    using assms(1) by (simp_all add: frame_indices_ok_def dec_ready_def indices_ok_def)
  define cc where "cc \<longleftrightarrow> cond = CODE_CONDITIONALLY"
  obtain gains l where g0: "gains_dequant_loop (\<not> cc) (LastGainIndex d) (take (nat ?nb) (GainsIndices ?ix)) = (gains, l)" by fastforce
  then have g: "silk_gains_dequant (GainsIndices ?ix) (LastGainIndex d) cc ?nb = Some (gains, l)"
    using ok(1) nb by (simp add: silk_gains_dequant_def elems_def)
  from dequant_loop_bounds [OF g0] have gb: "length gains = nat ?nb" "list_all (\<lambda>g. 81920 \<le> g \<and> g \<le> 1686110208) gains" "level_ok l"
    using ok(1) nb cfg(3) by simp_all
  obtain NLSF where n: "silk_NLSF_decode (NLSFIndices ?ix) (NLSF_codebook ?fs) = Some NLSF" "length NLSF = ?L"
    "list_all (\<lambda>x. 0 \<le> x \<and> x \<le> 32767) NLSF" using NLSF_decoded_range [OF ok(2)] cfg(2) by auto
  obtain a1 where a1: "silk_NLSF2A NLSF ?L = Some a1" "length a1 = ?L" "stable_filter a1"
    using NLSF2A_total [OF L(1) n(2,3)] by (auto simp: stable_filter_def)
  define interp where "interp = (if first_frame_after_reset d = 1 then 4 else NLSFInterpCoef_Q2 ?ix)"
  obtain a0 where a0: "decode_first_filter d interp NLSF a1 = Some a0" "length a0 = ?L" "stable_filter a0"
  proof (cases "interp < 4")
    case True
    have i: "0 \<le> interp" using ok(3) by (simp add: interp_def)
    define prv where "prv = take ?L (prevNLSF_Q15 d)"
    have p: "elems (prevNLSF_Q15 d) 0 ?L = Some prv" "length prv = ?L" using prev(1) L(2) by (simp_all add: elems_def prv_def)
    have "list_all (\<lambda>x. 0 \<le> x \<and> x \<le> 32767) prv" using prev(2) by (auto simp: prv_def list_all_iff dest: in_set_takeD)
    from interpolate_NLSF_range [OF i True this n(3)] have r: "list_all (\<lambda>x. 0 \<le> x \<and> x \<le> 32767) (interpolate_NLSF interp prv NLSF)" .
    have "length (interpolate_NLSF interp prv NLSF) = ?L" using p(2) n(2) by (simp add: interpolate_NLSF_def)
    from NLSF2A_total [OF L(1) this r] show ?thesis using that True p(1) by (auto simp: stable_filter_def decode_first_filter_def)
  next
    case False
    then show ?thesis using that a1 by (simp add: decode_first_filter_def)
  qed
  define e where "e = d\<lparr>LastGainIndex := l, prevNLSF_Q15 := overwrite (prevNLSF_Q15 d) NLSF, dec_indices := ?ix\<lparr>NLSFInterpCoef_Q2 := interp\<rparr>\<rparr>"
  define e0 where "e0 = e\<lparr>dec_indices := ?ix\<lparr>NLSFInterpCoef_Q2 := interp, PERIndex := 0\<rparr>\<rparr>"
  have "length (overwrite (prevNLSF_Q15 d) NLSF) = 16" using n(2) L(2) prev(1) by (simp add: overwrite_def)
  moreover have "list_all (\<lambda>x. 0 \<le> x \<and> x \<le> 32767) (overwrite (prevNLSF_Q15 d) NLSF)"
    using n(3) prev(2) by (auto simp: overwrite_def list_all_iff dest: in_set_dropD)
  ultimately have ready: "params_ready e" "params_ready e0" using cfg gb(3) by (simp_all add: params_ready_def dec_config_def e_def e0_def)
  have filters: "list_all (\<lambda>a. int (length a) = LPC_order d \<and> (if lossCnt d = 0 then stable_filter a else list_all int16 a))
      [after_loss d a0, after_loss d a1]" "int ?L = LPC_order d"
    using after_loss_ok [OF a0(3), of d] after_loss_ok [OF a1(3), of d] a0(2) a1(2) cfg(2) by simp_all
  show ?thesis
  proof (cases "signalType ?ix = 2")
    case True
    obtain lags coefs scale where p: "decode_LTP_parameters d = Some (lags, coefs, scale)" "length lags = nat ?nb"
      "list_all (\<lambda>l. 2 * ?fs \<le> l \<and> l \<le> 18 * ?fs) lags" "\<forall>k. Suc k < nat ?nb \<longrightarrow> \<bar>lags ! Suc k - lags ! k\<bar> \<le> 6"
      "length coefs = LTP_ORDER * nat ?nb" "list_all int16 coefs" "scale \<in> {8192, 12288, 15565}"
      using LTP_parameters_total [OF assms(1) True] by blast
    define c where "c = \<lparr>pitchL = lags, Gains_Q16 = gains, PredCoef_Q12 = [after_loss d a0, after_loss d a1],
           LTPCoef_Q14 = coefs, LTP_scale_Q14 = scale\<rparr>"
    have "silk_decode_parameters d cond = Some (e, c)"
      using True g n(1) a1(1) a0(1) p(1)
      by (simp add: silk_decode_parameters_def Let_def cb TYPE_VOICED_def c_def e_def flip: cc_def interp_def)
    moreover have "control_ok d c" unfolding control_ok_def Let_def c_def using gb p filters by simp
    ultimately show ?thesis using ready by (auto simp: e_def)
  next
    case False
    define c where "c = \<lparr>pitchL = replicate (nat ?nb) 0, Gains_Q16 = gains, PredCoef_Q12 = [after_loss d a0, after_loss d a1],
           LTPCoef_Q14 = replicate (LTP_ORDER * nat ?nb) 0, LTP_scale_Q14 = 0\<rparr>"
    have zeros: "list_all int16 (replicate n 0)" for n by (simp add: list_all_iff int16_def)
    have "silk_decode_parameters d cond = Some (e0, c)"
      using False g n(1) a1(1) a0(1)
      by (simp add: silk_decode_parameters_def Let_def cb TYPE_VOICED_def c_def e_def e0_def flip: cc_def interp_def)
    moreover have "control_ok d c" unfolding control_ok_def Let_def c_def using gb filters False zeros by simp
    ultimately show ?thesis using ready by (auto simp: e_def e0_def)
  qed
qed


section \<open>The invariant of the decoder state\<close>

definition rate_state :: "silk_decoder_state \<Rightarrow> bool" where
  "rate_state d \<longleftrightarrow> (let fs = dec_fs_kHz d in
     fs \<in> {8, 12, 16} \<and> frame_length d \<in> {10 * fs, 20 * fs}
     \<and> dec_pitch_contour_iCDF d = contour_table fs (if frame_length d = 20 * fs then 4 else 2)
     \<and> dec_pitch_lag_low_bits_iCDF d = low_bits_table fs \<and> dec_psNLSF_CB d = NLSF_codebook fs
     \<and> LPC_order d = int (order (NLSF_codebook fs)) \<and> ltp_mem_length d = 20 * fs
     \<and> ((False, fs * 1000, fs_API_hz d) \<in> set rate_pairs \<longrightarrow> resampler_ok (resampler_state d)
          \<and> Fs_in_kHz (resampler_state d) = fs \<and> Fs_out_kHz (resampler_state d) * 1000 = fs_API_hz d))"

definition arrays_ok :: "silk_decoder_state \<Rightarrow> bool" where
  "arrays_ok d \<longleftrightarrow> level_ok (LastGainIndex d) \<and> length (prevNLSF_Q15 d) = 16
     \<and> list_all (\<lambda>x. 0 \<le> x \<and> x \<le> 32767) (prevNLSF_Q15 d) \<and> length (exc_Q14 d) = 320
     \<and> length (sLPC_Q14_buf d) = 16 \<and> length (outBuf d) = 480 \<and> list_all int16 (outBuf d)
     \<and> length (GainsIndices (dec_indices d)) = 4 \<and> length (LTPIndex (dec_indices d)) = 4
     \<and> length (NLSFIndices (dec_indices d)) = 17 \<and> length (dec_VAD_flags d) = 3 \<and> length (LBRR_flags d) = 3"

definition decoder_inv :: "silk_decoder_state \<Rightarrow> bool" where
  "decoder_inv d \<longleftrightarrow> arrays_ok d \<and> (dec_fs_kHz d = 0 \<or> rate_state d)"

text \<open>The cleared state and the reset (init_decoder.c, CNG.c, PLC.c).\<close>

definition null_codebook :: silk_NLSF_CB_struct where
  "null_codebook = \<lparr>nVectors = 0, order = 0, quantStepSize_Q16 = 0, invQuantStepSize_Q6 = 0, CB1_NLSF_Q8 = [],
     CB1_Wght_Q9 = [], CB1_iCDF = [], pred_Q8 = [], ec_sel = [], ec_iCDF = [], ec_Rates_Q5 = [], deltaMin_Q15 = []\<rparr>"

definition decoder_cleared :: silk_decoder_state where
  "decoder_cleared = \<lparr>prev_gain_Q16 = 0, exc_Q14 = replicate 320 0, sLPC_Q14_buf = replicate 16 0,
     outBuf = replicate 480 0, lagPrev = 0, LastGainIndex = 0, dec_fs_kHz = 0, fs_API_hz = 0, dec_nb_subfr = 0,
     frame_length = 0, subfr_length = 0, ltp_mem_length = 0, LPC_order = 0, prevNLSF_Q15 = replicate 16 0,
     first_frame_after_reset = 0, dec_pitch_lag_low_bits_iCDF = [], dec_pitch_contour_iCDF = [], nFramesDecoded = 0,
     nFramesPerPacket = 0, dec_ec_prevSignalType = 0, dec_ec_prevLagIndex = 0, dec_VAD_flags = replicate 3 0,
     LBRR_flag = 0, LBRR_flags = replicate 3 0, resampler_state = resampler_cleared, dec_psNLSF_CB = null_codebook,
     dec_indices = \<lparr>GainsIndices = replicate 4 0, LTPIndex = replicate 4 0, NLSFIndices = replicate 17 0, lagIndex = 0,
       contourIndex = 0, signalType = 0, quantOffsetType = 0, NLSFInterpCoef_Q2 = 0, PERIndex = 0, LTP_scaleIndex = 0, Seed = 0\<rparr>,
     sCNG = CNG_cleared, lossCnt = 0, prevSignalType = 0, sPLC = PLC_cleared\<rparr>"

text \<open>Equally spaced line spectral frequencies.\<close>

fun NLSF_ramp :: "nat \<Rightarrow> int \<Rightarrow> int \<Rightarrow> int list" where
  "NLSF_ramp 0 NLSF_step_Q15 NLSF_acc_Q15 = []"
| "NLSF_ramp (Suc n) NLSF_step_Q15 NLSF_acc_Q15 =
    (let NLSF_acc_Q15 = NLSF_acc_Q15 + NLSF_step_Q15 in s16 NLSF_acc_Q15 # NLSF_ramp n NLSF_step_Q15 NLSF_acc_Q15)"

definition silk_CNG_Reset :: "silk_decoder_state \<Rightarrow> silk_decoder_state" where
  "silk_CNG_Reset psDec =
    (let NLSF_step_Q15 = cdiv 32767 (LPC_order psDec + 1); psCNG = sCNG psDec
     in psDec\<lparr>sCNG := psCNG\<lparr>
       CNG_smth_NLSF_Q15 := overwrite (CNG_smth_NLSF_Q15 psCNG) (NLSF_ramp (nat (LPC_order psDec)) NLSF_step_Q15 0),
       CNG_smth_Gain_Q16 := 0, cng_rand_seed := 3176576\<rparr>\<rparr>)"

definition silk_PLC_Reset :: "silk_decoder_state \<Rightarrow> silk_decoder_state" where
  "silk_PLC_Reset psDec = psDec\<lparr>sPLC := (sPLC psDec)\<lparr>
     pitchL_Q8 := silk_LSHIFT (frame_length psDec) (8 - 1), prevGain_Q16 := [65536, 65536],
     plc_subfr_length := 20, plc_nb_subfr := 2\<rparr>\<rparr>"

text \<open>The code clears the same memory when a decoder is initialized and when it is reset.\<close>

definition silk_reset_decoder :: silk_decoder_state where
  "silk_reset_decoder = silk_PLC_Reset (silk_CNG_Reset (decoder_cleared\<lparr>first_frame_after_reset := 1, prev_gain_Q16 := 65536\<rparr>))"

definition silk_init_decoder :: silk_decoder_state where
  "silk_init_decoder = silk_reset_decoder"

lemma init_decoder_inv: "decoder_inv silk_init_decoder"
  by (simp add: decoder_inv_def arrays_ok_def silk_init_decoder_def silk_reset_decoder_def silk_PLC_Reset_def silk_CNG_Reset_def
      decoder_cleared_def level_ok_def list_all_iff int16_def)

lemma frame_count_inv: "decoder_inv d \<Longrightarrow> decoder_inv (d\<lparr>dec_nb_subfr := n\<rparr>)"
  by (simp add: decoder_inv_def arrays_ok_def rate_state_def)

text \<open>What a decoder whose rate has been set is ready for.\<close>

definition rate_set :: "silk_decoder_state \<Rightarrow> int \<Rightarrow> int \<Rightarrow> bool" where
  "rate_set d fs api \<longleftrightarrow> decoder_inv d \<and> rate_state d \<and> dec_ready d \<and> params_ready d \<and> dec_fs_kHz d = fs \<and> fs_API_hz d = api
     \<and> subfr_length d = 5 * fs \<and> frame_length d = dec_nb_subfr d * (5 * fs)"

lemma resampler_init_cases:
  "\<exists>S. silk_resampler_init fin api False = Some (if (False, fin, api) \<in> set rate_pairs then 0 else - 1, S)
    \<and> ((False, fin, api) \<in> set rate_pairs \<longrightarrow> resampler_ok S \<and> Fs_in_kHz S * 1000 = fin \<and> Fs_out_kHz S * 1000 = api)"
proof (cases "(False, fin, api) \<in> set rate_pairs")
  case True
  from init_ok [OF this] show ?thesis using True by auto
next
  case False
  then have "input_delay False fin api = None" unfolding rate_pairs_iff by (simp add: input_delay_def)
  then show ?thesis using False by (simp add: silk_resampler_init_def)
qed

lemma set_fs_resampler:
  assumes "decoder_inv d" and "fs \<in> {8, 12, 16}"
  obtains S where "update_resampler fs api (d\<lparr>subfr_length := n\<rparr>)
      = Some (if (dec_fs_kHz d \<noteq> fs \<or> fs_API_hz d \<noteq> api) \<and> (False, fs * 1000, api) \<notin> set rate_pairs then - 1 else 0,
          d\<lparr>subfr_length := n, resampler_state := S, fs_API_hz := api\<rparr>)"
    and "(False, fs * 1000, api) \<in> set rate_pairs \<longrightarrow> resampler_ok S \<and> Fs_in_kHz S = fs \<and> Fs_out_kHz S * 1000 = api"
proof (cases "dec_fs_kHz d \<noteq> fs \<or> fs_API_hz d \<noteq> api")
  case True
  have m: "silk_SMULBB fs 1000 = fs * 1000" using assms(2) by (auto simp: silk_SMULBB_def s16_id)
  from resampler_init_cases [of "fs * 1000" api] obtain S where
    "silk_resampler_init (fs * 1000) api False = Some (if (False, fs * 1000, api) \<in> set rate_pairs then 0 else - 1, S)"
    "(False, fs * 1000, api) \<in> set rate_pairs \<longrightarrow> resampler_ok S \<and> Fs_in_kHz S * 1000 = fs * 1000 \<and> Fs_out_kHz S * 1000 = api" by blast
  with True show ?thesis by (intro that [of S]) (simp_all add: m update_resampler_def)
next
  case False
  then have "rate_state d" using assms by (auto simp: decoder_inv_def)
  then have "(False, fs * 1000, api) \<in> set rate_pairs \<longrightarrow> resampler_ok (resampler_state d)
      \<and> Fs_in_kHz (resampler_state d) = fs \<and> Fs_out_kHz (resampler_state d) * 1000 = api"
    using False unfolding rate_state_def Let_def by simp
  moreover have "d\<lparr>subfr_length := n\<rparr> = d\<lparr>subfr_length := n, resampler_state := resampler_state d, fs_API_hz := api\<rparr>" using False by simp
  ultimately show ?thesis using False by (intro that [of "resampler_state d"]) (simp_all add: update_resampler_def)
qed

lemma set_fs_tables:
  assumes "dec_fs_kHz d = fs \<Longrightarrow> rate_state d" and "dec_nb_subfr d \<in> {2, 4}" and "fs \<in> {8, 12, 16}"
    and "d' = update_tables fs (dec_nb_subfr d * (5 * fs)) d"
  shows "dec_fs_kHz d' = fs" and "frame_length d' = dec_nb_subfr d * (5 * fs)" and "dec_nb_subfr d' = dec_nb_subfr d"
    and "dec_pitch_contour_iCDF d' = contour_table fs (dec_nb_subfr d) \<and> dec_pitch_lag_low_bits_iCDF d' = low_bits_table fs
      \<and> dec_psNLSF_CB d' = NLSF_codebook fs \<and> LPC_order d' = int (order (NLSF_codebook fs)) \<and> ltp_mem_length d' = 20 * fs"
    and "fs_API_hz d' = fs_API_hz d" and "resampler_state d' = resampler_state d" and "subfr_length d' = subfr_length d"
proof -
  show "dec_fs_kHz d' = fs" "frame_length d' = dec_nb_subfr d * (5 * fs)" "dec_nb_subfr d' = dec_nb_subfr d"
    "fs_API_hz d' = fs_API_hz d" "resampler_state d' = resampler_state d" "subfr_length d' = subfr_length d"
    unfolding assms(4) by (simp_all add: update_tables_def set_contour_def set_internal_rate_def Let_def)
  show "dec_pitch_contour_iCDF d' = contour_table fs (dec_nb_subfr d) \<and> dec_pitch_lag_low_bits_iCDF d' = low_bits_table fs
      \<and> dec_psNLSF_CB d' = NLSF_codebook fs \<and> LPC_order d' = int (order (NLSF_codebook fs)) \<and> ltp_mem_length d' = 20 * fs"
  proof (cases "dec_fs_kHz d = fs")
    case False
    have m: "silk_SMULBB LTP_MEM_LENGTH_MS fs = 20 * fs" using assms(3) by (auto simp: silk_SMULBB_def LTP_MEM_LENGTH_MS_def s16_id)
    show ?thesis unfolding assms(4) using False assms(2,3) codebook_order [of fs]
      by (auto simp: update_tables_def set_contour_def set_internal_rate_def Let_def m contour_table_def low_bits_table_def
          NLSF_codebook_def MIN_LPC_ORDER_def MAX_LPC_ORDER_def)
  next
    case True
    then have rs: "rate_state d" using assms(1,3) by auto
    show ?thesis
    proof (cases "dec_nb_subfr d * (5 * fs) = frame_length d")
      case same: True
      then have "(if frame_length d = 20 * fs then 4 else 2) = dec_nb_subfr d" using assms(2,3) by auto
      then show ?thesis using rs True same unfolding assms(4) rate_state_def Let_def by (simp add: update_tables_def)
    next
      case other: False
      show ?thesis using rs True other assms(2) unfolding assms(4) rate_state_def Let_def
        by (auto simp: update_tables_def set_contour_def Let_def contour_table_def)
    qed
  qed
qed

lemma set_fs_arrays: "arrays_ok d \<Longrightarrow> arrays_ok (update_tables fs n d)"
  by (auto simp: update_tables_def set_contour_def set_internal_rate_def Let_def arrays_ok_def level_ok_def list_all_iff int16_def)

lemma set_fs_inv:
  assumes "decoder_inv d" and "dec_nb_subfr d \<in> {2, 4}" and "fs \<in> {8, 12, 16}"
  shows "\<exists>d'. silk_decoder_set_fs d fs api =
      Some (if (dec_fs_kHz d \<noteq> fs \<or> fs_API_hz d \<noteq> api) \<and> (False, fs * 1000, api) \<notin> set rate_pairs then - 1 else 0, d')
    \<and> rate_set d' fs api \<and> dec_nb_subfr d' = dec_nb_subfr d"
proof -
  define ret where "ret = (if (dec_fs_kHz d \<noteq> fs \<or> fs_API_hz d \<noteq> api) \<and> (False, fs * 1000, api) \<notin> set rate_pairs then - 1 else 0 :: int)"
  let ?nb = "dec_nb_subfr d"
  have m: "silk_SMULBB SUB_FRAME_LENGTH_MS fs = 5 * fs" "silk_SMULBB ?nb (5 * fs) = ?nb * (5 * fs)"
    using assms(2,3) by (auto simp: silk_SMULBB_def SUB_FRAME_LENGTH_MS_def s16_id)
  obtain S where S: "update_resampler fs api (d\<lparr>subfr_length := 5 * fs\<rparr>) = Some (ret, d\<lparr>subfr_length := 5 * fs, resampler_state := S, fs_API_hz := api\<rparr>)"
    and S_ok: "(False, fs * 1000, api) \<in> set rate_pairs \<longrightarrow> resampler_ok S \<and> Fs_in_kHz S = fs \<and> Fs_out_kHz S * 1000 = api"
    unfolding ret_def by (rule set_fs_resampler [OF assms(1,3)])
  define d2 where "d2 = d\<lparr>subfr_length := 5 * fs, resampler_state := S, fs_API_hz := api\<rparr>"
  define d3 where "d3 = update_tables fs (dec_nb_subfr d2 * (5 * fs)) d2"
  have d2: "dec_nb_subfr d2 = ?nb" "fs_API_hz d2 = api" "resampler_state d2 = S" "subfr_length d2 = 5 * fs" by (simp_all add: d2_def)
  have "rate_state d2" if "dec_fs_kHz d2 = fs"
    using that assms(1,3) S_ok unfolding decoder_inv_def rate_state_def Let_def d2_def by auto
  note t = set_fs_tables [OF this _ assms(3) d3_def, unfolded d2, OF _ assms(2)]
  then have len: "frame_length d3 = ?nb * (5 * fs)" "dec_fs_kHz d3 = fs" "dec_nb_subfr d3 = ?nb" "fs_API_hz d3 = api" "subfr_length d3 = 5 * fs"
    "resampler_state d3 = S" and tables: "dec_pitch_contour_iCDF d3 = contour_table fs ?nb \<and> dec_pitch_lag_low_bits_iCDF d3 = low_bits_table fs
      \<and> dec_psNLSF_CB d3 = NLSF_codebook fs \<and> LPC_order d3 = int (order (NLSF_codebook fs)) \<and> ltp_mem_length d3 = 20 * fs"
    by blast+
  have "arrays_ok d2" using assms(1) by (simp add: decoder_inv_def arrays_ok_def d2_def)
  then have arrays: "arrays_ok d3" unfolding d3_def by (rule set_fs_arrays)
  have room: "0 < ?nb * (5 * fs)" "?nb * (5 * fs) \<le> 320" using assms(2,3) by auto
  have step: "silk_decoder_set_fs d fs api = Some (ret, d3)"
    using assms(2,3) S room len(1)
    by (simp add: silk_decoder_set_fs_def m Let_def d3_def d2 insert_commute flip: d2_def)
  have "rate_state d3"
    using tables len S_ok assms(2,3) unfolding rate_state_def Let_def by (simp, auto)
  moreover have "dec_config d3" using tables len assms(2,3) by (simp add: dec_config_def rate_ok_def)
  ultimately have "rate_set d3 fs api"
    using arrays len tables unfolding rate_set_def decoder_inv_def dec_ready_def params_ready_def
    by (simp add: arrays_ok_def)
  then show ?thesis using step len(3) unfolding ret_def by blast
qed

text \<open>
  C34. Setting the internal and the external rate keeps the invariant of the decoder, from the
  cleared state on and for changes of the rate, of the frame length or of neither: afterwards
  the tables, the filter order, the lengths and the resampler belong to the new rates. The
  error code is returned exactly when a rate changed to an external one that is not supported.
\<close>

theorem decoder_set_fs_invariant:
  assumes "decoder_inv d" and "dec_nb_subfr d \<in> {2, 4}" and "fs \<in> {8, 12, 16}"
  shows "\<exists>d'. silk_decoder_set_fs d fs api =
      Some (if (dec_fs_kHz d \<noteq> fs \<or> fs_API_hz d \<noteq> api) \<and> (False, fs * 1000, api) \<notin> set rate_pairs then - 1 else 0, d')
    \<and> rate_set d' fs api \<and> dec_nb_subfr d' = dec_nb_subfr d"
  using assms by (rule set_fs_inv)

theorem decoder_set_fs_invariant_witness:
  "\<exists>d1 d2. silk_decoder_set_fs (silk_init_decoder\<lparr>dec_nb_subfr := 4\<rparr>) 16 48000 = Some (0, d1) \<and> frame_length d1 = 320
    \<and> silk_decoder_set_fs (d1\<lparr>dec_nb_subfr := 2\<rparr>) 8 44100 = Some (- 1, d2) \<and> frame_length d2 = 80 \<and> rate_set d2 8 44100"
proof -
  have "decoder_inv (silk_init_decoder\<lparr>dec_nb_subfr := 4\<rparr>)" using init_decoder_inv by (rule frame_count_inv)
  moreover have "(False, 16000, 48000) \<in> set rate_pairs" "(False, 8000, 44100) \<notin> set rate_pairs" by (simp_all add: rate_pairs_def)
  ultimately obtain d1 where d1: "silk_decoder_set_fs (silk_init_decoder\<lparr>dec_nb_subfr := 4\<rparr>) 16 48000 = Some (0, d1)" "rate_set d1 16 48000"
    "dec_nb_subfr d1 = 4" using decoder_set_fs_invariant [of "silk_init_decoder\<lparr>dec_nb_subfr := 4\<rparr>" 16 48000] by auto
  have "decoder_inv (d1\<lparr>dec_nb_subfr := 2\<rparr>)" using d1(2) by (simp add: rate_set_def frame_count_inv)
  from decoder_set_fs_invariant [OF this, of 8 44100] \<open>(False, 8000, 44100) \<notin> _\<close> d1(2)
  obtain d2 where "silk_decoder_set_fs (d1\<lparr>dec_nb_subfr := 2\<rparr>) 8 44100 = Some (- 1, d2)" "rate_set d2 8 44100" "dec_nb_subfr d2 = 2"
    by (auto simp: rate_set_def)
  with d1 show ?thesis by (intro exI [of _ d1] exI [of _ d2]) (simp add: rate_set_def)
qed

text \<open>A voiced frame for the witness of C33.\<close>

definition voiced_indices :: SideInfoIndices where
  "voiced_indices = \<lparr>GainsIndices = [20, 5, 40, 7], LTPIndex = [3, 7, 0, 1],
     NLSFIndices = [31, 10, - 10, 4, 3, - 2, 1, 0, 10, - 10, 10, - 10, 0, 0, 5, - 6, 7], lagIndex = 300, contourIndex = 33,
     signalType = 2, quantOffsetType = 1, NLSFInterpCoef_Q2 = 2, PERIndex = 0, LTP_scaleIndex = 1, Seed = 3\<rparr>"


end
