(* ===== verification/Silk_Stereo.thy ===== *)
theory Silk_Stereo
  imports Silk_Math Silk_Indices_Safe Silk_Properties
begin

text \<open>
  The predictors of the side channel in a stereo packet: quantization (stereo_quant_pred.c),
  coding (stereo_encode_pred.c) and decoding (stereo_decode_pred.c), with the flag that only
  the mid channel is coded.
\<close>

section \<open>Levels (stereo_quant_pred.c)\<close>

definition STEREO_QUANT_TAB_SIZE :: int where "STEREO_QUANT_TAB_SIZE = 16"
definition STEREO_QUANT_SUB_STEPS :: int where "STEREO_QUANT_SUB_STEPS = 5"

text \<open>The level \<open>j\<close> of the five between the table entries \<open>i\<close> and \<open>i + 1\<close>.\<close>

definition stereo_level :: "int \<Rightarrow> int \<Rightarrow> int option" where
  "stereo_level i j = do {
     low_Q13 \<leftarrow> elem silk_stereo_pred_quant_Q13 i;
     high_Q13 \<leftarrow> elem silk_stereo_pred_quant_Q13 (i + 1);
     let step_Q13 = silk_SMULWB (high_Q13 - low_Q13) 6554;
     Some (silk_SMLABB low_Q13 step_Q13 (2 * j + 1))
   }"

text \<open>
  The search through the levels in order, which stops when the error no longer decreases:
  the level found and its indices. \<open>best\<close> is the error and the choice so far.
\<close>

fun stereo_search :: "int \<Rightarrow> (int \<times> int) list \<Rightarrow> int \<Rightarrow> (int \<times> int \<times> int) option \<Rightarrow> (int \<times> int \<times> int) option" where
  "stereo_search pred_Q13 [] err_min_Q13 best = best"
| "stereo_search pred_Q13 ((i, j) # ijs) err_min_Q13 best = do {
     lvl_Q13 \<leftarrow> stereo_level i j;
     let err_Q13 = silk_abs (pred_Q13 - lvl_Q13);
     if err_Q13 < err_min_Q13 then stereo_search pred_Q13 ijs err_Q13 (Some (lvl_Q13, i, j)) else best
   }"

definition stereo_positions :: "(int \<times> int) list" where
  "stereo_positions = concat (map (\<lambda>i. map (\<lambda>j. (int i, int j)) [0..<nat STEREO_QUANT_SUB_STEPS]) [0..<nat (STEREO_QUANT_TAB_SIZE - 1)])"

text \<open>One predictor: the level and its three indices.\<close>

definition stereo_quant_one :: "int \<Rightarrow> (int \<times> int \<times> int \<times> int) option" where
  "stereo_quant_one pred_Q13 = do {
     (quant_pred_Q13, i, j) \<leftarrow> stereo_search pred_Q13 stereo_positions silk_int32_MAX None;
     let i2 = cdiv i 3;
     Some (quant_pred_Q13, s8 (i - i2 * 3), s8 j, s8 i2)
   }"

type_synonym stereo_ix = "(int \<times> int \<times> int) \<times> (int \<times> int \<times> int)"

definition silk_stereo_quant_pred :: "int \<Rightarrow> int \<Rightarrow> ((int \<times> int) \<times> stereo_ix) option" where
  "silk_stereo_quant_pred pred0_Q13 pred1_Q13 = do {
     (q0, ix0) \<leftarrow> stereo_quant_one pred0_Q13;
     (q1, ix1) \<leftarrow> stereo_quant_one pred1_Q13;
     Some ((q0 - q1, q1), ix0, ix1)
   }"

section \<open>Coding (stereo_encode_pred.c, stereo_decode_pred.c)\<close>

definition silk_stereo_encode_pred :: "stereo_ix \<Rightarrow> ec_ctx \<Rightarrow> ec_ctx option" where
  "silk_stereo_encode_pred ix e =
    (let ((a0, b0, c0), (a1, b1, c1)) = ix in do {
       e \<leftarrow> enc_icdf (5 * c0 + c1) silk_stereo_pred_joint_iCDF e;
       e \<leftarrow> enc_icdf a0 silk_uniform3_iCDF e;
       e \<leftarrow> enc_icdf b0 silk_uniform5_iCDF e;
       e \<leftarrow> enc_icdf a1 silk_uniform3_iCDF e;
       enc_icdf b1 silk_uniform5_iCDF e
     })"

definition silk_stereo_encode_mid_only :: "int \<Rightarrow> ec_ctx \<Rightarrow> ec_ctx option" where
  "silk_stereo_encode_mid_only mid_only_flag e = enc_icdf mid_only_flag silk_stereo_only_code_mid_iCDF e"

text \<open>The five symbols, with the joint one taken apart.\<close>

definition decode_stereo_ix :: "ec_ctx \<Rightarrow> (stereo_ix \<times> ec_ctx) option" where
  "decode_stereo_ix d = do {
     (n, d) \<leftarrow> dec_icdf silk_stereo_pred_joint_iCDF d;
     let c0 = cdiv n 5;
     let c1 = n - 5 * c0;
     (a0, d) \<leftarrow> dec_icdf silk_uniform3_iCDF d;
     (b0, d) \<leftarrow> dec_icdf silk_uniform5_iCDF d;
     (a1, d) \<leftarrow> dec_icdf silk_uniform3_iCDF d;
     (b1, d) \<leftarrow> dec_icdf silk_uniform5_iCDF d;
     Some (((a0, b0, c0), (a1, b1, c1)), d)
   }"

definition stereo_dequant :: "stereo_ix \<Rightarrow> (int \<times> int) option" where
  "stereo_dequant ix =
    (let ((a0, b0, c0), (a1, b1, c1)) = ix in do {
       p0 \<leftarrow> stereo_level (a0 + 3 * c0) b0;
       p1 \<leftarrow> stereo_level (a1 + 3 * c1) b1;
       Some (p0 - p1, p1)
     })"

definition silk_stereo_decode_pred :: "ec_ctx \<Rightarrow> ((int \<times> int) \<times> ec_ctx) option" where
  "silk_stereo_decode_pred d = do {
     (ix, d) \<leftarrow> decode_stereo_ix d;
     pred_Q13 \<leftarrow> stereo_dequant ix;
     Some (pred_Q13, d)
   }"

definition silk_stereo_decode_mid_only :: "ec_ctx \<Rightarrow> (int \<times> ec_ctx) option" where
  "silk_stereo_decode_mid_only d = dec_icdf silk_stereo_only_code_mid_iCDF d"

section \<open>The search finds the nearest level\<close>

definition level_at :: "int \<times> int \<Rightarrow> int" where
  "level_at ij = the (stereo_level (fst ij) (snd ij))"

definition stereo_levels :: "int list" where
  "stereo_levels = map level_at stereo_positions"

lemma stereo_levels_sorted:
  "list_all (\<lambda>ij. stereo_level (fst ij) (snd ij) \<noteq> None) stereo_positions" "length stereo_positions = 75"
  "sorted_wrt (<) stereo_levels" "list_all (\<lambda>l. \<bar>l\<bar> < 16384) stereo_levels"
  "list_all (\<lambda>(i, j). 0 \<le> i \<and> i < 15 \<and> 0 \<le> j \<and> j < 5) stereo_positions"
  by code_simp+

lemma farther: "q < l \<Longrightarrow> l < m \<Longrightarrow> \<bar>p - q\<bar> \<le> \<bar>p - l\<bar> \<Longrightarrow> \<bar>p - q\<bar> \<le> \<bar>p - m\<bar>" for p :: int
  by linarith

lemma search_nearest:
  "list_all (\<lambda>ij. stereo_level (fst ij) (snd ij) \<noteq> None) ijs \<Longrightarrow> stereo_level i j = Some q \<Longrightarrow> sorted_wrt (<) (q # map level_at ijs) \<Longrightarrow>
     \<exists>q' i' j'. stereo_search p ijs \<bar>p - q\<bar> (Some (q, i, j)) = Some (q', i', j') \<and> stereo_level i' j' = Some q'
       \<and> (i', j') \<in> insert (i, j) (set ijs) \<and> \<bar>p - q'\<bar> \<le> \<bar>p - q\<bar> \<and> (\<forall>l \<in> set (map level_at ijs). \<bar>p - q'\<bar> \<le> \<bar>p - l\<bar>)"
proof (induction ijs arbitrary: i j q)
  case (Cons ij ijs)
  obtain a b where ij: "ij = (a, b)" by fastforce
  obtain l where l: "stereo_level a b = Some l" "level_at ij = l" using Cons.prems(1) by (auto simp: ij level_at_def)
  have srt: "q < l" "\<forall>m \<in> set (map level_at ijs). l < m" "sorted_wrt (<) (l # map level_at ijs)" using Cons.prems(3) l(2) by auto
  have ab: "silk_abs (p - l) = \<bar>p - l\<bar>" by (simp add: silk_abs_def)
  show ?case
  proof (cases "\<bar>p - l\<bar> < \<bar>p - q\<bar>")
    case True
    from Cons.IH [OF _ l(1) srt(3)] Cons.prems(1) obtain q' i' j' where
      r: "stereo_search p ijs \<bar>p - l\<bar> (Some (l, a, b)) = Some (q', i', j')" "stereo_level i' j' = Some q'"
        "(i', j') \<in> insert (a, b) (set ijs)" "\<bar>p - q'\<bar> \<le> \<bar>p - l\<bar>" "\<forall>l \<in> set (map level_at ijs). \<bar>p - q'\<bar> \<le> \<bar>p - l\<bar>" by auto
    then show ?thesis using True l ab by (simp add: ij)
  next
    case False
    then have "\<bar>p - q\<bar> \<le> \<bar>p - m\<bar>" if "m \<in> set (map level_at ijs)" for m
      using farther [OF srt(1) srt(2) [rule_format, OF that]] by simp
    then show ?thesis using False l ab Cons.prems(2) by (simp add: ij)
  qed
qed simp

lemma quant_one_nearest:
  assumes "\<bar>p\<bar> \<le> 2 ^ 30"
  shows "\<exists>q a b c. stereo_quant_one p = Some (q, a, b, c) \<and> stereo_level (a + 3 * c) b = Some q
    \<and> (\<forall>l \<in> set stereo_levels. \<bar>p - q\<bar> \<le> \<bar>p - l\<bar>) \<and> 0 \<le> a \<and> a < 3 \<and> 0 \<le> b \<and> b < 5 \<and> 0 \<le> c \<and> c < 5"
proof -
  obtain ij ijs where p: "stereo_positions = ij # ijs" using stereo_levels_sorted(2) by (cases stereo_positions) auto
  obtain a b where ij: "ij = (a, b)" by fastforce
  obtain l where l: "stereo_level a b = Some l" "level_at ij = l" using stereo_levels_sorted(1) by (auto simp: p ij level_at_def)
  have "\<bar>l\<bar> < 16384" using stereo_levels_sorted(4) l(2) by (simp add: stereo_levels_def p)
  then have first: "silk_abs (p - l) < silk_int32_MAX" "silk_abs (p - l) = \<bar>p - l\<bar>" using assms by (auto simp: silk_abs_def silk_int32_MAX_def)
  have "sorted_wrt (<) (l # map level_at ijs)" "list_all (\<lambda>ij. stereo_level (fst ij) (snd ij) \<noteq> None) ijs"
    using stereo_levels_sorted(1,3) l(2) by (simp_all add: p stereo_levels_def)
  from search_nearest [OF this(2) l(1) this(1), of p] obtain q i j where
    r: "stereo_search p ijs \<bar>p - l\<bar> (Some (l, a, b)) = Some (q, i, j)" "stereo_level i j = Some q" "(i, j) \<in> set stereo_positions"
      "\<bar>p - q\<bar> \<le> \<bar>p - l\<bar>" "\<forall>l \<in> set (map level_at ijs). \<bar>p - q\<bar> \<le> \<bar>p - l\<bar>" by (auto simp: p ij)
  have b: "0 \<le> i" "i < 15" "0 \<le> j" "j < 5" using stereo_levels_sorted(5) r(3) by (auto simp: list_all_iff)
  then have s: "cdiv i 3 = i div 3" "s8 (i - i div 3 * 3) = i - i div 3 * 3" "s8 j = j" "s8 (i div 3) = i div 3"
    by (simp_all add: cdiv_nonneg s8_id minus_div_mult_eq_mod)
  have "stereo_quant_one p = Some (q, i - i div 3 * 3, j, i div 3)"
    using first l(1) r(1) by (simp add: stereo_quant_one_def p ij s Let_def)
  moreover have "i - i div 3 * 3 + 3 * (i div 3) = i" by simp
  moreover have "\<forall>l \<in> set stereo_levels. \<bar>p - q\<bar> \<le> \<bar>p - l\<bar>" using r(4,5) l(2) by (simp add: stereo_levels_def p)
  moreover have "0 \<le> i - i div 3 * 3" "i - i div 3 * 3 < 3" by (simp_all add: minus_div_mult_eq_mod)
  ultimately show ?thesis using b r(2) by (intro exI conjI) (assumption | simp)+
qed

section \<open>Coding\<close>

definition stereo_ix_ok :: "stereo_ix \<Rightarrow> bool" where
  "stereo_ix_ok ix \<longleftrightarrow> (let ((a0, b0, c0), (a1, b1, c1)) = ix in
     0 \<le> a0 \<and> a0 < 3 \<and> 0 \<le> b0 \<and> b0 < 5 \<and> 0 \<le> c0 \<and> c0 < 5 \<and> 0 \<le> a1 \<and> a1 < 3 \<and> 0 \<le> b1 \<and> b1 < 5 \<and> 0 \<le> c1 \<and> c1 < 5)"

lemma stereo_tables:
  "icdf_size silk_stereo_pred_joint_iCDF 25" "icdf_size silk_uniform3_iCDF 3" "icdf_size silk_uniform5_iCDF 5"
  "icdf_size silk_stereo_only_code_mid_iCDF 2"
  by code_simp+

lemma codes_stereo_ix:
  assumes "stereo_ix_ok ix"
  shows "codes (silk_stereo_encode_pred ix) decode_stereo_ix ix"
proof -
  obtain a0 b0 c0 a1 b1 c1 where ix: "ix = ((a0, b0, c0), (a1, b1, c1))" by (metis prod.exhaust)
  have r: "0 \<le> a0" "a0 < 3" "0 \<le> b0" "b0 < 5" "0 \<le> c0" "c0 < 5" "0 \<le> a1" "a1 < 3" "0 \<le> b1" "b1 < 5" "0 \<le> c1" "c1 < 5"
    using assms by (simp_all add: stereo_ix_ok_def ix)
  have n: "0 \<le> 5 * c0 + c1" "5 * c0 + c1 < 25" "cdiv (5 * c0 + c1) 5 = c0" using r by (simp_all add: cdiv_nonneg)
  have fin: "codes Some (\<lambda>d. Some (ix, d)) ix" by (rule codes_return)
  have D: "decode_stereo_ix = (\<lambda>d. dec_icdf silk_stereo_pred_joint_iCDF d \<bind> (\<lambda>(n, d). dec_icdf silk_uniform3_iCDF d \<bind> (\<lambda>(a0, d).
      dec_icdf silk_uniform5_iCDF d \<bind> (\<lambda>(b0, d). dec_icdf silk_uniform3_iCDF d \<bind> (\<lambda>(a1, d). dec_icdf silk_uniform5_iCDF d \<bind>
      (\<lambda>(b1, d). Some (((a0, b0, cdiv n 5), (a1, b1, n - 5 * cdiv n 5)), d)))))))"
    by (rule ext) (simp add: decode_stereo_ix_def Let_def)
  have E: "silk_stereo_encode_pred ix = (\<lambda>e. enc_icdf (5 * c0 + c1) silk_stereo_pred_joint_iCDF e \<bind> (\<lambda>e. enc_icdf a0 silk_uniform3_iCDF e \<bind>
      (\<lambda>e. enc_icdf b0 silk_uniform5_iCDF e \<bind> (\<lambda>e. enc_icdf a1 silk_uniform3_iCDF e \<bind> (\<lambda>e. enc_icdf b1 silk_uniform5_iCDF e \<bind> Some)))))"
    by (rule ext) (simp add: silk_stereo_encode_pred_def ix)
  show ?thesis unfolding D E
    by (intro codes_bind [OF codes_enc_icdf [OF stereo_tables(1) n(1,2)]] codes_bind [OF codes_enc_icdf [OF stereo_tables(2) r(1,2)]]
        codes_bind [OF codes_enc_icdf [OF stereo_tables(3) r(3,4)]] codes_bind [OF codes_enc_icdf [OF stereo_tables(2) r(7,8)]]
        codes_bind [OF codes_enc_icdf [OF stereo_tables(3) r(9,10)]])
      (simp add: n(3) ix codes_return)
qed

lemma dequant_total:
  assumes "stereo_ix_ok ix"
  shows "\<exists>q0 q1. stereo_dequant ix = Some (q0 - q1, q1) \<and> \<bar>q0\<bar> < 16384 \<and> \<bar>q1\<bar> < 16384"
proof -
  have pos: "(i, j) \<in> set stereo_positions" if "0 \<le> i" "i < 15" "0 \<le> j" "j < 5" for i j
    using that unfolding stereo_positions_def STEREO_QUANT_TAB_SIZE_def STEREO_QUANT_SUB_STEPS_def
    by (simp, intro bexI [of _ "nat i"]) (auto simp: image_iff intro!: bexI [of _ "nat j"])
  have one: "\<exists>q. stereo_level (a + 3 * c) b = Some q \<and> \<bar>q\<bar> < 16384" if "0 \<le> a" "a < 3" "0 \<le> b" "b < 5" "0 \<le> c" "c < 5" for a b c
  proof -
    have m: "(a + 3 * c, b) \<in> set stereo_positions" using that by (intro pos) simp_all
    then obtain q where "stereo_level (a + 3 * c) b = Some q" using stereo_levels_sorted(1) by (auto simp: list_all_iff)
    moreover have "\<bar>level_at (a + 3 * c, b)\<bar> < 16384" using stereo_levels_sorted(4) m by (simp add: stereo_levels_def list_all_iff)
    ultimately show ?thesis by (simp add: level_at_def)
  qed
  obtain a0 b0 c0 a1 b1 c1 where ix: "ix = ((a0, b0, c0), (a1, b1, c1))" by (metis prod.exhaust)
  have r: "0 \<le> a0" "a0 < 3" "0 \<le> b0" "b0 < 5" "0 \<le> c0" "c0 < 5" "0 \<le> a1" "a1 < 3" "0 \<le> b1" "b1 < 5" "0 \<le> c1" "c1 < 5"
    using assms by (simp_all add: stereo_ix_ok_def ix)
  obtain q0 where q0: "stereo_level (a0 + 3 * c0) b0 = Some q0" "\<bar>q0\<bar> < 16384" using one [OF r(1-6)] by blast
  obtain q1 where q1: "stereo_level (a1 + 3 * c1) b1 = Some q1" "\<bar>q1\<bar> < 16384" using one [OF r(7-12)] by blast
  show ?thesis using q0 q1 by (simp add: stereo_dequant_def ix)
qed

definition stereo_pred_ok :: "int \<times> int \<Rightarrow> bool" where
  "stereo_pred_ok pred \<longleftrightarrow> \<bar>fst pred\<bar> < 32768 \<and> \<bar>snd pred\<bar> < 16384"

lemma reads_stereo_pred: "reads silk_stereo_decode_pred stereo_pred_ok"
proof -
  have fin: "reads (\<lambda>d. stereo_dequant ix \<bind> (\<lambda>p. Some (p, d))) stereo_pred_ok" if "stereo_ix_ok ix" for ix
  proof -
    obtain q0 q1 where "stereo_dequant ix = Some (q0 - q1, q1)" "\<bar>q0\<bar> < 16384" "\<bar>q1\<bar> < 16384" using dequant_total [OF \<open>stereo_ix_ok ix\<close>] by blast
    then show ?thesis by (auto simp: stereo_pred_ok_def intro!: reads_return)
  qed
  have c: "0 \<le> cdiv n 5 \<and> cdiv n 5 < 5 \<and> 0 \<le> n - 5 * cdiv n 5 \<and> n - 5 * cdiv n 5 < 5" if "0 \<le> n" "n < 25" for n
    using that zdiv_mono1 [of n 24 5] by (simp add: cdiv_nonneg minus_mult_div_eq_mod pos_imp_zdiv_nonneg_iff)
  have D: "decode_stereo_ix = (\<lambda>d. dec_icdf silk_stereo_pred_joint_iCDF d \<bind> (\<lambda>(n, d). dec_icdf silk_uniform3_iCDF d \<bind> (\<lambda>(a0, d).
      dec_icdf silk_uniform5_iCDF d \<bind> (\<lambda>(b0, d). dec_icdf silk_uniform3_iCDF d \<bind> (\<lambda>(a1, d). dec_icdf silk_uniform5_iCDF d \<bind>
      (\<lambda>(b1, d). Some (((a0, b0, cdiv n 5), (a1, b1, n - 5 * cdiv n 5)), d)))))))"
    by (rule ext) (simp add: decode_stereo_ix_def Let_def)
  have "reads decode_stereo_ix stereo_ix_ok" unfolding D
    by (intro reads_icdf_bind [OF stereo_tables(1)] reads_icdf_bind [OF stereo_tables(2)] reads_icdf_bind [OF stereo_tables(3)]
        reads_icdf_map [OF stereo_tables(3)]) (use c in \<open>simp add: stereo_ix_ok_def\<close>)
  from reads_bind [OF this fin] show ?thesis by (simp add: silk_stereo_decode_pred_def [abs_def])
qed

lemma reads_mid_only: "reads silk_stereo_decode_mid_only (\<lambda>m. m = 0 \<or> m = 1)"
  unfolding silk_stereo_decode_mid_only_def [abs_def]
  by (rule reads_weaken [OF reads_dec_icdf [OF stereo_tables(4)]]) auto

lemma codes_mid_only: "m = 0 \<or> m = 1 \<Longrightarrow> codes (silk_stereo_encode_mid_only m) silk_stereo_decode_mid_only m"
  unfolding silk_stereo_encode_mid_only_def [abs_def] silk_stereo_decode_mid_only_def [abs_def]
  by (rule codes_enc_icdf [OF stereo_tables(4)]) auto

lemma codes_stereo_pred:
  assumes "stereo_ix_ok ix" and "stereo_dequant ix = Some q"
  shows "codes (silk_stereo_encode_pred ix) silk_stereo_decode_pred q"
proof -
  have "codes (\<lambda>e. silk_stereo_encode_pred ix e \<bind> Some)
    (\<lambda>d. decode_stereo_ix d \<bind> (\<lambda>(ix, d). stereo_dequant ix \<bind> (\<lambda>q. Some (q, d)))) q"
    by (rule codes_bind [OF codes_stereo_ix [OF assms(1)]]) (simp add: assms(2) codes_return)
  then show ?thesis by (simp add: silk_stereo_decode_pred_def [abs_def])
qed

section \<open>Properties\<close>

text \<open>
  C35. The decoder works with the stereo predictors that the encoder quantized: the search,
  although it stops at the first level that is not better, finds a nearest level of all 75
  for both predictors, and from the coded indices the decoder gets exactly the predictors
  the encoder continues with, together with the flag of the mid channel.
\<close>

theorem stereo_pred_roundtrip:
  assumes "\<bar>p0\<bar> \<le> 2 ^ 30" and "\<bar>p1\<bar> \<le> 2 ^ 30" and "m \<in> {0, 1}" and "length buf = sz" and "sz < 2 ^ 27"
  shows "\<exists>q0 q1 ix e. silk_stereo_quant_pred p0 p1 = Some ((q0 - q1, q1), ix)
    \<and> (\<forall>l \<in> set stereo_levels. \<bar>p0 - q0\<bar> \<le> \<bar>p0 - l\<bar> \<and> \<bar>p1 - q1\<bar> \<le> \<bar>p1 - l\<bar>)
    \<and> (silk_stereo_encode_pred ix (ec_enc_init buf sz) \<bind> silk_stereo_encode_mid_only m) = Some e
    \<and> (ec_tell e \<le> 8 * int sz \<longrightarrow> ec_get_error (ec_enc_done e) = 0
       \<and> (\<exists>d. (ec_dec_init (ec_buf (ec_enc_done e)) sz \<bind> silk_stereo_decode_pred \<bind> (\<lambda>(q, d). silk_stereo_decode_mid_only d \<bind>
              (\<lambda>(m, d). Some ((q, m), d)))) = Some (((q0 - q1, q1), m), d) \<and> same_state e d))"
proof -
  obtain q0 a0 b0 c0 where q0: "stereo_quant_one p0 = Some (q0, a0, b0, c0)" "stereo_level (a0 + 3 * c0) b0 = Some q0"
    "\<forall>l \<in> set stereo_levels. \<bar>p0 - q0\<bar> \<le> \<bar>p0 - l\<bar>" "0 \<le> a0" "a0 < 3" "0 \<le> b0" "b0 < 5" "0 \<le> c0" "c0 < 5"
    using quant_one_nearest [OF assms(1)] by blast
  obtain q1 a1 b1 c1 where q1: "stereo_quant_one p1 = Some (q1, a1, b1, c1)" "stereo_level (a1 + 3 * c1) b1 = Some q1"
    "\<forall>l \<in> set stereo_levels. \<bar>p1 - q1\<bar> \<le> \<bar>p1 - l\<bar>" "0 \<le> a1" "a1 < 3" "0 \<le> b1" "b1 < 5" "0 \<le> c1" "c1 < 5"
    using quant_one_nearest [OF assms(2)] by blast
  define ix where "ix = ((a0, b0, c0), (a1, b1, c1))"
  have ix: "stereo_ix_ok ix" "stereo_dequant ix = Some (q0 - q1, q1)" using q0 q1 by (simp_all add: ix_def stereo_ix_ok_def stereo_dequant_def)
  have "codes (\<lambda>e. silk_stereo_encode_pred ix e \<bind> silk_stereo_encode_mid_only m)
    (\<lambda>d. silk_stereo_decode_pred d \<bind> (\<lambda>(q, d). silk_stereo_decode_mid_only d \<bind> (\<lambda>(m, d). Some ((q, m), d)))) ((q0 - q1, q1), m)"
    by (rule codes_bind [OF codes_stereo_pred [OF ix]]) (rule codes_map [OF codes_mid_only], use assms(3) in auto)
  note c = this
  obtain e where e: "(silk_stereo_encode_pred ix (ec_enc_init buf sz) \<bind> silk_stereo_encode_mid_only m) = Some e"
    using codes_total [OF c assms(4)] by blast
  have "silk_stereo_quant_pred p0 p1 = Some ((q0 - q1, q1), ix)" using q0(1) q1(1) by (simp add: silk_stereo_quant_pred_def ix_def)
  then show ?thesis using e q0(3) q1(3) codes_buffer [OF c assms(4,5) e] by auto
qed

lemma stereo_fits:
  "case silk_stereo_quant_pred (- 9001) 4000 of None \<Rightarrow> False
   | Some (q, ix) \<Rightarrow> (case silk_stereo_encode_pred ix (ec_enc_init [0, 0, 0, 0] 4) \<bind> silk_stereo_encode_mid_only 1 of
       None \<Rightarrow> False | Some e \<Rightarrow> ec_tell e \<le> 32)"
  by code_simp

theorem stereo_pred_roundtrip_witness:
  "\<exists>q0 q1 ix e d. silk_stereo_quant_pred (- 9001) 4000 = Some ((q0 - q1, q1), ix)
    \<and> (silk_stereo_encode_pred ix (ec_enc_init [0, 0, 0, 0] 4) \<bind> silk_stereo_encode_mid_only 1) = Some e
    \<and> (ec_dec_init (ec_buf (ec_enc_done e)) 4 \<bind> silk_stereo_decode_pred \<bind> (\<lambda>(q, d). silk_stereo_decode_mid_only d \<bind>
              (\<lambda>(m, d). Some ((q, m), d)))) = Some (((q0 - q1, q1), 1), d)"
proof -
  from stereo_pred_roundtrip [of "- 9001" 4000 1 "[0, 0, 0, 0]" 4] obtain q0 q1 ix e where
    r: "silk_stereo_quant_pred (- 9001) 4000 = Some ((q0 - q1, q1), ix)"
      "(silk_stereo_encode_pred ix (ec_enc_init [0, 0, 0, 0] 4) \<bind> silk_stereo_encode_mid_only 1) = Some e"
      "ec_tell e \<le> 32 \<longrightarrow> (\<exists>d. (ec_dec_init (ec_buf (ec_enc_done e)) 4 \<bind> silk_stereo_decode_pred \<bind> (\<lambda>(q, d). silk_stereo_decode_mid_only d \<bind>
              (\<lambda>(m, d). Some ((q, m), d)))) = Some (((q0 - q1, q1), 1), d))" by auto
  then have "ec_tell e \<le> 32" using stereo_fits by simp
  with r show ?thesis by blast
qed

end
