(* ===== verification/Silk_Core.thy ===== *)
theory Silk_Core
  imports Silk_Parameters
begin

text \<open>
  The synthesis of a frame from its parameters and pulses (decode_core.c, with
  LPC_analysis_filter.c). The buffer of the long term predictor starts uninitialized: its
  elements are options, and reading \<open>None\<close> makes the whole function \<open>None\<close>.
\<close>

section \<open>Macros (silk/SigProc_FIX.h, silk/macros.h)\<close>

definition silk_ADD_SAT32 :: "int \<Rightarrow> int \<Rightarrow> int" where
  "silk_ADD_SAT32 a b = max silk_int32_MIN (min silk_int32_MAX (a + b))"

definition silk_ADD_LSHIFT32 :: "int \<Rightarrow> int \<Rightarrow> nat \<Rightarrow> int" where
  "silk_ADD_LSHIFT32 a b shift = s32 (a + silk_LSHIFT b shift)"

definition silk_RAND :: "int \<Rightarrow> int" where
  "silk_RAND seed = s32 (907633515 + seed * 196314165)"

section \<open>Filters (LPC_analysis_filter.c)\<close>

text \<open>The prediction from the samples before, newest first.\<close>

definition LPC_prediction :: "int list \<Rightarrow> int list \<Rightarrow> int" where
  "LPC_prediction past B = fold (\<lambda>(x, b) sum_Q12. s32 (sum_Q12 + s16 x * s16 b)) (zip past B) 0"

fun LPC_analysis_loop :: "int list \<Rightarrow> int list \<Rightarrow> int list \<Rightarrow> int list" where
  "LPC_analysis_loop B past [] = []"
| "LPC_analysis_loop B past (x # ins) =
    (let out32_Q12 = silk_SUB32_ovflw (silk_LSHIFT x 12) (LPC_prediction past B)
     in silk_SAT16 (silk_RSHIFT_ROUND out32_Q12 12) # LPC_analysis_loop B (x # past) ins)"

text \<open>The first \<open>d\<close> samples are zero; an order that the code rejects is \<open>None\<close>.\<close>

definition silk_LPC_analysis_filter :: "int list \<Rightarrow> int list \<Rightarrow> nat \<Rightarrow> int list option" where
  "silk_LPC_analysis_filter ins B d =
    (if d < 6 \<or> odd d \<or> length ins < d \<or> length B < d then None
     else Some (replicate d 0 @ LPC_analysis_loop (take d B) (rev (take d ins)) (drop d ins)))"

text \<open>
  The synthesis filter, which the core, concealment and comfort noise share: \<open>hist\<close> are the
  samples before, newest first.
\<close>

definition LPC_pred :: "int list \<Rightarrow> nat \<Rightarrow> int list \<Rightarrow> int" where
  "LPC_pred A_Q12 L hist = fold (\<lambda>(x, a) p. silk_SMLAWB p x a) (zip hist (take L A_Q12)) (silk_RSHIFT (int L) 1)"

fun LPC_synthesis :: "int list \<Rightarrow> nat \<Rightarrow> int list \<Rightarrow> int list \<Rightarrow> int list" where
  "LPC_synthesis A_Q12 L hist [] = []"
| "LPC_synthesis A_Q12 L hist (r # res_Q14) =
    (let x = silk_ADD_SAT32 r (silk_LSHIFT_SAT32 (LPC_pred A_Q12 L hist) 4)
     in x # LPC_synthesis A_Q12 L (x # hist) res_Q14)"

definition scale_sample :: "int \<Rightarrow> int \<Rightarrow> int" where
  "scale_sample Gain_Q10 x = silk_SAT16 (silk_RSHIFT_ROUND (silk_SMULWW x Gain_Q10) 8)"

section \<open>Excitation (decode_core.c)\<close>

definition silk_Quantization_Offsets_Q10 :: "int list list" where
  "silk_Quantization_Offsets_Q10 = [[100, 240], [32, 100]]"

definition QUANT_LEVEL_ADJUST_Q10 :: int where "QUANT_LEVEL_ADJUST_Q10 = 80"

definition exc_sample :: "int \<Rightarrow> int \<Rightarrow> int \<Rightarrow> int" where
  "exc_sample rand_seed offset_Q10 pulse =
    (let e = silk_LSHIFT pulse 14;
         e = (if e > 0 then e - silk_LSHIFT QUANT_LEVEL_ADJUST_Q10 4
              else if e < 0 then e + silk_LSHIFT QUANT_LEVEL_ADJUST_Q10 4 else e);
         e = e + silk_LSHIFT offset_Q10 4
     in if rand_seed < 0 then - e else e)"

fun decode_excitation :: "int \<Rightarrow> int \<Rightarrow> int list \<Rightarrow> int list" where
  "decode_excitation rand_seed offset_Q10 [] = []"
| "decode_excitation rand_seed offset_Q10 (pulse # pulses) =
    (let rand_seed = silk_RAND rand_seed
     in exc_sample rand_seed offset_Q10 pulse # decode_excitation (s32 (rand_seed + pulse)) offset_Q10 pulses)"

section \<open>Long term prediction (decode_core.c)\<close>

text \<open>An element of a buffer that may not have been written yet.\<close>

definition written :: "int option list \<Rightarrow> int \<Rightarrow> int option" where
  "written buf i = elem buf i \<bind> (\<lambda>x. x)"

definition LTP_taps :: "int option list \<Rightarrow> int \<Rightarrow> int list \<Rightarrow> int \<Rightarrow> int option" where
  "LTP_taps buf p B_Q14 start =
    fold (\<lambda>j acc. do { a \<leftarrow> acc; x \<leftarrow> written buf (p - int j); b \<leftarrow> elem B_Q14 (int j); Some (silk_SMLAWB a x b) })
      [0..<LTP_ORDER] (Some start)"

fun LTP_synthesis :: "int list \<Rightarrow> int \<Rightarrow> int list \<Rightarrow> int \<Rightarrow> int option list \<Rightarrow> (int list \<times> int option list) option" where
  "LTP_synthesis B_Q14 lag [] idx buf = Some ([], buf)"
| "LTP_synthesis B_Q14 lag (e # exc) idx buf = do {
     LTP_pred_Q13 \<leftarrow> LTP_taps buf (idx - lag + 2) B_Q14 2;
     let r = silk_ADD_LSHIFT32 e LTP_pred_Q13 1;
     buf \<leftarrow> put_at buf (nat idx) [Some (silk_LSHIFT r 1)];
     (res_Q14, buf) \<leftarrow> LTP_synthesis B_Q14 lag exc (idx + 1) buf;
     Some (r # res_Q14, buf)
   }"

section \<open>A subframe (decode_core.c)\<close>

record core_state =
  core_dec :: silk_decoder_state
  core_ctrl :: silk_decoder_control
  sLPC_Q14 :: "int list"
  sLTP_Q15 :: "int option list"
  sLTP_buf_idx :: int
  core_xq :: "int list"

text \<open>The gain of a subframe: its inverse and the adjustment of the state to the new gain.\<close>

definition core_gain :: "int \<Rightarrow> core_state \<Rightarrow> (int \<times> int \<times> core_state) option" where
  "core_gain gain st = do {
     inv_gain_Q31 \<leftarrow> silk_INVERSE32_varQ gain 47;
     (gain_adj_Q16, lpc) \<leftarrow> (if gain \<noteq> prev_gain_Q16 (core_dec st)
       then silk_DIV32_varQ (prev_gain_Q16 (core_dec st)) gain 16 \<bind> (\<lambda>adj. Some (adj, map (silk_SMULWW adj) (sLPC_Q14 st)))
       else Some (65536, sLPC_Q14 st));
     Some (inv_gain_Q31, gain_adj_Q16, st\<lparr>sLPC_Q14 := lpc, core_dec := (core_dec st)\<lparr>prev_gain_Q16 := gain\<rparr>\<rparr>)
   }"

text \<open>After the concealment of a voiced frame an unvoiced one starts with the last pitch lag.\<close>

definition core_transition :: "nat \<Rightarrow> core_state \<Rightarrow> (int \<times> core_state) option" where
  "core_transition k st =
    (let psDec = core_dec st; c = core_ctrl st; st_type = signalType (dec_indices psDec)
     in if lossCnt psDec \<noteq> 0 \<and> prevSignalType psDec = TYPE_VOICED \<and> st_type \<noteq> TYPE_VOICED \<and> k < 2 then do {
          coefs \<leftarrow> put_at (LTPCoef_Q14 c) (k * LTP_ORDER) [0, 0, 4096, 0, 0];
          lags \<leftarrow> put_at (pitchL c) k [lagPrev psDec];
          Some (TYPE_VOICED, st\<lparr>core_ctrl := c\<lparr>LTPCoef_Q14 := coefs, pitchL := lags\<rparr>\<rparr>)
        } else Some (st_type, st))"

text \<open>The state of the long term predictor, from the past output or adjusted to the new gain.\<close>

definition core_rewhiten :: "nat \<Rightarrow> int list \<Rightarrow> int \<Rightarrow> int \<Rightarrow> core_state \<Rightarrow> core_state option" where
  "core_rewhiten k A_Q12 lag inv_gain_Q31 st =
    (let psDec = core_dec st; start_idx = ltp_mem_length psDec - lag - LPC_order psDec - 2; n = nat (ltp_mem_length psDec - start_idx)
     in if start_idx \<le> 0 \<or> lag < 0 \<or> sLTP_buf_idx st < lag + 2 then None
        else do {
          out \<leftarrow> (if k = 2 then elems (core_xq st) 0 (2 * nat (subfr_length psDec)) \<bind> put_at (outBuf psDec) (nat (ltp_mem_length psDec))
            else Some (outBuf psDec));
          ins \<leftarrow> elems out (nat start_idx + k * nat (subfr_length psDec)) n;
          sLTP \<leftarrow> silk_LPC_analysis_filter ins A_Q12 (nat (LPC_order psDec));
          let inv_gain_Q31 = (if k = 0 then silk_LSHIFT (silk_SMULWB inv_gain_Q31 (LTP_scale_Q14 (core_ctrl st))) 2 else inv_gain_Q31);
          recent \<leftarrow> elems sLTP (n - nat (lag + 2)) (nat (lag + 2));
          buf \<leftarrow> put_at (sLTP_Q15 st) (nat (sLTP_buf_idx st - lag - 2)) (map (\<lambda>x. Some (silk_SMULWB inv_gain_Q31 x)) recent);
          Some (st\<lparr>core_dec := psDec\<lparr>outBuf := out\<rparr>, sLTP_Q15 := buf\<rparr>)
        })"

definition core_rescale :: "int \<Rightarrow> int \<Rightarrow> core_state \<Rightarrow> core_state option" where
  "core_rescale lag gain_adj_Q16 st =
    (if gain_adj_Q16 = 65536 then Some st
     else if lag < 0 \<or> sLTP_buf_idx st < lag + 2 then None
     else do {
       old \<leftarrow> collect (written (sLTP_Q15 st)) [sLTP_buf_idx st - lag - 2..sLTP_buf_idx st - 1];
       buf \<leftarrow> put_at (sLTP_Q15 st) (nat (sLTP_buf_idx st - lag - 2)) (map (\<lambda>x. Some (silk_SMULWW gain_adj_Q16 x)) old);
       Some (st\<lparr>sLTP_Q15 := buf\<rparr>)
     })"

definition core_residual :: "nat \<Rightarrow> int list \<Rightarrow> int \<Rightarrow> int \<Rightarrow> int list \<Rightarrow> core_state \<Rightarrow> (int list \<times> core_state) option" where
  "core_residual k A_Q12 inv_gain_Q31 gain_adj_Q16 exc st = do {
     lag \<leftarrow> elem (pitchL (core_ctrl st)) (int k);
     st \<leftarrow> (if k = 0 \<or> k = 2 \<and> NLSFInterpCoef_Q2 (dec_indices (core_dec st)) < 4
       then core_rewhiten k A_Q12 lag inv_gain_Q31 st else core_rescale lag gain_adj_Q16 st);
     B_Q14 \<leftarrow> elems (LTPCoef_Q14 (core_ctrl st)) (k * LTP_ORDER) LTP_ORDER;
     (res_Q14, buf) \<leftarrow> LTP_synthesis B_Q14 lag exc (sLTP_buf_idx st) (sLTP_Q15 st);
     Some (res_Q14, st\<lparr>sLTP_Q15 := buf, sLTP_buf_idx := sLTP_buf_idx st + int (length exc)\<rparr>)
   }"

definition core_subframe :: "nat \<Rightarrow> core_state \<Rightarrow> core_state option" where
  "core_subframe k st = do {
     A_Q12 \<leftarrow> elem (PredCoef_Q12 (core_ctrl st)) (int (k div 2));
     gain \<leftarrow> elem (Gains_Q16 (core_ctrl st)) (int k);
     let Gain_Q10 = silk_RSHIFT gain 6;
     (inv_gain_Q31, gain_adj_Q16, st) \<leftarrow> core_gain gain st;
     (st_type, st) \<leftarrow> core_transition k st;
     exc \<leftarrow> elems (exc_Q14 (core_dec st)) (k * nat (subfr_length (core_dec st))) (nat (subfr_length (core_dec st)));
     (res_Q14, st) \<leftarrow> (if st_type = TYPE_VOICED then core_residual k A_Q12 inv_gain_Q31 gain_adj_Q16 exc st else Some (exc, st));
     let lpc = LPC_synthesis A_Q12 (nat (LPC_order (core_dec st))) (rev (sLPC_Q14 st)) res_Q14;
     Some (st\<lparr>sLPC_Q14 := drop (length lpc) (sLPC_Q14 st @ lpc), core_xq := core_xq st @ map (scale_sample Gain_Q10) lpc\<rparr>)
   }"

fun core_subframes :: "nat list \<Rightarrow> core_state \<Rightarrow> core_state option" where
  "core_subframes [] st = Some st"
| "core_subframes (k # ks) st = core_subframe k st \<bind> core_subframes ks"

text \<open>The decoder state, the control structure as the code leaves it and the decoded speech.\<close>

definition silk_decode_core ::
  "silk_decoder_state \<Rightarrow> silk_decoder_control \<Rightarrow> int list \<Rightarrow> (silk_decoder_state \<times> silk_decoder_control \<times> int list) option" where
  "silk_decode_core psDec c pulses =
    (let ix = dec_indices psDec in do {
       row \<leftarrow> elem silk_Quantization_Offsets_Q10 (silk_RSHIFT (signalType ix) 1);
       offset_Q10 \<leftarrow> elem row (quantOffsetType ix);
       ps \<leftarrow> elems pulses 0 (nat (frame_length psDec));
       exc \<leftarrow> put_at (exc_Q14 psDec) 0 (decode_excitation (Seed ix) offset_Q10 ps);
       lpc \<leftarrow> elems (sLPC_Q14_buf psDec) 0 16;
       st \<leftarrow> core_subframes [0..<nat (dec_nb_subfr psDec)]
         \<lparr>core_dec = psDec\<lparr>exc_Q14 := exc\<rparr>, core_ctrl = c, sLPC_Q14 = lpc,
           sLTP_Q15 = replicate (nat (ltp_mem_length psDec + frame_length psDec)) None,
           sLTP_buf_idx = ltp_mem_length psDec, core_xq = []\<rparr>;
       lpc \<leftarrow> put_at (sLPC_Q14_buf psDec) 0 (sLPC_Q14 st);
       Some ((core_dec st)\<lparr>sLPC_Q14_buf := lpc\<rparr>, core_ctrl st, core_xq st)
     })"

section \<open>The buffers are large enough\<close>

lemma LPC_synthesis_length: "length (LPC_synthesis A L hist res) = length res"
  by (induction A L hist res rule: LPC_synthesis.induct) (simp_all add: Let_def)

text \<open>Everything between two positions has been written.\<close>

definition init_in :: "int option list \<Rightarrow> int \<Rightarrow> int \<Rightarrow> bool" where
  "init_in buf lo hi \<longleftrightarrow> 0 \<le> lo \<and> hi \<le> int (length buf) \<and> (\<forall>i. lo \<le> i \<and> i < hi \<longrightarrow> buf ! nat i \<noteq> None)"

lemma init_written: "init_in buf lo hi \<Longrightarrow> lo \<le> i \<Longrightarrow> i < hi \<Longrightarrow> \<exists>x. written buf i = Some x"
  by (auto simp: init_in_def written_def)

lemma put_nth:
  assumes "put_at buf i (map Some xs) = Some buf'" and "j < length buf"
  shows "buf' ! j = (if i \<le> j \<and> j < i + length xs then Some (xs ! (j - i)) else buf ! j)"
  using assms by (auto simp: put_at_def nth_append split: if_splits)

lemma init_put:
  assumes "init_in buf lo hi" and "lo \<le> i" and "i \<le> hi" and "i + int (length xs) \<le> int (length buf)"
  shows "\<exists>buf'. put_at buf (nat i) (map Some xs) = Some buf' \<and> length buf' = length buf
    \<and> init_in buf' lo (max hi (i + int (length xs)))"
proof -
  have lo: "0 \<le> lo" "hi \<le> int (length buf)" using assms(1) by (simp_all add: init_in_def)
  then have "nat i + length xs \<le> length buf" using assms(2,4) by simp
  then obtain buf' where p: "put_at buf (nat i) (map Some xs) = Some buf'" "length buf' = length buf" by (simp add: put_at_def)
  have "buf' ! nat j \<noteq> None" if j: "lo \<le> j" "j < max hi (i + int (length xs))" for j
  proof -
    have "nat j < length buf" using j lo assms(4) by linarith
    note nth = put_nth [OF p(1) this]
    have "j < hi" if "\<not> (nat i \<le> nat j \<and> nat j < nat i + length xs)" using that j lo assms(2,3) by linarith
    then have "nat i \<le> nat j \<and> nat j < nat i + length xs \<or> buf ! nat j \<noteq> None"
      using assms(1) j(1) unfolding init_in_def by blast
    then show ?thesis unfolding nth by auto
  qed
  then have "init_in buf' lo (max hi (i + int (length xs)))"
    using lo p(2) assms(4) by (simp add: init_in_def)
  with p show ?thesis by blast
qed

lemma taps_total:
  assumes "init_in buf lo hi" and "lo \<le> p - 4" and "p < hi" and "length B = LTP_ORDER"
  shows "\<exists>y. LTP_taps buf p B a = Some y"
proof -
  have "\<exists>y. fold (\<lambda>j acc. do { a \<leftarrow> acc; x \<leftarrow> written buf (p - int j); b \<leftarrow> elem B (int j); Some (silk_SMLAWB a x b) }) js (Some a) = Some y"
    if "\<forall>j \<in> set js. j < 5" for js a
    using that
  proof (induction js arbitrary: a)
    case (Cons j js)
    have "j < 5" using Cons.prems by simp
    then have "lo \<le> p - int j" "p - int j < hi" using assms(2,3) by simp_all
    from init_written [OF assms(1) this] obtain x where "written buf (p - int j) = Some x" by blast
    then show ?case using Cons.IH Cons.prems \<open>j < 5\<close> assms(4) by (simp add: LTP_ORDER_def)
  qed simp
  from this [of "[0..<LTP_ORDER]" a] show ?thesis by (simp add: LTP_taps_def LTP_ORDER_def)
qed

lemma LTP_synthesis_total:
  "init_in buf lo idx \<Longrightarrow> lo \<le> idx - lag - 2 \<Longrightarrow> 3 \<le> lag \<Longrightarrow> idx + int (length exc) \<le> int (length buf) \<Longrightarrow> length B = LTP_ORDER \<Longrightarrow>
     \<exists>res buf'. LTP_synthesis B lag exc idx buf = Some (res, buf') \<and> length res = length exc \<and> length buf' = length buf
       \<and> init_in buf' lo (idx + int (length exc))"
proof (induction exc arbitrary: idx buf)
  case (Cons e exc)
  obtain y where y: "LTP_taps buf (idx - lag + 2) B 2 = Some y"
    using taps_total [OF Cons.prems(1) _ _ Cons.prems(5), of "idx - lag + 2" 2] Cons.prems(2,3) by auto
  define r where "r = silk_ADD_LSHIFT32 e y 1"
  obtain buf1 where b: "put_at buf (nat idx) [Some (silk_LSHIFT r 1)] = Some buf1" "length buf1 = length buf" "init_in buf1 lo (idx + 1)"
    using init_put [OF Cons.prems(1), of idx "[silk_LSHIFT r 1]"] Cons.prems(2-4) by auto
  have "lo \<le> idx + 1 - lag - 2" "idx + 1 + int (length exc) \<le> int (length buf1)" using Cons.prems(2,4) b(2) by simp_all
  from Cons.IH [OF b(3) this(1) Cons.prems(3) this(2) Cons.prems(5)] y b [unfolded r_def] show ?case
    by (auto simp: Let_def add.assoc)
qed simp

section \<open>A frame is synthesized\<close>

text \<open>What the synthesis needs of the decoder and of the parameters.\<close>

definition core_ready :: "silk_decoder_state \<Rightarrow> silk_decoder_control \<Rightarrow> bool" where
  "core_ready d c \<longleftrightarrow> rate_ok (dec_fs_kHz d) (dec_nb_subfr d) \<and> subfr_length d = 5 * dec_fs_kHz d
     \<and> frame_length d = dec_nb_subfr d * subfr_length d \<and> ltp_mem_length d = 20 * dec_fs_kHz d
     \<and> LPC_order d = int (order (NLSF_codebook (dec_fs_kHz d)))
     \<and> length (exc_Q14 d) = 320 \<and> length (sLPC_Q14_buf d) = 16 \<and> length (outBuf d) = 480 \<and> list_all int16 (outBuf d)
     \<and> signalType (dec_indices d) \<in> {0, 1, 2} \<and> quantOffsetType (dec_indices d) \<in> {0, 1}
     \<and> (lossCnt d \<noteq> 0 \<and> prevSignalType d = 2 \<longrightarrow> 2 * dec_fs_kHz d \<le> lagPrev d \<and> lagPrev d \<le> 18 * dec_fs_kHz d)
     \<and> control_ok d c"

text \<open>The subframes that the long term predictor runs in, and their lags.\<close>

definition core_voiced :: "silk_decoder_state \<Rightarrow> nat \<Rightarrow> bool" where
  "core_voiced d k \<longleftrightarrow> signalType (dec_indices d) = 2 \<or> lossCnt d \<noteq> 0 \<and> prevSignalType d = 2 \<and> k < 2"

definition core_lag :: "silk_decoder_state \<Rightarrow> silk_decoder_control \<Rightarrow> nat \<Rightarrow> int" where
  "core_lag d c k = (if signalType (dec_indices d) = 2 then pitchL c ! k else lagPrev d)"

lemma core_lags:
  assumes "core_ready d c" and "core_voiced d k" and "k < nat (dec_nb_subfr d)"
  shows "2 * dec_fs_kHz d \<le> core_lag d c k" and "core_lag d c k \<le> 18 * dec_fs_kHz d"
    and "0 < k \<Longrightarrow> core_lag d c k \<le> core_lag d c (k - 1) + 6"
proof -
  show "2 * dec_fs_kHz d \<le> core_lag d c k" "core_lag d c k \<le> 18 * dec_fs_kHz d"
    using assms by (auto simp: core_ready_def core_voiced_def core_lag_def control_ok_def Let_def list_all_length)
  show "core_lag d c k \<le> core_lag d c (k - 1) + 6" if "0 < k"
  proof (cases "signalType (dec_indices d) = 2")
    case True
    then have "\<forall>k. Suc k < nat (dec_nb_subfr d) \<longrightarrow> \<bar>pitchL c ! Suc k - pitchL c ! k\<bar> \<le> 6"
      using assms(1) unfolding core_ready_def control_ok_def Let_def by blast
    then have "\<bar>pitchL c ! k - pitchL c ! (k - 1)\<bar> \<le> 6" using assms(3) that by (metis Suc_pred')
    then show ?thesis using True by (simp add: core_lag_def)
  next
    case False
    then show ?thesis by (simp add: core_lag_def)
  qed
qed

text \<open>The invariant before subframe \<open>k\<close>.\<close>

definition core_inv :: "silk_decoder_state \<Rightarrow> silk_decoder_control \<Rightarrow> nat \<Rightarrow> core_state \<Rightarrow> bool" where
  "core_inv d c k st \<longleftrightarrow>
     core_dec st = d\<lparr>prev_gain_Q16 := prev_gain_Q16 (core_dec st), outBuf := outBuf (core_dec st)\<rparr>
     \<and> length (outBuf (core_dec st)) = 480 \<and> list_all int16 (outBuf (core_dec st))
     \<and> core_ctrl st = c\<lparr>LTPCoef_Q14 := LTPCoef_Q14 (core_ctrl st), pitchL := pitchL (core_ctrl st)\<rparr>
     \<and> length (LTPCoef_Q14 (core_ctrl st)) = LTP_ORDER * nat (dec_nb_subfr d) \<and> length (pitchL (core_ctrl st)) = nat (dec_nb_subfr d)
     \<and> (signalType (dec_indices d) = 2 \<longrightarrow> pitchL (core_ctrl st) = pitchL c)
     \<and> length (sLPC_Q14 st) = 16 \<and> length (sLTP_Q15 st) = nat (ltp_mem_length d + frame_length d)
     \<and> length (core_xq st) = k * nat (subfr_length d) \<and> list_all int16 (core_xq st)
     \<and> (core_voiced d k \<longrightarrow> sLTP_buf_idx st = ltp_mem_length d + int k * subfr_length d
         \<and> (0 < k \<longrightarrow> (\<exists>lo. init_in (sLTP_Q15 st) lo (sLTP_buf_idx st)
               \<and> lo \<le> sLTP_buf_idx st - subfr_length d - core_lag d c (k - 1) - 2)))"

lemma core_gain_total:
  assumes "core_inv d c k st" and "0 < g" and "g < 2 ^ 31"
  shows "\<exists>inv adj st'. core_gain g st = Some (inv, adj, st') \<and> core_inv d c k st'
     \<and> st' = st\<lparr>sLPC_Q14 := sLPC_Q14 st', core_dec := core_dec st'\<rparr>"
proof -
  obtain inv where inv: "silk_INVERSE32_varQ g 47 = Some inv" using inverse_total [OF assms(2,3)] by blast
  obtain adj0 where adj0: "silk_DIV32_varQ (prev_gain_Q16 (core_dec st)) g 16 = Some adj0" using division_total [OF assms(2,3)] by blast
  have d: "core_dec st = d\<lparr>prev_gain_Q16 := prev_gain_Q16 (core_dec st), outBuf := outBuf (core_dec st)\<rparr>"
    using assms(1) by (simp add: core_inv_def)
  obtain pg ob where "core_dec st = d\<lparr>prev_gain_Q16 := pg, outBuf := ob\<rparr>" using d by blast
  then show ?thesis using inv adj0 assms(1) unfolding core_gain_def core_inv_def by auto
qed

lemma core_transition_total:
  assumes "core_inv d c k st" and "k < nat (dec_nb_subfr d)"
  shows "\<exists>ty st'. core_transition k st = Some (ty, st') \<and> core_inv d c k st' \<and> (ty = TYPE_VOICED \<longleftrightarrow> core_voiced d k)
     \<and> (core_voiced d k \<longrightarrow> pitchL (core_ctrl st') ! k = core_lag d c k)"
proof -
  obtain pg ob where d: "core_dec st = d\<lparr>prev_gain_Q16 := pg, outBuf := ob\<rparr>" using assms(1) unfolding core_inv_def by blast
  have f: "dec_indices (core_dec st) = dec_indices d" "lossCnt (core_dec st) = lossCnt d" "prevSignalType (core_dec st) = prevSignalType d"
    "lagPrev (core_dec st) = lagPrev d" by (simp_all add: d)
  show ?thesis
  proof (cases "lossCnt d \<noteq> 0 \<and> prevSignalType d = 2 \<and> signalType (dec_indices d) \<noteq> 2 \<and> k < 2")
    case True
    have l: "length (LTPCoef_Q14 (core_ctrl st)) = LTP_ORDER * nat (dec_nb_subfr d)" "length (pitchL (core_ctrl st)) = nat (dec_nb_subfr d)"
      using assms(1) by (simp_all add: core_inv_def)
    have room: "k * LTP_ORDER + 5 \<le> length (LTPCoef_Q14 (core_ctrl st))"
      using assms(2) mult_le_mono1 [of "Suc k" "nat (dec_nb_subfr d)" 5] by (simp add: l LTP_ORDER_def mult.commute)
    obtain coefs where co: "put_at (LTPCoef_Q14 (core_ctrl st)) (k * LTP_ORDER) [0, 0, 4096, 0, 0] = Some coefs"
      "length coefs = length (LTPCoef_Q14 (core_ctrl st))" using room by (simp add: put_at_def)
    obtain lags where la: "put_at (pitchL (core_ctrl st)) k [lagPrev d] = Some lags" "length lags = length (pitchL (core_ctrl st))" "lags ! k = lagPrev d"
      using assms(2) l(2) by (simp add: put_at_def nth_append)
    have "core_transition k st = Some (TYPE_VOICED, st\<lparr>core_ctrl := (core_ctrl st)\<lparr>LTPCoef_Q14 := coefs, pitchL := lags\<rparr>\<rparr>)"
      using True co(1) la(1) by (simp add: core_transition_def f TYPE_VOICED_def Let_def)
    moreover obtain q p where "core_ctrl st = c\<lparr>LTPCoef_Q14 := q, pitchL := p\<rparr>" using assms(1) unfolding core_inv_def by blast
    ultimately show ?thesis using True assms(1) co(2) la(2,3) by (auto simp: core_inv_def core_voiced_def core_lag_def)
  next
    case False
    then have "core_transition k st = Some (signalType (dec_indices d), st)" by (auto simp: core_transition_def f TYPE_VOICED_def Let_def)
    moreover have "core_voiced d k \<longleftrightarrow> signalType (dec_indices d) = 2" using False by (auto simp: core_voiced_def)
    moreover have "pitchL (core_ctrl st) = pitchL c" if "signalType (dec_indices d) = 2" using that assms(1) by (simp add: core_inv_def)
    ultimately show ?thesis using assms(1) by (auto simp: core_lag_def TYPE_VOICED_def)
  qed
qed

lemma analysis_total:
  assumes "6 \<le> n" and "even n" and "n \<le> length ins" and "length B = n"
  shows "\<exists>out. silk_LPC_analysis_filter ins B n = Some out \<and> length out = length ins"
proof -
  have "length (LPC_analysis_loop B p xs) = length xs" for B p xs
    by (induction B p xs rule: LPC_analysis_loop.induct) (simp_all add: Let_def)
  then show ?thesis using assms by (simp add: silk_LPC_analysis_filter_def)
qed

lemma elems_some: "i + n \<le> length xs \<Longrightarrow> \<exists>ys. elems xs i n = Some ys \<and> length ys = n"
  by (simp add: elems_def)

lemma rewhiten_room:
  assumes rd: "core_ready d c" and v: "core_voiced d k" and k: "k < nat (dec_nb_subfr d)" and k02: "k = 0 \<or> k = 2"
    and start: "start = ltp_mem_length d - core_lag d c k - LPC_order d - 2"
  shows "0 < start" and "nat (ltp_mem_length d - start) = nat (core_lag d c k + 2) + nat (LPC_order d)"
    and "nat start + k * nat (subfr_length d) + nat (ltp_mem_length d - start) \<le> 480"
    and "nat (ltp_mem_length d) + 2 * nat (subfr_length d) \<le> 480"
    and "0 \<le> core_lag d c k" and "6 \<le> nat (LPC_order d)" and "even (nat (LPC_order d))"
proof -
  define fs where "fs = dec_fs_kHz d"
  have fs: "fs = 8 \<or> fs = 12 \<or> fs = 16" using rd by (auto simp: core_ready_def rate_ok_def fs_def)
  have r: "subfr_length d = 5 * fs" "ltp_mem_length d = 20 * fs" "LPC_order d = (if fs = 16 then 16 else 10)"
    using rd by (simp_all add: core_ready_def fs_def codebook_order)
  have lag: "2 * fs \<le> core_lag d c k" "core_lag d c k \<le> 18 * fs" using core_lags [OF rd v k] by (simp_all add: fs_def)
  have L: "LPC_order d = 10 \<or> LPC_order d = 16" "LPC_order d + 2 < 2 * fs" using r(3) fs by auto
  show "6 \<le> nat (LPC_order d)" "even (nat (LPC_order d))" using L(1) by auto
  show "0 \<le> core_lag d c k" using lag fs by linarith
  show s: "0 < start" using lag L(2) by (simp add: start r)
  show "nat (ltp_mem_length d - start) = nat (core_lag d c k + 2) + nat (LPC_order d)" using lag fs L(1) by (auto simp: start)
  show "nat (ltp_mem_length d) + 2 * nat (subfr_length d) \<le> 480" using fs by (auto simp: r)
  have "k \<le> 2" using k02 by auto
  then have "int k * (5 * fs) \<le> 2 * (5 * fs)" using fs by (intro mult_right_mono) auto
  moreover have "start < 20 * fs" using lag fs L(1) by (auto simp: start r)
  moreover have "int (k * nat (subfr_length d)) = int k * (5 * fs)" using fs by (auto simp: r)
  ultimately have "int (nat start + k * nat (subfr_length d) + nat (ltp_mem_length d - start)) \<le> 480" using s fs unfolding r by auto
  then show "nat start + k * nat (subfr_length d) + nat (ltp_mem_length d - start) \<le> 480" by linarith
qed

lemma core_size:
  assumes "core_ready d c"
  shows "0 < subfr_length d" and "frame_length d = dec_nb_subfr d * subfr_length d" and "0 < ltp_mem_length d" and "0 \<le> dec_nb_subfr d"
    and "dec_nb_subfr d \<le> 4" and "frame_length d \<le> 320" and "40 \<le> subfr_length d" and "ltp_mem_length d = 4 * subfr_length d"
proof -
  have fs: "dec_fs_kHz d = 8 \<or> dec_fs_kHz d = 12 \<or> dec_fs_kHz d = 16" "dec_nb_subfr d = 2 \<or> dec_nb_subfr d = 4"
    using assms by (auto simp: core_ready_def rate_ok_def)
  have r: "subfr_length d = 5 * dec_fs_kHz d" "frame_length d = dec_nb_subfr d * subfr_length d" "ltp_mem_length d = 20 * dec_fs_kHz d"
    using assms by (simp_all add: core_ready_def)
  show "0 < subfr_length d" "40 \<le> subfr_length d" "0 < ltp_mem_length d" "ltp_mem_length d = 4 * subfr_length d"
    using fs(1) unfolding r(1,3) by auto
  show "0 \<le> dec_nb_subfr d" "dec_nb_subfr d \<le> 4" using fs(2) by auto
  show "frame_length d = dec_nb_subfr d * subfr_length d" by (rule r(2))
  show "frame_length d \<le> 320" using fs unfolding r(1,2) by auto
qed

lemma core_voiced_back: "core_voiced d k \<Longrightarrow> j \<le> k \<Longrightarrow> core_voiced d j"
  by (auto simp: core_voiced_def)

lemma core_end: "k < nat (dec_nb_subfr d) \<Longrightarrow> core_ready d c \<Longrightarrow> int k * subfr_length d + subfr_length d \<le> frame_length d"
proof -
  assume k: "k < nat (dec_nb_subfr d)" and "core_ready d c"
  note s = core_size [OF this(2)]
  have "(int k + 1) * subfr_length d \<le> dec_nb_subfr d * subfr_length d" using k s(1) by (intro mult_right_mono) auto
  then show ?thesis using s(2) by (simp add: algebra_simps)
qed

text \<open>Before a subframe that is predicted from the past, the position in the buffer.\<close>

lemma core_idx:
  assumes "core_inv d c k st" and "core_voiced d k" and "core_ready d c" and "k < nat (dec_nb_subfr d)"
  shows "sLTP_buf_idx st = ltp_mem_length d + int k * subfr_length d" and "0 \<le> sLTP_buf_idx st - core_lag d c k - 2"
    and "sLTP_buf_idx st + subfr_length d \<le> int (length (sLTP_Q15 st))" and "3 \<le> core_lag d c k"
proof -
  note s = core_size [OF assms(3)]
  have fs: "8 \<le> dec_fs_kHz d" "ltp_mem_length d = 20 * dec_fs_kHz d" using assms(3) by (auto simp: core_ready_def rate_ok_def)
  show i: "sLTP_buf_idx st = ltp_mem_length d + int k * subfr_length d" using assms(1,2) by (simp add: core_inv_def)
  note lag = core_lags [OF assms(3,2,4)]
  show "3 \<le> core_lag d c k" using lag fs by linarith
  have "0 \<le> int k * subfr_length d" using s(1) by simp
  then show "0 \<le> sLTP_buf_idx st - core_lag d c k - 2" using lag fs i by linarith
  have "length (sLTP_Q15 st) = nat (ltp_mem_length d + frame_length d)" using assms(1) by (simp add: core_inv_def)
  moreover have "int k * subfr_length d + subfr_length d \<le> frame_length d" using core_end [OF assms(4,3)] .
  ultimately show "sLTP_buf_idx st + subfr_length d \<le> int (length (sLTP_Q15 st))" using i s(3) by linarith
qed

lemma rewhiten_out:
  assumes "core_inv d c k st" and "core_ready d c" and "k = 0 \<or> k = 2"
    and "nat (ltp_mem_length d) + 2 * nat (subfr_length d) \<le> 480"
  shows "\<exists>out. (if k = 2 then elems (core_xq st) 0 (2 * nat (subfr_length d)) \<bind> put_at (outBuf (core_dec st)) (nat (ltp_mem_length d))
     else Some (outBuf (core_dec st))) = Some out \<and> length out = 480 \<and> list_all int16 out"
proof (cases "k = 2")
  case True
  have o: "length (outBuf (core_dec st)) = 480" "list_all int16 (outBuf (core_dec st))"
    and x: "length (core_xq st) = 2 * nat (subfr_length d)" "list_all int16 (core_xq st)"
    using assms(1) True by (simp_all add: core_inv_def)
  have e: "elems (core_xq st) 0 (2 * nat (subfr_length d)) = Some (core_xq st)" by (simp add: elems_def x(1))
  obtain out where "put_at (outBuf (core_dec st)) (nat (ltp_mem_length d)) (core_xq st) = Some out"
    using assms(4) o(1) x(1) by (simp add: put_at_def)
  with int16_put [OF o(2) x(2) this] e o(1) True show ?thesis by simp
qed (use assms(1) in \<open>simp add: core_inv_def\<close>)

lemma rewhiten_total:
  assumes inv: "core_inv d c k st" and rd: "core_ready d c" and v: "core_voiced d k" and k: "k < nat (dec_nb_subfr d)"
    and A: "int (length A) = LPC_order d" and k02: "k = 0 \<or> k = 2"
  shows "\<exists>out buf. core_rewhiten k A (core_lag d c k) g st = Some (st\<lparr>core_dec := (core_dec st)\<lparr>outBuf := out\<rparr>, sLTP_Q15 := buf\<rparr>)
     \<and> length out = 480 \<and> list_all int16 out \<and> length buf = length (sLTP_Q15 st)
     \<and> init_in buf (sLTP_buf_idx st - core_lag d c k - 2) (sLTP_buf_idx st)"
proof -
  define lag where "lag = core_lag d c k"
  define start where "start = ltp_mem_length d - lag - LPC_order d - 2"
  define n where "n = nat (ltp_mem_length d - start)"
  note room = rewhiten_room [OF rd v k k02 start_def [unfolded lag_def], folded lag_def n_def]
  note idx = core_idx [OF inv v rd k, folded lag_def]
  obtain pg ob where d: "core_dec st = d\<lparr>prev_gain_Q16 := pg, outBuf := ob\<rparr>" using inv unfolding core_inv_def by blast
  have f: "ltp_mem_length (core_dec st) = ltp_mem_length d" "LPC_order (core_dec st) = LPC_order d" "subfr_length (core_dec st) = subfr_length d"
    by (simp_all add: d)
  obtain out where o: "(if k = 2 then elems (core_xq st) 0 (2 * nat (subfr_length d)) \<bind> put_at (outBuf (core_dec st)) (nat (ltp_mem_length d))
     else Some (outBuf (core_dec st))) = Some out" "length out = 480" "list_all int16 out"
    using rewhiten_out [OF inv rd k02 room(4)] by blast
  have "nat start + k * nat (subfr_length d) + n \<le> length out" using room(3) o(2) by simp
  from elems_some [OF this] obtain ins where ins: "elems out (nat start + k * nat (subfr_length d)) n = Some ins" "length ins = n" by blast
  have "length A = nat (LPC_order d)" "nat (LPC_order d) \<le> length ins" using A room(2) ins(2) by linarith+
  from analysis_total [OF room(6,7) this(2,1)] ins(2)
  obtain sl where sl: "silk_LPC_analysis_filter ins A (nat (LPC_order d)) = Some sl" "length sl = n" by metis
  have "n - nat (lag + 2) + nat (lag + 2) \<le> length sl" using room(2) sl(2) by simp
  from elems_some [OF this] obtain recent where rc: "elems sl (n - nat (lag + 2)) (nat (lag + 2)) = Some recent" "length recent = nat (lag + 2)" by blast
  define g' where "g' = (if k = 0 then silk_LSHIFT (silk_SMULWB g (LTP_scale_Q14 (core_ctrl st))) 2 else g)"
  define i where "i = sLTP_buf_idx st - lag - 2"
  have i: "0 \<le> i" "i + int (length (map (silk_SMULWB g') recent)) = sLTP_buf_idx st" "sLTP_buf_idx st \<le> int (length (sLTP_Q15 st))"
  proof -
    show "0 \<le> i" using idx(2) by (simp add: i_def)
    show "i + int (length (map (silk_SMULWB g') recent)) = sLTP_buf_idx st" using idx(4) rc(2) by (simp add: i_def)
    show "sLTP_buf_idx st \<le> int (length (sLTP_Q15 st))" using idx(3) core_size(1) [OF rd] by linarith
  qed
  have "i \<le> int (length (sLTP_Q15 st))" using i(2,3) by linarith
  with i(1) have "init_in (sLTP_Q15 st) i i" by (auto simp: init_in_def)
  from init_put [OF this order_refl order_refl, of "map (silk_SMULWB g') recent", unfolded i(2), OF i(3)]
  obtain buf where b: "put_at (sLTP_Q15 st) (nat i) (map Some (map (silk_SMULWB g') recent)) = Some buf"
    "length buf = length (sLTP_Q15 st)" "init_in buf i (max i (sLTP_buf_idx st))" by blast
  have "max i (sLTP_buf_idx st) = sLTP_buf_idx st" using idx(4) by (simp add: i_def)
  then have b3: "init_in buf i (sLTP_buf_idx st)" using b(3) by simp
  have guard: "\<not> (start \<le> 0 \<or> lag < 0 \<or> sLTP_buf_idx st < lag + 2)" using room(1,5) i(1) by (simp add: i_def)
  have b1: "put_at (sLTP_Q15 st) (nat (sLTP_buf_idx st - lag - 2)) (map (\<lambda>x. Some (silk_SMULWB g' x)) recent) = Some buf"
    using b(1) by (simp add: i_def comp_def)
  have "core_rewhiten k A lag g st = Some (st\<lparr>core_dec := (core_dec st)\<lparr>outBuf := out\<rparr>, sLTP_Q15 := buf\<rparr>)"
    unfolding core_rewhiten_def Let_def f start_def [symmetric] n_def [symmetric] g'_def [symmetric]
    by (simp only: guard if_False o(1) ins(1) sl(1) rc(1) b1 bind.bind_lunit)
  with o(2,3) b(2) b3 [unfolded i_def] show ?thesis unfolding lag_def by blast
qed

lemma collect_written: "init_in buf lo hi \<Longrightarrow> (\<forall>i \<in> set js. lo \<le> i \<and> i < hi) \<Longrightarrow> \<exists>xs. collect (written buf) js = Some xs \<and> length xs = length js"
proof (induction js)
  case (Cons j js)
  then obtain x where "written buf j = Some x" using init_written [of buf lo hi j] by auto
  with Cons show ?case by auto
qed simp

lemma rescale_total:
  assumes i: "init_in (sLTP_Q15 st) lo (sLTP_buf_idx st)" and lo: "lo \<le> sLTP_buf_idx st - lag - 2" and lag: "0 \<le> lag"
  shows "\<exists>buf. core_rescale lag adj st = Some (st\<lparr>sLTP_Q15 := buf\<rparr>) \<and> length buf = length (sLTP_Q15 st) \<and> init_in buf lo (sLTP_buf_idx st)"
proof (cases "adj = 65536")
  case True
  then show ?thesis using i by (simp add: core_rescale_def) (metis core_state.surjective core_state.update_convs(4))
next
  case False
  define j where "j = sLTP_buf_idx st - lag - 2"
  obtain old where o: "collect (written (sLTP_Q15 st)) [j..sLTP_buf_idx st - 1] = Some old" "length old = nat (lag + 2)"
    using collect_written [OF i, of "[j..sLTP_buf_idx st - 1]"] lo by (auto simp: j_def)
  have len: "j + int (length (map (silk_SMULWW adj) old)) = sLTP_buf_idx st" using o(2) lag by (simp add: j_def)
  have room: "sLTP_buf_idx st \<le> int (length (sLTP_Q15 st))" "0 \<le> lo" using i by (simp_all add: init_in_def)
  have "j \<le> sLTP_buf_idx st" using lag by (simp add: j_def)
  from init_put [OF i lo [folded j_def] this, of "map (silk_SMULWW adj) old", unfolded len, OF room(1)]
  obtain buf where b: "put_at (sLTP_Q15 st) (nat j) (map Some (map (silk_SMULWW adj) old)) = Some buf"
    "length buf = length (sLTP_Q15 st)" "init_in buf lo (sLTP_buf_idx st)" by (metis max.idem)
  have "\<not> (lag < 0 \<or> sLTP_buf_idx st < lag + 2)" using lag lo room(2) by linarith
  then have "core_rescale lag adj st = Some (st\<lparr>sLTP_Q15 := buf\<rparr>)"
    using False o(1) b(1) by (simp add: core_rescale_def j_def comp_def)
  with b(2,3) show ?thesis by blast
qed

text \<open>The filter state of the long term predictor, rewhitened or rescaled.\<close>

lemma residual_state:
  assumes inv: "core_inv d c k st" and rd: "core_ready d c" and v: "core_voiced d k" and k: "k < nat (dec_nb_subfr d)"
    and A: "int (length A) = LPC_order d"
  shows "\<exists>out buf lo. (if k = 0 \<or> k = 2 \<and> NLSFInterpCoef_Q2 (dec_indices (core_dec st)) < 4
       then core_rewhiten k A (core_lag d c k) g st else core_rescale (core_lag d c k) adj st)
       = Some (st\<lparr>core_dec := (core_dec st)\<lparr>outBuf := out\<rparr>, sLTP_Q15 := buf\<rparr>)
     \<and> length out = 480 \<and> list_all int16 out \<and> length buf = length (sLTP_Q15 st)
     \<and> init_in buf lo (sLTP_buf_idx st) \<and> lo \<le> sLTP_buf_idx st - core_lag d c k - 2"
proof (cases "k = 0 \<or> k = 2 \<and> NLSFInterpCoef_Q2 (dec_indices (core_dec st)) < 4")
  case True
  then have "k = 0 \<or> k = 2" by blast
  from rewhiten_total [OF inv rd v k A this] True show ?thesis by (simp only: if_True) blast
next
  case False
  then have k0: "0 < k" by simp
  with inv v obtain lo where i: "init_in (sLTP_Q15 st) lo (sLTP_buf_idx st)"
    "lo \<le> sLTP_buf_idx st - subfr_length d - core_lag d c (k - 1) - 2" unfolding core_inv_def by blast
  have "lo \<le> sLTP_buf_idx st - core_lag d c k - 2"
    using i(2) core_lags(3) [OF rd v k k0] core_size(7) [OF rd] by linarith
  note lo = this
  have "0 \<le> core_lag d c k" using core_idx(4) [OF inv v rd k] by simp
  from rescale_total [OF i(1) lo this] obtain buf where
    b: "core_rescale (core_lag d c k) adj st = Some (st\<lparr>sLTP_Q15 := buf\<rparr>)" "length buf = length (sLTP_Q15 st)" "init_in buf lo (sLTP_buf_idx st)"
    by blast
  have "st\<lparr>sLTP_Q15 := buf\<rparr> = st\<lparr>core_dec := (core_dec st)\<lparr>outBuf := outBuf (core_dec st)\<rparr>, sLTP_Q15 := buf\<rparr>" by simp
  moreover have "length (outBuf (core_dec st)) = 480" "list_all int16 (outBuf (core_dec st))" using inv by (simp_all add: core_inv_def)
  ultimately show ?thesis using False b lo by (simp only: if_False) metis
qed

lemma residual_total:
  assumes inv: "core_inv d c k st" and rd: "core_ready d c" and v: "core_voiced d k" and k: "k < nat (dec_nb_subfr d)"
    and A: "int (length A) = LPC_order d" and lag: "pitchL (core_ctrl st) ! k = core_lag d c k" and exc: "length exc = nat (subfr_length d)"
  shows "\<exists>res out buf lo. core_residual k A g adj exc st = Some (res, st\<lparr>core_dec := (core_dec st)\<lparr>outBuf := out\<rparr>, sLTP_Q15 := buf,
         sLTP_buf_idx := sLTP_buf_idx st + subfr_length d\<rparr>)
     \<and> length res = length exc \<and> length out = 480 \<and> list_all int16 out \<and> length buf = length (sLTP_Q15 st)
     \<and> init_in buf lo (sLTP_buf_idx st + subfr_length d) \<and> lo \<le> sLTP_buf_idx st - core_lag d c k - 2"
proof -
  have l: "length (pitchL (core_ctrl st)) = nat (dec_nb_subfr d)" "length (LTPCoef_Q14 (core_ctrl st)) = LTP_ORDER * nat (dec_nb_subfr d)"
    using inv by (simp_all add: core_inv_def)
  have e: "elem (pitchL (core_ctrl st)) (int k) = Some (core_lag d c k)" using k l(1) lag by simp
  obtain out buf lo where s: "(if k = 0 \<or> k = 2 \<and> NLSFInterpCoef_Q2 (dec_indices (core_dec st)) < 4
       then core_rewhiten k A (core_lag d c k) g st else core_rescale (core_lag d c k) adj st)
       = Some (st\<lparr>core_dec := (core_dec st)\<lparr>outBuf := out\<rparr>, sLTP_Q15 := buf\<rparr>)"
    and o: "length out = 480" "list_all int16 out" and b: "length buf = length (sLTP_Q15 st)" "init_in buf lo (sLTP_buf_idx st)"
    and lo: "lo \<le> sLTP_buf_idx st - core_lag d c k - 2"
    using residual_state [OF inv rd v k A] by blast
  have "k * LTP_ORDER + LTP_ORDER \<le> length (LTPCoef_Q14 (core_ctrl st))"
    using mult_le_mono1 [of "Suc k" "nat (dec_nb_subfr d)" LTP_ORDER] k l(2) by (simp add: mult.commute)
  from elems_some [OF this] obtain B where B: "elems (LTPCoef_Q14 (core_ctrl st)) (k * LTP_ORDER) LTP_ORDER = Some B" "length B = LTP_ORDER" by blast
  note idx = core_idx [OF inv v rd k]
  have n: "int (length exc) = subfr_length d" using exc core_size(1) [OF rd] by simp
  have "sLTP_buf_idx st + int (length exc) \<le> int (length buf)" using idx(3) b(1) n by simp
  from LTP_synthesis_total [OF b(2) lo idx(4) this B(2)] obtain res buf' where
    t: "LTP_synthesis B (core_lag d c k) exc (sLTP_buf_idx st) buf = Some (res, buf')" "length res = length exc" "length buf' = length buf"
      "init_in buf' lo (sLTP_buf_idx st + subfr_length d)" unfolding n by blast
  have "core_residual k A g adj exc st = Some (res, st\<lparr>core_dec := (core_dec st)\<lparr>outBuf := out\<rparr>, sLTP_Q15 := buf',
         sLTP_buf_idx := sLTP_buf_idx st + subfr_length d\<rparr>)"
    unfolding core_residual_def e bind.bind_lunit s by (simp add: B(1) t(1) n)
  with t(2-4) o lo b(1) show ?thesis by metis
qed

lemma scale_sample_range: "int16 (scale_sample g x)"
  by (simp add: scale_sample_def sat16)

lemma sLPC_shift: "length xs = 16 \<Longrightarrow> length (drop (length lpc) (xs @ lpc)) = 16"
  by (simp only: length_drop length_append diff_add_inverse2)

lemma inv_voiced:
  assumes inv: "core_inv d c k st" and rd: "core_ready d c" and v: "core_voiced d k" and lpc: "length lpc = nat (subfr_length d)"
    and out: "length out = 480" "list_all int16 out" and buf: "length buf = length (sLTP_Q15 st)"
    and i: "init_in buf lo (sLTP_buf_idx st + subfr_length d)" and lo: "lo \<le> sLTP_buf_idx st - core_lag d c k - 2"
  shows "core_inv d c (Suc k) (st\<lparr>core_dec := (core_dec st)\<lparr>outBuf := out\<rparr>, sLTP_Q15 := buf, sLTP_buf_idx := sLTP_buf_idx st + subfr_length d,
    sLPC_Q14 := drop (length lpc) (sLPC_Q14 st @ lpc), core_xq := core_xq st @ map (scale_sample g) lpc\<rparr>)"
proof -
  obtain pg ob where d: "core_dec st = d\<lparr>prev_gain_Q16 := pg, outBuf := ob\<rparr>" using inv unfolding core_inv_def by blast
  obtain q p where c: "core_ctrl st = c\<lparr>LTPCoef_Q14 := q, pitchL := p\<rparr>" using inv unfolding core_inv_def by blast
  have lens: "length q = LTP_ORDER * nat (dec_nb_subfr d)" "length p = nat (dec_nb_subfr d)" "signalType (dec_indices d) = 2 \<Longrightarrow> p = pitchL c"
    "length (sLPC_Q14 st) = 16" "length (sLTP_Q15 st) = nat (ltp_mem_length d + frame_length d)" "length (core_xq st) = k * nat (subfr_length d)"
    "list_all int16 (core_xq st)" using inv by (simp_all add: core_inv_def c)
  have xs: "list_all int16 (map (scale_sample g) lpc)" by (simp add: list_all_iff scale_sample_range)
  have idx: "sLTP_buf_idx st + subfr_length d = ltp_mem_length d + int (Suc k) * subfr_length d"
    using inv v by (simp add: core_inv_def algebra_simps)
  have "\<exists>lo. init_in buf lo (sLTP_buf_idx st + subfr_length d)
      \<and> lo \<le> sLTP_buf_idx st + subfr_length d - subfr_length d - core_lag d c (Suc k - 1) - 2" using i lo by (intro exI [of _ lo]) simp
  with lens xs idx out buf lpc sLPC_shift [OF lens(4), of lpc] show ?thesis unfolding core_inv_def by (simp add: d c del: drop_append)
qed

lemma inv_unvoiced:
  assumes inv: "core_inv d c k st" and v: "\<not> core_voiced d k" and lpc: "length lpc = nat (subfr_length d)"
  shows "core_inv d c (Suc k) (st\<lparr>sLPC_Q14 := drop (length lpc) (sLPC_Q14 st @ lpc), core_xq := core_xq st @ map (scale_sample g) lpc\<rparr>)"
proof -
  have v': "\<not> core_voiced d (Suc k)" using v core_voiced_back [of d "Suc k" k] by auto
  have xs: "list_all int16 (map (scale_sample g) lpc)" by (simp add: list_all_iff scale_sample_range)
  obtain pg ob where d: "core_dec st = d\<lparr>prev_gain_Q16 := pg, outBuf := ob\<rparr>" using inv unfolding core_inv_def by blast
  obtain q p where c: "core_ctrl st = c\<lparr>LTPCoef_Q14 := q, pitchL := p\<rparr>" using inv unfolding core_inv_def by blast
  have lens: "length ob = 480" "list_all int16 ob" "length q = LTP_ORDER * nat (dec_nb_subfr d)" "length p = nat (dec_nb_subfr d)"
    "signalType (dec_indices d) = 2 \<Longrightarrow> p = pitchL c"
    "length (sLPC_Q14 st) = 16" "length (sLTP_Q15 st) = nat (ltp_mem_length d + frame_length d)" "length (core_xq st) = k * nat (subfr_length d)"
    "list_all int16 (core_xq st)" using inv by (simp_all add: core_inv_def c d)
  show ?thesis using v' xs lens lpc sLPC_shift [OF lens(6), of lpc] unfolding core_inv_def by (simp add: d c del: drop_append)
qed

lemma subframe_total:
  assumes inv: "core_inv d c k st" and rd: "core_ready d c" and k: "k < nat (dec_nb_subfr d)"
  shows "\<exists>st'. core_subframe k st = Some st' \<and> core_inv d c (Suc k) st'"
proof -
  note s = core_size [OF rd]
  have ctl: "control_ok d c" and nb: "dec_nb_subfr d = 2 \<or> dec_nb_subfr d = 4" and e320: "length (exc_Q14 d) = 320" and ord: "LPC_order d = 10 \<or> LPC_order d = 16"
    using rd by (auto simp: core_ready_def rate_ok_def codebook_order)
  have c0: "Gains_Q16 (core_ctrl st) = Gains_Q16 c" "PredCoef_Q12 (core_ctrl st) = PredCoef_Q12 c"
  proof -
    obtain q p where "core_ctrl st = c\<lparr>LTPCoef_Q14 := q, pitchL := p\<rparr>" using inv unfolding core_inv_def by blast
    then show "Gains_Q16 (core_ctrl st) = Gains_Q16 c" "PredCoef_Q12 (core_ctrl st) = PredCoef_Q12 c" by simp_all
  qed
  have "k div 2 < 2" using k nb by auto
  then have p: "elem (PredCoef_Q12 (core_ctrl st)) (int (k div 2)) = Some (PredCoef_Q12 c ! (k div 2))" "int (length (PredCoef_Q12 c ! (k div 2))) = LPC_order d"
    using ctl by (auto simp: control_ok_def Let_def c0 list_all_length)
  define A where "A = PredCoef_Q12 c ! (k div 2)"
  have g: "elem (Gains_Q16 (core_ctrl st)) (int k) = Some (Gains_Q16 c ! k)" "0 < Gains_Q16 c ! k" "Gains_Q16 c ! k < 2 ^ 31"
    using ctl k by (auto simp: control_ok_def Let_def c0 list_all_length)
  obtain inv_gain adj st1 where g1: "core_gain (Gains_Q16 c ! k) st = Some (inv_gain, adj, st1)" "core_inv d c k st1"
    using core_gain_total [OF inv g(2,3)] by blast
  obtain ty st2 where t: "core_transition k st1 = Some (ty, st2)" "core_inv d c k st2" "ty = TYPE_VOICED \<longleftrightarrow> core_voiced d k"
    "core_voiced d k \<Longrightarrow> pitchL (core_ctrl st2) ! k = core_lag d c k"
    using core_transition_total [OF g1(2) k] by blast
  have f: "exc_Q14 (core_dec st2) = exc_Q14 d" "subfr_length (core_dec st2) = subfr_length d" "LPC_order (core_dec st2) = LPC_order d"
  proof -
    obtain pg ob where "core_dec st2 = d\<lparr>prev_gain_Q16 := pg, outBuf := ob\<rparr>" using t(2) unfolding core_inv_def by blast
    then show "exc_Q14 (core_dec st2) = exc_Q14 d" "subfr_length (core_dec st2) = subfr_length d" "LPC_order (core_dec st2) = LPC_order d" by simp_all
  qed
  have "int (k * nat (subfr_length d)) = int k * subfr_length d" using s(1) by simp
  then have "k * nat (subfr_length d) + nat (subfr_length d) \<le> length (exc_Q14 d)"
    using core_end [OF k rd] s(1,6) e320 by linarith
  from elems_some [OF this] obtain exc where exc: "elems (exc_Q14 d) (k * nat (subfr_length d)) (nat (subfr_length d)) = Some exc"
    "length exc = nat (subfr_length d)" by blast
  have "\<exists>res st3. (if ty = TYPE_VOICED then core_residual k A inv_gain adj exc st2 else Some (exc, st2)) = Some (res, st3)
     \<and> length res = length exc \<and> LPC_order (core_dec st3) = LPC_order d \<and> sLPC_Q14 st3 = sLPC_Q14 st2 \<and> core_xq st3 = core_xq st2
     \<and> (\<forall>lpc. length lpc = length exc \<longrightarrow>
          core_inv d c (Suc k) (st3\<lparr>sLPC_Q14 := drop (length lpc) (sLPC_Q14 st3 @ lpc), core_xq := core_xq st3 @ map (scale_sample (silk_RSHIFT (Gains_Q16 c ! k) 6)) lpc\<rparr>))"
  proof (cases "core_voiced d k")
    case True
    from residual_total [OF t(2) rd True k p(2) [folded A_def] t(4) [OF True] exc(2)] obtain res out buf lo where
      r: "core_residual k A inv_gain adj exc st2 = Some (res, st2\<lparr>core_dec := (core_dec st2)\<lparr>outBuf := out\<rparr>, sLTP_Q15 := buf,
         sLTP_buf_idx := sLTP_buf_idx st2 + subfr_length d\<rparr>)" "length res = length exc"
      and o: "length out = 480" "list_all int16 out" "length buf = length (sLTP_Q15 st2)"
      "init_in buf lo (sLTP_buf_idx st2 + subfr_length d)" "lo \<le> sLTP_buf_idx st2 - core_lag d c k - 2" by blast
    note i = inv_voiced [OF t(2) rd True _ o, of _ "silk_RSHIFT (Gains_Q16 c ! k) 6", unfolded exc(2) [symmetric]]
    show ?thesis
      by (rule exI [of _ res], rule exI, intro conjI)
        (simp only: t(3) True if_True r(1), (simp add: r(2) f(3) del: drop_append; fail)+, use i in \<open>simp del: drop_append\<close>)
  next
    case False
    note i = inv_unvoiced [OF t(2) False, of _ "silk_RSHIFT (Gains_Q16 c ! k) 6", unfolded exc(2) [symmetric]]
    show ?thesis
      by (rule exI [of _ exc], rule exI [of _ st2], intro conjI)
        (simp only: t(3) False if_False, (simp add: f(3) del: drop_append; fail)+, use i in \<open>simp del: drop_append\<close>)
  qed
  then obtain res st3 where r: "(if ty = TYPE_VOICED then core_residual k A inv_gain adj exc st2 else Some (exc, st2)) = Some (res, st3)"
    "length res = length exc" and post: "\<And>lpc. length lpc = length exc \<Longrightarrow>
          core_inv d c (Suc k) (st3\<lparr>sLPC_Q14 := drop (length lpc) (sLPC_Q14 st3 @ lpc), core_xq := core_xq st3 @ map (scale_sample (silk_RSHIFT (Gains_Q16 c ! k) 6)) lpc\<rparr>)"
    by blast
  show ?thesis
    unfolding core_subframe_def p g(1) bind.bind_lunit Let_def g1(1) t(1) prod.case f exc(1) A_def [symmetric] r(1)
    using post [of "LPC_synthesis A (nat (LPC_order (core_dec st3))) (rev (sLPC_Q14 st3)) res"] r(2) by (simp add: LPC_synthesis_length)
qed

lemma subframes_total:
  "core_inv d c k st \<Longrightarrow> core_ready d c \<Longrightarrow> k + n \<le> nat (dec_nb_subfr d) \<Longrightarrow>
     \<exists>st'. core_subframes [k..<k + n] st = Some st' \<and> core_inv d c (k + n) st'"
proof (induction n arbitrary: k st)
  case (Suc n)
  have "k < nat (dec_nb_subfr d)" using Suc.prems(3) by simp
  from subframe_total [OF Suc.prems(1,2) this] obtain st1 where s: "core_subframe k st = Some st1" "core_inv d c (Suc k) st1" by blast
  have "[k..<k + Suc n] = k # [Suc k..<Suc k + n]" by (simp add: upt_conv_Cons)
  with Suc.IH [OF s(2) Suc.prems(2)] Suc.prems(3) s(1) show ?case by simp
qed simp

lemma excitation_length: "length (decode_excitation seed off ps) = length ps"
  by (induction seed off ps rule: decode_excitation.induct) (simp_all add: Let_def)

lemma offsets_total:
  "t \<in> {0, 1, 2} \<Longrightarrow> q \<in> {0, 1} \<Longrightarrow> \<exists>row off. elem silk_Quantization_Offsets_Q10 (silk_RSHIFT t 1) = Some row \<and> elem row q = Some off"
  by (auto simp: silk_Quantization_Offsets_Q10_def silk_RSHIFT_def)

text \<open>
  Nothing uninitialized is read and no index is out of range, and the frame has its length,
  with samples of 16 bits. The state keeps what the next frame relies on.
\<close>

lemma decode_core_total:
  assumes rd: "core_ready d c" and ps: "nat (frame_length d) \<le> length pulses"
  shows "\<exists>d' c' xq. silk_decode_core d c pulses = Some (d', c', xq) \<and> length xq = nat (frame_length d) \<and> list_all int16 xq
     \<and> d' = d\<lparr>exc_Q14 := exc_Q14 d', sLPC_Q14_buf := sLPC_Q14_buf d', outBuf := outBuf d', prev_gain_Q16 := prev_gain_Q16 d'\<rparr>
     \<and> length (exc_Q14 d') = 320 \<and> length (sLPC_Q14_buf d') = 16 \<and> length (outBuf d') = 480 \<and> list_all int16 (outBuf d')
     \<and> c' = c\<lparr>LTPCoef_Q14 := LTPCoef_Q14 c', pitchL := pitchL c'\<rparr> \<and> length (pitchL c') = nat (dec_nb_subfr d)
     \<and> (signalType (dec_indices d) = 2 \<longrightarrow> pitchL c' = pitchL c)"
proof -
  note s = core_size [OF rd]
  have len: "length (exc_Q14 d) = 320" "length (sLPC_Q14_buf d) = 16" "length (outBuf d) = 480" "list_all int16 (outBuf d)"
    and ctl: "control_ok d c" and ty: "signalType (dec_indices d) \<in> {0, 1, 2}" "quantOffsetType (dec_indices d) \<in> {0, 1}"
    using rd by (simp_all add: core_ready_def)
  obtain row off where ro: "elem silk_Quantization_Offsets_Q10 (silk_RSHIFT (signalType (dec_indices d)) 1) = Some row"
    "elem row (quantOffsetType (dec_indices d)) = Some off" using offsets_total [OF ty] by blast
  have "0 + nat (frame_length d) \<le> length pulses" using ps by simp
  from elems_some [OF this] obtain p where p: "elems pulses 0 (nat (frame_length d)) = Some p" "length p = nat (frame_length d)" by blast
  have "length p \<le> 320" using p(2) s(6) by simp
  then obtain exc where exc: "put_at (exc_Q14 d) 0 (decode_excitation (Seed (dec_indices d)) off p) = Some exc" "length exc = 320"
    using len(1) by (simp add: put_at_def excitation_length)
  have lpc: "elems (sLPC_Q14_buf d) 0 16 = Some (sLPC_Q14_buf d)" using len(2) by (simp add: elems_def)
  define d0 where "d0 = d\<lparr>exc_Q14 := exc\<rparr>"
  define st where "st = \<lparr>core_dec = d0, core_ctrl = c, sLPC_Q14 = sLPC_Q14_buf d,
           sLTP_Q15 = replicate (nat (ltp_mem_length d + frame_length d)) None, sLTP_buf_idx = ltp_mem_length d, core_xq = []\<rparr>"
  have "control_ok d0 c = control_ok d c" by (simp add: control_ok_def d0_def)
  then have rd0: "core_ready d0 c" using rd exc(2) by (simp add: d0_def core_ready_def)
  have "core_inv d0 c 0 st" using len ctl by (simp add: core_inv_def st_def d0_def control_ok_def Let_def)
  from subframes_total [OF this rd0, of "nat (dec_nb_subfr d)"] obtain st' where
    st': "core_subframes [0..<nat (dec_nb_subfr d)] st = Some st'" "core_inv d0 c (nat (dec_nb_subfr d)) st'" by (auto simp: d0_def)
  have l16: "length (sLPC_Q14 st') = 16" using st'(2) by (simp add: core_inv_def)
  have pl: "put_at (sLPC_Q14_buf d) 0 (sLPC_Q14 st') = Some (sLPC_Q14 st')" for buf using l16 len(2) by (simp add: put_at_def)
  obtain pg ob where dd: "core_dec st' = d0\<lparr>prev_gain_Q16 := pg, outBuf := ob\<rparr>" using st'(2) unfolding core_inv_def by blast
  obtain q lags where cc: "core_ctrl st' = c\<lparr>LTPCoef_Q14 := q, pitchL := lags\<rparr>" using st'(2) unfolding core_inv_def by blast
  have "nat (dec_nb_subfr d) * nat (subfr_length d) = nat (frame_length d)" using s(1,2,4) by (simp add: nat_mult_distrib)
  then have res: "length (core_xq st') = nat (frame_length d)" "list_all int16 (core_xq st')" "length ob = 480" "list_all int16 ob"
    "length lags = nat (dec_nb_subfr d)" "signalType (dec_indices d) = 2 \<Longrightarrow> lags = pitchL c"
    using st'(2) by (simp_all add: core_inv_def dd cc d0_def)
  have "silk_decode_core d c pulses = Some ((core_dec st')\<lparr>sLPC_Q14_buf := sLPC_Q14 st'\<rparr>, core_ctrl st', core_xq st')"
    unfolding silk_decode_core_def Let_def ro bind.bind_lunit p(1) exc(1) lpc d0_def [symmetric] st_def [symmetric] st'(1) pl ..
  then show ?thesis using res l16 exc(2) by (simp add: dd cc d0_def)
qed

text \<open>
  C36. The synthesis of a frame from valid parameters, voiced or not and also right after lost
  frames, reads no element of its long term buffer that was not written before and indexes no
  array out of range; it fills the frame with samples of 16 bits and changes only the
  excitation, the filter memories and the last gain of the decoder.
\<close>

theorem decode_core_safe:
  assumes "core_ready d c" and "nat (frame_length d) \<le> length pulses"
  shows "\<exists>d' c' xq. silk_decode_core d c pulses = Some (d', c', xq) \<and> length xq = nat (frame_length d) \<and> list_all int16 xq
     \<and> d' = d\<lparr>exc_Q14 := exc_Q14 d', sLPC_Q14_buf := sLPC_Q14_buf d', outBuf := outBuf d', prev_gain_Q16 := prev_gain_Q16 d'\<rparr>
     \<and> length (exc_Q14 d') = 320 \<and> length (sLPC_Q14_buf d') = 16 \<and> length (outBuf d') = 480 \<and> list_all int16 (outBuf d')
     \<and> c' = c\<lparr>LTPCoef_Q14 := LTPCoef_Q14 c', pitchL := pitchL c'\<rparr> \<and> length (pitchL c') = nat (dec_nb_subfr d)
     \<and> (signalType (dec_indices d) = 2 \<longrightarrow> pitchL c' = pitchL c)"
  using assms by (rule decode_core_total)


text \<open>A decoder between two frames, and the parameters of the next one.\<close>

definition lag_ready :: "silk_decoder_state \<Rightarrow> bool" where
  "lag_ready d \<longleftrightarrow> (prevSignalType d = 2 \<longrightarrow> 2 * dec_fs_kHz d \<le> lagPrev d \<and> lagPrev d \<le> 18 * dec_fs_kHz d)"

definition speech_ready :: "silk_decoder_state \<Rightarrow> bool" where
  "speech_ready d \<longleftrightarrow> rate_set d (dec_fs_kHz d) (fs_API_hz d) \<and> dec_nb_subfr d \<in> {2, 4} \<and> lag_ready d"

lemma parameters_keep:
  assumes "silk_decode_parameters d cond = Some (d', c)"
  shows "\<exists>g n i p. d' = d\<lparr>LastGainIndex := g, prevNLSF_Q15 := n, dec_indices := (dec_indices d)\<lparr>NLSFInterpCoef_Q2 := i, PERIndex := p\<rparr>\<rparr>"
proof -
  define interp where "interp = (if first_frame_after_reset d = 1 then 4 else NLSFInterpCoef_Q2 (dec_indices d))"
  show ?thesis
  proof (cases "signalType (dec_indices d) = TYPE_VOICED")
    case True
    then obtain g n where "d' = d\<lparr>LastGainIndex := g, prevNLSF_Q15 := n, dec_indices := (dec_indices d)\<lparr>NLSFInterpCoef_Q2 := interp\<rparr>\<rparr>"
      using assms unfolding silk_decode_parameters_def Let_def interp_def [symmetric]
      by (clarsimp simp: bind_eq_Some_conv simp del: silk_decoder_state.update_convs)
    moreover have "(dec_indices d)\<lparr>NLSFInterpCoef_Q2 := interp\<rparr> = (dec_indices d)\<lparr>NLSFInterpCoef_Q2 := interp, PERIndex := PERIndex (dec_indices d)\<rparr>"
      by simp
    ultimately show ?thesis by metis
  next
    case False
    then obtain g n where "d' = d\<lparr>LastGainIndex := g, prevNLSF_Q15 := n, dec_indices := (dec_indices d)\<lparr>NLSFInterpCoef_Q2 := interp\<rparr>,
        dec_indices := (dec_indices d)\<lparr>NLSFInterpCoef_Q2 := interp, PERIndex := 0\<rparr>\<rparr>"
      using assms unfolding silk_decode_parameters_def Let_def interp_def [symmetric]
      by (clarsimp simp: bind_eq_Some_conv simp del: silk_decoder_state.update_convs)
    then show ?thesis by auto
  qed
qed

lemma parameters_core:
  assumes sp: "speech_ready d" and ix: "frame_indices_ok d active cond"
  shows "\<exists>d' c. silk_decode_parameters d cond = Some (d', c) \<and> core_ready d' c \<and> control_ok d c \<and> params_ready d'
    \<and> (\<exists>g n i p. d' = d\<lparr>LastGainIndex := g, prevNLSF_Q15 := n, dec_indices := (dec_indices d)\<lparr>NLSFInterpCoef_Q2 := i, PERIndex := p\<rparr>\<rparr>)"
proof -
  have pr: "params_ready d" and "rate_state d" and ar: "arrays_ok d" and len: "subfr_length d = 5 * dec_fs_kHz d"
    "frame_length d = dec_nb_subfr d * (5 * dec_fs_kHz d)" and nb: "dec_nb_subfr d \<in> {2, 4}" and lag: "lag_ready d"
    using sp by (simp_all add: speech_ready_def rate_set_def decoder_inv_def)
  then have fs: "dec_fs_kHz d \<in> {8, 12, 16}" "ltp_mem_length d = 20 * dec_fs_kHz d" by (simp_all add: rate_state_def Let_def)
  from parameters_total [OF ix pr] obtain d' c where p: "silk_decode_parameters d cond = Some (d', c)" "control_ok d c" "params_ready d'" by blast
  from parameters_keep [OF p(1)] obtain g n i q where
    d': "d' = d\<lparr>LastGainIndex := g, prevNLSF_Q15 := n, dec_indices := (dec_indices d)\<lparr>NLSFInterpCoef_Q2 := i, PERIndex := q\<rparr>\<rparr>" by blast
  have t: "signalType (dec_indices d) \<in> {0, 1, 2}" "quantOffsetType (dec_indices d) \<in> {0, 1}"
    using ix by (simp_all add: frame_indices_ok_def indices_ok_def)
  have "rate_ok (dec_fs_kHz d) (dec_nb_subfr d)" using fs(1) nb by (auto simp: rate_ok_def)
  moreover have "control_ok d' c" using p(2) by (simp add: control_ok_def d')
  moreover have "LPC_order d = int (order (NLSF_codebook (dec_fs_kHz d)))" using pr by (simp add: params_ready_def)
  moreover have "lossCnt d \<noteq> 0 \<and> prevSignalType d = 2 \<longrightarrow> 2 * dec_fs_kHz d \<le> lagPrev d \<and> lagPrev d \<le> 18 * dec_fs_kHz d"
    using lag by (simp add: lag_ready_def)
  ultimately have "core_ready d' c" using len fs(2) ar t unfolding core_ready_def by (simp add: d' arrays_ok_def)
  with p d' show ?thesis by blast
qed

lemma set_fs_speech:
  "rate_set d fs api \<Longrightarrow> dec_nb_subfr d \<in> {2, 4} \<Longrightarrow> prevSignalType d \<noteq> 2 \<Longrightarrow> speech_ready d"
  by (auto simp: speech_ready_def rate_set_def lag_ready_def)

lemma rate_set_indices:
  assumes "rate_set d fs api" and "length (GainsIndices ix) = 4" and "length (LTPIndex ix) = 4" and "length (NLSFIndices ix) = 17"
  shows "rate_set (d\<lparr>dec_indices := ix, prevSignalType := t\<rparr>) fs api"
proof -
  let ?d = "d\<lparr>dec_indices := ix, prevSignalType := t\<rparr>"
  have "rate_state ?d = rate_state d" "dec_config ?d = dec_config d" "params_ready ?d = params_ready d"
    by (simp_all add: rate_state_def dec_config_def params_ready_def)
  moreover have "arrays_ok ?d" using assms by (simp add: rate_set_def decoder_inv_def arrays_ok_def)
  ultimately show ?thesis using assms by (simp add: rate_set_def decoder_inv_def dec_ready_def)
qed

theorem decode_core_safe_witness:
  "\<exists>d c d' c' xq. dec_fs_kHz d = 16 \<and> signalType (dec_indices d) = 2 \<and> silk_decode_core d c (replicate 320 7) = Some (d', c', xq)
    \<and> length xq = 320 \<and> list_all int16 xq"
proof -
  have inv: "decoder_inv (silk_init_decoder\<lparr>dec_nb_subfr := 4\<rparr>)" using init_decoder_inv by (rule frame_count_inv)
  then obtain d0 where d0: "rate_set d0 16 48000" "dec_nb_subfr d0 = 4" using set_fs_inv [OF inv, of 16 48000] by auto
  let ?d = "d0\<lparr>dec_indices := voiced_indices, prevSignalType := 0\<rparr>"
  have c: "dec_config d0" "dec_fs_kHz d0 = 16" "params_ready d0" using d0(1) by (simp_all add: rate_set_def dec_ready_def)
  then have f: "frame_indices_ok ?d False 0"
    using d0(2) by (simp add: frame_indices_ok_def dec_ready_def dec_config_def indices_ok_def voiced_ok_def gains_ok_def NLSFs_ok_def
        all_below_def codebook_order contour_count_def voiced_indices_def)
  have "rate_set ?d 16 48000" using rate_set_indices [OF d0(1), of voiced_indices 0] by (simp add: voiced_indices_def)
  then have "speech_ready ?d" using d0(2) by (intro set_fs_speech) simp_all
  from parameters_core [OF this f] obtain d c where d: "core_ready d c" "dec_fs_kHz d = 16" "dec_nb_subfr d = 4" "signalType (dec_indices d) = 2"
    using c(2) d0(2) by (auto simp: voiced_indices_def)
  have "nat (frame_length d) = 320" using d(1-3) by (simp add: core_ready_def)
  with decode_core_safe [OF d(1), of "replicate 320 7"] d(2,4) show ?thesis by fastforce
qed

end
