(* ===== verification/Silk_Energy.thy ===== *)
theory Silk_Energy
  imports Silk_LPC
begin

text \<open>
  The energy of a signal with a common shift (sum_sqr_shift.c), and that it always fits: the
  result has two bits of headroom and is the sum of squares up to one unit per pair.
\<close>

section \<open>Energy (sum_sqr_shift.c)\<close>

text \<open>A pass over the samples, two at a time; the sum of two squares is an unsigned word.\<close>

fun energy_pass :: "nat \<Rightarrow> int list \<Rightarrow> int \<Rightarrow> int" where
  "energy_pass shft [] nrg = nrg"
| "energy_pass shft [a] nrg = s32 (nrg + drop_bit shft (silk_SMULBB a a mod 2 ^ 32))"
| "energy_pass shft (a # b # x) nrg =
    energy_pass shft x (s32 (nrg + drop_bit shft ((silk_SMULBB a a + silk_SMULBB b b) mod 2 ^ 32)))"

definition silk_sum_sqr_shift :: "int list \<Rightarrow> int \<times> int" where
  "silk_sum_sqr_shift x =
    (let len = int (length x);
         shft = 31 - silk_CLZ32 len;
         nrg = energy_pass (nat shft) x len;
         shft = max 0 (shft + 3 - silk_CLZ32 nrg)
     in (energy_pass (nat shft) x 0, shft))"

section \<open>The result has headroom\<close>

definition energy :: "int list \<Rightarrow> int" where
  "energy x = sum_list (map (\<lambda>a. a * a) x)"

fun floor_energy :: "nat \<Rightarrow> int list \<Rightarrow> int" where
  "floor_energy s [] = 0"
| "floor_energy s [a] = a * a div 2 ^ s"
| "floor_energy s (a # b # x) = (a * a + b * b) div 2 ^ s + floor_energy s x"

lemma square16:
  assumes "int16 a"
  shows "silk_SMULBB a a = a * a" and "0 \<le> a * a" and "a * a \<le> 2 ^ 30"
proof -
  have a: "- 32768 \<le> a" "a \<le> 32767" using assms by (simp_all add: int16_def)
  then show "silk_SMULBB a a = a * a" by (simp add: silk_SMULBB_def s16_id)
  show "0 \<le> a * a" by simp
  have "\<bar>a\<bar> * \<bar>a\<bar> \<le> 32768 * 32768" using a by (intro mult_mono) auto
  then show "a * a \<le> 2 ^ 30" by simp
qed

lemma floor_energy_nonneg: "0 \<le> floor_energy s x"
  by (induction s x rule: floor_energy.induct) (auto intro!: add_nonneg_nonneg simp: pos_imp_zdiv_nonneg_iff)

lemma div_between:
  assumes "0 < m"
  shows "y div m * m \<le> y \<and> y \<le> (y div m + 1) * (m :: int)"
  using div_mult_mod_eq [of y m] pos_mod_bound [OF assms, of y] pos_mod_sign [OF assms, of y] unfolding distrib_right by linarith

lemma floor_energy_low: "floor_energy s x * 2 ^ s \<le> energy x"
proof (induction s x rule: floor_energy.induct)
  case (3 s a b x)
  with div_between [of "2 ^ s" "a * a + b * b"] show ?case by (simp add: energy_def distrib_right)
next
  case (2 s a)
  show ?case using div_between [of "2 ^ s" "a * a"] by (simp add: energy_def)
qed (simp add: energy_def)

lemma floor_energy_high: "energy x \<le> (floor_energy s x + int (length x)) * 2 ^ s"
proof (induction s x rule: floor_energy.induct)
  case (3 s a b x)
  moreover have "(1 :: int) \<le> 2 ^ s" by simp
  ultimately show ?case using div_between [of "2 ^ s" "a * a + b * b"] by (simp add: energy_def distrib_right)
next
  case (2 s a)
  show ?case using div_between [of "2 ^ s" "a * a"] by (simp add: energy_def)
qed (simp add: energy_def)

lemma energy_bounds: "list_all int16 x \<Longrightarrow> 0 \<le> energy x \<and> energy x \<le> int (length x) * 2 ^ 30"
proof (induction x)
  case (Cons a x)
  then show ?case using square16(2,3) [of a] by (simp add: energy_def algebra_simps)
qed (simp add: energy_def)

text \<open>Nothing wraps while the total fits.\<close>

lemma pass_exact:
  "list_all int16 x \<Longrightarrow> 0 \<le> nrg \<Longrightarrow> nrg + floor_energy s x < 2 ^ 31 \<Longrightarrow> energy_pass s x nrg = nrg + floor_energy s x"
proof (induction s x nrg rule: energy_pass.induct)
  case (2 s a nrg)
  then have a: "silk_SMULBB a a = a * a" "0 \<le> a * a" "a * a \<le> 2 ^ 30" using square16 [of a] by simp_all
  then have "silk_SMULBB a a mod 2 ^ 32 = a * a" by simp
  moreover have "0 \<le> a * a div 2 ^ s" using a(2) by (simp add: pos_imp_zdiv_nonneg_iff)
  ultimately show ?case using 2 by (simp add: drop_bit_eq_div s32_id)
next
  case (3 s a b x nrg)
  then have ab: "silk_SMULBB a a = a * a" "0 \<le> a * a" "a * a \<le> 2 ^ 30" "silk_SMULBB b b = b * b" "0 \<le> b * b" "b * b \<le> 2 ^ 30"
    using square16 [of a] square16 [of b] by simp_all
  then have m: "(silk_SMULBB a a + silk_SMULBB b b) mod 2 ^ 32 = a * a + b * b" by simp
  define q where "q = (a * a + b * b) div 2 ^ s"
  have q: "0 \<le> q" using ab(2,5) by (simp add: q_def pos_imp_zdiv_nonneg_iff)
  have tot: "nrg + q + floor_energy s x < 2 ^ 31" using 3(4) by (simp add: q_def)
  then have s: "s32 (nrg + drop_bit s ((silk_SMULBB a a + silk_SMULBB b b) mod 2 ^ 32)) = nrg + q"
    using floor_energy_nonneg [of s x] 3(3) q unfolding m by (simp add: drop_bit_eq_div s32_id flip: q_def)
  show ?case using 3(1) 3(2,3) q tot unfolding energy_pass.simps s by (simp flip: q_def)
qed simp

lemma energy_shift:
  assumes "list_all int16 x" and "0 < length x" and "length x < 2 ^ 14"
  shows "\<exists>s. silk_sum_sqr_shift x = (floor_energy s x, int s) \<and> s \<le> 16 \<and> floor_energy s x < 2 ^ 29"
proof -
  define len where "len = int (length x)"
  have len: "0 < len" "len < 2 ^ 14" using assms(2,3) by (simp_all add: len_def)
  define s where "s = nat (31 - silk_CLZ32 len)"
  have "len < 2 ^ 31" using len(2) by simp
  note c = clz_bounds [OF len(1) this]
  have si: "31 - silk_CLZ32 len = int s" using c(2) by (simp add: s_def)
  have s1: "2 ^ s \<le> len" "len < 2 ^ Suc s" using c by (simp_all add: s_def Suc_nat_eq_nat_zadd1 algebra_simps)
  have "s < 14"
  proof (rule ccontr)
    assume "\<not> s < 14"
    then have "(2 :: int) ^ 14 \<le> 2 ^ s" by (intro power_increasing) simp_all
    then show False using s1(1) len(2) by linarith
  qed
  have pow: "(2 :: int) ^ s * 2 ^ (30 - s) = 2 ^ 30" using \<open>s < 14\<close> by (simp flip: power_add)
  have big: "(2 :: int) ^ 16 \<le> 2 ^ (30 - s)" using \<open>s < 14\<close> by (intro power_increasing) simp_all
  have e: "0 \<le> energy x" "energy x \<le> len * 2 ^ 30" using energy_bounds [OF assms(1)] by (simp_all add: len_def)
  have "len * 2 ^ 30 \<le> (2 ^ Suc s - 1) * 2 ^ 30" using s1(2) by (intro mult_right_mono) simp_all
  then have "floor_energy s x * 2 ^ s \<le> (2 ^ Suc s - 1) * 2 ^ 30" using floor_energy_low [of s x] e(2) by linarith
  also have "\<dots> = (2 ^ 31 - 2 ^ (30 - s)) * 2 ^ s" using pow by (simp add: algebra_simps)
  finally have "floor_energy s x \<le> 2 ^ 31 - 2 ^ (30 - s)" by simp
  then have fit: "len + floor_energy s x < 2 ^ 31" using len(2) big by simp
  define nrg where "nrg = len + floor_energy s x"
  have pass1: "energy_pass s x len = nrg" using pass_exact [OF assms(1) _ fit] len(1) by (simp add: nrg_def)
  have nrg: "0 < nrg" "nrg < 2 ^ 31" using len(1) floor_energy_nonneg [of s x] fit by (simp_all add: nrg_def)
  note c2 = clz_bounds [OF this]
  define t where "t = nat (max 0 (int s + 3 - silk_CLZ32 nrg))"
  have t: "int t = max 0 (int s + 3 - silk_CLZ32 nrg)" by (simp add: t_def)
  have "t \<le> 16" using c2(1) \<open>s < 14\<close> by (simp add: t_def)
  have "int (nat (32 - silk_CLZ32 nrg) + s) \<le> int (29 + t)" using c2(2) t by simp
  then have ex: "nat (32 - silk_CLZ32 nrg) + s \<le> 29 + t" by linarith
  have "energy x \<le> nrg * 2 ^ s" using floor_energy_high [of x s] by (simp add: nrg_def len_def add.commute)
  also have "\<dots> < 2 ^ nat (32 - silk_CLZ32 nrg) * 2 ^ s" using c2(4) by simp
  also have "\<dots> = 2 ^ (nat (32 - silk_CLZ32 nrg) + s)" by (simp add: power_add)
  also have "\<dots> \<le> 2 ^ (29 + t)" using c2(2) by (intro power_increasing [OF ex]) simp
  finally have "energy x < 2 ^ 29 * 2 ^ t" by (simp add: power_add)
  then have "floor_energy t x * 2 ^ t < 2 ^ 29 * 2 ^ t" using floor_energy_low [of t x] by linarith
  then have small: "floor_energy t x < 2 ^ 29" by simp
  have "energy_pass t x 0 = floor_energy t x" using pass_exact [OF assms(1), of 0 t] small by simp
  then have "silk_sum_sqr_shift x = (floor_energy t x, int t)"
    unfolding silk_sum_sqr_shift_def Let_def len_def [symmetric] si nat_int pass1 t [symmetric] by simp
  with \<open>t \<le> 16\<close> small show ?thesis by blast
qed

text \<open>
  C37. The energy of up to 16383 samples of 16 bits is computed without a sum that wraps: the
  result has the promised two bits of headroom in a signed word, and shifted back it is the
  sum of the squares up to less than one unit of the shifted scale per sample.
\<close>

theorem sum_sqr_headroom:
  assumes "list_all int16 x" and "0 < length x" and "length x < 2 ^ 14" and "silk_sum_sqr_shift x = (nrg, shft)"
  shows "0 \<le> nrg \<and> nrg < 2 ^ 29 \<and> 0 \<le> shft \<and> shft \<le> 16 \<and> nrg * 2 ^ nat shft \<le> sum_list (map (\<lambda>a. a * a) x)
    \<and> sum_list (map (\<lambda>a. a * a) x) \<le> (nrg + int (length x)) * 2 ^ nat shft"
proof -
  from energy_shift [OF assms(1-3)] obtain s where s: "silk_sum_sqr_shift x = (floor_energy s x, int s)" "s \<le> 16" "floor_energy s x < 2 ^ 29" by blast
  then have "nrg = floor_energy s x" "shft = int s" using assms(4) by simp_all
  then show ?thesis using s(2,3) floor_energy_nonneg [of s x] floor_energy_low [of s x] floor_energy_high [of x s]
    by (simp add: energy_def)
qed

theorem sum_sqr_headroom_witness:
  "case silk_sum_sqr_shift (replicate 320 (- 32768)) of (nrg, shft) \<Rightarrow> nrg < 2 ^ 29 \<and> 320 * 2 ^ 30 \<le> (nrg + 320) * 2 ^ nat shft"
proof -
  obtain nrg shft where s: "silk_sum_sqr_shift (replicate 320 (- 32768)) = (nrg, shft)" by fastforce
  have "list_all int16 (replicate 320 (- 32768))" by (simp add: list_all_iff int16_def)
  from sum_sqr_headroom [OF this _ _ s] show ?thesis unfolding s by (simp add: sum_list_replicate)
qed

text \<open>What the clients of the energy rely on.\<close>

lemma sum_sqr_range:
  assumes "list_all int16 x" and "0 < length x" and "length x < 2 ^ 14"
  shows "\<exists>nrg shft. silk_sum_sqr_shift x = (nrg, shft) \<and> 0 \<le> nrg \<and> nrg < 2 ^ 29 \<and> 0 \<le> shft \<and> shft \<le> 16"
  using energy_shift [OF assms] floor_energy_nonneg by fastforce

end
