(* ===== verification/Spec2Isabelle.thy ===== *)
theory Spec2Isabelle
  imports Range_Coder_Properties Packet_Properties Repacketizer_Properties Silk_Properties Silk_Frame_Properties Silk_Resampler_Correct Silk_Parameters Silk_Stereo Silk_Core Silk_Energy
begin

text \<open>
  A model of the integer core of libopus 1.5.2, the C library that src/internal/audio/opus
  vendors for the voice client, and its correctness: what the bits of a packet mean, that
  encoder and decoder agree on it, and that decoding arbitrary bytes from the network is
  safe. File names below are those of src/internal/audio/opus.

  Conventions. A C struct is a record with the fields of the struct, an array a list, an int
  an integer whose conversions to 8, 16 and 32 bits are written out (\<open>s8\<close>, \<open>s16\<close>, \<open>s32\<close> of
  Prelude), a 32 bit unsigned word of the coder a \<open>32 word\<close>. A read outside an array, a
  division by zero and a loop that does not end are \<open>None\<close>: a theorem that a function
  returns \<open>Some\<close> says that none of these happens. Error codes are the negative integers of
  the API. Long C functions are cut into one definition per section of the function.

  The entropy coder (entcode.c, entenc.c, entdec.c). Theory Range_Coder has the context
  \<open>ec_ctx\<close> and one definition per C function. Range_Coder_Correct, Range_Coder_Roundtrip and
  Range_Coder_Done read the encoder as an exact interval and prove that a decoder of a string
  in the interval stays in step (\<open>sync\<close>) and that \<open>ec_enc_done\<close> leaves such a string;
  Range_Coder_Budget shows that no writer fails while the bits used fit; Codec states the
  contract \<open>codes\<close> of a coding step and the locale \<open>codec\<close>; Range_Coder_Ops and
  Range_Coder_Streams interpret it on every routine; Range_Decoder_Safe has the contract
  \<open>reads\<close> and the locale \<open>total_decoder\<close> for arbitrary input; Range_Coder_Tell has the bit
  counters and \<open>ec_enc_shrink\<close>; Range_Coder_Properties states the properties.

  Packets (opus.c, opus_decoder.c, extensions.c). Opus_Packet has the table of contents byte,
  the parser \<open>opus_packet_parse_impl\<close> with its four framings and the counting functions;
  Packet_Build a generator of packets and Packet_Prefix, Packet_Counts the lemmas on lengths
  and counts; Extensions and Extensions_Roundtrip the extensions in the padding;
  Packet_Properties the properties. The repacketizer (repacketizer.c): Repacketizer has its
  state and every operation, Repacketizer_Correct what the output parses to,
  Repacketizer_Inplace that the copy inside one buffer is safe, Repacketizer_Use the
  functions that pad and unpad a packet, Repacketizer_Properties the properties.

  SILK. Silk_Tables holds the constant tables (tables_other.c, tables_gain.c, tables_LTP.c,
  tables_NLSF_CB_NB_MB.c, tables_NLSF_CB_WB.c, tables_pitch_lag.c,
  tables_pulses_per_block.c, pitch_est_tables.c, resampler_rom.c, table_LSF_cos.c); Silk_Icdf
  the coding of a symbol with a table at an offset. Silk_Shell and Silk_Pulses model
  shell_coder.c, code_signs.c, encode_pulses.c and decode_pulses.c; Silk_Pulses_Correct,
  Silk_Pulses_Codec, Silk_Excitation and Silk_Properties prove that the pulses survive and
  that any bytes decode to pulses in range. Silk_Indices models encode_indices.c,
  decode_indices.c and NLSF_unpack.c over the encoder and decoder states;
  Silk_Indices_Correct has the ranges that the format allows, Silk_Indices_Codec that the
  decoder reads what was written, Silk_Indices_Safe that it reads something valid from any
  bytes. Silk_Frames puts side information and pulses together to frames and the frames of a
  packet; Silk_Frame_Properties states what follows.

  Parameters of a SILK frame. Silk_Math has the approximations of logarithm, exponential,
  square root and division in integers (lin2log.c, log2lin.c, silk/Inlines.h); Silk_Gains the
  gain quantizer (gain_quant.c), with the proof that the decoder follows the encoder;
  Silk_NLSF the line spectral frequencies (sort.c, NLSF_stabilize.c, NLSF_decode.c), with the
  proof that every decoded vector keeps the minimum distances; Silk_LPC the conversion to a
  prediction filter (NLSF2A.c, LPC_fit.c, bwexpander.c, bwexpander_32.c,
  LPC_inv_pred_gain.c), with the proof that the filter always passes the stability test.
  Silk_Parameters composes them to decode_parameters.c, with decode_pitch.c, and models the
  change of the sampling rate (decoder_set_fs.c) with the invariant of the decoder state,
  from the cleared state of init_decoder.c on. Silk_Stereo has the predictors of the side
  channel (stereo_quant_pred.c, stereo_encode_pred.c, stereo_decode_pred.c). Silk_Core is the
  synthesis of a frame from its parameters and pulses (decode_core.c, LPC_analysis_filter.c):
  the buffer of the long term predictor holds options, so that a read of an element that was
  never written is \<open>None\<close>.

  The resampler (resampler.c and the files of its four methods). Silk_Resampler has the state
  and the filters; Silk_Resampler_Correct proves which pairs of rates are accepted and that a
  block of input fills the output exactly, without a read or write outside the buffers.

  Bounds. The normalization loops of the coder are partial functions and are proved to end.
  The loops with a fixed number of rounds in the code (20 rounds of the stabilizer, 10 of LPC_fit.c, 16 of NLSF2A.c) are
  recursion over that number. Every other loop is structural or has a measure. Buffers are
  limited where the code limits them: 1275 bytes of a frame, 48 frames of a packet, and the
  budget of bits that the encoder is given.

  Not modelled. The CELT layer, the analysis of the SILK encoder, the classifier and RNNoise
  compute on IEEE floats. Packet loss concealment, comfort noise and
  the drivers around the two layers work on the signal and keep no part of the format. The
  client in Go and its user interface are not in the language of this development. The
  manifest lists each part with its reason.
\<close>


end
